(* ===== verification/Prelude.thy ===== *)
theory Prelude imports Main "HOL-Library.Word" "HOL-Library.Char_ord" "HOL-Library.List_Lexorder"
begin

text \<open>
  Types, automation and generic lemmas shared by every component of the development:
  bytes, Go errors as values, the result type of a fallible operation, and the lemma
  collections the component theories add to.

  A Go function that returns \<open>(T, error)\<close> is modelled by a function into
  \<open>err + T\<close>: \<open>Inl e\<close> is the error return, \<open>Inr x\<close> the successful one.
\<close>

unbundle bit_operations_syntax

subsection \<open>Lemma collections\<close>

named_theorems go_string \<open>facts on Go's strings, strconv and encoding/hex functions\<close>
named_theorems go_path \<open>facts on cleaned paths and their components\<close>
named_theorems fs_frame \<open>what a file-system operation leaves unchanged\<close>
named_theorems fs_lookup \<open>what a file-system operation leaves at a path\<close>
named_theorems codec \<open>encode/decode facts of the sealed shard format\<close>

subsection \<open>Bytes, errors and results\<close>

type_synonym byte = "8 word"

text \<open>
  The errors the modelled packages return. \<open>OsErr\<close> carries the error class of a failed
  system call; the package-level sentinels (\<open>ErrIntegrity\<close>, \<open>ErrSkip\<close>, ...)
  are constructors of their own, since callers branch on them with \<open>errors.Is\<close>; every
  \<open>errors.New\<close> or \<open>fmt.Errorf\<close> whose text only reaches a log is \<open>ErrText\<close>.
\<close>

datatype os_err = ENOENT | ENOTDIR | EISDIR | ENOTEMPTY | EINVAL | EIO

datatype err =
    OsErr os_err
  | ErrEOF
  | ErrUnexpectedEOF
  | ErrIntegrity
  | ErrTooLarge
  | ErrSkip
  | ErrUnsupported
  | ErrPayloadMismatch
  | ErrQueueClosed
  | ErrBucketExists
  | ErrBucketNotFound
  | ErrUploadNotFound
  | ErrAuthMissing
  | ErrAuthInvalid
  | ErrRequestExpired
  | ErrCtx
  | ErrText string

type_synonym 'a result = "err + 'a"

fun is_ok :: "'a result \<Rightarrow> bool" where
  "is_ok (Inl _) = False"
| "is_ok (Inr _) = True"

lemma is_ok_iff: "is_ok r \<longleftrightarrow> (\<exists>x. r = Inr x)"
  by (cases r) auto

lemma not_is_ok_iff: "\<not> is_ok r \<longleftrightarrow> (\<exists>e. r = Inl e)"
  by (cases r) auto

subsection \<open>Sequencing of fallible computations\<close>

definition res_bind :: "'a result \<Rightarrow> ('a \<Rightarrow> 'b result) \<Rightarrow> 'b result" where
  "res_bind m f = (case m of Inl e \<Rightarrow> Inl e | Inr x \<Rightarrow> f x)"

lemma res_bind_simps [simp]:
  "res_bind (Inl e) f = Inl e"
  "res_bind (Inr x) f = f x"
  by (simp_all add: res_bind_def)

lemma res_bind_Inr_iff:
  "res_bind m f = Inr y \<longleftrightarrow> (\<exists>x. m = Inr x \<and> f x = Inr y)"
  by (cases m) auto

lemma res_bind_Inl_iff:
  "res_bind m f = Inl e \<longleftrightarrow> m = Inl e \<or> (\<exists>x. m = Inr x \<and> f x = Inl e)"
  by (cases m) auto

subsection \<open>Lists\<close>

lemma take_drop_split: "length xs = n \<Longrightarrow> take n (xs @ ys) = xs \<and> drop n (xs @ ys) = ys"
  by simp

lemma list_update_split:
  "i < length xs \<Longrightarrow> xs[i := b] = take i xs @ b # drop (Suc i) xs"
  by (simp add: upd_conv_take_nth_drop)

lemma foldl_inj:
  assumes inj: "\<And>x. inj (\<lambda>s. f s x)"
  shows "foldl f a xs = foldl f b xs \<longleftrightarrow> a = b"
proof (induction xs arbitrary: a b)
  case Nil
  then show ?case by simp
next
  case (Cons x xs)
  have "f a x = f b x \<longleftrightarrow> a = b"
    using inj [of x] by (auto dest: injD)
  with Cons.IH show ?case by simp
qed

text \<open>
  Two inputs that differ in one position only drive a left fold with injective steps to
  different results: the engine of the checksum theorems.
\<close>

lemma foldl_update_neq:
  assumes inj: "\<And>x. inj (\<lambda>s. f s x)"
    and sep: "\<And>s x y. f s x = f s y \<Longrightarrow> x = y"
    and i: "i < length xs" and b: "b \<noteq> xs ! i"
  shows "foldl f a (xs[i := b]) \<noteq> foldl f a xs"
proof
  assume eq: "foldl f a (xs[i := b]) = foldl f a xs"
  let ?s = "foldl f a (take i xs)"
  have upd: "xs[i := b] = take i xs @ b # drop (Suc i) xs"
    using i by (rule list_update_split)
  have orig: "xs = take i xs @ xs ! i # drop (Suc i) xs"
    using i by (rule id_take_nth_drop)
  have "foldl f (f ?s b) (drop (Suc i) xs) = foldl f (f ?s (xs ! i)) (drop (Suc i) xs)"
    using eq by (subst (asm) upd, subst (asm) (3) orig) simp
  then have "f ?s b = f ?s (xs ! i)"
    using foldl_inj [of f, OF inj] by blast
  then show False
    using sep b by blast
qed

lemma funpow_inj: "inj (f :: 'a \<Rightarrow> 'a) \<Longrightarrow> inj (f ^^ n)"
proof (induction n)
  case 0
  then show ?case by simp
next
  case (Suc n)
  then have "inj (f \<circ> f ^^ n)" by (intro inj_compose) auto
  then show ?case by (simp add: comp_def)
qed

subsection \<open>Little-endian integers\<close>

text \<open>\<open>binary.Write\<close> and \<open>binary.Read\<close> with \<open>binary.LittleEndian\<close> on fixed-width unsigned integers.\<close>

definition le_bytes :: "nat \<Rightarrow> 'a::len word \<Rightarrow> byte list" where
  "le_bytes n w = map (\<lambda>i. ucast (drop_bit (8 * i) w)) [0..<n]"

definition le_word :: "byte list \<Rightarrow> 'a::len word" where
  "le_word bs = foldr (\<lambda>b a. push_bit 8 a OR ucast b) bs 0"

lemma length_le_bytes [simp]: "length (le_bytes n w) = n"
  by (simp add: le_bytes_def)

lemma bit_le_word:
  "bit (le_word bs :: 'a::len word) i \<longleftrightarrow>
     i < LENGTH('a) \<and> i div 8 < length bs \<and> bit (bs ! (i div 8)) (i mod 8)"
proof (induction bs arbitrary: i)
  case Nil
  then show ?case by (simp add: le_word_def)
next
  case (Cons b bs)
  have step: "le_word (b # bs) = push_bit 8 (le_word bs :: 'a word) OR ucast b"
    by (simp add: le_word_def)
  show ?case
  proof (cases "i < 8")
    case True
    then show ?thesis
      by (auto simp: step bit_or_iff bit_push_bit_iff bit_ucast_iff)
  next
    case False
    then obtain j where j: "i = j + 8" by (metis add.commute le_Suc_ex not_less)
    have "\<not> bit b i" using False bit_imp_le_length [of b i] by auto
    moreover have "(j + 8) div 8 = Suc (j div 8)" by simp
    ultimately show ?thesis
      using Cons.IH [of j] j
      by (auto simp: step bit_or_iff bit_push_bit_iff bit_ucast_iff)
  qed
qed

lemma le_word_bytes: "8 * n = LENGTH('a) \<Longrightarrow> le_word (le_bytes n w) = (w :: 'a::len word)"
proof (rule bit_word_eqI)
  fix i
  assume len: "8 * n = LENGTH('a)" and i: "i < LENGTH('a)"
  then have "i div 8 < n" by linarith
  then show "bit (le_word (le_bytes n w) :: 'a word) i = bit w i"
    using i by (simp add: bit_le_word le_bytes_def bit_ucast_iff bit_drop_bit_eq)
qed

lemma le_bytes_word:
  "length bs = n \<Longrightarrow> 8 * n = LENGTH('a) \<Longrightarrow> le_bytes n (le_word bs :: 'a::len word) = bs"
proof (rule nth_equalityI)
  assume "length bs = n" and "8 * n = LENGTH('a)"
  then show "length (le_bytes n (le_word bs :: 'a word)) = length bs" by simp
next
  fix i
  assume n: "length bs = n" and len: "8 * n = LENGTH('a)"
    and i: "i < length (le_bytes n (le_word bs :: 'a word))"
  show "le_bytes n (le_word bs :: 'a word) ! i = bs ! i"
  proof (rule bit_word_eqI)
    fix j
    assume "j < LENGTH(8)"
    then show "bit (le_bytes n (le_word bs :: 'a word) ! i) j = bit (bs ! i) j"
      using i n len by (auto simp: le_bytes_def bit_ucast_iff bit_drop_bit_eq bit_le_word)
  qed
qed

lemma le_bytes_inj: "8 * n = LENGTH('a) \<Longrightarrow> le_bytes n x = le_bytes n (y :: 'a::len word) \<Longrightarrow> x = y"
  by (metis le_word_bytes)

subsection \<open>Readers\<close>

text \<open>
  What \<open>io.Copy\<close> sees of an \<open>io.Reader\<close>: the bytes it delivers, then end of file
  (\<open>None\<close>) or the error it fails with.
\<close>

record reader =
  rd_data :: "byte list"
  rd_err :: "err option"

definition bytes_reader :: "byte list \<Rightarrow> reader" where
  "bytes_reader bs = \<lparr>rd_data = bs, rd_err = None\<rparr>"

text \<open>\<open>io.ReadFull\<close> on a byte stream: the \<open>n > 0\<close> bytes and the stream after them.\<close>

definition read_full :: "nat \<Rightarrow> byte list \<Rightarrow> (byte list \<times> byte list) result" where
  "read_full n bs =
     (if n \<le> length bs then Inr (take n bs, drop n bs)
      else if bs = [] then Inl ErrEOF else Inl ErrUnexpectedEOF)"

lemma read_full_Inr: "read_full n bs = Inr (x, rest) \<longleftrightarrow> length x = n \<and> bs = x @ rest"
  by (auto simp: read_full_def)

lemma read_full_append [simp]: "length x = n \<Longrightarrow> read_full n (x @ rest) = Inr (x, rest)"
  by (simp add: read_full_Inr)

end
