(* ===== verification/GoStrings.thy ===== *)
theory GoStrings imports Prelude
begin

text \<open>
  The functions of Go's standard library packages strings, strconv and encoding/hex that
  the program calls, on byte strings (\<open>string\<close>, a list of \<open>char\<close>, each one byte).
  Character classes (space, letter case) are ASCII: the program applies these functions to
  header values, configuration values and keys whose interesting characters are ASCII.
\<close>

subsection \<open>Package strings\<close>

fun has_prefix :: "string \<Rightarrow> string \<Rightarrow> bool" where
  "has_prefix s [] = True"
| "has_prefix [] (c # p) = False"
| "has_prefix (x # s) (c # p) = (x = c \<and> has_prefix s p)"

definition trim_prefix :: "string \<Rightarrow> string \<Rightarrow> string" where
  "trim_prefix s p = (if has_prefix s p then drop (length p) s else s)"

lemma has_prefix_iff: "has_prefix s p \<longleftrightarrow> (\<exists>t. s = p @ t)"
  by (induction s p rule: has_prefix.induct) auto

lemma has_prefix_append [simp, go_string]: "has_prefix (p @ t) p"
  by (auto simp: has_prefix_iff)

lemma trim_prefix_append [simp, go_string]: "trim_prefix (p @ t) p = t"
  by (simp add: trim_prefix_def)

lemma trim_prefix_Cons [simp, go_string]: "trim_prefix (c # t) [c] = t"
  by (simp add: trim_prefix_def)

text \<open>\<open>strings.Index\<close>: the position of the first occurrence, \<open>None\<close> for -1.\<close>

fun index_of :: "string \<Rightarrow> string \<Rightarrow> nat option" where
  "index_of [] p = (if p = [] then Some 0 else None)"
| "index_of (c # s) p =
     (if has_prefix (c # s) p then Some 0 else map_option Suc (index_of s p))"

lemma index_of_Some:
  "index_of s p = Some i \<Longrightarrow> i + length p \<le> length s \<and> take (length p) (drop i s) = p"
proof (induction s p arbitrary: i rule: index_of.induct)
  case (1 p)
  then show ?case by (simp split: if_splits)
next
  case (2 c s p)
  show ?case
  proof (cases "has_prefix (c # s) p")
    case True
    with 2 have "i = 0" by simp
    moreover from True obtain t where "c # s = p @ t" by (auto simp: has_prefix_iff)
    moreover then have "length p \<le> length (c # s)" by simp
    ultimately show ?thesis by (simp add: \<open>c # s = p @ t\<close>)
  next
    case False
    with 2 show ?thesis by auto
  qed
qed

text \<open>\<open>strings.Split\<close> with a one-byte separator: always at least one piece.\<close>

fun split_on :: "char \<Rightarrow> string \<Rightarrow> string list" where
  "split_on d [] = [[]]"
| "split_on d (c # s) =
     (if c = d then [] # split_on d s
      else (case split_on d s of [] \<Rightarrow> [[c]] | p # ps \<Rightarrow> (c # p) # ps))"

text \<open>\<open>strings.SplitN(s, d, 2)\<close>: cut at the first separator, if there is one.\<close>

fun split2 :: "char \<Rightarrow> string \<Rightarrow> string list" where
  "split2 d s =
     (let p = takeWhile (\<lambda>c. c \<noteq> d) s in
      if length p = length s then [s] else [p, drop (Suc (length p)) s])"

declare split2.simps [simp del]

text \<open>\<open>strings.Join\<close> with a one-byte separator.\<close>

fun join_with :: "char \<Rightarrow> string list \<Rightarrow> string" where
  "join_with d [] = []"
| "join_with d [p] = p"
| "join_with d (p # q # ps) = p @ d # join_with d (q # ps)"

lemma split_on_ne [simp]: "split_on d s \<noteq> []"
  by (induction s) (auto split: list.splits)

lemma split_on_no_sep: "d \<notin> set p \<Longrightarrow> split_on d p = [p]"
  by (induction p) auto

lemma split_on_append: "d \<notin> set p \<Longrightarrow> split_on d (p @ d # s) = p # split_on d s"
  by (induction p) auto

lemma split_on_join:
  "ps \<noteq> [] \<Longrightarrow> \<forall>p \<in> set ps. d \<notin> set p \<Longrightarrow> split_on d (join_with d ps) = ps"
proof (induction d ps rule: join_with.induct)
  case (1 d)
  then show ?case by simp
next
  case (2 d p)
  then show ?case by (simp add: split_on_no_sep)
next
  case (3 d p q ps)
  then show ?case by (simp add: split_on_append)
qed

lemma split_on_pieces: "p \<in> set (split_on d s) \<Longrightarrow> d \<notin> set p"
  by (induction s arbitrary: p) (auto split: if_splits list.splits)

lemma join_split_on: "join_with d (split_on d s) = s"
proof (induction s)
  case Nil
  then show ?case by simp
next
  case (Cons c s)
  obtain p ps where sp: "split_on d s = p # ps"
    by (cases "split_on d s") auto
  with Cons show ?case by (cases ps) auto
qed

definition is_space :: "char \<Rightarrow> bool" where
  "is_space c \<longleftrightarrow> c \<in> {CHR '' '', CHR 0x09, CHR 0x0A, CHR 0x0B, CHR 0x0C, CHR 0x0D}"

definition trim_space :: "string \<Rightarrow> string" where
  "trim_space s = rev (dropWhile is_space (rev (dropWhile is_space s)))"

definition trim_char :: "char \<Rightarrow> string \<Rightarrow> string" where
  "trim_char d s = rev (dropWhile (\<lambda>c. c = d) (rev (dropWhile (\<lambda>c. c = d) s)))"

definition char_lower :: "char \<Rightarrow> char" where
  "char_lower c =
     (let n = of_char c :: nat in if 65 \<le> n \<and> n \<le> 90 then char_of (n + 32) else c)"

definition to_lower :: "string \<Rightarrow> string" where
  "to_lower s = map char_lower s"

lemma length_to_lower [simp]: "length (to_lower s) = length s"
  by (simp add: to_lower_def)

lemma trim_space_length: "length (trim_space s) \<le> length s"
proof -
  have "length (dropWhile is_space (rev (dropWhile is_space s))) \<le> length (dropWhile is_space s)"
    by (metis length_dropWhile_le length_rev)
  also have "\<dots> \<le> length s" by (rule length_dropWhile_le)
  finally show ?thesis by (simp add: trim_space_def)
qed

lemma split2_hd: "d \<notin> set p \<Longrightarrow> split2 d (p @ d # s) = [p, s]"
  by (simp add: split2.simps Let_def takeWhile_append)

lemma split2_whole: "d \<notin> set s \<Longrightarrow> split2 d s = [s]"
proof -
  assume "d \<notin> set s"
  then have "length (takeWhile (\<lambda>c. c \<noteq> d) s) = length s" by (subst takeWhile_eq_all_conv [THEN iffD2]) auto
  then show ?thesis unfolding split2.simps Let_def by simp
qed

lemma trim_space_id: "\<not> is_space (hd s) \<Longrightarrow> \<not> is_space (last s) \<Longrightarrow> trim_space s = s"
proof -
  assume s: "\<not> is_space (hd s)" "\<not> is_space (last s)"
  have hd: "dropWhile P xs = xs" if "\<not> P (hd xs)" for P :: "char \<Rightarrow> bool" and xs
    using that by (cases xs) auto
  have "dropWhile is_space s = s" using s(1) by (rule hd)
  moreover have "dropWhile is_space (rev s) = rev s"
    using s(2) by (cases s rule: rev_cases) auto
  ultimately show ?thesis by (simp add: trim_space_def)
qed

subsection \<open>Package strconv\<close>

definition digit_char :: "nat \<Rightarrow> char" where
  "digit_char n = char_of (48 + n)"

fun nat_to_dec :: "nat \<Rightarrow> string" where
  "nat_to_dec n = (if n < 10 then [digit_char n] else nat_to_dec (n div 10) @ [digit_char (n mod 10)])"

declare nat_to_dec.simps [simp del]

text \<open>\<open>strconv.FormatInt(n, 10)\<close> and \<open>strconv.Itoa\<close>.\<close>

definition itoa :: "int \<Rightarrow> string" where
  "itoa n = (if n < 0 then CHR ''-'' # nat_to_dec (nat (- n)) else nat_to_dec (nat n))"

definition digit_val :: "char \<Rightarrow> nat option" where
  "digit_val c = (let n = of_char c :: nat in if 48 \<le> n \<and> n \<le> 57 then Some (n - 48) else None)"

fun dec_digits :: "nat \<Rightarrow> string \<Rightarrow> nat option" where
  "dec_digits acc [] = Some acc"
| "dec_digits acc (c # s) =
     (case digit_val c of None \<Rightarrow> None | Some d \<Rightarrow> dec_digits (10 * acc + d) s)"

text \<open>
  \<open>strconv.ParseInt(s, 10, 64)\<close> (and \<open>strconv.Atoi\<close>, \<open>int\<close> having 64 bits): an
  optional sign, at least one digit, only digits, and a value that fits 64 bits.
\<close>

definition parse_int :: "string \<Rightarrow> int option" where
  "parse_int s =
     (let (neg, ds) =
        (case s of
           c # t \<Rightarrow> if c = CHR ''-'' then (True, t) else if c = CHR ''+'' then (False, t) else (False, s)
         | [] \<Rightarrow> (False, []))
      in if ds = [] then None
         else (case dec_digits 0 ds of
                 None \<Rightarrow> None
               | Some n \<Rightarrow>
                   (let v = (if neg then - int n else int n)
                    in if - (2 ^ 63) \<le> v \<and> v < 2 ^ 63 then Some v else None)))"

lemma digit_val_digit_char [simp]: "n < 10 \<Longrightarrow> digit_val (digit_char n) = Some n"
  by (simp add: digit_val_def digit_char_def)

lemma digit_char_not_sign: "n < 10 \<Longrightarrow> digit_char n \<noteq> CHR ''-'' \<and> digit_char n \<noteq> CHR ''+''"
proof -
  assume n: "n < 10"
  have "(of_char (digit_char n) :: nat) = 48 + n"
    using n by (simp add: digit_char_def)
  then show ?thesis by auto
qed

lemma nat_to_dec_ne [simp]: "nat_to_dec n \<noteq> []"
  by (subst nat_to_dec.simps) simp

lemma dec_digits_append: "dec_digits acc (s @ t) = Option.bind (dec_digits acc s) (\<lambda>a. dec_digits a t)"
  by (induction acc s rule: dec_digits.induct) (auto split: option.splits)

lemma dec_digits_nat_to_dec: "dec_digits 0 (nat_to_dec n) = Some n"
proof (induction n rule: nat_to_dec.induct)
  case (1 n)
  show ?case
  proof (cases "n < 10")
    case True
    then show ?thesis by (subst nat_to_dec.simps) simp
  next
    case False
    with 1 have ih: "dec_digits 0 (nat_to_dec (n div 10)) = Some (n div 10)" by simp
    have "nat_to_dec n = nat_to_dec (n div 10) @ [digit_char (n mod 10)]"
      using False by (subst nat_to_dec.simps) simp
    then show ?thesis by (simp add: dec_digits_append ih)
  qed
qed

lemma nat_to_dec_inj: "nat_to_dec m = nat_to_dec n \<Longrightarrow> m = n"
  using dec_digits_nat_to_dec by (metis option.inject)

lemma nat_to_dec_digits: "c \<in> set (nat_to_dec n) \<Longrightarrow> \<exists>d < 10. c = digit_char d"
proof (induction n rule: nat_to_dec.induct)
  case (1 n)
  show ?case
  proof (cases "n < 10")
    case True
    with 1 show ?thesis by (subst (asm) (2) nat_to_dec.simps) auto
  next
    case False
    have "nat_to_dec n = nat_to_dec (n div 10) @ [digit_char (n mod 10)]"
      using False by (subst nat_to_dec.simps) simp
    with "1.prems" consider "c \<in> set (nat_to_dec (n div 10))" | "c = digit_char (n mod 10)"
      by auto
    then show ?thesis
    proof cases
      case 1
      with "1.IH" False show ?thesis by blast
    next
      case 2
      then show ?thesis by (intro exI [of _ "n mod 10"]) simp
    qed
  qed
qed

lemma parse_int_itoa:
  assumes "- (2 ^ 63) \<le> n" and "n < 2 ^ 63"
  shows "parse_int (itoa n) = Some n"
proof -
  obtain c s where cs: "nat_to_dec (nat n) = c # s"
    by (cases "nat_to_dec (nat n)") auto
  then obtain d where "d < 10" "c = digit_char d"
    using nat_to_dec_digits [of c "nat n"] by auto
  then have c: "c \<noteq> CHR ''-''" "c \<noteq> CHR ''+''"
    by (simp_all add: digit_char_not_sign)
  show ?thesis
  proof (cases "n < 0")
    case True
    with assms show ?thesis
      by (simp add: parse_int_def itoa_def dec_digits_nat_to_dec)
  next
    case False
    have "dec_digits 0 (c # s) = Some (nat n)"
      using cs dec_digits_nat_to_dec [of "nat n"] by simp
    with False assms c cs show ?thesis
      by (simp add: parse_int_def itoa_def del: dec_digits.simps)
  qed
qed

subsection \<open>Package encoding/hex\<close>

definition hex_char :: "nat \<Rightarrow> char" where
  "hex_char n = (if n < 10 then char_of (48 + n) else char_of (87 + n))"

text \<open>\<open>hex.EncodeToString\<close>: two lower-case digits for each byte.\<close>

fun hex_encode :: "byte list \<Rightarrow> string" where
  "hex_encode [] = []"
| "hex_encode (b # bs) = hex_char (unat b div 16) # hex_char (unat b mod 16) # hex_encode bs"

definition hex_val :: "char \<Rightarrow> nat option" where
  "hex_val c =
     (let n = of_char c :: nat in
      if 48 \<le> n \<and> n \<le> 57 then Some (n - 48)
      else if 97 \<le> n \<and> n \<le> 102 then Some (n - 87)
      else if 65 \<le> n \<and> n \<le> 70 then Some (n - 55)
      else None)"

text \<open>\<open>hex.DecodeString\<close>: an odd length or any other character is an error.\<close>

fun hex_decode :: "string \<Rightarrow> byte list option" where
  "hex_decode [] = Some []"
| "hex_decode [c] = None"
| "hex_decode (c # d # s) =
     (case (hex_val c, hex_val d) of
        (Some x, Some y) \<Rightarrow> map_option (\<lambda>bs. word_of_nat (16 * x + y) # bs) (hex_decode s)
      | _ \<Rightarrow> None)"

lemma hex_val_hex_char [simp]: "n < 16 \<Longrightarrow> hex_val (hex_char n) = Some n"
  by (simp add: hex_val_def hex_char_def)

lemma hex_decode_encode [simp, go_string]: "hex_decode (hex_encode bs) = Some bs"
proof (induction bs)
  case Nil
  then show ?case by simp
next
  case (Cons b bs)
  have "unat b < 256" using unsigned_less [of b, where 'a = nat] by simp
  then have "hex_val (hex_char (unat b div 16)) = Some (unat b div 16)"
    by (intro hex_val_hex_char) simp
  moreover have "hex_val (hex_char (unat b mod 16)) = Some (unat b mod 16)"
    by (intro hex_val_hex_char) simp
  ultimately show ?case
    using Cons by simp
qed

lemma hex_encode_inj: "hex_encode as = hex_encode bs \<Longrightarrow> as = bs"
  by (metis hex_decode_encode option.inject)

lemma length_hex_encode [simp]: "length (hex_encode bs) = 2 * length bs"
  by (induction bs) auto

subsection \<open>Strings as bytes\<close>

definition string_bytes :: "string \<Rightarrow> byte list" where
  "string_bytes s = map of_char s"

lemma length_string_bytes [simp]: "length (string_bytes s) = length s"
  by (simp add: string_bytes_def)

end
