(* ===== verification/GoPath.thy ===== *)
theory GoPath imports GoStrings
begin

text \<open>
  Package path/filepath on a Unix system: lexical cleaning and joining of paths, and the
  component list the operating system resolves a path to. The lemmas show that a key is
  confined to its bucket directory whatever \<open>..\<close> elements it holds.
\<close>

type_synonym fpath = "string list"

subsection \<open>Clean, Join\<close>

fun clean_step :: "bool \<Rightarrow> string list \<Rightarrow> string \<Rightarrow> string list" where
  "clean_step rooted st c =
     (if c = '''' \<or> c = ''.'' then st
      else if c = ''..'' then
        (case st of
           [] \<Rightarrow> (if rooted then [] else [''..''])
         | t # ts \<Rightarrow> (if t = ''..'' then ''..'' # st else ts))
      else c # st)"

declare clean_step.simps [simp del]

text \<open>The elements of a cleaned path; the stack of \<open>clean_step\<close> holds them last first.\<close>

definition clean_elems :: "bool \<Rightarrow> string \<Rightarrow> string list" where
  "clean_elems rooted s = rev (foldl (clean_step rooted) [] (split_on CHR ''/'' s))"

definition is_rooted :: "string \<Rightarrow> bool" where
  "is_rooted s = has_prefix s ''/''"

definition clean :: "string \<Rightarrow> string" where
  "clean s =
     (if is_rooted s then CHR ''/'' # join_with CHR ''/'' (clean_elems True s)
      else (let es = clean_elems False s in if es = [] then ''.'' else join_with CHR ''/'' es))"

text \<open>\<open>filepath.Join\<close>: leading empty elements are ignored, the rest is joined and cleaned.\<close>

definition join_path :: "string list \<Rightarrow> string" where
  "join_path es =
     (case dropWhile (\<lambda>e. e = '''') es of
        [] \<Rightarrow> ''''
      | es' \<Rightarrow> clean (join_with CHR ''/'' es'))"

text \<open>The components an absolute path resolves to (no symbolic links).\<close>

definition os_path :: "string \<Rightarrow> fpath" where
  "os_path s = clean_elems True s"

subsection \<open>Path elements\<close>

definition good_elem :: "string \<Rightarrow> bool" where
  "good_elem c \<longleftrightarrow> c \<noteq> '''' \<and> c \<noteq> ''.'' \<and> c \<noteq> ''..'' \<and> CHR ''/'' \<notin> set c"

lemma split_on_append_sep:
  "split_on d (s @ d # t) = split_on d s @ split_on d t"
  by (induction s) (auto split: list.splits)

lemma clean_step_good: "good_elem c \<Longrightarrow> clean_step rooted st c = c # st"
  by (simp add: good_elem_def clean_step.simps)

lemma foldl_clean_step_good:
  "\<forall>c \<in> set es. good_elem c \<Longrightarrow> foldl (clean_step rooted) st es = rev es @ st"
  by (induction es arbitrary: st) (auto simp: clean_step_good)

lemma foldl_clean_step_join:
  assumes "\<forall>c \<in> set es. good_elem c"
  shows "foldl (clean_step rooted) st (split_on CHR ''/'' (join_with CHR ''/'' es)) = rev es @ st"
proof (cases "es = []")
  case True
  then show ?thesis by (simp add: clean_step.simps)
next
  case False
  have "split_on CHR ''/'' (join_with CHR ''/'' es) = es"
    using assms False by (intro split_on_join) (auto simp: good_elem_def)
  with assms show ?thesis by (simp add: foldl_clean_step_good)
qed

lemma clean_step_keeps_good:
  assumes "\<forall>c \<in> set st. good_elem c" and "CHR ''/'' \<notin> set c"
  shows "\<forall>x \<in> set (clean_step True st c). good_elem x"
proof (cases "c = '''' \<or> c = ''.''")
  case True
  with assms show ?thesis by (auto simp: clean_step.simps)
next
  case False
  show ?thesis
  proof (cases "c = ''..''")
    case True
    with assms show ?thesis
      by (cases st) (simp_all add: clean_step.simps good_elem_def)
  next
    case c: False
    with False assms(2) have "good_elem c" by (simp add: good_elem_def)
    with assms(1) show ?thesis by (simp add: clean_step_good)
  qed
qed

lemma foldl_clean_step_keeps_good:
  assumes "\<forall>c \<in> set st. good_elem c" and "\<forall>c \<in> set cs. CHR ''/'' \<notin> set c"
  shows "\<forall>c \<in> set (foldl (clean_step True) st cs). good_elem c"
  using assms
proof (induction cs arbitrary: st)
  case Nil
  then show ?case by simp
next
  case (Cons c cs)
  then show ?case
    using clean_step_keeps_good [of st c] by simp
qed

lemma clean_elems_good [go_path]: "\<forall>c \<in> set (clean_elems True s). good_elem c"
proof -
  have "\<forall>c \<in> set (split_on CHR ''/'' s). CHR ''/'' \<notin> set c"
    by (blast dest: split_on_pieces)
  then have "\<forall>c \<in> set (foldl (clean_step True) [] (split_on CHR ''/'' s)). good_elem c"
    by (intro foldl_clean_step_keeps_good) simp_all
  then show ?thesis by (simp add: clean_elems_def)
qed

lemma os_path_good: "c \<in> set (os_path s) \<Longrightarrow> good_elem c"
  using clean_elems_good by (auto simp: os_path_def)

lemma foldl_split_rooted:
  "foldl (clean_step True) st (split_on CHR ''/'' (CHR ''/'' # s)) = foldl (clean_step True) st (split_on CHR ''/'' s)"
  by (simp add: clean_step.simps)

lemma foldl_split_slash:
  "foldl (clean_step True) st (split_on CHR ''/'' (s @ CHR ''/'' # t)) =
     foldl (clean_step True) (foldl (clean_step True) st (split_on CHR ''/'' s)) (split_on CHR ''/'' t)"
  by (simp add: split_on_append_sep)

lemma is_rooted_Cons [simp]: "is_rooted (CHR ''/'' # s)"
  by (simp add: is_rooted_def)

lemma is_rooted_append: "is_rooted s \<Longrightarrow> is_rooted (s @ t)"
  by (auto simp: is_rooted_def has_prefix_iff)

lemma os_path_abs [go_path]:
  "\<forall>c \<in> set es. good_elem c \<Longrightarrow> os_path (CHR ''/'' # join_with CHR ''/'' es) = es"
  using foldl_clean_step_join [of es True "[]"]
  by (simp only: os_path_def clean_elems_def foldl_split_rooted append_Nil2 rev_rev_ident)

lemma os_path_clean [go_path]: "is_rooted s \<Longrightarrow> os_path (clean s) = os_path s"
  using os_path_abs [OF clean_elems_good, of s] by (simp add: clean_def os_path_def)

lemma clean_rooted: "is_rooted s \<Longrightarrow> clean s = CHR ''/'' # join_with CHR ''/'' (os_path s)"
  by (simp add: clean_def os_path_def)

lemma clean_abs: "\<forall>c \<in> set es. good_elem c \<Longrightarrow>
  clean (CHR ''/'' # join_with CHR ''/'' es) = CHR ''/'' # join_with CHR ''/'' es"
  by (simp add: clean_rooted os_path_abs)

subsection \<open>Object keys\<close>

text \<open>The key as the storage layer cleans it: \<open>strings.TrimPrefix(filepath.Clean("/"+key), "/")\<close>.\<close>

definition clean_key :: "string \<Rightarrow> string" where
  "clean_key key = trim_prefix (clean (CHR ''/'' # key)) ''/''"

definition key_elems :: "string \<Rightarrow> string list" where
  "key_elems key = os_path (CHR ''/'' # key)"

lemma clean_key_eq: "clean_key key = join_with CHR ''/'' (key_elems key)"
  by (simp add: clean_key_def key_elems_def clean_rooted)

lemma key_elems_good: "c \<in> set (key_elems key) \<Longrightarrow> good_elem c"
  by (simp add: key_elems_def os_path_good)

text \<open>A base directory as \<open>filepath.Abs\<close> returns it, other than the root directory.\<close>

definition abs_base :: "string \<Rightarrow> bool" where
  "abs_base base \<longleftrightarrow> is_rooted base \<and> clean base = base \<and> base \<noteq> ''/''"

lemma abs_base_eq: "abs_base base \<Longrightarrow> base = CHR ''/'' # join_with CHR ''/'' (os_path base)"
  using clean_rooted [of base] by (simp add: abs_base_def)

lemma abs_base_ne: "abs_base base \<Longrightarrow> os_path base \<noteq> []"
proof
  assume "abs_base base" and "os_path base = []"
  with abs_base_eq [of base] have "base = ''/''" by simp
  with \<open>abs_base base\<close> show False by (simp add: abs_base_def)
qed

lemma join_with_append:
  "xs \<noteq> [] \<Longrightarrow> ys \<noteq> [] \<Longrightarrow> join_with d (xs @ ys) = join_with d xs @ d # join_with d ys"
proof (induction d xs rule: join_with.induct)
  case (2 d p)
  then show ?case by (cases ys) auto
qed auto

text \<open>Joining a base directory with further elements, in components.\<close>

lemma join_path_base:
  assumes "is_rooted base" and "es \<noteq> []"
  shows "is_rooted (join_path (base # es))"
    and "os_path (join_path (base # es)) =
      rev (foldl (\<lambda>st e. foldl (clean_step True) st (split_on CHR ''/'' e)) (rev (os_path base)) es)"
proof -
  have base: "base \<noteq> ''''" using assms by (auto simp: is_rooted_def)
  have jr: "is_rooted (join_with CHR ''/'' (base # es))"
    using assms by (cases es) (auto simp: is_rooted_append)
  have jp: "join_path (base # es) = clean (join_with CHR ''/'' (base # es))"
    using base by (simp add: join_path_def)
  show "is_rooted (join_path (base # es))"
    by (simp add: jp clean_rooted [OF jr])
  have "foldl (clean_step True) st (split_on CHR ''/'' (join_with CHR ''/'' (b # es))) =
      foldl (\<lambda>st e. foldl (clean_step True) st (split_on CHR ''/'' e))
        (foldl (clean_step True) st (split_on CHR ''/'' b)) es" for st b
  proof (induction es arbitrary: st b)
    case Nil
    then show ?case by simp
  next
    case (Cons e es)
    then show ?case by (simp add: foldl_split_slash)
  qed
  then show "os_path (join_path (base # es)) =
      rev (foldl (\<lambda>st e. foldl (clean_step True) st (split_on CHR ''/'' e)) (rev (os_path base)) es)"
    by (simp add: jp os_path_clean [OF jr]) (simp add: os_path_def clean_elems_def)
qed

lemma foldl_split_good:
  "good_elem c \<Longrightarrow> foldl (clean_step True) st (split_on CHR ''/'' c) = c # st"
  by (subst split_on_no_sep) (auto simp: clean_step_good good_elem_def)

end
