(* ===== verification/Files.thy ===== *)
theory Files imports GoPath "HOL-Library.AList"
begin

text \<open>
  The operating system under package os, as far as the program uses it: a tree of
  directories and files addressed by component lists, a clock, and a schedule of the
  failures the next system calls return (\<open>fs_faults\<close>, one entry for each call, \<open>None\<close>
  for a call that goes through; after the schedule every call goes through). A failed call
  changes nothing. Every function returns a result and the new state; the state record is
  extensible, so the components above add their own fields.
\<close>

datatype node = DirN | FileN "byte list" int

record os_state =
  fs_files :: "(fpath \<times> node) list"
  fs_clock :: int
  fs_faults :: "os_err option list"

type_synonym ('a, 'z) io = "'z os_state_scheme \<Rightarrow> 'a result \<times> 'z os_state_scheme"

subsection \<open>Sequencing\<close>

definition io_return :: "'a \<Rightarrow> ('a, 'z) io" where
  "io_return x w = (Inr x, w)"

definition io_fail :: "err \<Rightarrow> ('a, 'z) io" where
  "io_fail e w = (Inl e, w)"

definition io_bind :: "('a, 'z) io \<Rightarrow> ('a \<Rightarrow> ('b, 'z) io) \<Rightarrow> ('b, 'z) io" where
  "io_bind m f w = (case m w of (Inl e, w1) \<Rightarrow> (Inl e, w1) | (Inr x, w1) \<Rightarrow> f x w1)"

text \<open>\<open>_ = op()\<close> and \<open>defer op()\<close>: the call's result is ignored.\<close>

definition io_ignore :: "('a, 'z) io \<Rightarrow> 'z os_state_scheme \<Rightarrow> 'z os_state_scheme" where
  "io_ignore m w = snd (m w)"

definition io_defer :: "('a, 'z) io \<Rightarrow> ('b, 'z) io \<Rightarrow> ('a, 'z) io" where
  "io_defer m d w = (case m w of (r, w1) \<Rightarrow> (r, io_ignore d w1))"

text \<open>
  The idiom of an error variable that collects the first failure: \<open>if_ok\<close> runs an
  operation when there was no error so far, \<open>and_also\<close> runs it in any case (closing a file).
\<close>

fun if_ok :: "err option \<times> 'z os_state_scheme \<Rightarrow> (unit, 'z) io \<Rightarrow> err option \<times> 'z os_state_scheme" where
  "if_ok (Some e, w) m = (Some e, w)"
| "if_ok (None, w) m = (case m w of (Inl e, w1) \<Rightarrow> (Some e, w1) | (Inr _, w1) \<Rightarrow> (None, w1))"

fun and_also :: "err option \<times> 'z os_state_scheme \<Rightarrow> (unit, 'z) io \<Rightarrow> err option \<times> 'z os_state_scheme" where
  "and_also (Some e, w) m = (Some e, snd (m w))"
| "and_also (None, w) m = (case m w of (Inl e, w1) \<Rightarrow> (Some e, w1) | (Inr _, w1) \<Rightarrow> (None, w1))"

subsection \<open>The tree\<close>

definition lookup :: "'z os_state_scheme \<Rightarrow> fpath \<Rightarrow> node option" where
  "lookup w p = (if p = [] then Some DirN else map_of (fs_files w) p)"

definition put_node :: "fpath \<Rightarrow> node \<Rightarrow> 'z os_state_scheme \<Rightarrow> 'z os_state_scheme" where
  "put_node p n w = w\<lparr>fs_files := AList.update p n (fs_files w)\<rparr>"

definition del_node :: "fpath \<Rightarrow> 'z os_state_scheme \<Rightarrow> 'z os_state_scheme" where
  "del_node p w = w\<lparr>fs_files := AList.delete p (fs_files w)\<rparr>"

fun is_file :: "node option \<Rightarrow> bool" where
  "is_file (Some (FileN _ _)) = True"
| "is_file _ = False"

text \<open>Why a path does not resolve: a file where a directory is needed, or nothing there.\<close>

definition missing_err :: "'z os_state_scheme \<Rightarrow> fpath \<Rightarrow> err" where
  "missing_err w p =
     OsErr (if \<exists>n \<in> set [1..<length p]. is_file (lookup w (take n p)) then ENOTDIR else ENOENT)"

definition child_names :: "'z os_state_scheme \<Rightarrow> fpath \<Rightarrow> string list" where
  "child_names w p =
     sort (remdups (map last (filter (\<lambda>q. q \<noteq> [] \<and> butlast q = p) (map fst (fs_files w)))))"

subsection \<open>System calls\<close>

definition os_tick :: "(unit, 'z) io" where
  "os_tick w =
     (case fs_faults w of
        [] \<Rightarrow> (Inr (), w)
      | f # fs \<Rightarrow> ((case f of None \<Rightarrow> Inr () | Some e \<Rightarrow> Inl (OsErr e)), w\<lparr>fs_faults := fs\<rparr>))"

fun mkdir_from :: "fpath \<Rightarrow> string list \<Rightarrow> (unit, 'z) io" where
  "mkdir_from pre [] w = (Inr (), w)"
| "mkdir_from pre (c # cs) w =
     (case lookup w (pre @ [c]) of
        Some DirN \<Rightarrow> mkdir_from (pre @ [c]) cs w
      | Some (FileN _ _) \<Rightarrow> (Inl (OsErr ENOTDIR), w)
      | None \<Rightarrow>
          (case os_tick w of
             (Inl e, w1) \<Rightarrow> (Inl e, w1)
           | (Inr _, w1) \<Rightarrow> mkdir_from (pre @ [c]) cs (put_node (pre @ [c]) DirN w1)))"

text \<open>\<open>os.MkdirAll\<close>\<close>

definition os_mkdir_all :: "fpath \<Rightarrow> (unit, 'z) io" where
  "os_mkdir_all p = mkdir_from [] p"

text \<open>
  \<open>os.CreateTemp\<close>: a new empty file whose name is not in use, between the two halves of
  the pattern; the number stands for the random part.
\<close>

definition temp_path :: "'z os_state_scheme \<Rightarrow> fpath \<Rightarrow> string \<Rightarrow> string \<Rightarrow> fpath" where
  "temp_path w dir pre suf =
     (case find (\<lambda>n. lookup w (dir @ [pre @ nat_to_dec n @ suf]) = None) [0..<Suc (length (fs_files w))] of
        Some n \<Rightarrow> dir @ [pre @ nat_to_dec n @ suf]
      | None \<Rightarrow> dir @ [pre @ nat_to_dec (length (fs_files w)) @ suf])"

definition os_create_temp :: "fpath \<Rightarrow> string \<Rightarrow> string \<Rightarrow> (fpath, 'z) io" where
  "os_create_temp dir pre suf =
     io_bind os_tick (\<lambda>_ w.
       case lookup w dir of
         Some DirN \<Rightarrow>
           (let p = temp_path w dir pre suf in (Inr p, put_node p (FileN [] (fs_clock w)) w))
       | Some (FileN _ _) \<Rightarrow> (Inl (OsErr ENOTDIR), w)
       | None \<Rightarrow> (Inl (missing_err w dir), w))"

text \<open>Writing at an offset: a gap before it reads as zeros.\<close>

definition write_at :: "byte list \<Rightarrow> nat \<Rightarrow> byte list \<Rightarrow> byte list" where
  "write_at c off bs =
     take off c @ replicate (off - length c) 0 @ bs @ drop (off + length bs) c"

definition os_write_at :: "fpath \<Rightarrow> nat \<Rightarrow> byte list \<Rightarrow> (unit, 'z) io" where
  "os_write_at p off bs =
     io_bind os_tick (\<lambda>_ w.
       case lookup w p of
         Some (FileN c _) \<Rightarrow> (Inr (), put_node p (FileN (write_at c off bs) (fs_clock w)) w)
       | _ \<Rightarrow> (Inr (), w))"

text \<open>\<open>io.Copy\<close> into an open file: the number of bytes written and the error, if any.\<close>

definition os_copy :: "fpath \<Rightarrow> nat \<Rightarrow> reader \<Rightarrow> 'z os_state_scheme \<Rightarrow> nat \<times> err option \<times> 'z os_state_scheme" where
  "os_copy p off r w =
     (case os_write_at p off (rd_data r) w of
        (Inl e, w1) \<Rightarrow> (0, Some e, w1)
      | (Inr _, w1) \<Rightarrow> (length (rd_data r), rd_err r, w1))"

definition os_sync :: "fpath \<Rightarrow> (unit, 'z) io" where
  "os_sync p = os_tick"

definition os_close :: "fpath \<Rightarrow> (unit, 'z) io" where
  "os_close p = os_tick"

text \<open>\<open>os.Rename\<close> of a file: it replaces a file, never a directory.\<close>

definition os_rename :: "fpath \<Rightarrow> fpath \<Rightarrow> (unit, 'z) io" where
  "os_rename p q =
     io_bind os_tick (\<lambda>_ w.
       case lookup w p of
         Some (FileN c t) \<Rightarrow>
           (case lookup w q of
              Some DirN \<Rightarrow> (Inl (OsErr EISDIR), w)
            | _ \<Rightarrow>
                if lookup w (butlast q) = Some DirN
                then (Inr (), put_node q (FileN c t) (del_node p w))
                else (Inl (missing_err w q), w))
       | Some DirN \<Rightarrow> (Inl (OsErr EINVAL), w)
       | None \<Rightarrow> (Inl (missing_err w p), w))"

text \<open>\<open>os.Remove\<close> of a file or an empty directory.\<close>

definition os_remove :: "fpath \<Rightarrow> (unit, 'z) io" where
  "os_remove p =
     io_bind os_tick (\<lambda>_ w.
       case lookup w p of
         None \<Rightarrow> (Inl (missing_err w p), w)
       | Some (FileN _ _) \<Rightarrow> (Inr (), del_node p w)
       | Some DirN \<Rightarrow>
           if p = [] then (Inl (OsErr EINVAL), w)
           else if child_names w p = [] then (Inr (), del_node p w)
           else (Inl (OsErr ENOTEMPTY), w))"

text \<open>\<open>os.RemoveAll\<close>: everything at and below the path.\<close>

definition os_remove_all :: "fpath \<Rightarrow> (unit, 'z) io" where
  "os_remove_all p =
     io_bind os_tick (\<lambda>_ w.
       (Inr (), w\<lparr>fs_files := filter (\<lambda>(q, n). take (length p) q \<noteq> p) (fs_files w)\<rparr>))"

definition os_stat :: "fpath \<Rightarrow> (node, 'z) io" where
  "os_stat p =
     io_bind os_tick (\<lambda>_ w.
       case lookup w p of None \<Rightarrow> (Inl (missing_err w p), w) | Some n \<Rightarrow> (Inr n, w))"

text \<open>
  \<open>os.Open\<close>: the opened node. An open file keeps its content when its name is removed or
  replaced later, so the node itself stands for the handle.
\<close>

definition os_open :: "fpath \<Rightarrow> (node, 'z) io" where
  "os_open p = os_stat p"

text \<open>Reading an open file from an offset on; an open directory can't be read.\<close>

definition os_read_from :: "node \<Rightarrow> nat \<Rightarrow> (byte list, 'z) io" where
  "os_read_from n off =
     io_bind os_tick (\<lambda>_ w.
       case n of FileN c _ \<Rightarrow> (Inr (drop off c), w) | DirN \<Rightarrow> (Inl (OsErr EISDIR), w))"

definition os_read_dir :: "fpath \<Rightarrow> (string list, 'z) io" where
  "os_read_dir p =
     io_bind os_tick (\<lambda>_ w.
       case lookup w p of
         None \<Rightarrow> (Inl (missing_err w p), w)
       | Some (FileN _ _) \<Rightarrow> (Inl (OsErr ENOTDIR), w)
       | Some DirN \<Rightarrow> (Inr (child_names w p), w))"

definition os_chtimes :: "fpath \<Rightarrow> int \<Rightarrow> (unit, 'z) io" where
  "os_chtimes p t =
     io_bind os_tick (\<lambda>_ w.
       case lookup w p of
         Some (FileN c _) \<Rightarrow> (Inr (), put_node p (FileN c t) w)
       | Some DirN \<Rightarrow> (Inr (), w)
       | None \<Rightarrow> (Inl (missing_err w p), w))"

subsection \<open>The content view\<close>

text \<open>What readers can see: the content of each regular file.\<close>

definition file_at :: "'z os_state_scheme \<Rightarrow> fpath \<Rightarrow> byte list option" where
  "file_at w p = (case lookup w p of Some (FileN c _) \<Rightarrow> Some c | _ \<Rightarrow> None)"

lemma lookup_Nil [simp]: "lookup w [] = Some DirN"
  by (simp add: lookup_def)

lemma file_at_Nil [simp]: "file_at w [] = None"
  by (simp add: file_at_def)

lemma lookup_put_node: "p \<noteq> [] \<Longrightarrow> lookup (put_node p n w) = (lookup w)(p := Some n)"
  by (auto simp: lookup_def put_node_def fun_eq_iff update_conv')

lemma lookup_del_node: "p \<noteq> [] \<Longrightarrow> lookup (del_node p w) = (lookup w)(p := None)"
  by (auto simp: lookup_def del_node_def fun_eq_iff delete_conv')

lemma file_at_put_file: "p \<noteq> [] \<Longrightarrow> file_at (put_node p (FileN c t) w) = (file_at w)(p \<mapsto> c)"
  by (auto simp: file_at_def lookup_put_node fun_eq_iff)

lemma file_at_put_dir:
  "p \<noteq> [] \<Longrightarrow> lookup w p = None \<Longrightarrow> file_at (put_node p DirN w) = file_at w"
  by (auto simp: file_at_def lookup_put_node fun_eq_iff)

lemma file_at_del_node: "p \<noteq> [] \<Longrightarrow> file_at (del_node p w) = (file_at w)(p := None)"
  by (auto simp: file_at_def lookup_del_node fun_eq_iff)

lemma file_at_Some: "file_at w p = Some c \<longleftrightarrow> (\<exists>t. lookup w p = Some (FileN c t))"
  by (auto simp: file_at_def split: option.splits node.splits)

lemma node_more [simp]:
  "os_state.more (put_node p n w) = os_state.more w" "os_state.more (del_node p w) = os_state.more w"
  "fs_clock (put_node p n w) = fs_clock w" "fs_clock (del_node p w) = fs_clock w"
  "fs_faults (put_node p n w) = fs_faults w" "fs_faults (del_node p w) = fs_faults w"
  by (simp_all add: put_node_def del_node_def)

subsection \<open>Sequencing lemmas\<close>

lemma io_bind_Inr:
  "io_bind m f w = (Inr y, w') \<longleftrightarrow> (\<exists>x w1. m w = (Inr x, w1) \<and> f x w1 = (Inr y, w'))"
  by (auto simp: io_bind_def split: prod.splits sum.splits)

lemma io_bind_Inl:
  "io_bind m f w = (Inl e, w') \<longleftrightarrow>
     m w = (Inl e, w') \<or> (\<exists>x w1. m w = (Inr x, w1) \<and> f x w1 = (Inl e, w'))"
  by (auto simp: io_bind_def split: prod.splits sum.splits)

lemma io_defer_iff:
  "io_defer m d w = (r, w') \<longleftrightarrow> (\<exists>w1. m w = (r, w1) \<and> w' = io_ignore d w1)"
  by (auto simp: io_defer_def split: prod.splits)

lemma if_ok_None:
  "if_ok s m = (None, w') \<longleftrightarrow> (\<exists>w1 u. s = (None, w1) \<and> m w1 = (Inr u, w'))"
  by (cases "(s, m)" rule: if_ok.cases) (auto split: prod.splits sum.splits)

lemma and_also_None:
  "and_also s m = (None, w') \<longleftrightarrow> (\<exists>w1 u. s = (None, w1) \<and> m w1 = (Inr u, w'))"
  by (cases "(s, m)" rule: and_also.cases) (auto split: prod.splits sum.splits)

subsection \<open>What each call does to the content view\<close>

lemma os_tick_same:
  "os_tick w = (r, w') \<Longrightarrow>
     fs_files w' = fs_files w \<and> fs_clock w' = fs_clock w \<and> os_state.more w' = os_state.more w"
  by (auto simp: os_tick_def split: list.splits)

lemma os_tick_lookup: "os_tick w = (r, w') \<Longrightarrow> lookup w' = lookup w"
  by (auto simp: lookup_def fun_eq_iff dest: os_tick_same)

lemma os_tick_file_at: "os_tick w = (r, w') \<Longrightarrow> file_at w' = file_at w"
  by (auto simp: file_at_def fun_eq_iff dest: os_tick_lookup)

text \<open>
  The frame of a call: it can change the content of the files in \<open>S\<close> only, and nothing
  else of the state but the tree and the schedule.
\<close>

definition frame :: "fpath set \<Rightarrow> 'z os_state_scheme \<Rightarrow> 'z os_state_scheme \<Rightarrow> bool" where
  "frame S w w' \<longleftrightarrow>
     (\<forall>q. q \<notin> S \<longrightarrow> file_at w' q = file_at w q) \<and> os_state.more w' = os_state.more w \<and>
     fs_clock w' = fs_clock w"

lemma frame_refl [simp, intro]: "frame S w w"
  by (simp add: frame_def)

lemma frame_trans [trans]: "frame S w w1 \<Longrightarrow> frame S w1 w2 \<Longrightarrow> frame S w w2"
  by (simp add: frame_def)

lemma frame_mono: "frame S w w' \<Longrightarrow> S \<subseteq> T \<Longrightarrow> frame T w w'"
  by (auto simp: frame_def)

lemma frame_file_at: "frame S w w' \<Longrightarrow> q \<notin> S \<Longrightarrow> file_at w' q = file_at w q"
  by (simp add: frame_def)

lemma frame_more: "frame S w w' \<Longrightarrow> os_state.more w' = os_state.more w"
  by (simp add: frame_def)

lemma frame_tick: "os_tick w = (r, w') \<Longrightarrow> frame S w w'"
  by (simp add: frame_def os_tick_same os_tick_file_at)

lemma frame_put_file: "p \<noteq> [] \<Longrightarrow> p \<in> S \<Longrightarrow> frame S w (put_node p (FileN c t) w)"
  by (auto simp: frame_def file_at_put_file)

lemma frame_del: "p \<noteq> [] \<Longrightarrow> p \<in> S \<Longrightarrow> frame S w (del_node p w)"
  by (auto simp: frame_def file_at_del_node)

lemma frame_put_dir: "p \<noteq> [] \<Longrightarrow> lookup w p = None \<Longrightarrow> frame S w (put_node p DirN w)"
  by (auto simp: frame_def file_at_put_dir)

lemma io_bind_tick_frame:
  assumes "io_bind os_tick f w = (r, w')"
    and "\<And>w1. f () w1 = (r, w') \<Longrightarrow> frame S w1 w'"
  shows "frame S w w'"
  using assms by (cases r) (auto simp: io_bind_Inr io_bind_Inl intro: frame_tick frame_trans)

lemma tick_bindE:
  assumes "io_bind os_tick f w = (r, w')"
  obtains (fails) e where "r = Inl e" "os_tick w = (Inl e, w')"
    | (runs) w1 where "os_tick w = (Inr (), w1)" "f () w1 = (r, w')"
  using assms by (cases "os_tick w"; cases "fst (os_tick w)") (auto simp: io_bind_def)

lemma mkdir_from_frame: "mkdir_from pre cs w = (r, w') \<Longrightarrow> frame S w w'"
proof (induction pre cs w rule: mkdir_from.induct)
  case (1 pre w)
  then show ?case by simp
next
  case (2 pre c cs w)
  show ?case
  proof (cases "lookup w (pre @ [c])")
    case None
    obtain t w1 where tick: "os_tick w = (t, w1)" by (cases "os_tick w")
    show ?thesis
    proof (cases t)
      case (Inl e)
      with 2 None tick show ?thesis by (auto dest: frame_tick)
    next
      case (Inr u)
      with tick have w1: "lookup w1 (pre @ [c]) = None"
        using None os_tick_lookup by metis
      from tick have "frame S w w1" by (rule frame_tick)
      also have "frame S w1 (put_node (pre @ [c]) DirN w1)"
        using w1 by (intro frame_put_dir) simp_all
      also have "frame S (put_node (pre @ [c]) DirN w1) w'"
        using 2 None tick Inr by simp
      finally show ?thesis .
    qed
  next
    case (Some n)
    with 2 show ?thesis by (cases n) simp_all
  qed
qed

lemma os_mkdir_all_frame [fs_frame]: "os_mkdir_all p w = (r, w') \<Longrightarrow> frame S w w'"
  by (simp add: os_mkdir_all_def mkdir_from_frame)

lemma os_write_at_frame [fs_frame]:
  "os_write_at p off bs w = (r, w') \<Longrightarrow> p \<in> S \<Longrightarrow> frame S w w'"
  unfolding os_write_at_def
  by (erule io_bind_tick_frame) (auto split: option.splits node.splits intro: frame_put_file)

lemma os_copy_frame [fs_frame]:
  "os_copy p off r w = (n, e, w') \<Longrightarrow> p \<in> S \<Longrightarrow> frame S w w'"
  by (auto simp: os_copy_def split: prod.splits sum.splits dest: os_write_at_frame)

lemma os_rename_frame [fs_frame]:
  "os_rename p q w = (r, w') \<Longrightarrow> p \<in> S \<Longrightarrow> q \<in> S \<Longrightarrow> frame S w w'"
  unfolding os_rename_def
  by (erule io_bind_tick_frame)
    (auto split: option.splits node.splits if_splits intro!: frame_trans [OF frame_del frame_put_file])

lemma os_remove_frame [fs_frame]: "os_remove p w = (r, w') \<Longrightarrow> p \<in> S \<Longrightarrow> frame S w w'"
  unfolding os_remove_def
  by (erule io_bind_tick_frame) (auto split: option.splits node.splits if_splits intro: frame_del)

lemma lookup_file_ne: "lookup w p = Some (FileN c t) \<Longrightarrow> p \<noteq> []"
  by auto

lemma frame_touch: "lookup w p = Some (FileN c t) \<Longrightarrow> frame S w (put_node p (FileN c t') w)"
  using lookup_file_ne [of w p c t]
  by (auto simp: frame_def file_at_def lookup_put_node)

lemma os_chtimes_frame [fs_frame]: "os_chtimes p t w = (r, w') \<Longrightarrow> frame S w w'"
  unfolding os_chtimes_def
  by (erule io_bind_tick_frame) (auto split: option.splits node.splits intro: frame_touch)

lemma os_sync_frame [fs_frame]: "os_sync p w = (r, w') \<Longrightarrow> frame S w w'"
  by (simp add: os_sync_def frame_tick)

lemma os_close_frame [fs_frame]: "os_close p w = (r, w') \<Longrightarrow> frame S w w'"
  by (simp add: os_close_def frame_tick)

lemma os_stat_frame [fs_frame]: "os_stat p w = (r, w') \<Longrightarrow> frame S w w'"
  unfolding os_stat_def by (erule io_bind_tick_frame) (auto split: option.splits)

lemma os_open_frame [fs_frame]: "os_open p w = (r, w') \<Longrightarrow> frame S w w'"
  by (simp add: os_open_def os_stat_frame)

lemma os_read_from_frame [fs_frame]: "os_read_from n off w = (r, w') \<Longrightarrow> frame S w w'"
  unfolding os_read_from_def by (erule io_bind_tick_frame) (auto split: node.splits)

lemma os_read_dir_frame [fs_frame]: "os_read_dir p w = (r, w') \<Longrightarrow> frame S w w'"
  unfolding os_read_dir_def by (erule io_bind_tick_frame) (auto split: option.splits node.splits)

subsection \<open>What a successful call leaves\<close>

lemma os_write_at_ok [fs_lookup]:
  assumes "os_write_at p off bs w = (Inr u, w')" and c: "file_at w p = Some c"
  shows "file_at w' = (file_at w)(p \<mapsto> write_at c off bs)"
proof -
  from assms(1) obtain w1 where tick: "os_tick w = (Inr (), w1)"
    and rest: "(case lookup w1 p of Some (FileN c _) \<Rightarrow> (Inr (), put_node p (FileN (write_at c off bs) (fs_clock w1)) w1)
        | _ \<Rightarrow> (Inr (), w1)) = (Inr u :: unit result, w')"
    unfolding os_write_at_def by (elim tick_bindE) simp_all
  from c os_tick_lookup [OF tick] obtain t where l: "lookup w1 p = Some (FileN c t)"
    by (auto simp: file_at_Some)
  with rest lookup_file_ne [OF l] show ?thesis
    by (auto simp: file_at_put_file os_tick_file_at [OF tick])
qed

lemma os_copy_ok [fs_lookup]:
  assumes "os_copy p off r w = (n, None, w')" and c: "file_at w p = Some c"
  shows "n = length (rd_data r) \<and> rd_err r = None \<and> file_at w' = (file_at w)(p \<mapsto> write_at c off (rd_data r))"
  using assms by (auto simp: os_copy_def split: prod.splits sum.splits dest: os_write_at_ok)

lemma os_rename_ok [fs_lookup]:
  assumes "os_rename p q w = (Inr u, w')"
  shows "\<exists>c. file_at w p = Some c \<and> file_at w' = (file_at w)(p := None, q \<mapsto> c)"
proof -
  from assms obtain w1 where tick: "os_tick w = (Inr (), w1)"
    and rest: "(case lookup w1 p of
         Some (FileN c t) \<Rightarrow>
           (case lookup w1 q of
              Some DirN \<Rightarrow> (Inl (OsErr EISDIR), w1)
            | _ \<Rightarrow>
                if lookup w1 (butlast q) = Some DirN
                then (Inr (), put_node q (FileN c t) (del_node p w1))
                else (Inl (missing_err w1 q), w1))
       | Some DirN \<Rightarrow> (Inl (OsErr EINVAL), w1)
       | None \<Rightarrow> (Inl (missing_err w1 p), w1)) = (Inr u, w')"
    unfolding os_rename_def by (elim tick_bindE) simp_all
  from rest obtain c t where l: "lookup w1 p = Some (FileN c t)" "lookup w1 q \<noteq> Some DirN"
      "w' = put_node q (FileN c t) (del_node p w1)"
    by (auto split: option.splits node.splits if_splits)
  then have "p \<noteq> []" "q \<noteq> []" by auto
  with l show ?thesis
    by (auto simp: file_at_put_file file_at_del_node os_tick_file_at [OF tick] file_at_Some
        os_tick_lookup [OF tick, symmetric])
qed

lemma os_remove_ok [fs_lookup]:
  assumes "os_remove p w = (Inr u, w')"
  shows "file_at w' = (file_at w)(p := None)"
proof -
  from assms obtain w1 where tick: "os_tick w = (Inr (), w1)"
    and rest: "(case lookup w1 p of
         None \<Rightarrow> (Inl (missing_err w1 p), w1)
       | Some (FileN _ _) \<Rightarrow> (Inr (), del_node p w1)
       | Some DirN \<Rightarrow>
           if p = [] then (Inl (OsErr EINVAL), w1)
           else if child_names w1 p = [] then (Inr (), del_node p w1)
           else (Inl (OsErr ENOTEMPTY), w1)) = (Inr u, w')"
    unfolding os_remove_def by (elim tick_bindE) simp_all
  from rest have "p \<noteq> [] \<and> w' = del_node p w1"
    by (auto split: option.splits node.splits if_splits)
  then show ?thesis
    by (simp add: file_at_del_node os_tick_file_at [OF tick])
qed

lemma temp_path_fresh: "lookup w (temp_path w dir pre suf) = None"
proof -
  let ?p = "\<lambda>n. dir @ [pre @ nat_to_dec n @ suf]"
  let ?N = "{0..<Suc (length (fs_files w))}"
  have "inj_on ?p ?N"
    by (auto simp: inj_on_def dest: nat_to_dec_inj)
  then have card: "card (?p ` ?N) = Suc (length (fs_files w))"
    by (simp add: card_image)
  have "\<exists>n \<in> ?N. lookup w (?p n) = None"
  proof (rule ccontr)
    assume "\<not> ?thesis"
    then have "?p ` ?N \<subseteq> dom (map_of (fs_files w))"
      by (auto simp: lookup_def)
    then have "card (?p ` ?N) \<le> card (fst ` set (fs_files w))"
      by (intro card_mono) (auto simp: dom_map_of_conv_image_fst)
    also have "\<dots> \<le> length (fs_files w)"
      by (metis card_image_le card_length finite_set le_trans)
    finally show False using card by simp
  qed
  then obtain n where n: "find (\<lambda>n. lookup w (?p n) = None) [0..<Suc (length (fs_files w))] = Some n"
    by (cases "find (\<lambda>n. lookup w (?p n) = None) [0..<Suc (length (fs_files w))]")
      (auto simp: find_None_iff simp del: upt_Suc)
  then have "lookup w (?p n) = None"
    by (auto simp: find_Some_iff simp del: upt_Suc)
  with n show ?thesis
    by (simp add: temp_path_def del: upt_Suc)
qed

lemma butlast_temp_path [simp]: "butlast (temp_path w dir pre suf) = dir"
  by (simp add: temp_path_def split: option.split)

lemma temp_path_ne [simp]: "temp_path w dir pre suf \<noteq> []"
  by (simp add: temp_path_def split: option.split)

lemma os_create_temp_ok [fs_lookup]:
  assumes "os_create_temp dir pre suf w = (Inr tmp, w')"
  shows "file_at w tmp = None \<and> butlast tmp = dir \<and> tmp \<noteq> [] \<and> lookup w dir = Some DirN \<and>
    file_at w' = (file_at w)(tmp \<mapsto> []) \<and> frame {tmp} w w'"
proof -
  from assms obtain w1 where tick: "os_tick w = (Inr (), w1)" and dir: "lookup w1 dir = Some DirN"
    and tmp: "tmp = temp_path w1 dir pre suf" "w' = put_node tmp (FileN [] (fs_clock w1)) w1"
    unfolding os_create_temp_def
    by (elim tick_bindE) (auto simp: Let_def split: option.split_asm node.split_asm)
  have "lookup w tmp = None"
    using temp_path_fresh [of w1] tmp os_tick_lookup [OF tick] by simp
  moreover have "frame {tmp} w w'"
    unfolding tmp by (rule frame_trans [OF frame_tick [OF tick]]) (simp add: frame_put_file)
  ultimately show ?thesis
    using tmp dir by (simp add: file_at_put_file os_tick_file_at [OF tick] os_tick_lookup [OF tick]
        file_at_def [of w])
qed

lemma os_create_temp_err [fs_frame]: "os_create_temp dir pre suf w = (Inl e, w') \<Longrightarrow> frame S w w'"
  unfolding os_create_temp_def
  by (elim tick_bindE) (auto simp: Let_def dest: frame_tick split: option.split_asm node.split_asm)

lemma os_stat_lookup: "os_stat p w = (r, w') \<Longrightarrow> lookup w' = lookup w \<and> (\<forall>n. r = Inr n \<longrightarrow> lookup w p = Some n)"
  unfolding os_stat_def by (elim tick_bindE) (auto dest!: os_tick_lookup split: option.split_asm)

lemma os_open_ok [fs_lookup]:
  "os_open p w = (Inr n, w') \<Longrightarrow> lookup w p = Some n"
  unfolding os_open_def os_stat_def
  by (elim tick_bindE) (auto dest!: os_tick_lookup split: option.split_asm)

lemma os_read_from_ok [fs_lookup]:
  "os_read_from n off w = (Inr bs, w') \<Longrightarrow> \<exists>c t. n = FileN c t \<and> bs = drop off c"
  unfolding os_read_from_def
  by (elim tick_bindE) (auto split: node.split_asm)

subsection \<open>Runs without failures\<close>

lemma os_tick_quiet [simp]: "fs_faults w = [] \<Longrightarrow> os_tick w = (Inr (), w)"
  by (simp add: os_tick_def)

lemma io_bind_tick_quiet [simp]: "fs_faults w = [] \<Longrightarrow> io_bind os_tick f w = f () w"
  by (simp add: io_bind_def)

subsection \<open>The tree invariant\<close>

text \<open>Every path but the root hangs below a directory.\<close>

definition tree_ok :: "'z os_state_scheme \<Rightarrow> bool" where
  "tree_ok w \<longleftrightarrow> (\<forall>p n. lookup w p = Some n \<and> p \<noteq> [] \<longrightarrow> lookup w (butlast p) = Some DirN)"

lemma tree_okD: "tree_ok w \<Longrightarrow> lookup w p = Some n \<Longrightarrow> p \<noteq> [] \<Longrightarrow> lookup w (butlast p) = Some DirN"
  by (auto simp: tree_ok_def)

lemma tree_ok_cong: "lookup w' = lookup w \<Longrightarrow> tree_ok w' = tree_ok w"
  by (simp add: tree_ok_def)

lemma tree_ok_put:
  assumes ok: "tree_ok w" and p: "p \<noteq> []" and par: "lookup w (butlast p) = Some DirN"
    and kind: "n = DirN \<or> lookup w p \<noteq> Some DirN"
  shows "tree_ok (put_node p n w)"
proof -
  have "butlast p \<noteq> p" using p by (metis append_butlast_last_id not_Cons_self2 self_append_conv)
  moreover have "lookup w (butlast q) = Some DirN" if "lookup w q = Some m" "q \<noteq> []" for q m
    using ok that by (rule tree_okD)
  ultimately show ?thesis
    using p par kind by (auto simp: tree_ok_def lookup_put_node)
qed

lemma tree_ok_del:
  assumes ok: "tree_ok w" and p: "p \<noteq> []" and leaf: "\<And>q n. lookup w q = Some n \<Longrightarrow> q \<noteq> [] \<Longrightarrow> butlast q \<noteq> p"
  shows "tree_ok (del_node p w)"
proof -
  have "butlast q \<noteq> p \<and> lookup w (butlast q) = Some DirN" if "lookup w q = Some m" "q \<noteq> []" for q m
    using that leaf tree_okD [OF ok] by blast
  with p show ?thesis
    unfolding tree_ok_def lookup_del_node [OF p]
    by (metis fun_upd_other fun_upd_same lookup_Nil option.distinct(1))
qed

lemma child_names_Nil:
  "child_names w p = [] \<Longrightarrow> lookup w q = Some n \<Longrightarrow> q \<noteq> [] \<Longrightarrow> butlast q \<noteq> p"
proof
  assume none: "child_names w p = []" and q: "lookup w q = Some n" "q \<noteq> []" and par: "butlast q = p"
  from q have "q \<in> set (map fst (fs_files w))"
    by (auto simp: lookup_def dest!: map_of_SomeD intro: rev_image_eqI)
  with q par have "last q \<in> set (child_names w p)"
    by (auto simp: child_names_def)
  with none show False by simp
qed

subsection \<open>Every call keeps the tree well formed\<close>

lemma tree_ok_tick: "os_tick w = (r, w') \<Longrightarrow> tree_ok w' = tree_ok w"
  by (rule tree_ok_cong) (rule os_tick_lookup)

lemma tree_ok_bind_tick:
  assumes "io_bind os_tick f w = (r, w')" and "tree_ok w"
    and "\<And>w1. lookup w1 = lookup w \<Longrightarrow> tree_ok w1 \<Longrightarrow> f () w1 = (r, w') \<Longrightarrow> tree_ok w'"
  shows "tree_ok w'"
  using assms(1)
proof (cases rule: tick_bindE)
  case (fails e)
  then show ?thesis using tree_ok_tick assms(2) by blast
next
  case (runs w1)
  then show ?thesis using tree_ok_tick os_tick_lookup assms(2,3) by blast
qed

lemma tree_ok_put_file:
  assumes "tree_ok w" and "lookup w p = Some (FileN c t)"
  shows "tree_ok (put_node p (FileN c' t') w)"
  using assms lookup_file_ne [OF assms(2)] by (intro tree_ok_put) (auto dest: tree_okD)

lemma mkdir_from_tree_ok:
  "mkdir_from pre cs w = (r, w') \<Longrightarrow> tree_ok w \<Longrightarrow> lookup w pre = Some DirN \<Longrightarrow> tree_ok w'"
proof (induction pre cs w rule: mkdir_from.induct)
  case (1 pre w)
  then show ?case by simp
next
  case (2 pre c cs w)
  show ?case
  proof (cases "lookup w (pre @ [c])")
    case None
    obtain t w1 where tick: "os_tick w = (t, w1)" by (cases "os_tick w")
    have w1: "lookup w1 = lookup w" "tree_ok w1"
      using tick 2 by (auto dest: os_tick_lookup simp: tree_ok_tick)
    show ?thesis
    proof (cases t)
      case (Inl e)
      with 2 None tick w1 show ?thesis by simp
    next
      case (Inr u)
      have "tree_ok (put_node (pre @ [c]) DirN w1)"
        using w1 2 None by (intro tree_ok_put) auto
      then show ?thesis
        using 2 None tick Inr by (simp add: lookup_put_node)
    qed
  next
    case (Some n)
    with 2 show ?thesis by (cases n) simp_all
  qed
qed

lemma os_mkdir_all_tree_ok: "os_mkdir_all p w = (r, w') \<Longrightarrow> tree_ok w \<Longrightarrow> tree_ok w'"
  unfolding os_mkdir_all_def by (erule mkdir_from_tree_ok) simp_all

lemma os_create_temp_tree_ok: "os_create_temp d pre suf w = (r, w') \<Longrightarrow> tree_ok w \<Longrightarrow> tree_ok w'"
  unfolding os_create_temp_def
  by (erule tree_ok_bind_tick)
    (auto simp: Let_def intro!: tree_ok_put split: option.splits node.splits,
      metis temp_path_fresh option.distinct(1))

lemma os_write_at_tree_ok: "os_write_at p off bs w = (r, w') \<Longrightarrow> tree_ok w \<Longrightarrow> tree_ok w'"
  unfolding os_write_at_def
  by (erule tree_ok_bind_tick) (auto intro: tree_ok_put_file split: option.splits node.splits)

lemma os_copy_tree_ok: "os_copy p off r w = (n, e, w') \<Longrightarrow> tree_ok w \<Longrightarrow> tree_ok w'"
  by (auto simp: os_copy_def split: prod.splits sum.splits dest: os_write_at_tree_ok)

lemma tree_ok_del_file:
  assumes ok: "tree_ok w" and f: "lookup w p = Some (FileN c t)"
  shows "tree_ok (del_node p w)"
proof (rule tree_ok_del [OF ok lookup_file_ne [OF f]])
  fix q n
  assume "lookup w q = Some n" "q \<noteq> []"
  then show "butlast q \<noteq> p" using f tree_okD [OF ok] by fastforce
qed

lemma os_rename_tree_ok:
  assumes rn: "os_rename p q w = (r, w')" and ok: "tree_ok w"
  shows "tree_ok w'"
  using rn unfolding os_rename_def
proof (rule tree_ok_bind_tick [OF _ ok])
  fix w1 :: "'a os_state_scheme"
  assume w1: "tree_ok w1"
    and run: "(case lookup w1 p of
         None \<Rightarrow> (Inl (missing_err w1 p), w1)
       | Some DirN \<Rightarrow> (Inl (OsErr EINVAL), w1)
       | Some (FileN c t) \<Rightarrow>
           (case lookup w1 q of
              Some DirN \<Rightarrow> (Inl (OsErr EISDIR), w1)
            | _ \<Rightarrow>
                if lookup w1 (butlast q) = Some DirN
                then (Inr (), put_node q (FileN c t) (del_node p w1))
                else (Inl (missing_err w1 q), w1))) = (r, w')"
  show "tree_ok w'"
  proof (cases "w' = w1")
    case False
    then obtain c t where f: "lookup w1 p = Some (FileN c t)" "lookup w1 q \<noteq> Some DirN"
        "lookup w1 (butlast q) = Some DirN" "w' = put_node q (FileN c t) (del_node p w1)"
      using run by (auto split: option.splits node.splits if_splits)
    have p: "p \<noteq> []" and q: "q \<noteq> []" and qp: "butlast q \<noteq> p"
      using f by auto
    show ?thesis
      unfolding f(4) using f q qp
      by (intro tree_ok_put tree_ok_del_file [OF w1 f(1)]) (auto simp: lookup_del_node [OF p])
  qed (simp add: w1)
qed

lemma os_remove_tree_ok: "os_remove p w = (r, w') \<Longrightarrow> tree_ok w \<Longrightarrow> tree_ok w'"
  unfolding os_remove_def
  by (erule tree_ok_bind_tick)
    (auto intro: tree_ok_del_file tree_ok_del dest: child_names_Nil split: option.splits node.splits if_splits)

lemma os_chtimes_tree_ok: "os_chtimes p t w = (r, w') \<Longrightarrow> tree_ok w \<Longrightarrow> tree_ok w'"
  unfolding os_chtimes_def
  by (erule tree_ok_bind_tick) (auto intro: tree_ok_put_file split: option.splits node.splits)

text \<open>Below a file there is nothing.\<close>

lemma tree_ok_below_file:
  assumes "tree_ok w" and "file_at w p = Some c"
  shows "lookup w (p @ [x]) = None"
  using assms tree_okD [of w "p @ [x]"] by (cases "lookup w (p @ [x])") (auto simp: file_at_Some)

end
