(* ===== verification/Manifest.thy ===== *)
theory Manifest imports Files
begin

text \<open>
  Object manifests (src/pkg/storage/manifest.go) and the directory sync of
  src/pkg/storage/fsutil.go. A time is the number of nanoseconds since Go's zero time, so
  the zero time is 0. The JSON encoding of a manifest is the parameter \<open>json_codec\<close>: the
  program calls \<open>json.Marshal\<close> and \<open>json.Decoder.Decode\<close>, either of which can fail, and
  relies on nothing but their being inverse on the manifests it writes (\<open>json_ok\<close>).
\<close>

subsection \<open>Data\<close>

definition ManifestFilename :: string where
  "ManifestFilename = ''object.meta''"

definition ManifestFormatV1 :: string where
  "ManifestFormatV1 = ''ShardSealv1''"

record rs_params =
  rsK :: int
  rsM :: int
  rsBlockSize :: int
  rsStripeSize :: int

record part_meta =
  pmIndex :: int
  pmSize :: int
  pmETag :: string
  pmBlockCount :: int

record shard_meta =
  smPath :: string
  smContentHashAlgo :: string
  smContentHashHex :: string
  smPayloadLength :: int
  smHeaderCRC32C :: "32 word"
  smFooterCRC32C :: "32 word"

record integrity_info =
  iiObjectMerkleRoot :: string
  iiHashAlgo :: string

record manifest =
  mVersion :: string
  mBucket :: string
  mKey :: string
  mSize :: int
  mETag :: string
  mContentType :: string
  mLastModified :: int
  mParts :: "part_meta list"
  mRS :: rs_params
  mIntegrity :: integrity_info
  mShards :: "shard_meta list"

record json_codec =
  jenc :: "manifest \<Rightarrow> byte list option"
  jdec :: "byte list \<Rightarrow> manifest option"

definition json_ok :: "json_codec \<Rightarrow> manifest \<Rightarrow> bool" where
  "json_ok jc m \<longleftrightarrow> (case jenc jc m of None \<Rightarrow> False | Some bs \<Rightarrow> jdec jc bs = Some m)"

subsection \<open>Validation and construction\<close>

definition validate_basic :: "manifest \<Rightarrow> unit result" where
  "validate_basic m =
     (if mVersion m \<noteq> ManifestFormatV1 then Inl (ErrText ''invalid manifest version'')
      else if mBucket m = '''' \<or> mKey m = '''' then Inl (ErrText ''manifest requires bucket and key'')
      else if mSize m < 0 then Inl (ErrText ''manifest size negative'')
      else if rsK (mRS m) \<le> 0 \<or> rsM (mRS m) < 0 then Inl (ErrText ''invalid RS params'')
      else Inr ())"

definition new_single_shard_manifest ::
  "string \<Rightarrow> string \<Rightarrow> int \<Rightarrow> string \<Rightarrow> rs_params \<Rightarrow> shard_meta \<Rightarrow> int \<Rightarrow> manifest" where
  "new_single_shard_manifest bucket key sz etag rs shard now =
     \<lparr>mVersion = ManifestFormatV1, mBucket = bucket, mKey = key, mSize = sz, mETag = etag,
      mContentType = '''', mLastModified = now, mParts = [], mRS = rs,
      mIntegrity = \<lparr>iiObjectMerkleRoot = '''', iiHashAlgo = ''''\<rparr>, mShards = [shard]\<rparr>"

definition manifest_path :: "string \<Rightarrow> string \<Rightarrow> string \<Rightarrow> string result" where
  "manifest_path baseDir bucket key =
     (if baseDir = '''' then Inl (ErrText ''baseDir empty'')
      else Inr (join_path [baseDir, ''objects'', bucket, drop 1 (clean (CHR ''/'' # key)), ManifestFilename]))"

subsection \<open>SyncDir, SaveManifest, LoadManifest\<close>

definition sync_dir :: "fpath \<Rightarrow> (unit, 'z) io" where
  "sync_dir dir =
     io_bind (os_open dir) (\<lambda>_.
     io_defer
       (\<lambda>w. case os_sync dir w of
          (Inl e, w1) \<Rightarrow> if e = OsErr EINVAL then (Inr (), w1) else (Inl e, w1)
        | (Inr _, w1) \<Rightarrow> (Inr (), w1))
       (os_close dir))"

text \<open>The defaults \<open>SaveManifest\<close> fills in before it validates.\<close>

definition manifest_defaults :: "int \<Rightarrow> manifest \<Rightarrow> manifest" where
  "manifest_defaults now m =
     (let m1 = (if mVersion m = '''' then m\<lparr>mVersion := ManifestFormatV1\<rparr> else m)
      in if mLastModified m1 = 0 then m1\<lparr>mLastModified := now\<rparr> else m1)"

definition save_manifest_tmp :: "fpath \<Rightarrow> fpath \<Rightarrow> byte list \<Rightarrow> int \<Rightarrow> (unit, 'z) io" where
  "save_manifest_tmp dst tmp data lastModified w =
     (case and_also (if_ok (if_ok (None, w) (os_write_at tmp 0 data)) (os_sync tmp)) (os_close tmp) of
        (Some e, w1) \<Rightarrow> (Inl e, w1)
      | (None, w1) \<Rightarrow>
          io_bind (os_rename tmp dst) (\<lambda>_.
          io_bind (sync_dir (butlast dst)) (\<lambda>_ w2.
          (Inr (), io_ignore (os_chtimes dst lastModified) w2))) w1)"

definition save_manifest :: "json_codec \<Rightarrow> string \<Rightarrow> string \<Rightarrow> string \<Rightarrow> manifest \<Rightarrow> (unit, 'z) io" where
  "save_manifest jc baseDir bucket key m0 w =
     (let m = manifest_defaults (fs_clock w) m0 in
      case res_bind (validate_basic m) (\<lambda>_. manifest_path baseDir bucket key) of
        Inl e \<Rightarrow> (Inl e, w)
      | Inr path \<Rightarrow>
          (let dst = os_path path in
           io_bind (os_mkdir_all (butlast dst)) (\<lambda>_.
             case jenc jc m of
               None \<Rightarrow> io_fail (ErrText ''json'')
             | Some data \<Rightarrow>
                 io_bind (os_create_temp (butlast dst) ''.object.meta.'' ''.tmp'') (\<lambda>tmp.
                 io_defer (save_manifest_tmp dst tmp data (mLastModified m)) (os_remove tmp))) w))"

definition load_manifest :: "json_codec \<Rightarrow> string \<Rightarrow> string \<Rightarrow> string \<Rightarrow> (manifest, 'z) io" where
  "load_manifest jc baseDir bucket key w =
     (case manifest_path baseDir bucket key of
        Inl e \<Rightarrow> (Inl e, w)
      | Inr path \<Rightarrow>
          io_bind (os_open (os_path path)) (\<lambda>n.
          io_bind (io_defer (os_read_from n 0) (os_close (os_path path))) (\<lambda>bs w1.
          case jdec jc bs of
            None \<Rightarrow> (Inl (ErrText ''json''), w1)
          | Some m \<Rightarrow>
              (case validate_basic m of Inl e \<Rightarrow> (Inl e, w1) | Inr _ \<Rightarrow> (Inr m, w1)))) w)"

end
