(* ===== verification/Digest.thy ===== *)
theory Digest imports Prelude
begin

text \<open>
  The checksums and digests of Go's standard library that the sealed shard format, the
  ETags and the request signatures are made of: CRC-32C (hash/crc32, Castagnoli), SHA-256
  (crypto/sha256), MD5 (crypto/md5) and HMAC-SHA-256 (crypto/hmac), as executable functions
  on byte lists, with the lengths the code relies on and the error-detection property of
  the checksum.
\<close>

subsection \<open>CRC-32C\<close>

definition crc_bit :: "32 word \<Rightarrow> 32 word" where
  "crc_bit c = (if bit c 0 then drop_bit 1 c XOR 0x82F63B78 else drop_bit 1 c)"

definition crc_byte :: "32 word \<Rightarrow> byte \<Rightarrow> 32 word" where
  "crc_byte c b = (crc_bit ^^ 8) (c XOR ucast b)"

definition crc32c :: "byte list \<Rightarrow> 32 word" where
  "crc32c bs = NOT (foldl crc_byte (NOT 0) bs)"

lemma crc_bit_top: "bit (crc_bit c) 31 = bit c 0"
proof -
  have "bit (0x82F63B78 :: 32 word) 31" by simp
  then show ?thesis
    using bit_imp_le_length [of c 32] by (auto simp: crc_bit_def bit_drop_bit_eq bit_xor_iff)
qed

lemma crc_bit_inj: "inj crc_bit"
proof (rule injI)
  fix a b :: "32 word"
  assume eq: "crc_bit a = crc_bit b"
  then have low: "bit a 0 = bit b 0"
    by (metis crc_bit_top)
  have "drop_bit 1 a = drop_bit 1 b"
  proof (cases "bit a 0")
    case True
    with eq low have "drop_bit 1 a XOR 0x82F63B78 = drop_bit 1 b XOR 0x82F63B78"
      by (simp add: crc_bit_def)
    then have "(drop_bit 1 a XOR 0x82F63B78) XOR 0x82F63B78
        = (drop_bit 1 b XOR 0x82F63B78) XOR 0x82F63B78"
      by (rule arg_cong)
    then show ?thesis by (simp only: xor.assoc xor_self_eq xor.right_neutral)
  next
    case False
    with eq low show ?thesis by (simp add: crc_bit_def)
  qed
  show "a = b"
  proof (rule bit_word_eqI)
    fix n
    assume "n < LENGTH(32)"
    show "bit a n = bit b n"
    proof (cases n)
      case 0
      with low show ?thesis by simp
    next
      case (Suc m)
      have "bit (drop_bit 1 a) m = bit (drop_bit 1 b) m"
        using \<open>drop_bit 1 a = drop_bit 1 b\<close> by simp
      with Suc show ?thesis by (simp add: bit_drop_bit_eq)
    qed
  qed
qed

lemma xor_left_inj: "c XOR x = c XOR y \<longleftrightarrow> x = (y :: 'a::len word)"
proof
  assume "c XOR x = c XOR y"
  then have "c XOR (c XOR x) = c XOR (c XOR y)" by (rule arg_cong)
  then show "x = y" by (simp only: xor.assoc [symmetric] xor_self_eq xor.left_neutral)
qed simp

lemma crc_byte_state_inj: "inj (\<lambda>c. crc_byte c b)"
proof (rule injI)
  fix c d
  assume "crc_byte c b = crc_byte d b"
  then have "c XOR ucast b = d XOR ucast b"
    using funpow_inj [OF crc_bit_inj, of 8] by (auto simp: crc_byte_def dest: injD)
  then show "c = d"
    by (metis xor.commute xor_left_inj)
qed

lemma crc_byte_input_inj: "crc_byte c x = crc_byte c y \<Longrightarrow> x = y"
proof -
  assume "crc_byte c x = crc_byte c y"
  then have "c XOR ucast x = c XOR (ucast y :: 32 word)"
    using funpow_inj [OF crc_bit_inj, of 8] by (auto simp: crc_byte_def dest: injD)
  then have "(ucast x :: 32 word) = ucast y"
    by (simp only: xor_left_inj)
  then have "uint (ucast x :: 32 word) = uint (ucast y :: 32 word)"
    by simp
  then show "x = y"
    by (simp add: uint_up_ucast is_up word_uint_eq_iff)
qed

text \<open>The checksum changes whenever exactly one byte of the input changes.\<close>

lemma crc32c_update_neq:
  assumes "i < length bs" and "b \<noteq> bs ! i"
  shows "crc32c (bs[i := b]) \<noteq> crc32c bs"
proof -
  have "foldl crc_byte (NOT 0) (bs[i := b]) \<noteq> foldl crc_byte (NOT 0) bs"
    using crc_byte_state_inj crc_byte_input_inj assms by (rule foldl_update_neq)
  then show ?thesis
    by (simp add: crc32c_def) 
qed

text \<open>The eight bit steps written out, for evaluation on concrete bytes.\<close>

lemma crc_byte_unfold:
  "crc_byte c b =
     crc_bit (crc_bit (crc_bit (crc_bit (crc_bit (crc_bit (crc_bit (crc_bit (c XOR ucast b))))))))"
  by (simp add: crc_byte_def numeral_eq_Suc)

lemmas crc_eval = crc32c_def crc_byte_unfold crc_bit_def

lemma crc32c_check: "crc32c [0x31, 0x32, 0x33, 0x34, 0x35, 0x36, 0x37, 0x38, 0x39] = 0xE3069283"
  by (simp add: crc_eval)

subsection \<open>SHA-256\<close>

definition be_word32 :: "byte list \<Rightarrow> 32 word" where
  "be_word32 bs = foldl (\<lambda>a b. push_bit 8 a OR ucast b) 0 bs"

definition word32_be :: "32 word \<Rightarrow> byte list" where
  "word32_be w = [ucast (drop_bit 24 w), ucast (drop_bit 16 w), ucast (drop_bit 8 w), ucast w]"

definition rotr32 :: "nat \<Rightarrow> 32 word \<Rightarrow> 32 word" where
  "rotr32 n w = drop_bit n w OR push_bit (32 - n) w"

definition rotl32 :: "nat \<Rightarrow> 32 word \<Rightarrow> 32 word" where
  "rotl32 n w = push_bit n w OR drop_bit (32 - n) w"

text \<open>The bytes that complete a message of \<open>n\<close> bytes to whole 64-byte blocks.\<close>

definition pad_zeros :: "nat \<Rightarrow> nat" where
  "pad_zeros n = (119 - n mod 64) mod 64"

definition be_bytes64 :: "64 word \<Rightarrow> byte list" where
  "be_bytes64 w = map (\<lambda>i. ucast (drop_bit (8 * i) w)) [7, 6, 5, 4, 3, 2, 1, 0]"

definition sha_pad :: "byte list \<Rightarrow> byte list" where
  "sha_pad bs = bs @ 0x80 # replicate (pad_zeros (length bs)) 0 @ be_bytes64 (word_of_nat (8 * length bs))"

fun chunks :: "nat \<Rightarrow> nat \<Rightarrow> 'a list \<Rightarrow> 'a list list" where
  "chunks 0 n xs = []"
| "chunks (Suc k) n xs = take n xs # chunks k n (drop n xs)"

text \<open>The round constants of FIPS 180-4 and RFC 1321, in decimal and hexadecimal.\<close>

definition sha_k :: "32 word list" where
  "sha_k =
    [1116352408, 1899447441, 3049323471, 3921009573, 961987163, 1508970993, 2453635748,
     2870763221, 3624381080, 310598401, 607225278, 1426881987, 1925078388, 2162078206,
     2614888103, 3248222580, 3835390401, 4022224774, 264347078, 604807628, 770255983,
     1249150122, 1555081692, 1996064986, 2554220882, 2821834349, 2952996808, 3210313671,
     3336571891, 3584528711, 113926993, 338241895, 666307205, 773529912, 1294757372,
     1396182291, 1695183700, 1986661051, 2177026350, 2456956037, 2730485921, 2820302411,
     3259730800, 3345764771, 3516065817, 3600352804, 4094571909, 275423344, 430227734,
     506948616, 659060556, 883997877, 958139571, 1322822218, 1537002063, 1747873779,
     1955562222, 2024104815, 2227730452, 2361852424, 2428436474, 2756734187, 3204031479,
     3329325298]"

text \<open>The message schedule, newest word first: each new word from those 2, 7, 15 and 16 back.\<close>

definition sha_next :: "32 word list \<Rightarrow> 32 word" where
  "sha_next ws =
     (let w2 = ws ! 1; w7 = ws ! 6; w15 = ws ! 14; w16 = ws ! 15;
          s0 = rotr32 7 w15 XOR rotr32 18 w15 XOR drop_bit 3 w15;
          s1 = rotr32 17 w2 XOR rotr32 19 w2 XOR drop_bit 10 w2
      in w16 + s0 + w7 + s1)"

definition sha_schedule :: "32 word list \<Rightarrow> 32 word list" where
  "sha_schedule m = rev (((\<lambda>ws. sha_next ws # ws) ^^ 48) (rev m))"

fun sha_round :: "32 word list \<Rightarrow> 32 word \<times> 32 word \<Rightarrow> 32 word list" where
  "sha_round [a, b, c, d, e, f, g, h] (k, w) =
     (let s1 = rotr32 6 e XOR rotr32 11 e XOR rotr32 25 e;
          ch = (e AND f) XOR (NOT e AND g);
          t1 = h + s1 + ch + k + w;
          s0 = rotr32 2 a XOR rotr32 13 a XOR rotr32 22 a;
          maj = (a AND b) XOR (a AND c) XOR (b AND c);
          t2 = s0 + maj
      in [t1 + t2, a, b, c, d + t1, e, f, g])"
| "sha_round st _ = st"

definition sha_block :: "32 word list \<Rightarrow> byte list \<Rightarrow> 32 word list" where
  "sha_block st blk =
     (let ws = sha_schedule (map be_word32 (chunks 16 4 blk))
      in map2 (+) st (foldl sha_round st (zip sha_k ws)))"

definition sha_init :: "32 word list" where
  "sha_init = [0x6a09e667, 0xbb67ae85, 0x3c6ef372, 0xa54ff53a, 0x510e527f, 0x9b05688c, 0x1f83d9ab, 0x5be0cd19]"

definition sha256 :: "byte list \<Rightarrow> byte list" where
  "sha256 bs =
     (let p = sha_pad bs
      in concat (map word32_be (foldl sha_block sha_init (chunks (length p div 64) 64 p))))"

lemma length_word32_be [simp]: "length (word32_be w) = 4"
  by (simp add: word32_be_def)

lemma concat_word32_be: "length (concat (map word32_be ws)) = 4 * length ws"
  by (induction ws) auto

lemma length_sha_round [simp]: "length (sha_round st kw) = length st"
  by (induction st kw rule: sha_round.induct) (auto simp: Let_def)

lemma length_foldl_sha_round [simp]: "length (foldl sha_round st kws) = length st"
  by (induction kws arbitrary: st) auto

lemma length_sha_block [simp]: "length (sha_block st blk) = length st"
  by (simp add: sha_block_def)

lemma length_foldl_sha_block [simp]: "length (foldl sha_block st blks) = length st"
  by (induction blks arbitrary: st) auto

lemma length_sha256 [simp]: "length (sha256 bs) = 32"
  by (simp add: sha256_def concat_word32_be sha_init_def Let_def)

subsection \<open>MD5\<close>

definition md5_k :: "32 word list" where
  "md5_k =
    [0xd76aa478, 0xe8c7b756, 0x242070db, 0xc1bdceee, 0xf57c0faf, 0x4787c62a, 0xa8304613, 0xfd469501,
     0x698098d8, 0x8b44f7af, 0xffff5bb1, 0x895cd7be, 0x6b901122, 0xfd987193, 0xa679438e, 0x49b40821,
     0xf61e2562, 0xc040b340, 0x265e5a51, 0xe9b6c7aa, 0xd62f105d, 0x02441453, 0xd8a1e681, 0xe7d3fbc8,
     0x21e1cde6, 0xc33707d6, 0xf4d50d87, 0x455a14ed, 0xa9e3e905, 0xfcefa3f8, 0x676f02d9, 0x8d2a4c8a,
     0xfffa3942, 0x8771f681, 0x6d9d6122, 0xfde5380c, 0xa4beea44, 0x4bdecfa9, 0xf6bb4b60, 0xbebfbc70,
     0x289b7ec6, 0xeaa127fa, 0xd4ef3085, 0x04881d05, 0xd9d4d039, 0xe6db99e5, 0x1fa27cf8, 0xc4ac5665,
     0xf4292244, 0x432aff97, 0xab9423a7, 0xfc93a039, 0x655b59c3, 0x8f0ccc92, 0xffeff47d, 0x85845dd1,
     0x6fa87e4f, 0xfe2ce6e0, 0xa3014314, 0x4e0811a1, 0xf7537e82, 0xbd3af235, 0x2ad7d2bb, 0xeb86d391]"

definition md5_shift :: "nat \<Rightarrow> nat" where
  "md5_shift i =
     (if i < 16 then [7, 12, 17, 22] ! (i mod 4)
      else if i < 32 then [5, 9, 14, 20] ! (i mod 4)
      else if i < 48 then [4, 11, 16, 23] ! (i mod 4)
      else [6, 10, 15, 21] ! (i mod 4))"

definition md5_word :: "nat \<Rightarrow> nat" where
  "md5_word i =
     (if i < 16 then i
      else if i < 32 then (5 * i + 1) mod 16
      else if i < 48 then (3 * i + 5) mod 16
      else (7 * i) mod 16)"

definition md5_f :: "nat \<Rightarrow> 32 word \<Rightarrow> 32 word \<Rightarrow> 32 word \<Rightarrow> 32 word" where
  "md5_f i b c d =
     (if i < 16 then (b AND c) OR (NOT b AND d)
      else if i < 32 then (d AND b) OR (NOT d AND c)
      else if i < 48 then b XOR c XOR d
      else c XOR (b OR NOT d))"

fun md5_round :: "32 word list \<Rightarrow> 32 word list \<Rightarrow> nat \<Rightarrow> 32 word list" where
  "md5_round m [a, b, c, d] i =
     [d, b + rotl32 (md5_shift i) (a + md5_f i b c d + md5_k ! i + m ! md5_word i), b, c]"
| "md5_round m st i = st"

definition md5_block :: "32 word list \<Rightarrow> byte list \<Rightarrow> 32 word list" where
  "md5_block st blk =
     (let m = map le_word (chunks 16 4 blk) in map2 (+) st (foldl (md5_round m) st [0..<64]))"

definition md5 :: "byte list \<Rightarrow> byte list" where
  "md5 bs =
     (let p = bs @ 0x80 # replicate (pad_zeros (length bs)) 0 @ le_bytes 8 (word_of_nat (8 * length bs) :: 64 word)
      in concat (map (le_bytes 4)
           (foldl md5_block [0x67452301, 0xefcdab89, 0x98badcfe, 0x10325476] (chunks (length p div 64) 64 p))))"

lemma length_md5_round [simp]: "length (md5_round m st i) = length st"
  by (induction m st i rule: md5_round.induct) auto

lemma length_foldl_md5_round [simp]: "length (foldl (md5_round m) st is) = length st"
  by (induction "is" arbitrary: st) auto

lemma length_foldl_md5_block [simp]: "length (foldl md5_block st blks) = length st"
  by (induction blks arbitrary: st) (auto simp: md5_block_def Let_def)

lemma concat_le_bytes: "length (concat (map (le_bytes n) ws)) = n * length ws"
  by (induction ws) auto

lemma length_md5 [simp]: "length (md5 bs) = 16"
  by (simp add: md5_def concat_le_bytes Let_def)

subsection \<open>HMAC-SHA-256\<close>

definition hmac_key :: "byte list \<Rightarrow> byte list" where
  "hmac_key k = (let k' = (if 64 < length k then sha256 k else k) in k' @ replicate (64 - length k') 0)"

definition hmac_sha256 :: "byte list \<Rightarrow> byte list \<Rightarrow> byte list" where
  "hmac_sha256 k msg =
     (let k' = hmac_key k
      in sha256 (map (\<lambda>b. b XOR 0x5c) k' @ sha256 (map (\<lambda>b. b XOR 0x36) k' @ msg)))"

lemma length_hmac_sha256 [simp]: "length (hmac_sha256 k msg) = 32"
  by (simp add: hmac_sha256_def Let_def)

end
