(* ===== verification/Erasure.thy ===== *)
theory Erasure imports GoStrings Digest
begin

text \<open>
  Package erasure (src/pkg/erasure/rs.go): the placeholder codec that replicates the
  payload, and the sealed shard header and footer. An \<open>io.Reader\<close> that a decoder
  reads from is the list of bytes not read yet; a decoder returns what it decoded and the
  bytes it left.
\<close>

subsection \<open>Codec parameters and the replicating codec\<close>

record params =
  pK :: int
  pM :: int
  pBlockSize :: int
  pStripeSize :: int

definition new_noop :: "params \<Rightarrow> params result" where
  "new_noop p =
     (if pK p \<le> 0 then Inl (ErrText ''erasure: K must be > 0'')
      else if pM p < 0 then Inl (ErrText ''erasure: M must be >= 0'')
      else Inr p)"

text \<open>A nil slice and an empty slice are the empty list: the code tells them apart nowhere.\<close>

definition noop_encode :: "params \<Rightarrow> byte list \<Rightarrow> byte list list" where
  "noop_encode p data = map (\<lambda>i. if int i < pK p then data else []) [0..<nat (pK p + pM p)]"

fun fill_missing :: "params \<Rightarrow> byte list \<Rightarrow> byte list list \<Rightarrow> int list \<Rightarrow> byte list list result" where
  "fill_missing p donor out [] = Inr out"
| "fill_missing p donor out (idx # missing) =
     (if idx < 0 \<or> idx \<ge> int (length out) then Inl (ErrText ''erasure: missing index out of range'')
      else if idx < pK p then fill_missing p donor (out[nat idx := donor]) missing
      else fill_missing p donor out missing)"

definition noop_reconstruct :: "params \<Rightarrow> byte list list \<Rightarrow> int list \<Rightarrow> byte list list result" where
  "noop_reconstruct p shards missing =
     (if int (length shards) \<noteq> pK p + pM p then Inl (ErrText ''erasure: invalid shard count'')
      else (case find (\<lambda>s. 0 < length s) (take (nat (pK p)) shards) of
              None \<Rightarrow> Inl (ErrText ''erasure: cannot reconstruct without any surviving data shard'')
            | Some donor \<Rightarrow> fill_missing p donor shards missing))"

subsection \<open>Shard header and footer\<close>

definition shardSealMagic :: string where
  "shardSealMagic = ''ShardSealv1''"

record shard_header =
  hVersion :: "16 word"
  hHeaderSize :: "16 word"
  hPayloadLength :: "64 word"

text \<open>The fields that precede the checksum, as \<open>binary.Write\<close> lays them out.\<close>

definition header_fields :: "shard_header \<Rightarrow> byte list" where
  "header_fields h =
     string_bytes shardSealMagic @ le_bytes 2 (hVersion h) @ le_bytes 2 (hHeaderSize h) @
     le_bytes 8 (hPayloadLength h)"

definition minHeaderLen :: nat where
  "minHeaderLen = length shardSealMagic + 2 + 2 + 8 + 4"

definition default_header_size :: "shard_header \<Rightarrow> shard_header" where
  "default_header_size h = (if hHeaderSize h = 0 then h\<lparr>hHeaderSize := 28\<rparr> else h)"

definition encode_shard_header :: "shard_header \<Rightarrow> byte list result" where
  "encode_shard_header h0 =
     (let h = default_header_size h0 in
      if unat (hHeaderSize h) < minHeaderLen then Inl (ErrText ''shard: header size too small'')
      else
        (let body = header_fields h;
             buf = body @ le_bytes 4 (crc32c body)
         in Inr (buf @ replicate (unat (hHeaderSize h) - length buf) 0)))"

definition decode_shard_header :: "byte list \<Rightarrow> (shard_header \<times> byte list) result" where
  "decode_shard_header r =
     res_bind (read_full (length shardSealMagic) r) (\<lambda>(magic, r1).
     if magic \<noteq> string_bytes shardSealMagic then Inl (ErrText ''shard: invalid magic'')
     else
       res_bind (read_full 2 r1) (\<lambda>(ver, r2).
       res_bind (read_full 2 r2) (\<lambda>(hsize, r3).
       res_bind (read_full 8 r3) (\<lambda>(plen, r4).
       let h = \<lparr>hVersion = le_word ver, hHeaderSize = le_word hsize, hPayloadLength = le_word plen\<rparr>
       in res_bind (read_full 4 r4) (\<lambda>(stored, r5).
          if le_word stored \<noteq> crc32c (header_fields h) then Inl (ErrText ''shard: header CRC32C mismatch'')
          else Inr (h, r5))))))"

definition encode_shard_footer :: "byte list \<Rightarrow> byte list" where
  "encode_shard_footer contentHash = contentHash @ le_bytes 4 (crc32c contentHash)"

definition decode_shard_footer :: "byte list \<Rightarrow> (byte list \<times> byte list) result" where
  "decode_shard_footer r =
     res_bind (read_full 32 r) (\<lambda>(contentHash, r1).
     res_bind (read_full 4 r1) (\<lambda>(stored, r2).
     if le_word stored \<noteq> crc32c contentHash then Inl (ErrText ''shard: footer CRC32C mismatch'')
     else Inr (contentHash, r2)))"

text \<open>\<open>HashPayloadSHA256\<close>: the digest, the number of bytes copied and the copy's error.\<close>

definition hash_payload_sha256 :: "reader \<Rightarrow> byte list \<times> int \<times> err option" where
  "hash_payload_sha256 r = (sha256 (rd_data r), int (length (rd_data r)), rd_err r)"

subsection \<open>Layout lemmas\<close>

lemma length_magic [simp]: "length shardSealMagic = 11"
  by (simp add: shardSealMagic_def)

lemma minHeaderLen_27 [simp]: "minHeaderLen = 27"
  by (simp add: minHeaderLen_def)

lemma length_header_fields [simp]: "length (header_fields h) = 23"
  by (simp add: header_fields_def)

lemma header_fields_inj: "header_fields h = header_fields h' \<Longrightarrow> h = h'"
  by (cases h; cases h') (auto simp: header_fields_def dest!: le_bytes_inj [rotated])

lemma length_encode_shard_footer [simp]: "length (encode_shard_footer c) = length c + 4"
  by (simp add: encode_shard_footer_def)

text \<open>A decoder accepts exactly the bytes of a checksummed header, and leaves the rest.\<close>

lemma decode_shard_header_iff:
  "decode_shard_header r = Inr (h, rest) \<longleftrightarrow>
     r = header_fields h @ le_bytes 4 (crc32c (header_fields h)) @ rest"
  (is "?L \<longleftrightarrow> ?R")
proof
  assume ?L
  then obtain magic ver hsize plen stored
    where r: "r = magic @ ver @ hsize @ plen @ stored @ rest"
      and len: "length ver = 2" "length hsize = 2" "length plen = 8" "length stored = 4"
      and magic: "magic = string_bytes shardSealMagic"
      and h: "h = \<lparr>hVersion = le_word ver, hHeaderSize = le_word hsize, hPayloadLength = le_word plen\<rparr>"
      and crc: "le_word stored = crc32c (header_fields h)"
    by (auto simp: decode_shard_header_def res_bind_Inr_iff read_full_Inr Let_def split: if_splits)
  have "header_fields h = magic @ ver @ hsize @ plen"
    by (simp add: header_fields_def h magic len le_bytes_word)
  moreover have "le_bytes 4 (crc32c (header_fields h)) = stored"
    by (simp add: crc [symmetric] len le_bytes_word)
  ultimately show ?R
    by (simp add: r)
next
  assume ?R
  then show ?L
    by (cases h) (simp add: decode_shard_header_def header_fields_def le_word_bytes Let_def)
qed

lemma decode_shard_footer_iff:
  "decode_shard_footer r = Inr (c, rest) \<longleftrightarrow> length c = 32 \<and> r = encode_shard_footer c @ rest"
  (is "?L \<longleftrightarrow> ?R")
proof
  assume ?L
  then obtain stored
    where c: "length c = 32" "r = c @ stored @ rest" and len: "length stored = 4"
      and crc: "le_word stored = crc32c c"
    by (auto simp: decode_shard_footer_def res_bind_Inr_iff read_full_Inr split: if_splits)
  have "le_bytes 4 (crc32c c) = stored"
    by (simp add: crc [symmetric] len le_bytes_word)
  with c show ?R
    by (simp add: encode_shard_footer_def)
next
  assume ?R
  then show ?L
    by (simp add: decode_shard_footer_def encode_shard_footer_def le_word_bytes)
qed

lemma encode_shard_header_Inr:
  "encode_shard_header h = Inr bs \<longleftrightarrow>
     27 \<le> unat (hHeaderSize (default_header_size h)) \<and>
     bs = header_fields (default_header_size h) @
          le_bytes 4 (crc32c (header_fields (default_header_size h))) @
          replicate (unat (hHeaderSize (default_header_size h)) - 27) 0"
  by (auto simp: encode_shard_header_def Let_def)

text \<open>The one header the storage layer and the rewriter write: version 1, default size.\<close>

lemma encode_default_header:
  "encode_shard_header \<lparr>hVersion = v, hHeaderSize = 0, hPayloadLength = n\<rparr> =
     Inr (header_fields \<lparr>hVersion = v, hHeaderSize = 28, hPayloadLength = n\<rparr> @
          le_bytes 4 (crc32c (header_fields \<lparr>hVersion = v, hHeaderSize = 28, hPayloadLength = n\<rparr>)) @ [0])"
  by (simp add: encode_shard_header_Inr default_header_size_def)

lemma fill_missing_eq:
  "\<forall>idx \<in> set missing. 0 \<le> idx \<and> idx < int (length out) \<Longrightarrow>
   fill_missing p donor out missing =
     Inr (map (\<lambda>i. if int i \<in> set missing \<and> int i < pK p then donor else out ! i) [0..<length out])"
proof (induction p donor out missing rule: fill_missing.induct)
  case (1 p donor out)
  show ?case by (simp add: map_nth)
next
  case (2 p donor out idx missing)
  show ?case
  proof (cases "idx < pK p")
    case True
    have "fill_missing p donor out (idx # missing) = fill_missing p donor (out[nat idx := donor]) missing"
      using 2 True by simp
    also have "\<dots> = Inr (map (\<lambda>i. if int i \<in> set missing \<and> int i < pK p then donor
        else out[nat idx := donor] ! i) [0..<length out])"
      using 2 True by simp
    finally show ?thesis
      using 2 True by (auto simp: nth_list_update)
  next
    case False
    then show ?thesis
      using 2 by auto
  qed
qed

lemma length_noop_encode [simp]: "length (noop_encode p data) = nat (pK p + pM p)"
  by (simp add: noop_encode_def)

subsection \<open>Properties\<close>

text \<open>
  Header round trip: whatever header is encoded, decoding the encoded bytes followed by
  any payload gives back the header (with the default size filled in) and leaves the
  padding and the payload.
\<close>

lemma header_roundtrip:
  assumes "encode_shard_header h = Inr bs"
  shows "decode_shard_header (bs @ rest) = Inr (default_header_size h, drop 27 bs @ rest)"
  using assms by (auto simp: encode_shard_header_Inr decode_shard_header_iff)

lemma header_roundtrip_witness:
  "\<exists>bs. encode_shard_header \<lparr>hVersion = 1, hHeaderSize = 30, hPayloadLength = 5\<rparr> = Inr bs \<and>
     decode_shard_header (bs @ [7]) =
       Inr (default_header_size \<lparr>hVersion = 1, hHeaderSize = 30, hPayloadLength = 5\<rparr>, drop 27 bs @ [7])"
proof -
  obtain bs where bs: "encode_shard_header \<lparr>hVersion = 1, hHeaderSize = 30, hPayloadLength = 5\<rparr> = Inr bs"
    by (simp add: encode_shard_header_def default_header_size_def Let_def)
  from bs header_roundtrip [OF bs, of "[7]"] show ?thesis by blast
qed

text \<open>
  C38. Header corruption is detected: after one byte of the 27 checksummed bytes (magic,
  version, size, payload length, checksum) is changed to anything else, the decoder
  returns an error, whatever follows the header.
\<close>

theorem header_corruption_detected:
  assumes enc: "encode_shard_header h = Inr bs" and i: "i < 27" and b: "b \<noteq> bs ! i"
  shows "\<exists>e. decode_shard_header (bs[i := b] @ rest) = Inl e"
proof (rule ccontr)
  let ?f = "header_fields (default_header_size h)"
  assume "\<nexists>e. decode_shard_header (bs[i := b] @ rest) = Inl e"
  then obtain h' r where "decode_shard_header (bs[i := b] @ rest) = Inr (h', r)"
    by (cases "decode_shard_header (bs[i := b] @ rest)") auto
  then have dec: "bs[i := b] @ rest = header_fields h' @ le_bytes 4 (crc32c (header_fields h')) @ r"
    by (simp add: decode_shard_header_iff)
  obtain pad where bs: "bs = ?f @ le_bytes 4 (crc32c ?f) @ pad"
    using enc by (auto simp: encode_shard_header_Inr)
  show False
  proof (cases "i < 23")
    case True
    with dec bs have "?f[i := b] = header_fields h'"
      and "le_bytes 4 (crc32c ?f) = le_bytes 4 (crc32c (header_fields h'))"
      by (auto simp: list_update_append)
    then have "crc32c (?f[i := b]) = crc32c ?f"
      by (auto dest!: le_bytes_inj [rotated])
    moreover have "b \<noteq> ?f ! i"
      using b True bs by (simp add: nth_append)
    ultimately show False
      using crc32c_update_neq [of i ?f b] True by simp
  next
    case False
    have i4: "i - 23 < 4" using i by arith
    with False dec bs i have "?f = header_fields h'"
      and "(le_bytes 4 (crc32c ?f))[i - 23 := b] = le_bytes 4 (crc32c (header_fields h'))"
      by (auto simp: list_update_append)
    then have "(le_bytes 4 (crc32c ?f))[i - 23 := b] ! (i - 23) = le_bytes 4 (crc32c ?f) ! (i - 23)"
      by simp
    with False i i4 b bs show False
      by (simp add: nth_append)
  qed
qed

text \<open>
  Footer round trip and exactness: the footer decoder accepts a byte stream if and only
  if it starts with an encoded footer of a 32-byte hash, and then returns that hash.
\<close>

lemma footer_decode_exact:
  "decode_shard_footer r = Inr (c, rest) \<longleftrightarrow> length c = 32 \<and> r = encode_shard_footer c @ rest"
  by (rule decode_shard_footer_iff)

text \<open>
  Footer corruption is detected: after one byte of an encoded footer is changed to
  anything else, the decoder returns an error, whatever follows the footer.
\<close>

lemma footer_corruption_detected:
  assumes c: "length c = 32" and i: "i < 36" and b: "b \<noteq> encode_shard_footer c ! i"
  shows "\<exists>e. decode_shard_footer ((encode_shard_footer c)[i := b] @ rest) = Inl e"
proof (rule ccontr)
  assume "\<nexists>e. decode_shard_footer ((encode_shard_footer c)[i := b] @ rest) = Inl e"
  then obtain c' r where "decode_shard_footer ((encode_shard_footer c)[i := b] @ rest) = Inr (c', r)"
    by (cases "decode_shard_footer ((encode_shard_footer c)[i := b] @ rest)") auto
  then have c': "length c' = 32" and dec: "(encode_shard_footer c)[i := b] @ rest = encode_shard_footer c' @ r"
    by (auto simp: decode_shard_footer_iff)
  then have eq: "(encode_shard_footer c)[i := b] = encode_shard_footer c'"
    using c by simp
  show False
  proof (cases "i < 32")
    case True
    with eq c c' have "c[i := b] = c'" and "le_bytes 4 (crc32c c) = le_bytes 4 (crc32c c')"
      by (auto simp: encode_shard_footer_def list_update_append)
    then have "crc32c (c[i := b]) = crc32c c"
      by (auto dest!: le_bytes_inj [rotated])
    moreover have "b \<noteq> c ! i"
      using b True c by (simp add: encode_shard_footer_def nth_append)
    ultimately show False
      using crc32c_update_neq [of i c b] True c by simp
  next
    case False
    have i4: "i - 32 < 4" using i by arith
    with False eq c c' have "c = c'" and "(le_bytes 4 (crc32c c))[i - 32 := b] = le_bytes 4 (crc32c c')"
      by (auto simp: encode_shard_footer_def list_update_append)
    then have "(le_bytes 4 (crc32c c))[i - 32 := b] ! (i - 32) = le_bytes 4 (crc32c c) ! (i - 32)"
      by simp
    with False i4 b c show False
      by (simp add: encode_shard_footer_def nth_append)
  qed
qed

text \<open>
  The replicating codec repairs every loss it can: from the encoded shards with any set
  of positions erased, as long as one data shard of a non-empty payload survives,
  reconstruction of the erased positions gives back exactly the encoded shards.
\<close>

lemma noop_reconstruct_encode:
  assumes p: "new_noop p0 = Inr p" and data: "data \<noteq> []"
    and rng: "\<forall>idx \<in> set missing. 0 \<le> idx \<and> idx < pK p + pM p"
    and survivor: "int j < pK p" "int j \<notin> set missing"
    and shards: "shards = map (\<lambda>i. if int i \<in> set missing then [] else noop_encode p data ! i) [0..<nat (pK p + pM p)]"
  shows "noop_reconstruct p shards missing = Inr (noop_encode p data)"
proof -
  have KM: "0 < pK p" "0 \<le> pM p"
    using p by (auto simp: new_noop_def split: if_splits)
  have len: "length shards = nat (pK p + pM p)"
    by (simp add: shards)
  have at: "shards ! i = (if int i \<in> set missing then [] else if int i < pK p then data else [])"
    if "i < nat (pK p + pM p)" for i
    using that by (simp add: shards noop_encode_def)
  have "\<exists>s \<in> set (take (nat (pK p)) shards). 0 < length s"
    using survivor KM data len at [of j]
    by (intro bexI [of _ "shards ! j"]) (auto simp: in_set_conv_nth intro!: exI [of _ j])
  then obtain donor where donor: "find (\<lambda>s. 0 < length s) (take (nat (pK p)) shards) = Some donor"
    by (cases "find (\<lambda>s. 0 < length s) (take (nat (pK p)) shards)") (auto simp: find_None_iff)
  then obtain i where i: "i < length (take (nat (pK p)) shards)" "0 < length (shards ! i)" "donor = shards ! i"
    by (auto simp: find_Some_iff)
  then have "donor = data"
    using at [of i] len by (auto split: if_splits)
  with donor len KM rng show ?thesis
    by (auto simp: noop_reconstruct_def fill_missing_eq noop_encode_def at intro!: map_cong)
qed

theorem header_corruption_detected_witness:
  "\<exists>bs e. encode_shard_header \<lparr>hVersion = 1, hHeaderSize = 0, hPayloadLength = 5\<rparr> = Inr bs \<and>
     (0x54 :: byte) \<noteq> bs ! 0 \<and> decode_shard_header (bs[0 := 0x54] @ [1, 2]) = Inl e"
proof -
  obtain bs where bs: "encode_shard_header \<lparr>hVersion = 1, hHeaderSize = 0, hPayloadLength = 5\<rparr> = Inr bs"
    by (simp add: encode_default_header)
  then have "(0x54 :: byte) \<noteq> bs ! 0"
    by (auto simp: encode_default_header header_fields_def shardSealMagic_def string_bytes_def)
  with bs header_corruption_detected [OF bs, of 0 "0x54" "[1, 2]"] show ?thesis
    by simp
qed

end
