(* ===== verification/LocalFS.thy ===== *)
theory LocalFS imports Manifest Erasure
begin

text \<open>
  The local object store (src/pkg/storage/localfs.go): plain objects as files, sealed
  objects as a shard file and a manifest. The state extends the operating system's with
  what the store emits: the observations of the metrics observer and the repair items
  handed to the repair callback.
\<close>

subsection \<open>State\<close>

datatype observer = NoObs | PlainObs | SealedObs

record localfs =
  lBase :: string
  lSealed :: bool
  lVerify :: bool
  lObs :: observer
  lRepCb :: bool

text \<open>An observation: operation, bytes, whether an error was passed; for the sealed kind
  also the sealed and integrity-failure flags.\<close>

datatype obs_event =
    Obs string int bool
  | ObsSealed string int bool bool bool

record storage_repair =
  srBucket :: string
  srKey :: string
  srShardPath :: string
  srReason :: string
  srPriority :: int
  srDiscovered :: int

record world = os_state +
  obs_log :: "obs_event list"
  repairs :: "storage_repair list"

text \<open>\<open>filepath.Abs\<close> relative to the working directory.\<close>

definition abs_path :: "string \<Rightarrow> string \<Rightarrow> string" where
  "abs_path cwd p = (if is_rooted p then clean p else join_path [cwd, p])"

definition new_localfs :: "string \<Rightarrow> string list \<Rightarrow> world \<Rightarrow> localfs result \<times> world" where
  "new_localfs cwd dirs w =
     (case find (\<lambda>d. d \<noteq> '''') dirs of
        None \<Rightarrow> (Inl (ErrText ''no data directory configured''), w)
      | Some d \<Rightarrow>
          (let a = abs_path cwd d in
           case os_mkdir_all (os_path a) w of
             (Inl e, w1) \<Rightarrow> (Inl e, w1)
           | (Inr _, w1) \<Rightarrow>
               (Inr \<lparr>lBase = a, lSealed = False, lVerify = False, lObs = NoObs, lRepCb = False\<rparr>, w1)))"

definition set_observer :: "observer \<Rightarrow> localfs \<Rightarrow> localfs" where
  "set_observer o1 l = l\<lparr>lObs := o1\<rparr>"

definition set_repair_callback :: "bool \<Rightarrow> localfs \<Rightarrow> localfs" where
  "set_repair_callback cb l = l\<lparr>lRepCb := cb\<rparr>"

definition set_sealed :: "bool \<Rightarrow> bool \<Rightarrow> localfs \<Rightarrow> localfs" where
  "set_sealed enabled verifyOnRead l = l\<lparr>lSealed := enabled, lVerify := verifyOnRead\<rparr>"

definition observe :: "localfs \<Rightarrow> string \<Rightarrow> int \<Rightarrow> bool \<Rightarrow> world \<Rightarrow> world" where
  "observe l op n failed w =
     (if lObs l = NoObs then w else w\<lparr>obs_log := obs_log w @ [Obs op n failed]\<rparr>)"

definition observe_sealed :: "localfs \<Rightarrow> string \<Rightarrow> int \<Rightarrow> bool \<Rightarrow> bool \<Rightarrow> bool \<Rightarrow> world \<Rightarrow> world" where
  "observe_sealed l op n failed sealed integrityFail w =
     (case lObs l of
        NoObs \<Rightarrow> w
      | PlainObs \<Rightarrow> w\<lparr>obs_log := obs_log w @ [Obs op n failed]\<rparr>
      | SealedObs \<Rightarrow> w\<lparr>obs_log := obs_log w @ [Obs op n failed, ObsSealed op n failed sealed integrityFail]\<rparr>)"

definition enqueue_repair :: "localfs \<Rightarrow> string \<Rightarrow> string \<Rightarrow> string \<Rightarrow> string \<Rightarrow> world \<Rightarrow> world" where
  "enqueue_repair l bucket key shardPath reason w =
     (if \<not> lRepCb l then w
      else w\<lparr>repairs := repairs w @
        [\<lparr>srBucket = bucket, srKey = key, srShardPath = shardPath, srReason = reason,
          srPriority = 0, srDiscovered = fs_clock w\<rparr>]\<rparr>)"

text \<open>An error return preceded by its observation.\<close>

definition fail_obs :: "localfs \<Rightarrow> string \<Rightarrow> int \<Rightarrow> err \<Rightarrow> world \<Rightarrow> 'a result \<times> world" where
  "fail_obs l op n e w = (Inl e, observe l op n True w)"

subsection \<open>Object paths\<close>

text \<open>The escape check: the cleaned path has the cleaned base directory as a prefix.\<close>

definition under_base :: "string \<Rightarrow> string \<Rightarrow> bool" where
  "under_base base p \<longleftrightarrow> has_prefix (clean p @ ''/'') (clean base @ ''/'')"

definition object_path :: "localfs \<Rightarrow> string \<Rightarrow> string \<Rightarrow> string result" where
  "object_path l bucket key =
     (if bucket = '''' then Inl (ErrText ''empty bucket'')
      else
        (let p = join_path [lBase l, ''objects'', bucket, clean_key key]
         in if under_base (lBase l) p then Inr p else Inl (ErrText ''invalid object path'')))"

subsection \<open>Put\<close>

text \<open>Filling and publishing the temporary file of a plain object.\<close>

definition put_plain_tmp :: "localfs \<Rightarrow> fpath \<Rightarrow> fpath \<Rightarrow> reader \<Rightarrow> world \<Rightarrow> (string \<times> int) result \<times> world" where
  "put_plain_tmp l path tmp r w =
     (case os_copy tmp 0 r w of
        (n, copyErr, w1) \<Rightarrow>
          (case and_also (if_ok (copyErr, w1) (os_sync tmp)) (os_close tmp) of
             (Some e, w2) \<Rightarrow> fail_obs l ''put'' (int n) e w2
           | (None, w2) \<Rightarrow>
               (case os_rename tmp path w2 of
                  (Inl e, w3) \<Rightarrow> fail_obs l ''put'' (int n) e w3
                | (Inr _, w3) \<Rightarrow>
                    (Inr (hex_encode (md5 (rd_data r)), int n),
                     observe l ''put'' (int n) False (io_ignore (os_chtimes path (fs_clock w3)) w3)))))"

definition put_plain :: "localfs \<Rightarrow> string \<Rightarrow> string \<Rightarrow> reader \<Rightarrow> world \<Rightarrow> (string \<times> int) result \<times> world" where
  "put_plain l bucket key r w =
     (case object_path l bucket key of
        Inl e \<Rightarrow> fail_obs l ''put'' 0 e w
      | Inr p \<Rightarrow>
          (let path = os_path p in
           case os_mkdir_all (butlast path) w of
             (Inl e, w1) \<Rightarrow> fail_obs l ''put'' 0 e w1
           | (Inr _, w1) \<Rightarrow>
               (case os_create_temp (butlast path) ''.put-'' '''' w1 of
                  (Inl e, w2) \<Rightarrow> fail_obs l ''put'' 0 e w2
                | (Inr tmp, w2) \<Rightarrow> io_defer (put_plain_tmp l path tmp r) (os_remove tmp) w2)))"

text \<open>The header of a sealed shard: version 1, size left to the encoder, payload length.\<close>

definition seal_header :: "int \<Rightarrow> byte list result" where
  "seal_header n = encode_shard_header \<lparr>hVersion = 1, hHeaderSize = 0, hPayloadLength = word_of_int n\<rparr>"

text \<open>\<open>binary.LittleEndian.Uint32(b[len(b)-4:])\<close>, when there are four bytes.\<close>

definition last4_le :: "byte list \<Rightarrow> 32 word" where
  "last4_le b = (if 4 \<le> length b then le_word (drop (length b - 4) b) else 0)"

definition headerReserve :: nat where
  "headerReserve = 28"

text \<open>The shard description and the manifest written after a sealed shard is in place.\<close>

definition sealed_shard_meta :: "string \<Rightarrow> string \<Rightarrow> reader \<Rightarrow> byte list \<Rightarrow> byte list \<Rightarrow> shard_meta" where
  "sealed_shard_meta bucket cleanKey r headerBytes footerBytes =
     \<lparr>smPath = join_path [''objects'', bucket, cleanKey, ''data.ss1''],
      smContentHashAlgo = ''sha256'',
      smContentHashHex = hex_encode (sha256 (rd_data r)),
      smPayloadLength = int (length (rd_data r)),
      smHeaderCRC32C = last4_le headerBytes,
      smFooterCRC32C = last4_le footerBytes\<rparr>"

definition put_sealed_publish ::
  "localfs \<Rightarrow> json_codec \<Rightarrow> string \<Rightarrow> string \<Rightarrow> fpath \<Rightarrow> reader \<Rightarrow> int \<Rightarrow> byte list \<Rightarrow> world \<Rightarrow> (string \<times> int) result \<times> world" where
  "put_sealed_publish l jc bucket key finalPath r n headerBytes w0 =
     (let w = io_ignore (os_chtimes finalPath (fs_clock w0)) w0;
          etag = hex_encode (md5 (rd_data r));
          shard = sealed_shard_meta bucket (clean_key key) r headerBytes (encode_shard_footer (sha256 (rd_data r)));
          man = new_single_shard_manifest bucket key n etag
                  \<lparr>rsK = 1, rsM = 0, rsBlockSize = 0, rsStripeSize = 0\<rparr> shard (fs_clock w)
      in case save_manifest jc (lBase l) bucket key man w of
           (Inl e, w1) \<Rightarrow> fail_obs l ''put'' n e (io_ignore (os_remove finalPath) w1)
         | (Inr _, w1) \<Rightarrow> (Inr (etag, n), observe_sealed l ''put'' n False True False w1))"

definition put_sealed_tmp ::
  "localfs \<Rightarrow> json_codec \<Rightarrow> string \<Rightarrow> string \<Rightarrow> fpath \<Rightarrow> fpath \<Rightarrow> reader \<Rightarrow> world \<Rightarrow> (string \<times> int) result \<times> world" where
  "put_sealed_tmp l jc bucket key odir tmp r w =
     (case os_write_at tmp 0 (replicate headerReserve 0) w of
        (Inl e, w1) \<Rightarrow> fail_obs l ''put'' 0 e (io_ignore (os_close tmp) w1)
      | (Inr _, w1) \<Rightarrow>
          (case os_copy tmp headerReserve r w1 of
             (n, copyErr, w2) \<Rightarrow>
               (let s1 = if_ok (copyErr, w2) (os_sync tmp);
                    s2 = if_ok s1 (os_write_at tmp (headerReserve + n) (encode_shard_footer (sha256 (rd_data r))));
                    s3 = if_ok s2 (os_sync tmp);
                    s4 = (case seal_header (int n) of
                            Inl e \<Rightarrow> (case s3 of (None, w3) \<Rightarrow> (Some e, w3) | _ \<Rightarrow> s3)
                          | Inr hdr \<Rightarrow> if_ok (if_ok s3 (os_write_at tmp 0 hdr)) (os_sync tmp))
                in case and_also s4 (os_close tmp) of
                     (Some e, w4) \<Rightarrow> fail_obs l ''put'' (int n) e w4
                   | (None, w4) \<Rightarrow>
                       (case os_rename tmp (odir @ [''data.ss1'']) w4 of
                          (Inl e, w5) \<Rightarrow> fail_obs l ''put'' (int n) e w5
                        | (Inr _, w5) \<Rightarrow>
                            put_sealed_publish l jc bucket key (odir @ [''data.ss1'']) r (int n)
                              (case seal_header (int n) of Inl _ \<Rightarrow> [] | Inr hdr \<Rightarrow> hdr) w5))))"

definition put_sealed ::
  "localfs \<Rightarrow> json_codec \<Rightarrow> string \<Rightarrow> string \<Rightarrow> reader \<Rightarrow> world \<Rightarrow> (string \<times> int) result \<times> world" where
  "put_sealed l jc bucket key r w =
     (if bucket = '''' then fail_obs l ''put'' 0 (ErrText ''empty bucket'') w
      else
        (let odir = join_path [lBase l, ''objects'', bucket, clean_key key] in
         if \<not> under_base (lBase l) odir then fail_obs l ''put'' 0 (ErrText ''invalid object path'') w
         else
           (case os_mkdir_all (os_path odir) w of
              (Inl e, w1) \<Rightarrow> fail_obs l ''put'' 0 e w1
            | (Inr _, w1) \<Rightarrow>
                (case os_create_temp (os_path odir) ''.put-'' ''.ss1.tmp'' w1 of
                   (Inl e, w2) \<Rightarrow> fail_obs l ''put'' 0 e w2
                 | (Inr tmp, w2) \<Rightarrow>
                     io_defer (put_sealed_tmp l jc bucket key (os_path odir) tmp r) (os_remove tmp) w2))))"

definition put :: "localfs \<Rightarrow> json_codec \<Rightarrow> string \<Rightarrow> string \<Rightarrow> reader \<Rightarrow> world \<Rightarrow> (string \<times> int) result \<times> world" where
  "put l jc bucket key r w =
     (if \<not> lSealed l then put_plain l bucket key r w else put_sealed l jc bucket key r w)"

subsection \<open>Reading shards\<close>

text \<open>\<open>File.Seek\<close> from the start of a file: a negative offset is invalid.\<close>

definition os_seek :: "int \<Rightarrow> (nat, 'z) io" where
  "os_seek off =
     io_bind os_tick (\<lambda>_ w. if off < 0 then (Inl (OsErr EINVAL), w) else (Inr (nat off), w))"

text \<open>\<open>DecodeShardHeader\<close> and \<open>DecodeShardFooter\<close> reading an open file from an offset.\<close>

definition read_header :: "node \<Rightarrow> nat \<Rightarrow> (shard_header, 'z) io" where
  "read_header n off =
     io_bind (os_read_from n off) (\<lambda>bs w.
       case decode_shard_header bs of Inl e \<Rightarrow> (Inl e, w) | Inr (h, _) \<Rightarrow> (Inr h, w))"

definition read_footer :: "node \<Rightarrow> nat \<Rightarrow> (byte list, 'z) io" where
  "read_footer n off =
     io_bind (os_read_from n off) (\<lambda>bs w.
       case decode_shard_footer bs of Inl e \<Rightarrow> (Inl e, w) | Inr (c, _) \<Rightarrow> (Inr c, w))"

text \<open>\<open>io.CopyN\<close> from an open file: exactly \<open>n\<close> bytes, none when \<open>n\<close> is not positive.\<close>

definition read_n :: "node \<Rightarrow> nat \<Rightarrow> int \<Rightarrow> (byte list, 'z) io" where
  "read_n f off n =
     (if n \<le> 0 then io_return []
      else io_bind (os_read_from f off) (\<lambda>bs w.
        if nat n \<le> length bs then (Inr (take (nat n) bs), w) else (Inl ErrEOF, w)))"

text \<open>\<open>int64(hdr.HeaderSize)\<close>, \<open>int64(hdr.PayloadLength)\<close> and their wrapping 64-bit sum.\<close>

definition header_off :: "shard_header \<Rightarrow> nat" where
  "header_off h = unat (hHeaderSize h)"

definition payload_len :: "shard_header \<Rightarrow> int" where
  "payload_len h = sint (hPayloadLength h)"

definition footer_off :: "shard_header \<Rightarrow> int" where
  "footer_off h = sint (ucast (hHeaderSize h) + hPayloadLength h :: 64 word)"

text \<open>\<open>io.NewSectionReader\<close>: a negative length makes the section run to the end.\<close>

definition section_bytes :: "byte list \<Rightarrow> nat \<Rightarrow> int \<Rightarrow> byte list" where
  "section_bytes c off n = (if n < 0 then drop off c else take (nat n) (drop off c))"

fun node_bytes :: "node \<Rightarrow> byte list" where
  "node_bytes (FileN c _) = c"
| "node_bytes DirN = []"

fun node_mtime :: "node \<Rightarrow> int" where
  "node_mtime (FileN _ t) = t"
| "node_mtime DirN = 0"

definition node_size :: "node \<Rightarrow> int" where
  "node_size n = int (length (node_bytes n))"

subsection \<open>Get\<close>

text \<open>What \<open>Get\<close> hands out: the bytes its reader delivers, size, ETag, modification time.\<close>

record get_result =
  grBody :: "byte list"
  grSize :: int
  grETag :: string
  grModified :: int

text \<open>The outcome of the checks on read: an I/O error, or an integrity failure.\<close>

datatype check = CheckOk | CheckErr err | CheckBad

definition shard_file :: "localfs \<Rightarrow> shard_meta \<Rightarrow> fpath" where
  "shard_file l shard = os_path (join_path [lBase l, smPath shard])"

definition verify_payload :: "node \<Rightarrow> shard_header \<Rightarrow> byte list \<Rightarrow> world \<Rightarrow> check \<times> world" where
  "verify_payload f h contentHash w =
     (case os_seek (int (header_off h)) w of
        (Inl e, w1) \<Rightarrow> (CheckErr e, w1)
      | (Inr off, w1) \<Rightarrow>
          (case read_n f off (payload_len h) w1 of
             (Inl e, w2) \<Rightarrow> (CheckBad, w2)
           | (Inr bs, w2) \<Rightarrow> (if sha256 bs = contentHash then CheckOk else CheckBad, w2)))"

definition verify_on_read :: "node \<Rightarrow> shard_meta \<Rightarrow> shard_header \<Rightarrow> world \<Rightarrow> check \<times> world" where
  "verify_on_read f shard h w =
     (case os_seek (footer_off h) w of
        (Inl e, w1) \<Rightarrow> (CheckErr e, w1)
      | (Inr off, w1) \<Rightarrow>
          (case read_footer f off w1 of
             (Inl e, w2) \<Rightarrow> (CheckBad, w2)
           | (Inr contentHash, w2) \<Rightarrow>
               (if hex_decode (smContentHashHex shard) = Some contentHash
                then verify_payload f h contentHash w2
                else (CheckBad, w2))))"

definition integrity_fail :: "localfs \<Rightarrow> string \<Rightarrow> string \<Rightarrow> string \<Rightarrow> string \<Rightarrow> world \<Rightarrow> 'a result \<times> world" where
  "integrity_fail l op bucket key shardPath w =
     (Inl ErrIntegrity,
      observe_sealed l op 0 True True True (enqueue_repair l bucket key shardPath ''read_integrity_fail'' w))"

definition get_sealed ::
  "localfs \<Rightarrow> string \<Rightarrow> string \<Rightarrow> manifest \<Rightarrow> shard_meta \<Rightarrow> world \<Rightarrow> get_result result \<times> world" where
  "get_sealed l bucket key m shard w =
     (let sp = shard_file l shard in
      case os_open sp w of
        (Inl e, w1) \<Rightarrow> fail_obs l ''get'' 0 e w1
      | (Inr f, w1) \<Rightarrow>
          (case os_seek 0 w1 of
             (Inl e, w2) \<Rightarrow> fail_obs l ''get'' 0 e (io_ignore (os_close sp) w2)
           | (Inr off, w2) \<Rightarrow>
               (case read_header f off w2 of
                  (Inl e, w3) \<Rightarrow>
                    fail_obs l ''get'' 0 e
                      (enqueue_repair l bucket key (smPath shard) ''read_integrity_fail'' (io_ignore (os_close sp) w3))
                | (Inr h, w3) \<Rightarrow>
                    (case (if lVerify l then verify_on_read f shard h w3 else (CheckOk, w3)) of
                       (CheckErr e, w4) \<Rightarrow> fail_obs l ''get'' 0 e (io_ignore (os_close sp) w4)
                     | (CheckBad, w4) \<Rightarrow>
                         integrity_fail l ''get'' bucket key (smPath shard) (io_ignore (os_close sp) w4)
                     | (CheckOk, w4) \<Rightarrow>
                         (Inr \<lparr>grBody = section_bytes (node_bytes f) (header_off h) (payload_len h),
                               grSize = payload_len h, grETag = mETag m, grModified = mLastModified m\<rparr>,
                          observe_sealed l ''get'' (payload_len h) False True False w4)))))"

text \<open>\<open>md5File\<close>\<close>

definition md5_file :: "fpath \<Rightarrow> (string, 'z) io" where
  "md5_file path =
     io_bind (os_open path) (\<lambda>f.
     io_bind (io_defer (os_read_from f 0) (os_close path)) (\<lambda>bs.
     io_return (hex_encode (md5 bs))))"

definition get_plain :: "localfs \<Rightarrow> string \<Rightarrow> string \<Rightarrow> world \<Rightarrow> get_result result \<times> world" where
  "get_plain l bucket key w =
     (case object_path l bucket key of
        Inl e \<Rightarrow> fail_obs l ''get'' 0 e w
      | Inr p \<Rightarrow>
          (let path = os_path p in
           case os_stat path w of
             (Inl e, w1) \<Rightarrow> fail_obs l ''get'' 0 e w1
           | (Inr st, w1) \<Rightarrow>
               (case os_open path w1 of
                  (Inl e, w2) \<Rightarrow> fail_obs l ''get'' 0 e w2
                | (Inr f, w2) \<Rightarrow>
                    (case md5_file path w2 of
                       (Inl e, w3) \<Rightarrow> fail_obs l ''get'' 0 e (io_ignore (os_close path) w3)
                     | (Inr etag, w3) \<Rightarrow>
                         (Inr \<lparr>grBody = node_bytes f, grSize = node_size st, grETag = etag,
                               grModified = node_mtime st\<rparr>,
                          observe l ''get'' (node_size st) False w3)))))"

text \<open>The manifest that makes an object a sealed one: it loads and lists a shard.\<close>

definition sealed_manifest ::
  "localfs \<Rightarrow> json_codec \<Rightarrow> string \<Rightarrow> string \<Rightarrow> world \<Rightarrow> (manifest \<times> shard_meta) option \<times> world" where
  "sealed_manifest l jc bucket key w =
     (case load_manifest jc (lBase l) bucket key w of
        (Inl e, w1) \<Rightarrow> (None, w1)
      | (Inr m, w1) \<Rightarrow> (case mShards m of [] \<Rightarrow> (None, w1) | shard # _ \<Rightarrow> (Some (m, shard), w1)))"

definition get :: "localfs \<Rightarrow> json_codec \<Rightarrow> string \<Rightarrow> string \<Rightarrow> world \<Rightarrow> get_result result \<times> world" where
  "get l jc bucket key w =
     (case sealed_manifest l jc bucket key w of
        (Some (m, shard), w1) \<Rightarrow> get_sealed l bucket key m shard w1
      | (None, w1) \<Rightarrow> get_plain l bucket key w1)"

subsection \<open>Head\<close>

definition head_integrity_fail ::
  "localfs \<Rightarrow> string \<Rightarrow> string \<Rightarrow> string \<Rightarrow> world \<Rightarrow> 'a result \<times> world" where
  "head_integrity_fail l bucket key shardPath w =
     (Inl ErrIntegrity,
      enqueue_repair l bucket key shardPath ''read_integrity_fail'' (observe_sealed l ''head'' 0 True True True w))"

definition head_verify :: "localfs \<Rightarrow> string \<Rightarrow> string \<Rightarrow> shard_meta \<Rightarrow> world \<Rightarrow> unit result \<times> world" where
  "head_verify l bucket key shard w =
     (let sp = shard_file l shard in
      case os_open sp w of
        (Inl e, w1) \<Rightarrow> fail_obs l ''head'' 0 e w1
      | (Inr f, w1) \<Rightarrow>
          (case os_seek 0 w1 of
             (Inl e, w2) \<Rightarrow> fail_obs l ''head'' 0 e (io_ignore (os_close sp) w2)
           | (Inr off, w2) \<Rightarrow>
               (case read_header f off w2 of
                  (Inl e, w3) \<Rightarrow>
                    head_integrity_fail l bucket key (smPath shard) (io_ignore (os_close sp) w3)
                | (Inr h, w3) \<Rightarrow>
                    (case os_seek (footer_off h) w3 of
                       (Inl e, w4) \<Rightarrow> fail_obs l ''head'' 0 e (io_ignore (os_close sp) w4)
                     | (Inr foff, w4) \<Rightarrow>
                         (case read_footer f foff w4 of
                            (Inl e, w5) \<Rightarrow>
                              head_integrity_fail l bucket key (smPath shard) (io_ignore (os_close sp) w5)
                          | (Inr contentHash, w5) \<Rightarrow>
                              (let w6 = io_ignore (os_close sp) w5 in
                               if hex_decode (smContentHashHex shard) = Some contentHash then (Inr (), w6)
                               else head_integrity_fail l bucket key (smPath shard) w6))))))"

definition head :: "localfs \<Rightarrow> json_codec \<Rightarrow> string \<Rightarrow> string \<Rightarrow> world \<Rightarrow> (int \<times> string \<times> int) result \<times> world" where
  "head l jc bucket key w =
     (case sealed_manifest l jc bucket key w of
        (Some (m, shard), w1) \<Rightarrow>
          (case (if lVerify l then head_verify l bucket key shard w1 else (Inr (), w1)) of
             (Inl e, w2) \<Rightarrow> (Inl e, w2)
           | (Inr _, w2) \<Rightarrow> (Inr (mSize m, mETag m, mLastModified m), observe l ''head'' 0 False w2))
      | (None, w1) \<Rightarrow>
          (case object_path l bucket key of
             Inl e \<Rightarrow> fail_obs l ''head'' 0 e w1
           | Inr p \<Rightarrow>
               (case os_stat (os_path p) w1 of
                  (Inl e, w2) \<Rightarrow> fail_obs l ''head'' 0 e w2
                | (Inr st, w2) \<Rightarrow>
                    (case md5_file (os_path p) w2 of
                       (Inl e, w3) \<Rightarrow> fail_obs l ''head'' 0 e w3
                     | (Inr etag, w3) \<Rightarrow>
                         (Inr (node_size st, etag, node_mtime st), observe l ''head'' 0 False w3)))))"

subsection \<open>Delete\<close>

text \<open>Removing the directories left empty, up to the bucket's.\<close>

function remove_empty_parents :: "fpath \<Rightarrow> fpath \<Rightarrow> 'z os_state_scheme \<Rightarrow> 'z os_state_scheme" where
  "remove_empty_parents dir stop w =
     (if dir = stop \<or> dir = [] then w
      else
        (case os_read_dir dir w of
           (Inl e, w1) \<Rightarrow> w1
         | (Inr es, w1) \<Rightarrow>
             if es \<noteq> [] then w1
             else
               (case os_remove dir w1 of
                  (Inl e, w2) \<Rightarrow> w2
                | (Inr _, w2) \<Rightarrow> remove_empty_parents (butlast dir) stop w2)))"
  by pat_completeness auto
termination
  by (relation "measure (\<lambda>(dir, stop, w). length dir)") auto

declare remove_empty_parents.simps [simp del]

definition delete_sealed :: "localfs \<Rightarrow> string \<Rightarrow> string \<Rightarrow> shard_meta \<Rightarrow> world \<Rightarrow> world" where
  "delete_sealed l bucket key shard w =
     (let w1 = io_ignore (os_remove (shard_file l shard)) w;
          w2 = (case manifest_path (lBase l) bucket key of
                  Inl _ \<Rightarrow> w1 | Inr mp \<Rightarrow> io_ignore (os_remove (os_path mp)) w1);
          w3 = remove_empty_parents
                 (os_path (join_path [lBase l, ''objects'', bucket, clean_key key]))
                 (os_path (join_path [lBase l, ''objects'', bucket])) w2
      in observe l ''delete'' 0 False w3)"

definition delete :: "localfs \<Rightarrow> json_codec \<Rightarrow> string \<Rightarrow> string \<Rightarrow> world \<Rightarrow> unit result \<times> world" where
  "delete l jc bucket key w =
     (case sealed_manifest l jc bucket key w of
        (Some (m, shard), w1) \<Rightarrow> (Inr (), delete_sealed l bucket key shard w1)
      | (None, w1) \<Rightarrow>
          (case object_path l bucket key of
             Inl e \<Rightarrow> fail_obs l ''delete'' 0 e w1
           | Inr p \<Rightarrow>
               (case os_remove (os_path p) w1 of
                  (Inl e, w2) \<Rightarrow> fail_obs l ''delete'' 0 e w2
                | (Inr _, w2) \<Rightarrow>
                    (Inr (),
                     observe l ''delete'' 0 False
                       (remove_empty_parents (butlast (os_path p))
                         (os_path (join_path [lBase l, ''objects'', bucket])) w2)))))"

end
