(* ===== verification/LocalPut.thy ===== *)
theory LocalPut imports LocalFS
begin

text \<open>
  Facts about where an object's path leads and about \<open>Put\<close>: a plain write is all or
  nothing under every schedule of system-call failures, a sealed write leaves a shard and a
  manifest that agree.
\<close>

subsection \<open>Where paths lead\<close>

definition obj_elems :: "string \<Rightarrow> string \<Rightarrow> string \<Rightarrow> fpath" where
  "obj_elems base bucket key = os_path base @ ''objects'' # bucket # key_elems key"

lemma good_objects [simp]: "good_elem ''objects''"
  by (simp add: good_elem_def)

lemma os_path_join_bucket:
  assumes "abs_base base" and "good_elem bucket"
  shows "os_path (join_path [base, ''objects'', bucket]) = os_path base @ [''objects'', bucket]"
  using assms by (simp add: join_path_base abs_base_def foldl_split_good clean_step_good)

lemma foldl_clean_key:
  "foldl (clean_step True) st (split_on CHR ''/'' (clean_key key)) = rev (key_elems key) @ st"
  unfolding clean_key_eq by (rule foldl_clean_step_join) (simp add: key_elems_good)

lemma os_path_join_key:
  assumes "abs_base base" and "good_elem bucket"
  shows "os_path (join_path [base, ''objects'', bucket, clean_key key]) = obj_elems base bucket key"
  using assms by (simp add: join_path_base abs_base_def foldl_split_good clean_step_good foldl_clean_key obj_elems_def)

lemma os_path_join_key_elem:
  assumes "abs_base base" and "good_elem bucket" and "good_elem c"
  shows "os_path (join_path [base, ''objects'', bucket, clean_key key, c]) = obj_elems base bucket key @ [c]"
  using assms by (simp add: join_path_base abs_base_def foldl_split_good clean_step_good foldl_clean_key obj_elems_def)

lemma join_with_prefix:
  assumes es: "\<forall>c \<in> set es. good_elem c" and bs: "\<forall>c \<in> set bs. good_elem c" and ne: "bs \<noteq> []"
    and pre: "join_with CHR ''/'' es @ ''/'' = (join_with CHR ''/'' bs @ ''/'') @ t"
  shows "take (length bs) es = bs"
proof -
  have split: "split_on CHR ''/'' (join_with CHR ''/'' xs @ CHR ''/'' # u) = xs @ split_on CHR ''/'' u"
    if "\<forall>c \<in> set xs. good_elem c" "xs \<noteq> []" for xs u
    using that by (simp add: split_on_append_sep) (rule split_on_join, auto simp: good_elem_def)
  have "es \<noteq> []"
  proof
    assume "es = []"
    with pre have "join_with CHR ''/'' bs = []"
      by (metis append_Nil append_self_conv butlast_append butlast_snoc join_with.simps(1) append_Cons
          list.distinct(1) append_is_Nil_conv)
    with bs ne show False
      by (cases bs; cases "tl bs") (auto simp: good_elem_def)
  qed
  then have "es @ [''''] = bs @ split_on CHR ''/'' t"
    using split [OF es, of "''''"] split [OF bs ne, of t] pre by simp
  then consider us where "es = bs @ us" | us where "es @ us = bs" "[''''] = us @ split_on CHR ''/'' t"
    by (auto simp: append_eq_append_conv2)
  then show ?thesis
    by cases (auto simp: Cons_eq_append_conv)
qed

text \<open>
  The components of an accepted object path: below the base directory for every bucket,
  exactly the cleaned key's below the bucket directory when the bucket is one element.
\<close>

lemma object_path_under:
  assumes base: "abs_base (lBase l)" and p: "object_path l bucket key = Inr p"
  shows "take (length (os_path (lBase l))) (os_path p) = os_path (lBase l)"
proof -
  have p': "p = join_path (lBase l # [''objects'', bucket, clean_key key])" "under_base (lBase l) p"
    using p by (auto simp: object_path_def Let_def split: if_splits)
  have rb: "is_rooted (lBase l)" using base by (simp add: abs_base_def)
  have rp: "is_rooted p" unfolding p' using rb by (intro join_path_base) simp_all
  obtain t where "clean p @ ''/'' = (clean (lBase l) @ ''/'') @ t"
    using p'(2) by (auto simp: under_base_def has_prefix_iff)
  then have "join_with CHR ''/'' (os_path p) @ ''/'' = (join_with CHR ''/'' (os_path (lBase l)) @ ''/'') @ t"
    by (simp add: clean_rooted rb rp)
  then show ?thesis
    using os_path_good abs_base_ne [OF base] by (intro join_with_prefix) auto
qed

lemma under_baseI:
  assumes base: "abs_base base" and p: "is_rooted p" "os_path p = os_path base @ es"
  shows "under_base base p"
proof (cases "es = []")
  case True
  then have "clean p = base"
    using p clean_rooted [of p] abs_base_eq [OF base] by simp
  then show ?thesis
    using base by (simp add: under_base_def has_prefix_iff abs_base_def)
next
  case False
  have "clean p = base @ CHR ''/'' # join_with CHR ''/'' es"
    using p clean_rooted [of p] abs_base_eq [OF base] abs_base_ne [OF base] False
    by (metis join_with_append append_Cons)
  then show ?thesis
    using base by (simp add: under_base_def has_prefix_iff abs_base_def)
qed

lemma object_path_ok:
  assumes base: "abs_base (lBase l)" and bucket: "good_elem bucket"
  obtains p where "object_path l bucket key = Inr p" and "os_path p = obj_elems (lBase l) bucket key"
proof -
  let ?p = "join_path [lBase l, ''objects'', bucket, clean_key key]"
  have p: "os_path ?p = obj_elems (lBase l) bucket key"
    using assms by (rule os_path_join_key)
  moreover have "is_rooted ?p"
    using base by (intro join_path_base) (simp_all add: abs_base_def)
  ultimately have "under_base (lBase l) ?p"
    using base by (intro under_baseI) (auto simp: obj_elems_def)
  then have "object_path l bucket key = Inr ?p"
    using bucket by (auto simp: object_path_def Let_def good_elem_def)
  with p that show thesis by blast
qed

subsection \<open>Frames of the store's steps\<close>

text \<open>The frame of a step of the store: which files it can change.\<close>

definition keeps :: "fpath set \<Rightarrow> world \<Rightarrow> world \<Rightarrow> bool" where
  "keeps S w w' \<longleftrightarrow> (\<forall>q. q \<notin> S \<longrightarrow> file_at w' q = file_at w q)"

lemma keeps_refl [simp, intro]: "keeps S w w"
  by (simp add: keeps_def)

lemma keeps_trans [trans]: "keeps S w w1 \<Longrightarrow> keeps S w1 w2 \<Longrightarrow> keeps S w w2"
  by (simp add: keeps_def)

lemma keeps_mono: "keeps S w w' \<Longrightarrow> S \<subseteq> T \<Longrightarrow> keeps T w w'"
  by (auto simp: keeps_def)

lemma keepsD: "keeps S w w' \<Longrightarrow> q \<notin> S \<Longrightarrow> file_at w' q = file_at w q"
  by (simp add: keeps_def)

lemma frame_keeps: "frame S w w' \<Longrightarrow> keeps S w w'"
  by (simp add: keeps_def frame_def)

lemma frame_empty: "frame {} w w' \<Longrightarrow> file_at w' = file_at w"
  by (auto simp: frame_def fun_eq_iff)

lemma file_at_observe [simp]:
  "file_at (observe l op n f w) = file_at w" "file_at (observe_sealed l op n f s i w) = file_at w"
  "file_at (enqueue_repair l b k p rs w) = file_at w"
  by (auto simp: observe_def observe_sealed_def enqueue_repair_def file_at_def lookup_def fun_eq_iff
      split: observer.split)

lemma keeps_observe [simp]:
  "keeps S w (observe l op n f w') = keeps S w w'" "keeps S w (observe_sealed l op n f s i w') = keeps S w w'"
  "keeps S w (enqueue_repair l b k p rs w') = keeps S w w'"
  by (simp_all add: keeps_def)

text \<open>Every file that exists outside \<open>T\<close> keeps its content; new files may appear.\<close>

definition preserves :: "fpath set \<Rightarrow> 'z os_state_scheme \<Rightarrow> 'y os_state_scheme \<Rightarrow> bool" where
  "preserves T w w' \<longleftrightarrow> (\<forall>q c. q \<notin> T \<longrightarrow> file_at w q = Some c \<longrightarrow> file_at w' q = Some c)"

lemma preserves_refl [simp, intro]: "preserves T w w"
  by (simp add: preserves_def)

lemma preserves_trans [trans]: "preserves T w w1 \<Longrightarrow> preserves T w1 w2 \<Longrightarrow> preserves T w w2"
  by (simp add: preserves_def)

lemma preserves_eq: "file_at w' = file_at w \<Longrightarrow> preserves T w w'"
  by (simp add: preserves_def)

lemma preserves_fresh: "keeps (insert tmp T) w w' \<Longrightarrow> file_at w tmp = None \<Longrightarrow> preserves T w w'"
  by (auto simp: preserves_def keeps_def) (metis option.distinct(1))

lemma preserves_frame: "frame T w w' \<Longrightarrow> preserves T w w'"
  by (simp add: preserves_def frame_def)

lemma preserves_observe [simp]:
  "preserves T v (observe l op n f w) = preserves T v w" "preserves T v (observe_sealed l op n f s i w) = preserves T v w"
  "preserves T v (enqueue_repair l b k p rs w) = preserves T v w"
  by (simp_all add: preserves_def)

lemma fail_obs_iff: "fail_obs l op n e w = (r, w') \<longleftrightarrow> r = Inl e \<and> w' = observe l op n True w"
  by (auto simp: fail_obs_def)

lemma if_ok_frame:
  assumes "if_ok s m = (e, w')" and "frame S w (snd s)"
    and "\<And>r w1. m (snd s) = (r, w1) \<Longrightarrow> frame S (snd s) w1"
  shows "frame S w w'"
  using assms by (cases "(s, m)" rule: if_ok.cases) (auto split: prod.splits sum.splits intro: frame_trans)

lemma and_also_frame:
  assumes "and_also s m = (e, w')" and "frame S w (snd s)"
    and "\<And>r w1. m (snd s) = (r, w1) \<Longrightarrow> frame S (snd s) w1"
  shows "frame S w w'"
  using assms
  by (cases "(s, m)" rule: and_also.cases; cases "m (snd s)")
    (auto split: prod.splits sum.splits intro: frame_trans)

lemma os_rename_err_frame: "os_rename p q w = (Inl e, w') \<Longrightarrow> frame S w w'"
  unfolding os_rename_def
  by (erule io_bind_tick_frame) (auto split: option.splits node.splits if_splits)

lemma io_ignore_chtimes_file_at [simp]: "file_at (io_ignore (os_chtimes p t) w) = file_at w"
  by (cases "os_chtimes p t w") (auto simp: io_ignore_def intro: frame_empty os_chtimes_frame)

lemma io_ignore_close_file_at [simp]: "file_at (io_ignore (os_close p) w) = file_at w"
  by (cases "os_close p w") (auto simp: io_ignore_def intro: frame_empty os_close_frame)

lemma os_remove_err_frame: "os_remove p w = (Inl e, w') \<Longrightarrow> frame S w w'"
  unfolding os_remove_def
  by (erule io_bind_tick_frame) (auto split: option.splits node.splits if_splits)

lemma io_ignore_remove_frame: "p \<in> S \<Longrightarrow> frame S w (io_ignore (os_remove p) w)"
  by (cases "os_remove p w") (auto simp: io_ignore_def intro: os_remove_frame)

lemma io_ignore_remove_gone:
  assumes "file_at w p = None"
  shows "file_at (io_ignore (os_remove p) w) = file_at w"
proof -
  obtain r w' where rm: "os_remove p w = (r, w')" by fastforce
  have "file_at w' = file_at w"
  proof (cases r)
    case (Inl e)
    with rm show ?thesis by (auto intro: frame_empty os_remove_err_frame)
  next
    case (Inr u)
    with rm assms show ?thesis by (auto simp: fun_eq_iff dest: os_remove_ok)
  qed
  with rm show ?thesis by (simp add: io_ignore_def)
qed

subsection \<open>Plain put\<close>

lemma put_plain_tmp_err:
  assumes "put_plain_tmp l path tmp r w = (Inl e, w')"
  shows "keeps {tmp} w w'"
proof -
  obtain n ce w1 where cp: "os_copy tmp 0 r w = (n, ce, w1)"
    by (cases "os_copy tmp 0 r w")
  obtain e2 w2 where cl: "and_also (if_ok (ce, w1) (os_sync tmp)) (os_close tmp) = (e2, w2)"
    by fastforce
  have fr1: "frame {tmp} w w1" using cp by (rule os_copy_frame) simp
  have "frame {tmp} w (snd (if_ok (ce, w1) (os_sync tmp)))"
    by (rule if_ok_frame [OF surjective_pairing]) (auto simp: fr1 intro: os_sync_frame)
  then have fr2: "frame {tmp} w w2"
    by (rule and_also_frame [OF cl]) (auto intro: os_close_frame)
  show ?thesis
  proof (cases e2)
    case (Some e')
    with assms cp cl fr2 show ?thesis
      by (auto simp: put_plain_tmp_def fail_obs_iff intro: frame_keeps)
  next
    case None
    with assms cp cl have "\<exists>e' w3. os_rename tmp path w2 = (Inl e', w3) \<and> w' = observe l ''put'' (int n) True w3"
      by (auto simp: put_plain_tmp_def fail_obs_iff split: prod.splits sum.splits)
    then obtain e' w3 where "os_rename tmp path w2 = (Inl e', w3)" "w' = observe l ''put'' (int n) True w3"
      by blast
    with frame_trans [OF fr2 os_rename_err_frame] show ?thesis
      by (simp add: frame_keeps)
  qed
qed

lemma put_plain_tmp_ok:
  assumes put: "put_plain_tmp l path tmp r w = (Inr (etag, n), w')" and c: "file_at w tmp = Some []"
  shows "rd_err r = None \<and> n = int (length (rd_data r)) \<and> etag = hex_encode (md5 (rd_data r)) \<and>
    file_at w' = (file_at w)(tmp := None, path \<mapsto> rd_data r)"
proof -
  obtain m ce w1 where cp: "os_copy tmp 0 r w = (m, ce, w1)"
    by (cases "os_copy tmp 0 r w")
  from put cp obtain w2 w3 where
      cl: "and_also (if_ok (ce, w1) (os_sync tmp)) (os_close tmp) = (None, w2)"
    and rn: "os_rename tmp path w2 = (Inr (), w3)"
    and res: "etag = hex_encode (md5 (rd_data r))" "n = int m"
      "w' = observe l ''put'' (int m) False (io_ignore (os_chtimes path (fs_clock w3)) w3)"
    by (auto simp: put_plain_tmp_def fail_obs_iff split: prod.splits option.splits sum.splits)
  from cl obtain wa where ce: "ce = None" and sy: "os_sync tmp w1 = (Inr (), wa)"
      and clo: "os_close tmp wa = (Inr (), w2)"
    by (auto simp: and_also_None if_ok_None)
  have "file_at w2 = file_at w1"
    using frame_empty [OF os_sync_frame [OF sy]] frame_empty [OF os_close_frame [OF clo]] by simp
  then show ?thesis
    using os_copy_ok [OF cp [unfolded ce] c] os_rename_ok [OF rn] res
    by (auto simp: write_at_def fun_eq_iff)
qed

lemma os_create_temp_name:
  fixes w :: "'z os_state_scheme"
  assumes "os_create_temp dir pre suf w = (Inr tmp, w')"
  shows "\<exists>n. tmp = dir @ [pre @ nat_to_dec n @ suf]"
proof -
  have "\<exists>w1 :: 'z os_state_scheme. tmp = temp_path w1 dir pre suf"
    using assms unfolding os_create_temp_def
    by (elim tick_bindE) (auto simp: Let_def split: option.split_asm node.split_asm)
  then show ?thesis
    by (auto simp: temp_path_def split: option.split)
qed

text \<open>Names of temporary files: a plain key must not end in one.\<close>

definition temp_named :: "fpath \<Rightarrow> bool" where
  "temp_named p \<longleftrightarrow> p \<noteq> [] \<and> has_prefix (last p) ''.put-''"

lemma put_plain_stored:
  assumes put: "put_plain l bucket key r w = (Inr (etag, n), w')"
    and p: "object_path l bucket key = Inr p" and nt: "\<not> temp_named (os_path p)"
  shows "rd_err r = None \<and> n = int (length (rd_data r)) \<and> etag = hex_encode (md5 (rd_data r)) \<and>
    file_at w' = (file_at w)(os_path p \<mapsto> rd_data r)"
proof -
  from put p obtain w1 w2 tmp where mk: "os_mkdir_all (butlast (os_path p)) w = (Inr (), w1)"
    and ct: "os_create_temp (butlast (os_path p)) ''.put-'' '''' w1 = (Inr tmp, w2)"
    and df: "io_defer (put_plain_tmp l (os_path p) tmp r) (os_remove tmp) w2 = (Inr (etag, n), w')"
    by (auto simp: put_plain_def Let_def fail_obs_iff split: prod.splits sum.splits)
  from df obtain w3 where tm: "put_plain_tmp l (os_path p) tmp r w2 = (Inr (etag, n), w3)"
    and w': "w' = io_ignore (os_remove tmp) w3"
    by (auto simp: io_defer_def split: prod.splits)
  obtain k where "tmp = butlast (os_path p) @ [''.put-'' @ nat_to_dec k]"
    using os_create_temp_name [OF ct] by auto
  then have "tmp \<noteq> [] \<and> last tmp = ''.put-'' @ nat_to_dec k"
    by simp
  then have ne: "tmp \<noteq> os_path p"
    using nt has_prefix_append [of "''.put-''" "nat_to_dec k"] by (metis temp_named_def)
  have f1: "file_at w1 = file_at w"
    using mk by (rule frame_empty [OF os_mkdir_all_frame])
  have f2: "file_at w1 tmp = None" "file_at w2 = (file_at w1)(tmp \<mapsto> [])"
    using os_create_temp_ok [OF ct] by auto
  then have "file_at w2 tmp = Some []" by simp
  note ok = put_plain_tmp_ok [OF tm this]
  then have "file_at w3 tmp = None" using ne by simp
  then have "file_at w' = file_at w3" unfolding w' by (rule io_ignore_remove_gone)
  with ok f1 f2 show ?thesis
    by (auto simp: fun_eq_iff)
qed

lemma fresh_temp_named: "\<exists>tmp. file_at w tmp = None \<and> temp_named tmp"
proof -
  let ?f = "\<lambda>n. [''.put-'' @ replicate n CHR ''0'']"
  have "inj ?f" by (rule injI) (auto simp: replicate_eq_replicate)
  then have "infinite (range ?f)" by (simp add: finite_image_iff)
  moreover have "finite {p. file_at w p \<noteq> None}"
  proof (rule finite_subset [of _ "fst ` set (fs_files w)"])
    have "p \<in> fst ` set (fs_files w)" if "file_at w p = Some c" for p c
      using that by (auto simp: file_at_Some lookup_def split: if_splits dest!: map_of_SomeD intro: rev_image_eqI)
    then show "{p. file_at w p \<noteq> None} \<subseteq> fst ` set (fs_files w)" by auto
  qed simp
  ultimately have "\<not> range ?f \<subseteq> {p. file_at w p \<noteq> None}" by (meson finite_subset)
  then obtain n where "file_at w (?f n) = None" by auto
  then show ?thesis by (intro exI [of _ "?f n"]) (simp add: temp_named_def)
qed

lemma put_plain_failed_keeps:
  assumes put: "put_plain l bucket key r w = (Inl e, w')"
  shows "\<exists>tmp. file_at w tmp = None \<and> temp_named tmp \<and> keeps {tmp} w w'"
proof -
  have one: "\<exists>tmp. file_at w tmp = None \<and> temp_named tmp \<and> keeps {tmp} w v" if "file_at v = file_at w" for v
    using fresh_temp_named [of w] that by (auto simp: keeps_def)
  show ?thesis
  proof (cases "object_path l bucket key")
    case (Inl e')
    with put have "file_at w' = file_at w" by (auto simp: put_plain_def fail_obs_iff)
    then show ?thesis by (rule one)
  next
    case (Inr p)
    obtain rm w1 where mk: "os_mkdir_all (butlast (os_path p)) w = (rm, w1)" by fastforce
    obtain rt w2 where ct: "os_create_temp (butlast (os_path p)) ''.put-'' '''' w1 = (rt, w2)" by fastforce
    have f1: "file_at w1 = file_at w"
      using mk by (rule frame_empty [OF os_mkdir_all_frame])
    show ?thesis
    proof (cases "\<exists>tmp. is_ok rm \<and> rt = Inr tmp")
      case False
      then consider e1 where "rm = Inl e1" | e1 u where "rm = Inr u" "rt = Inl e1"
        by (cases rm; cases rt) auto
      then have "file_at w' = file_at w"
        using put Inr mk ct f1 frame_empty [OF os_create_temp_err [of "butlast (os_path p)" _ _ w1 _ w2]]
        by cases (auto simp: put_plain_def Let_def fail_obs_iff)
      then show ?thesis by (rule one)
    next
      case True
      then obtain tmp where t: "rt = Inr tmp" "rm = Inr ()" by (cases rm) auto
      then obtain w3 where tm: "put_plain_tmp l (os_path p) tmp r w2 = (Inl e, w3)"
        and w': "w' = io_ignore (os_remove tmp) w3"
        using put Inr mk ct by (auto simp: put_plain_def Let_def io_defer_def split: prod.splits)
      obtain k where "tmp = butlast (os_path p) @ [''.put-'' @ nat_to_dec k]"
        using os_create_temp_name [OF ct [unfolded t]] by auto
      then have "temp_named tmp" by (simp add: temp_named_def)
      moreover have "keeps {tmp} w w'"
      proof -
        have "keeps {tmp} w w1" using mk by (rule frame_keeps [OF os_mkdir_all_frame])
        also have "keeps {tmp} w1 w2" using os_create_temp_ok ct t by (blast intro: frame_keeps)
        also have "keeps {tmp} w2 w3" using tm by (rule put_plain_tmp_err)
        also have "keeps {tmp} w3 w'" unfolding w' by (simp add: frame_keeps io_ignore_remove_frame)
        finally show ?thesis .
      qed
      ultimately show ?thesis
        using os_create_temp_ok [OF ct [unfolded t]] f1 by auto
    qed
  qed
qed

lemma put_plain_failed: "put_plain l bucket key r w = (Inl e, w') \<Longrightarrow> preserves {} w w'"
  using put_plain_failed_keeps preserves_fresh by blast

subsection \<open>Saving and loading a manifest\<close>

definition meta_elems :: "string \<Rightarrow> string \<Rightarrow> string \<Rightarrow> fpath" where
  "meta_elems base bucket key = obj_elems base bucket key @ [ManifestFilename]"

definition shard_elems :: "string \<Rightarrow> string \<Rightarrow> string \<Rightarrow> fpath" where
  "shard_elems base bucket key = obj_elems base bucket key @ [''data.ss1'']"

lemma good_names [simp]: "good_elem ManifestFilename" "good_elem ''data.ss1''"
  by (simp_all add: good_elem_def ManifestFilename_def)

lemma drop_clean_key: "drop (Suc 0) (clean (CHR ''/'' # key)) = clean_key key"
  by (simp add: clean_key_def clean_rooted)

lemma manifest_path_ok:
  assumes base: "abs_base base" and bucket: "good_elem bucket"
  obtains p where "manifest_path base bucket key = Inr p" and "os_path p = meta_elems base bucket key"
proof -
  have "base \<noteq> ''''" using base by (auto simp: abs_base_def is_rooted_def)
  then have "manifest_path base bucket key = Inr (join_path [base, ''objects'', bucket, clean_key key, ManifestFilename])"
    by (simp add: manifest_path_def drop_clean_key)
  with that os_path_join_key_elem [OF assms good_names(1)] show thesis
    by (simp add: meta_elems_def)
qed

lemma sync_dir_frame [fs_frame]: "sync_dir d w = (r, w') \<Longrightarrow> frame S w w'"
proof -
  assume s: "sync_dir d w = (r, w')"
  let ?m = "\<lambda>w. case os_sync d w of (Inl e, w1) \<Rightarrow> if e = OsErr EINVAL then (Inr (), w1) else (Inl e, w1)
      | (Inr _, w1) \<Rightarrow> (Inr (), w1)"
  have m: "frame S w1 w2" if "?m w1 = (r1, w2)" for w1 w2 :: "'a os_state_scheme" and r1
    using that by (auto split: prod.splits sum.splits if_splits dest: os_sync_frame)
  have c: "frame S w1 (io_ignore (os_close d) w1)" for w1 :: "'a os_state_scheme"
    by (cases "os_close d w1") (auto simp: io_ignore_def intro: os_close_frame)
  obtain ro w1 where op: "os_open d w = (ro, w1)" by fastforce
  note f1 = os_open_frame [OF op, of S]
  show ?thesis
  proof (cases ro)
    case (Inl e)
    with s op f1 show ?thesis by (auto simp: sync_dir_def io_bind_def)
  next
    case (Inr n)
    obtain r1 w2 where m1: "?m w1 = (r1, w2)" by fastforce
    then have "w' = io_ignore (os_close d) w2"
      using s op Inr by (simp add: sync_dir_def io_bind_def io_defer_def)
    then show ?thesis
      using frame_trans [OF f1 frame_trans [OF m [OF m1] c]] by simp
  qed
qed

lemma save_manifest_tmp_ok:
  assumes sv: "save_manifest_tmp dst tmp data t w = (Inr u, w')" and c: "file_at w tmp = Some []"
  shows "file_at w' = (file_at w)(tmp := None, dst \<mapsto> data) \<and> frame {tmp, dst} w w'"
proof -
  from sv obtain wa wb w1 w2 w3 where
      wr: "os_write_at tmp 0 data w = (Inr (), wa)" and sy: "os_sync tmp wa = (Inr (), wb)"
    and cl: "os_close tmp wb = (Inr (), w1)"
    and rn: "os_rename tmp dst w1 = (Inr (), w2)" and sd: "sync_dir (butlast dst) w2 = (Inr (), w3)"
    and w': "w' = io_ignore (os_chtimes dst t) w3"
    by (auto simp: save_manifest_tmp_def and_also_None if_ok_None io_bind_Inr simp del: if_ok.simps and_also.simps
        split: prod.splits option.splits)
  have "frame {tmp, dst} w wa" using wr by (rule os_write_at_frame) simp
  also have "frame {tmp, dst} wa wb" using sy by (rule os_sync_frame)
  also have "frame {tmp, dst} wb w1" using cl by (rule os_close_frame)
  also have "frame {tmp, dst} w1 w2" using rn by (rule os_rename_frame) simp_all
  also have "frame {tmp, dst} w2 w3" using sd by (rule sync_dir_frame)
  also have "frame {tmp, dst} w3 w'" unfolding w'
    by (cases "os_chtimes dst t w3") (auto simp: io_ignore_def intro: os_chtimes_frame)
  finally have fr: "frame {tmp, dst} w w'" .
  have "file_at w1 = file_at wa"
    using frame_empty [OF os_sync_frame [OF sy]] frame_empty [OF os_close_frame [OF cl]] by simp
  moreover have "file_at w' = file_at w2"
    using frame_empty [OF sync_dir_frame [OF sd]] w' by simp
  ultimately show ?thesis
    using os_write_at_ok [OF wr c] os_rename_ok [OF rn] fr
    by (auto simp: fun_eq_iff write_at_def)
qed

lemma save_manifest_tmp_frame:
  assumes sv: "save_manifest_tmp dst tmp data t w = (r, w')" and S: "tmp \<in> S" "dst \<in> S"
  shows "frame S w w'"
proof -
  let ?s = "and_also (if_ok (if_ok (None, w) (os_write_at tmp 0 data)) (os_sync tmp)) (os_close tmp)"
  obtain e w1 where s: "?s = (e, w1)" by fastforce
  have "frame S w (snd (if_ok (None, w) (os_write_at tmp 0 data)))"
    by (rule if_ok_frame [OF surjective_pairing]) (auto intro: os_write_at_frame S)
  then have "frame S w (snd (if_ok (if_ok (None, w) (os_write_at tmp 0 data)) (os_sync tmp)))"
    by (rule if_ok_frame [OF surjective_pairing]) (auto intro: os_sync_frame)
  then have f1: "frame S w w1"
    by (rule and_also_frame [OF s]) (auto intro: os_close_frame)
  show ?thesis
  proof (cases e)
    case (Some e')
    with sv s f1 show ?thesis by (auto simp: save_manifest_tmp_def)
  next
    case None
    obtain rr w2 where rn: "os_rename tmp dst w1 = (rr, w2)" by fastforce
    obtain rs w3 where sd: "sync_dir (butlast dst) w2 = (rs, w3)" by fastforce
    have f2: "frame S w w2" using f1 os_rename_frame [OF rn S] by (rule frame_trans)
    have f3: "frame S w w3" using f2 sync_dir_frame [OF sd] by (rule frame_trans)
    have "frame S w3 (io_ignore (os_chtimes dst t) w3)"
      by (cases "os_chtimes dst t w3") (auto simp: io_ignore_def intro: os_chtimes_frame)
    note f4 = frame_trans [OF f3 this]
    show ?thesis
      using sv s None rn sd f2 f3 f4
      by (cases rr; cases rs) (auto simp: save_manifest_tmp_def io_bind_def)
  qed
qed

lemma save_manifest_ok:
  assumes sv: "save_manifest jc base bucket key m0 w = (Inr u, w')"
    and base: "abs_base base" and bucket: "good_elem bucket"
  shows "\<exists>data. jenc jc (manifest_defaults (fs_clock w) m0) = Some data \<and>
    validate_basic (manifest_defaults (fs_clock w) m0) = Inr () \<and>
    file_at w' = (file_at w)(meta_elems base bucket key \<mapsto> data) \<and>
    os_state.more w' = os_state.more w \<and> fs_clock w' = fs_clock w"
proof -
  let ?m = "manifest_defaults (fs_clock w) m0" and ?dst = "meta_elems base bucket key"
  obtain p where p: "manifest_path base bucket key = Inr p" "os_path p = ?dst"
    using manifest_path_ok [OF base bucket] by blast
  have v: "validate_basic ?m = Inr ()"
    using sv p by (cases "validate_basic ?m") (auto simp: save_manifest_def)
  from sv p v obtain w1 data tmp w2 w3 where mk: "os_mkdir_all (butlast ?dst) w = (Inr (), w1)"
    and enc: "jenc jc ?m = Some data"
    and ct: "os_create_temp (butlast ?dst) ''.object.meta.'' ''.tmp'' w1 = (Inr tmp, w2)"
    and tm: "save_manifest_tmp ?dst tmp data (mLastModified ?m) w2 = (Inr u, w3)"
    and w': "w' = io_ignore (os_remove tmp) w3"
    by (auto simp: save_manifest_def io_bind_Inr io_fail_def io_defer_iff Let_def split: option.splits)
  obtain k where "tmp = butlast ?dst @ [''.object.meta.'' @ nat_to_dec k @ ''.tmp'']"
    using os_create_temp_name [OF ct] by blast
  then have ne: "tmp \<noteq> ?dst"
    by (auto simp: meta_elems_def ManifestFilename_def)
  have c: "file_at w1 tmp = None" "file_at w2 = (file_at w1)(tmp \<mapsto> [])" "frame {tmp, ?dst} w1 w2"
    using os_create_temp_ok [OF ct] by (auto intro: frame_mono)
  then have "file_at w2 tmp = Some []" by simp
  note ok = save_manifest_tmp_ok [OF tm this]
  have "file_at w3 tmp = None" using ok ne by simp
  then have fa: "file_at w' = file_at w3" unfolding w' by (rule io_ignore_remove_gone)
  have "frame {tmp, ?dst} w w1" using mk by (rule os_mkdir_all_frame)
  also note c(3)
  also have "frame {tmp, ?dst} w2 w3" using ok by blast
  also have "frame {tmp, ?dst} w3 w'" unfolding w' by (rule io_ignore_remove_frame) simp
  finally have fr: "frame {tmp, ?dst} w w'" .
  have "file_at w1 = file_at w" using mk by (rule frame_empty [OF os_mkdir_all_frame])
  then have "file_at w' = (file_at w)(?dst \<mapsto> data)"
    using ok c fa by (auto simp: fun_eq_iff)
  with enc v fr show ?thesis
    by (auto simp: frame_def)
qed

text \<open>Whatever happens, only the manifest and a new temporary file beside it are touched.\<close>

lemma save_manifest_frame:
  assumes sv: "save_manifest jc base bucket key m0 w = (r, w')"
    and base: "abs_base base" and bucket: "good_elem bucket"
  shows "\<exists>tmp. file_at w tmp = None \<and> frame {tmp, meta_elems base bucket key} w w'"
proof -
  let ?m = "manifest_defaults (fs_clock w) m0" and ?dst = "meta_elems base bucket key"
  obtain p where p: "manifest_path base bucket key = Inr p" "os_path p = ?dst"
    using manifest_path_ok [OF base bucket] by blast
  obtain rm w1 where mk: "os_mkdir_all (butlast ?dst) w = (rm, w1)" by fastforce
  note f1 = os_mkdir_all_frame [OF mk]
  have early: ?thesis if "w' = w \<or> w' = w1 \<or> frame {} w1 w'"
    using that f1 by (intro exI [of _ "[]"]) (auto intro: frame_trans [OF f1] frame_mono)
  show ?thesis
  proof (cases "validate_basic ?m = Inr () \<and> is_ok rm \<and> jenc jc ?m \<noteq> None")
    case False
    then have "w' = w \<or> w' = w1"
      using sv p mk
      by (cases "validate_basic ?m"; cases rm)
        (auto simp: save_manifest_def Let_def io_bind_def io_fail_def split: option.splits)
    with early show ?thesis by blast
  next
    case True
    then obtain data where ok: "rm = Inr ()" "jenc jc ?m = Some data" "validate_basic ?m = Inr ()"
      by (cases rm) auto
    obtain rt w2 where ct: "os_create_temp (butlast ?dst) ''.object.meta.'' ''.tmp'' w1 = (rt, w2)"
      by fastforce
    show ?thesis
    proof (cases rt)
      case (Inl e)
      then have "w' = w2"
        using sv p mk ok ct by (auto simp: save_manifest_def Let_def io_bind_def)
      with os_create_temp_err ct Inl early show ?thesis by blast
    next
      case (Inr tmp)
      obtain r3 w3 where tm: "save_manifest_tmp ?dst tmp data (mLastModified ?m) w2 = (r3, w3)" by fastforce
      have w': "w' = io_ignore (os_remove tmp) w3"
        using sv p mk ok ct Inr tm by (auto simp: save_manifest_def Let_def io_bind_def io_defer_def)
      have c: "file_at w1 tmp = None" "frame {tmp, ?dst} w1 w2"
        using os_create_temp_ok [OF ct [unfolded Inr]] by (auto intro: frame_mono)
      have "frame {tmp, ?dst} w w1" by (rule f1)
      also note c(2)
      also have "frame {tmp, ?dst} w2 w3" using tm by (rule save_manifest_tmp_frame) simp_all
      also have "frame {tmp, ?dst} w3 w'" unfolding w' by (rule io_ignore_remove_frame) simp
      finally show ?thesis using c(1) frame_empty [OF f1] by metis
    qed
  qed
qed

subsection \<open>Sealed put\<close>

text \<open>The sealed form of a payload, and the manifest that describes it.\<close>

definition sealed_header :: "int \<Rightarrow> shard_header" where
  "sealed_header n = \<lparr>hVersion = 1, hHeaderSize = 28, hPayloadLength = word_of_int n\<rparr>"

definition header_bytes :: "shard_header \<Rightarrow> byte list" where
  "header_bytes h = header_fields h @ le_bytes 4 (crc32c (header_fields h)) @ [0]"

definition sealed_bytes :: "byte list \<Rightarrow> byte list" where
  "sealed_bytes payload =
     header_bytes (sealed_header (int (length payload))) @ payload @ encode_shard_footer (sha256 payload)"

definition sealed_object_manifest :: "string \<Rightarrow> string \<Rightarrow> byte list \<Rightarrow> int \<Rightarrow> manifest" where
  "sealed_object_manifest bucket key payload now =
     new_single_shard_manifest bucket key (int (length payload)) (hex_encode (md5 payload))
       \<lparr>rsK = 1, rsM = 0, rsBlockSize = 0, rsStripeSize = 0\<rparr>
       (sealed_shard_meta bucket (clean_key key) (bytes_reader payload)
         (header_bytes (sealed_header (int (length payload)))) (encode_shard_footer (sha256 payload))) now"

lemma length_header_bytes [simp]: "length (header_bytes h) = 28"
  by (simp add: header_bytes_def)

lemma seal_header_eq [simp]: "seal_header n = Inr (header_bytes (sealed_header n))"
  by (simp add: seal_header_def encode_default_header header_bytes_def sealed_header_def)

lemma manifest_defaults_sealed [simp]:
  "manifest_defaults now (sealed_object_manifest bucket key payload now) = sealed_object_manifest bucket key payload now"
  by (simp add: manifest_defaults_def sealed_object_manifest_def new_single_shard_manifest_def ManifestFormatV1_def Let_def)

lemma write_sealed:
  "write_at (write_at (write_at (write_at [] 0 (replicate headerReserve 0)) headerReserve payload)
     (headerReserve + length payload) footer) 0 (header_bytes h) = header_bytes h @ payload @ footer"
  by (simp add: write_at_def headerReserve_def)

lemma put_sealed_publish_ok:
  assumes pb: "put_sealed_publish l jc bucket key finalPath r n (header_bytes (sealed_header n)) w0 = (Inr (etag, m), w')"
    and base: "abs_base (lBase l)" and bucket: "good_elem bucket" and n: "n = int (length (rd_data r))"
  shows "\<exists>data. etag = hex_encode (md5 (rd_data r)) \<and> m = n \<and>
    jenc jc (sealed_object_manifest bucket key (rd_data r) (fs_clock w0)) = Some data \<and>
    validate_basic (sealed_object_manifest bucket key (rd_data r) (fs_clock w0)) = Inr () \<and>
    file_at w' = (file_at w0)(meta_elems (lBase l) bucket key \<mapsto> data)"
proof -
  let ?w = "io_ignore (os_chtimes finalPath (fs_clock w0)) w0"
  let ?man = "sealed_object_manifest bucket key (rd_data r) (fs_clock w0)"
  have clk: "fs_clock ?w = fs_clock w0"
    by (cases "os_chtimes finalPath (fs_clock w0) w0")
      (auto simp: io_ignore_def frame_def dest: os_chtimes_frame [where S = "{}"])
  have man: "new_single_shard_manifest bucket key n (hex_encode (md5 (rd_data r)))
      \<lparr>rsK = 1, rsM = 0, rsBlockSize = 0, rsStripeSize = 0\<rparr>
      (sealed_shard_meta bucket (clean_key key) r (header_bytes (sealed_header n))
        (encode_shard_footer (sha256 (rd_data r)))) (fs_clock ?w) = ?man"
    by (simp add: sealed_object_manifest_def n clk sealed_shard_meta_def bytes_reader_def)
  from pb obtain w1 where sv: "save_manifest jc (lBase l) bucket key ?man ?w = (Inr (), w1)"
    and res: "etag = hex_encode (md5 (rd_data r))" "m = n" "w' = observe_sealed l ''put'' n False True False w1"
    by (auto simp: put_sealed_publish_def Let_def fail_obs_iff man split: prod.splits sum.splits)
  show ?thesis
    using save_manifest_ok [OF sv base bucket] res by (auto simp: clk)
qed

lemma put_sealed_tmp_ok:
  assumes tm: "put_sealed_tmp l jc bucket key odir tmp r w = (Inr (etag, n), w')"
    and c: "file_at w tmp = Some []" and ne: "tmp \<noteq> odir @ [''data.ss1'']"
    and base: "abs_base (lBase l)" and bucket: "good_elem bucket"
  shows "\<exists>data. rd_err r = None \<and> n = int (length (rd_data r)) \<and> etag = hex_encode (md5 (rd_data r)) \<and>
    jenc jc (sealed_object_manifest bucket key (rd_data r) (fs_clock w)) = Some data \<and>
    validate_basic (sealed_object_manifest bucket key (rd_data r) (fs_clock w)) = Inr () \<and>
    file_at w' = (file_at w)(tmp := None, odir @ [''data.ss1''] \<mapsto> sealed_bytes (rd_data r),
      meta_elems (lBase l) bucket key \<mapsto> data)"
proof -
  let ?S = "{tmp, odir @ [''data.ss1'']}"
  from tm obtain m ce w1 w2 w4 w5 where
      wr: "os_write_at tmp 0 (replicate headerReserve 0) w = (Inr (), w1)"
    and cp: "os_copy tmp headerReserve r w1 = (m, ce, w2)"
    and ok: "and_also (if_ok (if_ok (if_ok (if_ok (if_ok (ce, w2) (os_sync tmp))
         (os_write_at tmp (headerReserve + m) (encode_shard_footer (sha256 (rd_data r)))))
         (os_sync tmp)) (os_write_at tmp 0 (header_bytes (sealed_header (int m))))) (os_sync tmp))
         (os_close tmp) = (None, w4)"
    and rn: "os_rename tmp (odir @ [''data.ss1'']) w4 = (Inr (), w5)"
    and pb: "put_sealed_publish l jc bucket key (odir @ [''data.ss1'']) r (int m)
         (header_bytes (sealed_header (int m))) w5 = (Inr (etag, n), w')"
    by (auto simp: put_sealed_tmp_def Let_def fail_obs_iff simp del: if_ok.simps and_also.simps
        split: prod.splits sum.splits option.splits)
  from ok obtain wa wb wc wd we where ce: "ce = None" and s1: "os_sync tmp w2 = (Inr (), wa)"
    and s2: "os_write_at tmp (headerReserve + m) (encode_shard_footer (sha256 (rd_data r))) wa = (Inr (), wb)"
    and s3: "os_sync tmp wb = (Inr (), wc)"
    and s4: "os_write_at tmp 0 (header_bytes (sealed_header (int m))) wc = (Inr (), wd)"
    and s5: "os_sync tmp wd = (Inr (), we)" and s6: "os_close tmp we = (Inr (), w4)"
    by (auto simp: and_also_None if_ok_None simp del: if_ok.simps and_also.simps)
  note keep = frame_empty [OF os_sync_frame [OF s1]] frame_empty [OF os_sync_frame [OF s3]]
    frame_empty [OF os_sync_frame [OF s5]] frame_empty [OF os_close_frame [OF s6]]
  have c1: "file_at w1 tmp = Some (write_at [] 0 (replicate headerReserve 0))"
    and q1: "keeps {tmp} w w1"
    using os_write_at_ok [OF wr c] by (auto simp: keeps_def)
  note cpo = os_copy_ok [OF cp [unfolded ce] c1]
  then have m: "m = length (rd_data r)" and re: "rd_err r = None" by auto
  let ?p1 = "write_at (write_at [] 0 (replicate headerReserve 0)) headerReserve (rd_data r)"
  have c2: "file_at wa tmp = Some ?p1" using cpo keep by simp
  have c3: "file_at wc tmp = Some (write_at ?p1 (headerReserve + m) (encode_shard_footer (sha256 (rd_data r))))"
    using os_write_at_ok [OF s2 c2] keep by simp
  have c4: "file_at w4 = (file_at wc)(tmp \<mapsto> sealed_bytes (rd_data r))"
    using os_write_at_ok [OF s4 c3] keep m by (simp add: write_sealed sealed_bytes_def)
  have "file_at w4 = (file_at w)(tmp \<mapsto> sealed_bytes (rd_data r))"
    using c4 os_write_at_ok [OF s2 c2] cpo os_write_at_ok [OF wr c] keep by simp
  then have w5: "file_at w5 = (file_at w)(tmp := None, odir @ [''data.ss1''] \<mapsto> sealed_bytes (rd_data r))"
    using os_rename_ok [OF rn] ne by (auto simp: fun_eq_iff)
  have "frame ?S w w1" using wr by (rule os_write_at_frame) simp
  also have "frame ?S w1 w2" using cp by (rule os_copy_frame) simp
  also have "frame ?S w2 wa" using s1 by (rule os_sync_frame)
  also have "frame ?S wa wb" using s2 by (rule os_write_at_frame) simp
  also have "frame ?S wb wc" using s3 by (rule os_sync_frame)
  also have "frame ?S wc wd" using s4 by (rule os_write_at_frame) simp
  also have "frame ?S wd we" using s5 by (rule os_sync_frame)
  also have "frame ?S we w4" using s6 by (rule os_close_frame)
  also have "frame ?S w4 w5" using rn by (rule os_rename_frame) simp_all
  finally have "fs_clock w5 = fs_clock w" by (simp add: frame_def)
  then show ?thesis
    using put_sealed_publish_ok [OF pb base bucket] m re w5 by auto
qed

lemma sealed_names_differ:
  assumes "os_create_temp odir ''.put-'' ''.ss1.tmp'' w = (Inr tmp, w')"
  shows "tmp \<noteq> odir @ [''data.ss1'']" and "tmp \<noteq> odir @ [ManifestFilename]"
  using os_create_temp_name [OF assms] by (auto simp: ManifestFilename_def)

lemma put_sealed_path:
  assumes base: "abs_base (lBase l)" and bucket: "good_elem bucket"
  shows "put_sealed l jc bucket key r w =
     (case os_mkdir_all (obj_elems (lBase l) bucket key) w of
        (Inl e, w1) \<Rightarrow> fail_obs l ''put'' 0 e w1
      | (Inr _, w1) \<Rightarrow>
          (case os_create_temp (obj_elems (lBase l) bucket key) ''.put-'' ''.ss1.tmp'' w1 of
             (Inl e, w2) \<Rightarrow> fail_obs l ''put'' 0 e w2
           | (Inr tmp, w2) \<Rightarrow>
               io_defer (put_sealed_tmp l jc bucket key (obj_elems (lBase l) bucket key) tmp r) (os_remove tmp) w2))"
proof -
  let ?p = "join_path [lBase l, ''objects'', bucket, clean_key key]"
  obtain p where "object_path l bucket key = Inr p" using object_path_ok [OF assms] by blast
  then have "bucket \<noteq> ''''" "under_base (lBase l) ?p"
    by (auto simp: object_path_def Let_def split: if_splits)
  then show ?thesis
    unfolding put_sealed_def Let_def os_path_join_key [OF assms] by simp
qed

lemma put_sealed_stored:
  assumes put: "put_sealed l jc bucket key r w = (Inr (etag, n), w')"
    and base: "abs_base (lBase l)" and bucket: "good_elem bucket"
  shows "\<exists>data. rd_err r = None \<and> n = int (length (rd_data r)) \<and> etag = hex_encode (md5 (rd_data r)) \<and>
    jenc jc (sealed_object_manifest bucket key (rd_data r) (fs_clock w)) = Some data \<and>
    validate_basic (sealed_object_manifest bucket key (rd_data r) (fs_clock w)) = Inr () \<and>
    file_at w' = (file_at w)(shard_elems (lBase l) bucket key \<mapsto> sealed_bytes (rd_data r),
      meta_elems (lBase l) bucket key \<mapsto> data)"
proof -
  let ?odir = "obj_elems (lBase l) bucket key"
  from put obtain w1 tmp w2 w3 where mk: "os_mkdir_all ?odir w = (Inr (), w1)"
    and ct: "os_create_temp ?odir ''.put-'' ''.ss1.tmp'' w1 = (Inr tmp, w2)"
    and tm: "put_sealed_tmp l jc bucket key ?odir tmp r w2 = (Inr (etag, n), w3)"
    and w': "w' = io_ignore (os_remove tmp) w3"
    by (auto simp: put_sealed_path [OF base bucket] fail_obs_iff io_defer_iff split: prod.splits sum.splits)
  note ne = sealed_names_differ [OF ct]
  have f1: "frame {tmp} w w1" using mk by (rule os_mkdir_all_frame)
  have c: "file_at w1 tmp = None" "file_at w2 = (file_at w1)(tmp \<mapsto> [])" "frame {tmp} w1 w2"
    using os_create_temp_ok [OF ct] by auto
  then have "file_at w2 tmp = Some []" by simp
  from put_sealed_tmp_ok [OF tm this ne(1) base bucket]
  obtain data where d: "rd_err r = None" "n = int (length (rd_data r))" "etag = hex_encode (md5 (rd_data r))"
      "jenc jc (sealed_object_manifest bucket key (rd_data r) (fs_clock w2)) = Some data"
      "validate_basic (sealed_object_manifest bucket key (rd_data r) (fs_clock w2)) = Inr ()"
      "file_at w3 = (file_at w2)(tmp := None, ?odir @ [''data.ss1''] \<mapsto> sealed_bytes (rd_data r),
        meta_elems (lBase l) bucket key \<mapsto> data)"
    by blast
  have clk: "fs_clock w2 = fs_clock w" using f1 c(3) by (simp add: frame_def)
  have "file_at w3 tmp = None" using d(6) ne by (simp add: meta_elems_def)
  then have "file_at w' = file_at w3" unfolding w' by (rule io_ignore_remove_gone)
  moreover have "file_at w1 = file_at w" using mk by (rule frame_empty [OF os_mkdir_all_frame])
  ultimately show ?thesis
    using d c clk by (auto simp: shard_elems_def fun_eq_iff)
qed

text \<open>A sealed put, whatever its outcome, changes no file but the object's own two.\<close>

lemma put_sealed_publish_keeps:
  assumes pb: "put_sealed_publish l jc bucket key finalPath r n hb w0 = (res, w')"
    and base: "abs_base (lBase l)" and bucket: "good_elem bucket"
  shows "preserves {finalPath, meta_elems (lBase l) bucket key} w0 w'"
proof -
  let ?T = "{finalPath, meta_elems (lBase l) bucket key}"
  let ?w = "io_ignore (os_chtimes finalPath (fs_clock w0)) w0"
  have p0: "preserves ?T w0 ?w" by (rule preserves_eq) simp
  from pb obtain man w1 where sv: "save_manifest jc (lBase l) bucket key man ?w = (if is_ok res then Inr () else Inl (projl res), w1)"
    and w': "w' = observe_sealed l ''put'' n False True False w1 \<or>
        (\<exists>n. w' = observe l ''put'' n True (io_ignore (os_remove finalPath) w1))"
    by (auto simp: put_sealed_publish_def Let_def fail_obs_iff split: prod.splits sum.splits)
  obtain tmp where t: "file_at ?w tmp = None" "frame {tmp, meta_elems (lBase l) bucket key} ?w w1"
    using save_manifest_frame [OF sv base bucket] by blast
  then have p1: "preserves ?T ?w w1"
    by (intro preserves_fresh [of tmp]) (auto intro!: frame_keeps intro: frame_mono)
  have "preserves ?T w1 (io_ignore (os_remove finalPath) w1)"
    by (intro preserves_frame io_ignore_remove_frame) simp
  with preserves_trans [OF p0 p1] w' show ?thesis
    by (auto intro: preserves_trans)
qed

lemma put_sealed_tmp_keeps:
  assumes tm: "put_sealed_tmp l jc bucket key odir tmp r w = (res, w')"
    and base: "abs_base (lBase l)" and bucket: "good_elem bucket"
    and odir: "odir = obj_elems (lBase l) bucket key"
  shows "preserves {tmp, shard_elems (lBase l) bucket key, meta_elems (lBase l) bucket key} w w'"
proof -
  let ?T = "{tmp, shard_elems (lBase l) bucket key, meta_elems (lBase l) bucket key}"
  obtain r1 w1 where wr: "os_write_at tmp 0 (replicate headerReserve 0) w = (r1, w1)" by fastforce
  obtain m ce w2 where cp: "os_copy tmp headerReserve r w1 = (m, ce, w2)"
    by (cases "os_copy tmp headerReserve r w1")
  have f1: "frame ?T w w1" using wr by (rule os_write_at_frame) simp
  have f2: "frame ?T w1 w2" using cp by (rule os_copy_frame) simp
  let ?s = "if_ok (if_ok (if_ok (if_ok (if_ok (ce, w2) (os_sync tmp))
         (os_write_at tmp (headerReserve + m) (encode_shard_footer (sha256 (rd_data r)))))
         (os_sync tmp)) (os_write_at tmp 0 (header_bytes (sealed_header (int m))))) (os_sync tmp)"
  obtain e w4 where s: "and_also ?s (os_close tmp) = (e, w4)" by fastforce
  have "frame ?T w (snd ?s)"
    by (intro if_ok_frame [OF surjective_pairing] frame_trans [OF f1 f2])
      (auto simp: f2 intro: os_sync_frame os_write_at_frame frame_trans [OF f1 f2])
  then have f4: "frame ?T w w4" by (rule and_also_frame [OF s]) (auto intro: os_close_frame)
  show ?thesis
  proof (cases "r1 = Inr () \<and> e = None")
    case False
    have "preserves ?T w1 (io_ignore (os_close tmp) w1)" by (intro preserves_eq) simp
    with False show ?thesis
      using tm wr cp s f4 preserves_trans [OF preserves_frame [OF f1]]
      by (cases r1; cases e)
        (auto simp: put_sealed_tmp_def Let_def fail_obs_iff preserves_frame simp del: if_ok.simps and_also.simps)
  next
    case True
    obtain rr w5 where rn: "os_rename tmp (odir @ [''data.ss1'']) w4 = (rr, w5)" by fastforce
    have "frame ?T w4 w5" using rn by (rule os_rename_frame) (simp_all add: odir shard_elems_def)
    then have p5: "preserves ?T w w5" by (intro preserves_frame frame_trans [OF f4])
    show ?thesis
    proof (cases rr)
      case (Inl e')
      then show ?thesis
        using tm wr cp s True rn p5
        by (auto simp: put_sealed_tmp_def Let_def fail_obs_iff simp del: if_ok.simps and_also.simps)
    next
      case (Inr u)
      then have "put_sealed_publish l jc bucket key (odir @ [''data.ss1'']) r (int m)
          (header_bytes (sealed_header (int m))) w5 = (res, w')"
        using tm wr cp s True rn
        by (auto simp: put_sealed_tmp_def Let_def fail_obs_iff simp del: if_ok.simps and_also.simps)
      from put_sealed_publish_keeps [OF this base bucket] have "preserves ?T w5 w'"
        by (auto simp: preserves_def odir shard_elems_def)
      with p5 show ?thesis by (rule preserves_trans)
    qed
  qed
qed

lemma put_sealed_keeps:
  assumes put: "put_sealed l jc bucket key r w = (res, w')"
    and base: "abs_base (lBase l)" and bucket: "good_elem bucket"
  shows "preserves {shard_elems (lBase l) bucket key, meta_elems (lBase l) bucket key} w w'"
proof -
  let ?T = "{shard_elems (lBase l) bucket key, meta_elems (lBase l) bucket key}"
  let ?odir = "obj_elems (lBase l) bucket key"
  obtain rm w1 where mk: "os_mkdir_all ?odir w = (rm, w1)" by fastforce
  obtain rt w2 where ct: "os_create_temp ?odir ''.put-'' ''.ss1.tmp'' w1 = (rt, w2)" by fastforce
  have p1: "preserves ?T w w1" using os_mkdir_all_frame [OF mk] by (rule preserves_frame)
  show ?thesis
  proof (cases "\<exists>tmp. rm = Inr () \<and> rt = Inr tmp")
    case False
    have "preserves ?T w1 w2" if "rt = Inl e" for e
      using ct that by (auto intro: preserves_frame os_create_temp_err)
    with False show ?thesis
      using put mk ct p1 preserves_trans [OF p1]
      by (cases rm; cases rt) (auto simp: put_sealed_path [OF base bucket] fail_obs_iff)
  next
    case True
    then obtain tmp where t: "rm = Inr ()" "rt = Inr tmp" by blast
    then obtain w3 where tm: "put_sealed_tmp l jc bucket key ?odir tmp r w2 = (res, w3)"
      and w': "w' = io_ignore (os_remove tmp) w3"
      using put mk ct by (auto simp: put_sealed_path [OF base bucket] io_defer_iff)
    have c: "file_at w1 tmp = None" "frame {tmp} w1 w2"
      using os_create_temp_ok [OF ct [unfolded t]] by auto
    have "preserves (insert tmp ?T) w1 w2"
      using c by (auto intro: preserves_frame frame_mono)
    also have "preserves (insert tmp ?T) w2 w3"
      using put_sealed_tmp_keeps [OF tm base bucket refl] by simp
    also have "preserves (insert tmp ?T) w3 w'"
      unfolding w' by (intro preserves_frame io_ignore_remove_frame) simp
    finally have "preserves ?T w1 w'"
      using c(1) by (auto simp: preserves_def) (metis option.distinct(1))
    with p1 show ?thesis by (rule preserves_trans)
  qed
qed

end
