(* ===== verification/LocalGet.thy ===== *)
theory LocalGet imports LocalPut
begin

text \<open>
  Facts about \<open>Get\<close>, \<open>Head\<close> and \<open>Delete\<close>: what is written is read back, a verified read
  only returns a payload with the recorded hash, and every integrity failure is reported.
\<close>

subsection \<open>Reads leave the store alone\<close>

lemma more_world:
  fixes w w' :: world
  shows "os_state.more w' = os_state.more w \<Longrightarrow> repairs w' = repairs w \<and> obs_log w' = obs_log w"
  by (cases w; cases w') simp

lemma frame_world:
  fixes w w' :: world
  shows "frame S w w' \<Longrightarrow> repairs w' = repairs w \<and> obs_log w' = obs_log w"
  by (rule more_world) (rule frame_more)

lemma io_bind_frame:
  assumes "io_bind m f w = (r, w')" and "\<And>r1 w1. m w = (r1, w1) \<Longrightarrow> frame S w w1"
    and "\<And>x w1. m w = (Inr x, w1) \<Longrightarrow> f x w1 = (r, w') \<Longrightarrow> frame S w1 w'"
  shows "frame S w w'"
  using assms
  by (cases "m w"; cases "fst (m w)") (auto simp: io_bind_def intro: frame_trans)

lemma io_ignore_close_frame [fs_frame]: "frame S w (io_ignore (os_close p) w)"
  by (cases "os_close p w") (auto simp: io_ignore_def intro: os_close_frame)

lemma os_seek_frame [fs_frame]: "os_seek off w = (r, w') \<Longrightarrow> frame S w w'"
  unfolding os_seek_def by (erule io_bind_tick_frame) (auto split: if_splits)

lemma read_header_frame [fs_frame]: "read_header n off w = (r, w') \<Longrightarrow> frame S w w'"
  unfolding read_header_def
  by (erule io_bind_frame) (auto intro: os_read_from_frame split: sum.splits)

lemma read_footer_frame [fs_frame]: "read_footer n off w = (r, w') \<Longrightarrow> frame S w w'"
  unfolding read_footer_def
  by (erule io_bind_frame) (auto intro: os_read_from_frame split: sum.splits)

lemma read_n_frame [fs_frame]: "read_n f off n w = (r, w') \<Longrightarrow> frame S w w'"
  unfolding read_n_def
  by (cases "n \<le> 0") (auto simp: io_return_def elim!: io_bind_frame intro: os_read_from_frame split: if_splits)

lemma verify_payload_frame [fs_frame]: "verify_payload f h c w = (r, w') \<Longrightarrow> frame S w w'"
  by (auto simp: verify_payload_def split: prod.splits sum.splits
      dest!: os_seek_frame [where S = S] read_n_frame [where S = S] intro: frame_trans)

lemma verify_on_read_frame [fs_frame]: "verify_on_read f shard h w = (r, w') \<Longrightarrow> frame S w w'"
  by (auto simp: verify_on_read_def split: prod.splits sum.splits if_splits
      dest!: os_seek_frame [where S = S] read_footer_frame [where S = S] verify_payload_frame [where S = S]
      intro: frame_trans)

lemma load_manifest_frame [fs_frame]: "load_manifest jc base bucket key w = (r, w') \<Longrightarrow> frame S w w'"
proof -
  assume ld: "load_manifest jc base bucket key w = (r, w')"
  show ?thesis
  proof (cases "manifest_path base bucket key")
    case (Inl e)
    with ld show ?thesis by (simp add: load_manifest_def)
  next
    case (Inr p)
    have rd: "frame S w1 w2" if "io_defer (os_read_from n 0) (os_close q) w1 = (r1, w2)" for n q r1 and w1 w2 :: "'a os_state_scheme"
      using that by (auto simp: io_defer_iff intro: frame_trans [OF os_read_from_frame io_ignore_close_frame])
    from ld Inr show ?thesis
      by (auto simp: load_manifest_def elim!: io_bind_frame intro: os_open_frame rd split: option.splits sum.splits)
  qed
qed

lemma sealed_manifest_frame [fs_frame]: "sealed_manifest l jc bucket key w = (r, w') \<Longrightarrow> frame S w w'"
  by (auto simp: sealed_manifest_def split: prod.splits sum.splits list.splits dest: load_manifest_frame)

lemma md5_file_frame [fs_frame]: "md5_file p w = (r, w') \<Longrightarrow> frame S w w'"
proof -
  assume md: "md5_file p w = (r, w')"
  have rd: "frame S w1 w2" if "io_defer (os_read_from n 0) (os_close q) w1 = (r1, w2)" for n q r1 and w1 w2 :: "'a os_state_scheme"
    using that by (auto simp: io_defer_iff intro: frame_trans [OF os_read_from_frame io_ignore_close_frame])
  from md show ?thesis
    unfolding md5_file_def
    by (auto elim!: io_bind_frame intro: os_open_frame rd simp: io_return_def)
qed

subsection \<open>Quiet reads\<close>

lemma os_open_quiet [simp]:
  "fs_faults w = [] \<Longrightarrow> os_open p w = (case lookup w p of None \<Rightarrow> Inl (missing_err w p) | Some n \<Rightarrow> Inr n, w)"
  by (simp add: os_open_def os_stat_def split: option.split)

lemma os_stat_quiet [simp]:
  "fs_faults w = [] \<Longrightarrow> os_stat p w = (case lookup w p of None \<Rightarrow> Inl (missing_err w p) | Some n \<Rightarrow> Inr n, w)"
  by (simp add: os_stat_def split: option.split)

lemma os_read_from_quiet [simp]: "fs_faults w = [] \<Longrightarrow> os_read_from (FileN c t) off w = (Inr (drop off c), w)"
  by (simp add: os_read_from_def)

lemma os_close_quiet [simp]: "fs_faults w = [] \<Longrightarrow> os_close p w = (Inr (), w)"
  by (simp add: os_close_def)

lemma io_ignore_close_quiet [simp]: "fs_faults w = [] \<Longrightarrow> io_ignore (os_close p) w = w"
  by (simp add: io_ignore_def)

lemma os_seek_quiet [simp]:
  "fs_faults w = [] \<Longrightarrow> os_seek off w = (if off < 0 then Inl (OsErr EINVAL) else Inr (nat off), w)"
  by (simp add: os_seek_def)

lemma md5_file_quiet [simp]:
  "fs_faults w = [] \<Longrightarrow> lookup w p = Some (FileN c t) \<Longrightarrow> md5_file p w = (Inr (hex_encode (md5 c)), w)"
  by (simp add: md5_file_def io_bind_def io_defer_def io_return_def)

lemma read_n_quiet [simp]:
  "fs_faults w = [] \<Longrightarrow> 0 \<le> n \<Longrightarrow> nat n \<le> length (drop off c) \<Longrightarrow>
     read_n (FileN c t) off n w = (Inr (take (nat n) (drop off c)), w)"
  by (auto simp: read_n_def io_bind_def io_return_def)

lemma load_manifest_quiet:
  assumes base: "abs_base base" and bucket: "good_elem bucket" and q: "fs_faults w = []"
  shows "load_manifest jc base bucket key w =
    (case lookup w (meta_elems base bucket key) of
       None \<Rightarrow> Inl (missing_err w (meta_elems base bucket key))
     | Some DirN \<Rightarrow> Inl (OsErr EISDIR)
     | Some (FileN c _) \<Rightarrow>
         (case jdec jc c of None \<Rightarrow> Inl (ErrText ''json'')
          | Some m \<Rightarrow> (case validate_basic m of Inl e \<Rightarrow> Inl e | Inr _ \<Rightarrow> Inr m)), w)"
proof -
  obtain p where "manifest_path base bucket key = Inr p" "os_path p = meta_elems base bucket key"
    using manifest_path_ok [OF base bucket] by blast
  with q show ?thesis
    by (auto simp: load_manifest_def io_bind_def io_defer_def os_read_from_def
        split: option.split node.split sum.split)
qed

lemma sealed_manifest_quiet:
  assumes base: "abs_base (lBase l)" and bucket: "good_elem bucket" and q: "fs_faults w = []"
    and at: "file_at w (meta_elems (lBase l) bucket key) = Some c" and dec: "jdec jc c = Some m"
    and v: "validate_basic m = Inr ()" and sh: "mShards m = shard # rest"
  shows "sealed_manifest l jc bucket key w = (Some (m, shard), w)"
  using at dec v sh
  by (auto simp: sealed_manifest_def load_manifest_quiet [OF base bucket q] file_at_Some)

lemma sealed_manifest_absent:
  assumes base: "abs_base (lBase l)" and bucket: "good_elem bucket" and q: "fs_faults w = []"
    and at: "file_at w (meta_elems (lBase l) bucket key) = None"
  shows "sealed_manifest l jc bucket key w = (None, w)"
  using at
  by (auto simp: sealed_manifest_def load_manifest_quiet [OF base bucket q] file_at_def
      split: option.splits node.splits)

subsection \<open>What is put is got back\<close>

lemma observe_faults [simp]:
  "fs_faults (observe l op n f w) = fs_faults w" "fs_faults (observe_sealed l op n f s i w) = fs_faults w"
  by (auto simp: observe_def observe_sealed_def split: observer.split)

lemma lookup_observe [simp]:
  "lookup (observe l op n f w) = lookup w" "lookup (observe_sealed l op n f s i w) = lookup w"
  by (auto simp: observe_def observe_sealed_def lookup_def fun_eq_iff split: observer.split)

lemma tree_ok_observe [simp]:
  "tree_ok (observe l op n f w) = tree_ok w" "tree_ok (observe_sealed l op n f s i w) = tree_ok w"
  by (simp_all add: tree_ok_def)

lemma io_ignore_tree_ok:
  "tree_ok w \<Longrightarrow> tree_ok (io_ignore (os_remove p) w)" "tree_ok w \<Longrightarrow> tree_ok (io_ignore (os_chtimes p t) w)"
  by (cases "os_remove p w"; cases "os_chtimes p t w";
      auto simp: io_ignore_def dest: os_remove_tree_ok os_chtimes_tree_ok)+

lemma if_ok_tree_ok:
  assumes "if_ok s m = (e, w')" and "tree_ok (snd s)" and "\<And>r w1. m (snd s) = (r, w1) \<Longrightarrow> tree_ok w1"
  shows "tree_ok w'"
  using assms by (cases "(s, m)" rule: if_ok.cases) (auto split: prod.splits sum.splits)

lemma and_also_tree_ok:
  assumes "and_also s m = (e, w')" and "\<And>r w1. m (snd s) = (r, w1) \<Longrightarrow> tree_ok w1"
  shows "tree_ok w'"
  using assms by (cases "(s, m)" rule: and_also.cases; cases "m (snd s)") (auto split: prod.splits sum.splits)

lemma os_sync_close_tree_ok:
  "os_sync p w = (r, w') \<Longrightarrow> tree_ok w \<Longrightarrow> tree_ok w'" "os_close p w = (r, w') \<Longrightarrow> tree_ok w \<Longrightarrow> tree_ok w'"
  by (simp_all add: os_sync_def os_close_def tree_ok_tick)

lemma put_plain_tree_ok:
  assumes put: "put_plain l bucket key r w = (res, w')" and ok: "tree_ok w"
  shows "tree_ok w'"
proof (cases "object_path l bucket key")
  case (Inl e)
  with put ok show ?thesis by (auto simp: put_plain_def fail_obs_iff)
next
  case (Inr p)
  obtain rm w1 where mk: "os_mkdir_all (butlast (os_path p)) w = (rm, w1)" by fastforce
  obtain rt w2 where ct: "os_create_temp (butlast (os_path p)) ''.put-'' '''' w1 = (rt, w2)" by fastforce
  have t: "tree_ok w1" "tree_ok w2"
    using os_mkdir_all_tree_ok [OF mk ok] os_create_temp_tree_ok [OF ct] by auto
  have tmp: "tree_ok w3" if tm: "put_plain_tmp l (os_path p) tmp r w2 = (r3, w3)" for tmp r3 w3
  proof -
    obtain m ce wa where cp: "os_copy tmp 0 r w2 = (m, ce, wa)" by (cases "os_copy tmp 0 r w2")
    obtain e wb where s: "and_also (if_ok (ce, wa) (os_sync tmp)) (os_close tmp) = (e, wb)" by fastforce
    have "tree_ok wa" using cp t by (blast dest: os_copy_tree_ok)
    then have "tree_ok (snd (if_ok (ce, wa) (os_sync tmp)))"
      by (intro if_ok_tree_ok [OF surjective_pairing]) (auto intro: os_sync_close_tree_ok)
    then have wb: "tree_ok wb"
      by (intro and_also_tree_ok [OF s]) (auto intro: os_sync_close_tree_ok)
    obtain rr wc where rn: "os_rename tmp (os_path p) wb = (rr, wc)" by fastforce
    show ?thesis
      using tm cp s wb rn os_rename_tree_ok [OF rn wb]
      by (cases e; cases rr)
        (auto simp: put_plain_tmp_def fail_obs_iff io_ignore_tree_ok simp del: if_ok.simps and_also.simps)
  qed
  show ?thesis
    using put Inr mk ct t tmp
    by (cases rm; cases rt)
      (auto simp: put_plain_def Let_def fail_obs_iff io_defer_iff io_ignore_tree_ok)
qed

lemma get_plain_quiet:
  assumes p: "object_path l bucket key = Inr p" and q: "fs_faults w = []"
    and f: "lookup w (os_path p) = Some (FileN c t)"
  shows "get_plain l bucket key w =
    (Inr \<lparr>grBody = c, grSize = int (length c), grETag = hex_encode (md5 c), grModified = t\<rparr>,
     observe l ''get'' (int (length c)) False w)"
  using assms by (simp add: get_plain_def Let_def node_size_def)

text \<open>
  A plain object: after a successful put, whatever system calls failed on the way, a get
  with no failing call returns the payload, its length and its ETag.
\<close>

lemma put_then_get_plain:
  assumes plain: "\<not> lSealed l" and base: "abs_base (lBase l)" and bucket: "good_elem bucket"
    and tree: "tree_ok w" and key: "\<not> temp_named (obj_elems (lBase l) bucket key)"
    and put: "put l jc bucket key r w = (Inr (etag, n), w')" and quiet: "fs_faults w' = []"
  shows "\<exists>g w2. get l jc bucket key w' = (Inr g, w2) \<and> grBody g = rd_data r \<and> grSize g = n \<and> grETag g = etag"
proof -
  obtain p where p: "object_path l bucket key = Inr p" "os_path p = obj_elems (lBase l) bucket key"
    using object_path_ok [OF base bucket] by blast
  have pp: "put_plain l bucket key r w = (Inr (etag, n), w')"
    using put plain by (simp add: put_def)
  note st = put_plain_stored [OF pp p(1)]
  then have at: "file_at w' (os_path p) = Some (rd_data r)" using key p by simp
  then obtain t where f: "lookup w' (os_path p) = Some (FileN (rd_data r) t)" by (auto simp: file_at_Some)
  have "tree_ok w'" using put_plain_tree_ok [OF pp tree] .
  then have "file_at w' (meta_elems (lBase l) bucket key) = None"
    using tree_ok_below_file at p by (fastforce simp: meta_elems_def file_at_def)
  then have "sealed_manifest l jc bucket key w' = (None, w')"
    by (rule sealed_manifest_absent [OF base bucket quiet])
  then show ?thesis
    using get_plain_quiet [OF p(1) quiet f] st key p by (simp add: get_def)
qed

subsection \<open>Sealed reads\<close>

lemma clean_rel:
  assumes "\<forall>c \<in> set es. good_elem c" and "good_elem d"
  shows "join_path [''objects'', bucket, join_with CHR ''/'' es, d] =
    (if good_elem bucket then join_with CHR ''/'' (''objects'' # bucket # es @ [d])
     else join_path [''objects'', bucket, join_with CHR ''/'' es, d])"
proof (cases "good_elem bucket")
  case True
  have split: "foldl (clean_step False) st (split_on CHR ''/'' (x @ CHR ''/'' # t)) =
      foldl (clean_step False) (foldl (clean_step False) st (split_on CHR ''/'' x)) (split_on CHR ''/'' t)" for st x t
    by (simp add: split_on_append_sep)
  have one: "foldl (clean_step False) st (split_on CHR ''/'' c) = c # st" if "good_elem c" for st c
    using that by (subst split_on_no_sep) (auto simp: clean_step_good good_elem_def)
  have "clean_elems False (''objects'' @ CHR ''/'' # bucket @ CHR ''/'' # join_with CHR ''/'' es @ CHR ''/'' # d) =
      ''objects'' # bucket # es @ [d]"
    unfolding clean_elems_def split using assms True
    by (simp only: one [OF good_objects] one [OF True] one [OF assms(2)] foldl_clean_step_join [OF assms(1)]) simp
  then show ?thesis
    using True by (simp add: join_path_def clean_def is_rooted_def Let_def)
qed simp

lemma shard_file_sealed:
  assumes base: "abs_base (lBase l)" and bucket: "good_elem bucket"
    and path: "smPath shard = join_path [''objects'', bucket, clean_key key, ''data.ss1'']"
  shows "shard_file l shard = shard_elems (lBase l) bucket key"
proof -
  have "smPath shard = join_with CHR ''/'' (''objects'' # bucket # key_elems key @ [''data.ss1''])"
    using clean_rel [of "key_elems key" "''data.ss1''" bucket] bucket key_elems_good
    by (simp add: path clean_key_eq)
  moreover have "\<forall>c \<in> set (''objects'' # bucket # key_elems key @ [''data.ss1'']). good_elem c"
    using bucket key_elems_good by auto
  ultimately show ?thesis
    using base foldl_clean_step_join [of "''objects'' # bucket # key_elems key @ [''data.ss1'']" True]
    by (simp add: shard_file_def join_path_base abs_base_def shard_elems_def obj_elems_def del: join_with.simps)
qed

lemma decode_header_bytes: "decode_shard_header (header_bytes h @ rest) = Inr (h, 0 # rest)"
  by (simp add: decode_shard_header_iff header_bytes_def)

lemma decode_footer_bytes [simp]:
  "length c = 32 \<Longrightarrow> decode_shard_footer (encode_shard_footer c) = Inr (c, [])"
  by (simp add: decode_shard_footer_iff)

lemma sint_of_int64: "- (2 ^ 63) \<le> k \<Longrightarrow> k < 2 ^ 63 \<Longrightarrow> sint (word_of_int k :: 64 word) = k"
  by (simp add: signed_of_int signed_take_bit_int_eq_self)

lemma sealed_header_fields:
  assumes "int n < 2 ^ 63 - 28"
  shows "header_off (sealed_header (int n)) = 28" and "payload_len (sealed_header (int n)) = int n"
    and "footer_off (sealed_header (int n)) = int n + 28"
proof -
  show "header_off (sealed_header (int n)) = 28"
    by (simp add: header_off_def sealed_header_def)
  have "sint (word_of_int (int n) :: 64 word) = int n"
    using assms by (intro sint_of_int64) simp_all
  then show "payload_len (sealed_header (int n)) = int n"
    by (simp add: payload_len_def sealed_header_def)
  have "ucast (28 :: 16 word) + word_of_int (int n) = (word_of_int (int n + 28) :: 64 word)"
    by simp
  moreover have "sint (word_of_int (int n + 28) :: 64 word) = int n + 28"
    using assms by (intro sint_of_int64) simp_all
  ultimately show "footer_off (sealed_header (int n)) = int n + 28"
    unfolding footer_off_def sealed_header_def by (simp only: shard_header.simps)
qed

lemma verify_sealed_quiet:
  assumes n: "int (length payload) < 2 ^ 63 - 28" and q: "fs_faults w = []"
    and h: "hex_decode (smContentHashHex shard) = Some (sha256 payload)"
  shows "verify_on_read (FileN (sealed_bytes payload) t) shard (sealed_header (int (length payload))) w = (CheckOk, w)"
proof -
  have "nat (int (length payload) + 28) = 28 + length payload" by simp
  then show ?thesis
    using n q h
    by (simp add: verify_on_read_def verify_payload_def read_footer_def io_bind_def sealed_header_fields
        sealed_bytes_def)
qed

lemma get_sealed_quiet:
  assumes f: "lookup w (shard_file l shard) = Some (FileN (sealed_bytes payload) t)"
    and n: "int (length payload) < 2 ^ 63 - 28" and q: "fs_faults w = []"
    and h: "lVerify l \<longrightarrow> hex_decode (smContentHashHex shard) = Some (sha256 payload)"
  shows "get_sealed l bucket key m shard w =
    (Inr \<lparr>grBody = payload, grSize = int (length payload), grETag = mETag m, grModified = mLastModified m\<rparr>,
     observe_sealed l ''get'' (int (length payload)) False True False w)"
proof -
  have hd: "read_header (FileN (sealed_bytes payload) t) 0 w = (Inr (sealed_header (int (length payload))), w)"
    using q by (simp add: read_header_def io_bind_def sealed_bytes_def decode_header_bytes)
  have body: "section_bytes (sealed_bytes payload) 28 (int (length payload)) = payload"
    by (simp add: section_bytes_def sealed_bytes_def)
  show ?thesis
    using f q h by (simp add: get_sealed_def Let_def hd verify_sealed_quiet [OF n q] sealed_header_fields [OF n] body)
qed

lemma sealed_object_manifest_sel [simp]:
  "mETag (sealed_object_manifest b k p t) = hex_encode (md5 p)"
  "mSize (sealed_object_manifest b k p t) = int (length p)"
  "mShards (sealed_object_manifest b k p t) = [sealed_shard_meta b (clean_key k) (bytes_reader p)
      (header_bytes (sealed_header (int (length p)))) (encode_shard_footer (sha256 p))]"
  by (simp_all add: sealed_object_manifest_def new_single_shard_manifest_def)

lemma sealed_object_manifest_valid:
  "b \<noteq> '''' \<Longrightarrow> k \<noteq> '''' \<Longrightarrow> validate_basic (sealed_object_manifest b k p t) = Inr ()"
  by (simp add: validate_basic_def sealed_object_manifest_def new_single_shard_manifest_def)

lemma sealed_shard_meta_sel [simp]:
  "smPath (sealed_shard_meta b ck r hb fb) = join_path [''objects'', b, ck, ''data.ss1'']"
  "smContentHashHex (sealed_shard_meta b ck r hb fb) = hex_encode (sha256 (rd_data r))"
  by (simp_all add: sealed_shard_meta_def)

lemma rd_data_bytes_reader [simp]: "rd_data (bytes_reader bs) = bs" "rd_err (bytes_reader bs) = None"
  by (simp_all add: bytes_reader_def)

lemma put_then_get_sealed:
  assumes mode: "lSealed l" and base: "abs_base (lBase l)" and bucket: "good_elem bucket"
    and codec: "json_ok jc (sealed_object_manifest bucket key (rd_data r) (fs_clock w))"
    and n: "int (length (rd_data r)) < 2 ^ 63 - 28"
    and put: "put l jc bucket key r w = (Inr (etag, n), w')" and quiet: "fs_faults w' = []"
  shows "\<exists>g w2. get l jc bucket key w' = (Inr g, w2) \<and> grBody g = rd_data r \<and> grSize g = n \<and> grETag g = etag"
proof -
  let ?m = "sealed_object_manifest bucket key (rd_data r) (fs_clock w)"
  have pp: "put_sealed l jc bucket key r w = (Inr (etag, n), w')"
    using put mode by (simp add: put_def)
  from put_sealed_stored [OF pp base bucket]
  obtain data where st: "n = int (length (rd_data r))" "etag = hex_encode (md5 (rd_data r))"
      "jenc jc ?m = Some data" "validate_basic ?m = Inr ()"
      "file_at w' = (file_at w)(shard_elems (lBase l) bucket key \<mapsto> sealed_bytes (rd_data r),
        meta_elems (lBase l) bucket key \<mapsto> data)"
    by blast
  have ne: "meta_elems (lBase l) bucket key \<noteq> shard_elems (lBase l) bucket key"
    by (simp add: meta_elems_def shard_elems_def ManifestFilename_def)
  have dec: "jdec jc data = Some ?m" using codec st(3) by (simp add: json_ok_def)
  let ?shard = "sealed_shard_meta bucket (clean_key key) (bytes_reader (rd_data r))
      (header_bytes (sealed_header (int (length (rd_data r))))) (encode_shard_footer (sha256 (rd_data r)))"
  have sm: "sealed_manifest l jc bucket key w' = (Some (?m, ?shard), w')"
    using st ne by (intro sealed_manifest_quiet [OF base bucket quiet _ dec]) auto
  have "shard_file l ?shard = shard_elems (lBase l) bucket key"
    by (rule shard_file_sealed [OF base bucket]) simp
  moreover have "file_at w' (shard_elems (lBase l) bucket key) = Some (sealed_bytes (rd_data r))"
    using st(5) ne by simp
  ultimately obtain t where "lookup w' (shard_file l ?shard) = Some (FileN (sealed_bytes (rd_data r)) t)"
    by (auto simp: file_at_Some)
  from get_sealed_quiet [OF this n quiet] show ?thesis
    using st by (simp add: get_def sm)
qed

subsection \<open>Verified reads\<close>

lemma os_read_from_dir: "os_read_from DirN off w = (r, w') \<Longrightarrow> \<exists>e. r = Inl e"
  unfolding os_read_from_def by (elim tick_bindE) auto

lemma os_seek_Inr: "os_seek off w = (Inr n, w') \<Longrightarrow> 0 \<le> off \<and> n = nat off"
  unfolding os_seek_def by (elim tick_bindE) (auto split: if_splits)

lemma read_n_Inr:
  assumes "read_n f off n w = (Inr bs, w')" and n: "0 \<le> n" and f: "f = FileN c t"
  shows "bs = take (nat n) (drop off c)"
proof (cases "n = 0")
  case True
  with assms show ?thesis by (simp add: read_n_def io_return_def)
next
  case False
  with assms show ?thesis
    by (auto simp: read_n_def io_bind_Inr dest!: os_read_from_ok split: if_splits)
qed

lemma read_header_Inr:
  "read_header f off w = (Inr h, w') \<Longrightarrow> \<exists>c t rest. f = FileN c t \<and> decode_shard_header (drop off c) = Inr (h, rest)"
  unfolding read_header_def io_bind_Inr
  by (elim exE conjE) (auto dest!: os_read_from_ok split: sum.split_asm prod.split_asm)

lemma read_footer_Inr:
  "read_footer f off w = (Inr d, w') \<Longrightarrow> \<exists>c t rest. f = FileN c t \<and> decode_shard_footer (drop off c) = Inr (d, rest)"
  unfolding read_footer_def io_bind_Inr
  by (elim exE conjE) (auto dest!: os_read_from_ok split: sum.split_asm prod.split_asm)

lemma verify_on_read_ok:
  assumes v: "verify_on_read f shard h w = (CheckOk, w')" and n: "0 \<le> payload_len h"
  shows "\<exists>c t. f = FileN c t \<and>
    hex_decode (smContentHashHex shard) = Some (sha256 (section_bytes c (header_off h) (payload_len h)))"
proof -
  from v obtain off w1 d w2 where "os_seek (footer_off h) w = (Inr off, w1)"
    and ft: "read_footer f off w1 = (Inr d, w2)" and hx: "hex_decode (smContentHashHex shard) = Some d"
    and vp: "verify_payload f h d w2 = (CheckOk, w')"
    by (auto simp: verify_on_read_def split: prod.splits sum.splits if_splits)
  obtain c t where f: "f = FileN c t" using read_footer_Inr [OF ft] by blast
  from vp obtain po w3 bs w4 where sk: "os_seek (int (header_off h)) w2 = (Inr po, w3)"
    and rd: "read_n f po (payload_len h) w3 = (Inr bs, w4)" and sha: "sha256 bs = d"
    by (auto simp: verify_payload_def split: prod.splits sum.splits if_splits)
  have "po = header_off h" using os_seek_Inr [OF sk] by simp
  then have "bs = section_bytes c (header_off h) (payload_len h)"
    using read_n_Inr [OF rd n f] n by (simp add: section_bytes_def)
  with f hx sha show ?thesis by auto
qed

lemma get_sealed_verified:
  assumes g: "get_sealed l bucket key m shard w = (Inr g, w')" and v: "lVerify l" and n: "0 \<le> grSize g"
  shows "hex_decode (smContentHashHex shard) = Some (sha256 (grBody g)) \<and>
    grETag g = mETag m \<and> grModified g = mLastModified m"
proof -
  from g v obtain f off w1 w2 w3 h w4 where "os_open (shard_file l shard) w = (Inr f, w1)"
    and "read_header f off w2 = (Inr h, w3)" and ok: "verify_on_read f shard h w3 = (CheckOk, w4)"
    and res: "g = \<lparr>grBody = section_bytes (node_bytes f) (header_off h) (payload_len h),
      grSize = payload_len h, grETag = mETag m, grModified = mLastModified m\<rparr>"
    by (auto simp: get_sealed_def Let_def fail_obs_iff integrity_fail_def split: prod.splits sum.splits check.splits)
  show ?thesis
    using verify_on_read_ok [OF ok] n res by auto
qed

text \<open>Which errors the steps return: never the integrity error, which \<open>Get\<close> and \<open>Head\<close> add.\<close>

lemma os_tick_err: "os_tick w = (Inl e, w') \<Longrightarrow> \<exists>x. e = OsErr x"
  by (auto simp: os_tick_def split: list.splits option.splits)

lemma os_stat_err: "os_stat p w = (Inl e, w') \<Longrightarrow> \<exists>x. e = OsErr x"
  unfolding os_stat_def
  by (elim tick_bindE) (auto simp: missing_err_def dest: os_tick_err split: option.splits)

lemma os_read_from_err: "os_read_from n off w = (Inl e, w') \<Longrightarrow> \<exists>x. e = OsErr x"
  unfolding os_read_from_def
  by (elim tick_bindE) (auto dest: os_tick_err split: node.splits)

lemma os_seek_err: "os_seek off w = (Inl e, w') \<Longrightarrow> \<exists>x. e = OsErr x"
  unfolding os_seek_def
  by (elim tick_bindE) (auto dest: os_tick_err split: if_splits)

lemma decode_shard_header_err: "decode_shard_header bs = Inl e \<Longrightarrow> e \<noteq> ErrIntegrity"
  by (auto simp: decode_shard_header_def res_bind_Inl_iff read_full_def Let_def split: if_splits)

lemma read_header_err: "read_header f off w = (Inl e, w') \<Longrightarrow> e \<noteq> ErrIntegrity"
  unfolding read_header_def io_bind_Inl
  by (elim disjE exE conjE)
    (auto dest!: os_read_from_err decode_shard_header_err split: sum.split_asm prod.split_asm)

lemma md5_file_err: "md5_file p w = (Inl e, w') \<Longrightarrow> \<exists>x. e = OsErr x"
  by (auto simp: md5_file_def io_bind_Inl io_defer_iff os_open_def io_return_def
      dest!: os_read_from_err os_stat_err)

lemma verify_payload_err: "verify_payload f h d w = (CheckErr e, w') \<Longrightarrow> \<exists>x. e = OsErr x"
  by (auto simp: verify_payload_def dest!: os_seek_err split: prod.splits sum.splits if_splits)

lemma verify_on_read_err: "verify_on_read f shard h w = (CheckErr e, w') \<Longrightarrow> \<exists>x. e = OsErr x"
  by (auto simp: verify_on_read_def dest!: os_seek_err verify_payload_err split: prod.splits sum.splits if_splits)

lemma object_path_err: "object_path l bucket key = Inl e \<Longrightarrow> \<exists>s. e = ErrText s"
  by (auto simp: object_path_def Let_def split: if_splits)

text \<open>
  Reporting: when \<open>Get\<close> or \<open>Head\<close> returns the integrity error, exactly one repair item
  for the object was handed to the callback, and the failure was observed once.
\<close>

definition reported :: "localfs \<Rightarrow> string \<Rightarrow> string \<Rightarrow> string \<Rightarrow> world \<Rightarrow> world \<Rightarrow> bool" where
  "reported l op bucket key w w' \<longleftrightarrow>
     (\<exists>path t. repairs w' = repairs w @
        [\<lparr>srBucket = bucket, srKey = key, srShardPath = path, srReason = ''read_integrity_fail'',
          srPriority = 0, srDiscovered = t\<rparr>]) \<and>
     (lObs l = SealedObs \<longrightarrow> obs_log w' = obs_log w @ [Obs op 0 True, ObsSealed op 0 True True True])"

lemma reported_frame:
  assumes "frame S w w1" and "reported l op bucket key w1 w'"
  shows "reported l op bucket key w w'"
  using assms frame_world by (simp add: reported_def)

lemma repairs_observe [simp]:
  "repairs (observe l op n f w) = repairs w" "repairs (observe_sealed l op n f s i w) = repairs w"
  by (auto simp: observe_def observe_sealed_def split: observer.split)

lemma integrity_fail_reported:
  "integrity_fail l op bucket key p w = (r, w') \<Longrightarrow> lRepCb l \<Longrightarrow> reported l op bucket key w w'"
  by (auto simp: integrity_fail_def reported_def enqueue_repair_def observe_sealed_def split: observer.split)

lemma head_integrity_fail_reported:
  "head_integrity_fail l bucket key p w = (r, w') \<Longrightarrow> lRepCb l \<Longrightarrow> reported l ''head'' bucket key w w'"
  by (auto simp: head_integrity_fail_def reported_def enqueue_repair_def observe_sealed_def split: observer.split)

lemma get_sealed_reported:
  assumes g: "get_sealed l bucket key m shard w = (Inl ErrIntegrity, w')" and cb: "lRepCb l"
  shows "reported l ''get'' bucket key w w'"
proof -
  from g obtain f w1 off w2 h w3 w4 where op: "os_open (shard_file l shard) w = (Inr f, w1)"
    and sk: "os_seek 0 w1 = (Inr off, w2)" and rh: "read_header f off w2 = (Inr h, w3)"
    and v: "(if lVerify l then verify_on_read f shard h w3 else (CheckOk, w3)) = (CheckBad, w4)"
    and ig: "integrity_fail l ''get'' bucket key (smPath shard) (io_ignore (os_close (shard_file l shard)) w4) =
      (Inl ErrIntegrity :: get_result result, w')"
    by (auto simp: get_sealed_def Let_def fail_obs_iff os_open_def
        dest!: os_stat_err os_seek_err read_header_err verify_on_read_err
        split: prod.split_asm sum.split_asm check.split_asm if_split_asm)
  have "frame {} w w1" using op by (rule os_open_frame)
  also have "frame {} w1 w2" using sk by (rule os_seek_frame)
  also have "frame {} w2 w3" using rh by (rule read_header_frame)
  also have "frame {} w3 w4" using v by (auto split: if_splits intro: verify_on_read_frame)
  also have "frame {} w4 (io_ignore (os_close (shard_file l shard)) w4)" by (rule io_ignore_close_frame)
  finally show ?thesis
    using integrity_fail_reported [OF ig cb] by (rule reported_frame)
qed

lemma get_plain_no_integrity: "get_plain l bucket key w = (Inl e, w') \<Longrightarrow> e \<noteq> ErrIntegrity"
  by (auto simp: get_plain_def Let_def fail_obs_iff os_open_def
      dest!: os_stat_err md5_file_err object_path_err split: prod.split_asm sum.split_asm)

lemma get_reported:
  assumes g: "get l jc bucket key w = (Inl ErrIntegrity, w')" and cb: "lRepCb l"
  shows "reported l ''get'' bucket key w w'"
proof -
  obtain r w1 where sm: "sealed_manifest l jc bucket key w = (r, w1)" by fastforce
  show ?thesis
  proof (cases r)
    case None
    with g sm show ?thesis by (auto simp: get_def dest: get_plain_no_integrity)
  next
    case (Some ms)
    with g sm have "get_sealed l bucket key (fst ms) (snd ms) w1 = (Inl ErrIntegrity, w')"
      by (auto simp: get_def split: prod.splits)
    from reported_frame [OF sealed_manifest_frame [OF sm] get_sealed_reported [OF this cb]]
    show ?thesis .
  qed
qed

lemma head_verify_reported:
  assumes hv: "head_verify l bucket key shard w = (Inl ErrIntegrity, w')" and cb: "lRepCb l"
  shows "reported l ''head'' bucket key w w'"
proof -
  let ?sp = "shard_file l shard"
  from hv obtain f w1 where op: "os_open ?sp w = (Inr f, w1)"
    by (auto simp: head_verify_def Let_def fail_obs_iff os_open_def dest!: os_stat_err split: prod.split_asm sum.split_asm)
  from hv op obtain off w2 where sk: "os_seek 0 w1 = (Inr off, w2)"
    by (auto simp: head_verify_def Let_def fail_obs_iff dest!: os_seek_err split: prod.split_asm sum.split_asm)
  obtain rh w3 where rh: "read_header f off w2 = (rh, w3)" by fastforce
  have f3: "frame {} w w3"
    using frame_trans [OF os_open_frame [OF op] frame_trans [OF os_seek_frame [OF sk] read_header_frame [OF rh]]] .
  have cl: "reported l ''head'' bucket key w w'"
    if "frame {} w3 w4" "head_integrity_fail l bucket key (smPath shard) (io_ignore (os_close ?sp) w4) = (Inl ErrIntegrity :: unit result, w')" for w4
    using reported_frame [OF frame_trans [OF f3 frame_trans [OF that(1) io_ignore_close_frame]]
        head_integrity_fail_reported [OF that(2) cb]] .
  show ?thesis
  proof (cases rh)
    case (Inl e)
    with hv op sk rh show ?thesis by (intro cl [of w3]) (simp_all add: head_verify_def)
  next
    case (Inr h)
    with hv op sk rh obtain foff w4 where sf: "os_seek (footer_off h) w3 = (Inr foff, w4)"
      by (auto simp: head_verify_def Let_def fail_obs_iff dest!: os_seek_err split: prod.split_asm sum.split_asm)
    obtain rf w5 where rf: "read_footer f foff w4 = (rf, w5)" by fastforce
    have "frame {} w3 w5" using frame_trans [OF os_seek_frame [OF sf] read_footer_frame [OF rf]] .
    then show ?thesis
      using hv op sk rh Inr sf rf
      by (intro cl [of w5]) (auto simp: head_verify_def Let_def split: sum.split_asm if_split_asm)
  qed
qed

lemma head_reported:
  assumes hd: "head l jc bucket key w = (Inl ErrIntegrity, w')" and cb: "lRepCb l"
  shows "reported l ''head'' bucket key w w'"
proof -
  obtain r w1 where sm: "sealed_manifest l jc bucket key w = (r, w1)" by fastforce
  show ?thesis
  proof (cases r)
    case None
    with hd sm show ?thesis
      by (auto simp: head_def fail_obs_iff dest!: os_stat_err md5_file_err object_path_err
          split: prod.split_asm sum.split_asm)
  next
    case (Some ms)
    with hd sm have "head_verify l bucket key (snd ms) w1 = (Inl ErrIntegrity, w')"
      by (auto simp: head_def split: prod.split_asm sum.split_asm if_split_asm)
    from reported_frame [OF sealed_manifest_frame [OF sm] head_verify_reported [OF this cb]]
    show ?thesis .
  qed
qed

subsection \<open>Delete\<close>

lemma os_remove_dir_file_at:
  assumes rm: "os_remove p w = (r, w')" and dir: "file_at w p = None"
  shows "file_at w' = file_at w"
  using io_ignore_remove_gone [OF dir] rm by (simp add: io_ignore_def)

lemma remove_empty_parents_file_at: "file_at (remove_empty_parents dir stop w) = file_at w"
proof (induction dir stop w rule: remove_empty_parents.induct)
  case (1 dir stop w)
  obtain rd w1 where rd: "os_read_dir dir w = (rd, w1)" by fastforce
  obtain rr w2 where rm: "os_remove dir w1 = (rr, w2)" by fastforce
  have f1: "file_at w1 = file_at w" using rd by (rule frame_empty [OF os_read_dir_frame])
  have dirN: "file_at w1 dir = None" if "rd = Inr es" for es
    using rd that unfolding os_read_dir_def
    by (elim tick_bindE)
      (auto simp: file_at_def dest!: os_tick_lookup split: option.splits node.splits)
  have f2: "file_at w2 = file_at w1" if "rd = Inr es" for es
    using os_remove_dir_file_at [OF rm dirN [OF that]] .
  show ?case
    using 1 rd rm f1 f2
    by (subst remove_empty_parents.simps) (auto split: sum.split)
qed

lemma delete_plain_effect:
  assumes sm: "sealed_manifest l jc bucket key w = (None, w1)"
    and del: "delete l jc bucket key w = (res, w')" and p: "object_path l bucket key = Inr p"
  shows "case res of Inl e \<Rightarrow> file_at w' = file_at w | Inr _ \<Rightarrow> file_at w' = (file_at w)(os_path p := None)"
proof -
  obtain r2 w2 where rm: "os_remove (os_path p) w1 = (r2, w2)" by fastforce
  have f1: "file_at w1 = file_at w" using sm by (rule frame_empty [OF sealed_manifest_frame])
  show ?thesis
  proof (cases r2)
    case (Inl e)
    with del sm p rm have "res = Inl e" "w' = observe l ''delete'' 0 True w2"
      by (auto simp: delete_def fail_obs_iff)
    with f1 frame_empty [OF os_remove_err_frame [OF rm [unfolded Inl]]] show ?thesis by simp
  next
    case (Inr u)
    with del sm p rm have "res = Inr ()" "w' = observe l ''delete'' 0 False
        (remove_empty_parents (butlast (os_path p)) (os_path (join_path [lBase l, ''objects'', bucket])) w2)"
      by (auto simp: delete_def)
    with f1 os_remove_ok [OF rm [unfolded Inr]] show ?thesis by (simp add: remove_empty_parents_file_at)
  qed
qed

lemma delete_sealed_effect:
  assumes sm: "sealed_manifest l jc bucket key w = (Some (m, shard), w1)"
    and del: "delete l jc bucket key w = (res, w')"
    and base: "abs_base (lBase l)" and bucket: "good_elem bucket"
  shows "res = Inr () \<and> keeps {shard_file l shard, meta_elems (lBase l) bucket key} w w'"
proof -
  let ?S = "{shard_file l shard, meta_elems (lBase l) bucket key}"
  obtain p where p: "manifest_path (lBase l) bucket key = Inr p" "os_path p = meta_elems (lBase l) bucket key"
    using manifest_path_ok [OF base bucket] by blast
  have "keeps ?S w w1" using sm by (rule frame_keeps [OF sealed_manifest_frame])
  also have "keeps ?S w1 (io_ignore (os_remove (shard_file l shard)) w1)"
    by (rule frame_keeps [OF io_ignore_remove_frame]) simp
  also have "keeps ?S \<dots> (io_ignore (os_remove (os_path p)) \<dots>)"
    by (rule frame_keeps [OF io_ignore_remove_frame]) (simp add: p)
  also have "keeps ?S \<dots> w'"
    using del sm p by (auto simp: delete_def delete_sealed_def Let_def keeps_def remove_empty_parents_file_at)
  finally show ?thesis
    using del sm by (auto simp: delete_def)
qed

end
