(* ===== verification/LocalProps.thy ===== *)
theory LocalProps imports LocalGet
begin

text \<open>
  The properties of the object store's writes and reads, over the lemmas of \<open>LocalPut\<close> and
  \<open>LocalGet\<close>, with a concrete store and disk for their witnesses.
\<close>

subsection \<open>A concrete store\<close>

definition ex_store :: localfs where
  "ex_store = \<lparr>lBase = ''/d'', lSealed = False, lVerify = True, lObs = SealedObs, lRepCb = True\<rparr>"

definition ex_world :: world where
  "ex_world = \<lparr>fs_files = [([''d''], DirN)], fs_clock = 7, fs_faults = [], obs_log = [], repairs = []\<rparr>"

lemma ex_base [simp]: "abs_base ''/d''" "good_elem ''bkt''" "os_path ''/d'' = [''d'']"
  by (simp_all add: abs_base_def is_rooted_def clean_def clean_elems_def clean_step.simps good_elem_def os_path_def)

lemma ex_key [simp]: "key_elems ''k'' = [''k'']" "clean_key ''k'' = ''k''"
  by (simp_all add: clean_key_eq key_elems_def os_path_def clean_elems_def clean_step.simps)

lemma ex_object_path: "object_path ex_store ''bkt'' ''k'' = Inr ''/d/objects/bkt/k''"
  by (simp add: object_path_def ex_store_def join_path_def clean_def is_rooted_def clean_elems_def
      clean_step.simps under_base_def)

lemma ex_os_path: "os_path ''/d/objects/bkt/k'' = [''d'', ''objects'', ''bkt'', ''k'']"
  by (simp add: os_path_def clean_elems_def clean_step.simps)

lemma nat_to_dec_0: "nat_to_dec 0 = ''0''"
  by code_simp

lemmas ex_calls = os_mkdir_all_def os_create_temp_def io_bind_def os_tick_def lookup_def put_node_def
  temp_path_def io_defer_def os_copy_def os_write_at_def write_at_def os_sync_def os_close_def os_rename_def
  del_node_def os_chtimes_def io_ignore_def observe_def os_remove_def missing_err_def nat_to_dec_0 Let_def
  ex_store_def ex_world_def

lemma ex_put:
  "\<exists>w'. put ex_store jc ''bkt'' ''k'' (bytes_reader [1, 2]) ex_world = (Inr (hex_encode (md5 [1, 2]), 2), w') \<and> fs_faults w' = []"
  by (simp add: put_def put_plain_def ex_object_path ex_os_path)
    (simp add: put_plain_tmp_def ex_calls bytes_reader_def)

subsection \<open>Properties\<close>

text \<open>
  C31. Confinement: below a base directory, every accepted object path stays below it, and
  for a bucket that is one path element every key is accepted and resolves to the cleaned
  key's own elements below the bucket directory, whatever \<open>..\<close> the key holds.
\<close>

theorem object_path_confined:
  assumes base: "abs_base (lBase l)"
  shows "(\<forall>p. object_path l bucket key = Inr p \<longrightarrow> take (length (os_path (lBase l))) (os_path p) = os_path (lBase l)) \<and>
    (good_elem bucket \<longrightarrow> (\<exists>p. object_path l bucket key = Inr p \<and>
      os_path p = os_path (lBase l) @ ''objects'' # bucket # key_elems key \<and> (\<forall>c \<in> set (key_elems key). c \<noteq> ''..'')))"
proof (intro conjI allI impI)
  fix p
  assume "object_path l bucket key = Inr p"
  then show "take (length (os_path (lBase l))) (os_path p) = os_path (lBase l)"
    using object_path_under base by blast
next
  assume "good_elem bucket"
  moreover have "\<forall>c \<in> set (key_elems key). c \<noteq> ''..''"
    using key_elems_good by (fastforce simp: good_elem_def)
  ultimately show "\<exists>p. object_path l bucket key = Inr p \<and>
      os_path p = os_path (lBase l) @ ''objects'' # bucket # key_elems key \<and> (\<forall>c \<in> set (key_elems key). c \<noteq> ''..'')"
    using object_path_ok [OF base, of bucket key] by (auto simp: obj_elems_def)
qed

theorem object_path_confined_witness:
  "os_path (projr (object_path ex_store ''bkt'' ''../../../etc/passwd'')) = [''d'', ''objects'', ''bkt'', ''etc'', ''passwd'']"
proof -
  have "key_elems ''../../../etc/passwd'' = [''etc'', ''passwd'']"
    by (simp add: key_elems_def os_path_def clean_elems_def clean_step.simps)
  then show ?thesis
    using object_path_confined [of ex_store "''bkt''" "''../../../etc/passwd''"]
    by (auto simp: ex_store_def)
qed

text \<open>
  C1. A plain put is all or nothing under every schedule of failing system calls: an error
  return leaves every existing file as it was; a success means the reader delivered all of
  its bytes, the object's file holds exactly them, no other file changed and the returned
  ETag and size are theirs.
\<close>

theorem put_plain_atomic:
  assumes plain: "\<not> lSealed l" and base: "abs_base (lBase l)" and bucket: "good_elem bucket"
    and key: "\<not> temp_named (obj_elems (lBase l) bucket key)"
    and put: "put l jc bucket key r w = (res, w')"
  shows "case res of
      Inl e \<Rightarrow> preserves {} w w'
    | Inr (etag, n) \<Rightarrow> rd_err r = None \<and> n = int (length (rd_data r)) \<and> etag = hex_encode (md5 (rd_data r)) \<and>
        file_at w' = (file_at w)(obj_elems (lBase l) bucket key \<mapsto> rd_data r)"
proof -
  obtain p where p: "object_path l bucket key = Inr p" "os_path p = obj_elems (lBase l) bucket key"
    using object_path_ok [OF base bucket] by blast
  have pp: "put_plain l bucket key r w = (res, w')"
    using put plain by (simp add: put_def)
  show ?thesis
    using put_plain_failed [of l bucket key r w] put_plain_stored [of l bucket key r w] pp p key
    by (auto split: sum.split)
qed

lemma ex_not_temp: "\<not> temp_named (obj_elems ''/d'' ''bkt'' ''k'')"
  by (simp add: temp_named_def obj_elems_def)

theorem put_plain_atomic_witness:
  "\<exists>w'. put ex_store \<lparr>jenc = \<lambda>_. None, jdec = \<lambda>_. None\<rparr> ''bkt'' ''k'' (bytes_reader [1, 2]) ex_world =
       (Inr (hex_encode (md5 [1, 2]), 2), w') \<and>
     file_at w' [''d'', ''objects'', ''bkt'', ''k''] = Some [1, 2]"
proof -
  obtain w' where put: "put ex_store \<lparr>jenc = \<lambda>_. None, jdec = \<lambda>_. None\<rparr> ''bkt'' ''k'' (bytes_reader [1, 2]) ex_world =
       (Inr (hex_encode (md5 [1, 2]), 2), w')"
    using ex_put by blast
  have "file_at w' = (file_at ex_world)(obj_elems (lBase ex_store) ''bkt'' ''k'' \<mapsto> [1, 2])"
    using put_plain_atomic [OF _ _ _ _ put] ex_not_temp by (simp add: ex_store_def bytes_reader_def)
  with put show ?thesis by (simp add: obj_elems_def ex_store_def)
qed

definition ex_sealed :: localfs where
  "ex_sealed = ex_store\<lparr>lSealed := True\<rparr>"

definition ex_json :: "manifest \<Rightarrow> json_codec" where
  "ex_json m = \<lparr>jenc = \<lambda>_. Some [0], jdec = \<lambda>_. Some m\<rparr>"

definition ex_manifest :: manifest where
  "ex_manifest = sealed_object_manifest ''bkt'' ''k'' [1, 2] 7"

lemma ex_obj_elems: "obj_elems ''/d'' ''bkt'' ''k'' = [''d'', ''objects'', ''bkt'', ''k'']"
  by (simp add: obj_elems_def)

lemma ex_put_sealed:
  "\<exists>w'. put ex_sealed (ex_json ex_manifest) ''bkt'' ''k'' (bytes_reader [1, 2]) ex_world =
     (Inr (hex_encode (md5 [1, 2]), 2), w') \<and> fs_faults w' = []"
proof -
  have b: "lBase ex_sealed = ''/d''" "lSealed ex_sealed" "lObs ex_sealed = SealedObs" by (simp_all add: ex_sealed_def ex_store_def)
  have man: "new_single_shard_manifest ''bkt'' ''k'' 2 (hex_encode (md5 [1, 2]))
      \<lparr>rsK = 1, rsM = 0, rsBlockSize = 0, rsStripeSize = 0\<rparr>
      (sealed_shard_meta ''bkt'' ''k'' (bytes_reader [1, 2]) (header_bytes (sealed_header 2))
        (encode_shard_footer (sha256 [1, 2]))) 7 = ex_manifest"
    by (simp add: ex_manifest_def sealed_object_manifest_def)
  have md: "manifest_defaults 7 ex_manifest = ex_manifest" "validate_basic ex_manifest = Inr ()"
    by (simp_all add: ex_manifest_def sealed_object_manifest_valid)
  have mp: "manifest_path ''/d'' ''bkt'' ''k'' = Inr ''/d/objects/bkt/k/object.meta''"
    by (simp add: manifest_path_def drop_clean_key join_path_def clean_def clean_elems_def clean_step.simps is_rooted_def ManifestFilename_def)
  have op: "os_path ''/d/objects/bkt/k/object.meta'' = [''d'', ''objects'', ''bkt'', ''k'', ''object.meta'']"
    by (simp add: os_path_def clean_elems_def clean_step.simps)
  show ?thesis
    by (simp add: put_def b put_sealed_path ex_obj_elems)
      (simp add: b man md mp op put_sealed_tmp_def put_sealed_publish_def save_manifest_def ex_json_def
        save_manifest_tmp_def sync_dir_def ex_calls ex_obj_elems os_open_def os_stat_def observe_sealed_def
        headerReserve_def)
qed

text \<open>
  C29. A sealed put, whatever its outcome, changes no existing file but the object's own shard
  and manifest. When it succeeds the shard file is the header, the payload and the footer with
  the payload's digest, and the manifest file is the encoding of the manifest that records
  path, digest, length and ETag.
\<close>

theorem put_sealed_effect:
  assumes mode: "lSealed l" and base: "abs_base (lBase l)" and bucket: "good_elem bucket"
    and put: "put l jc bucket key r w = (res, w')"
  shows "preserves {shard_elems (lBase l) bucket key, meta_elems (lBase l) bucket key} w w' \<and>
    (case res of Inl e \<Rightarrow> True
     | Inr (etag, n) \<Rightarrow> rd_err r = None \<and> n = int (length (rd_data r)) \<and> etag = hex_encode (md5 (rd_data r)) \<and>
        (\<exists>data. jenc jc (sealed_object_manifest bucket key (rd_data r) (fs_clock w)) = Some data \<and>
          file_at w' = (file_at w)(shard_elems (lBase l) bucket key \<mapsto> sealed_bytes (rd_data r),
            meta_elems (lBase l) bucket key \<mapsto> data)))"
proof -
  have pp: "put_sealed l jc bucket key r w = (res, w')"
    using put mode by (simp add: put_def)
  show ?thesis
    using put_sealed_keeps [OF pp base bucket] put_sealed_stored [of l jc bucket key r w _ _ w'] pp base bucket
    by (auto split: sum.split)
qed

theorem put_sealed_effect_witness:
  "\<exists>w'. put ex_sealed (ex_json ex_manifest) ''bkt'' ''k'' (bytes_reader [1, 2]) ex_world =
       (Inr (hex_encode (md5 [1, 2]), 2), w') \<and>
     file_at w' [''d'', ''objects'', ''bkt'', ''k'', ''data.ss1''] = Some (sealed_bytes [1, 2])"
proof -
  obtain w' where put: "put ex_sealed (ex_json ex_manifest) ''bkt'' ''k'' (bytes_reader [1, 2]) ex_world =
       (Inr (hex_encode (md5 [1, 2]), 2), w')"
    using ex_put_sealed by blast
  have "file_at w' [''d'', ''objects'', ''bkt'', ''k'', ''data.ss1''] = Some (sealed_bytes [1, 2])"
    using put_sealed_effect [OF _ _ _ put]
    by (auto simp: ex_sealed_def ex_store_def shard_elems_def meta_elems_def ManifestFilename_def ex_obj_elems)
  with put show ?thesis by blast
qed

lemma ex_tree: "tree_ok ex_world"
  by (auto simp: tree_ok_def ex_world_def lookup_def split: if_splits)

text \<open>
  C2. Round trip of a sealed object, with and without verification on read: after a successful
  put a get in which no call fails returns the payload, its length and the ETag. The payload
  is shorter than \<open>2^63 - 28\<close> bytes, so that the signed offsets do not wrap, and the manifest
  survives the JSON codec.
\<close>

theorem put_get_sealed:
  assumes mode: "lSealed l" and base: "abs_base (lBase l)" and bucket: "good_elem bucket"
    and codec: "json_ok jc (sealed_object_manifest bucket key (rd_data r) (fs_clock w))"
    and n: "int (length (rd_data r)) < 2 ^ 63 - 28"
    and put: "put l jc bucket key r w = (Inr (etag, n), w')" and quiet: "fs_faults w' = []"
  shows "\<exists>g w2. get l jc bucket key w' = (Inr g, w2) \<and> grBody g = rd_data r \<and> grSize g = n \<and> grETag g = etag"
  using assms by (rule put_then_get_sealed)

lemma ex_json_ok [simp]: "json_ok (ex_json m) m"
  by (simp add: json_ok_def ex_json_def)

theorem put_get_sealed_witness:
  "\<exists>w' g w2. put ex_sealed (ex_json ex_manifest) ''bkt'' ''k'' (bytes_reader [1, 2]) ex_world =
       (Inr (hex_encode (md5 [1, 2]), 2), w') \<and>
     get ex_sealed (ex_json ex_manifest) ''bkt'' ''k'' w' = (Inr g, w2) \<and> grBody g = [1, 2] \<and> grSize g = 2"
proof -
  obtain w' where w': "put ex_sealed (ex_json ex_manifest) ''bkt'' ''k'' (bytes_reader [1, 2]) ex_world =
       (Inr (hex_encode (md5 [1, 2]), 2), w')" "fs_faults w' = []"
    using ex_put_sealed by blast
  have "json_ok (ex_json ex_manifest) (sealed_object_manifest ''bkt'' ''k'' (rd_data (bytes_reader [1, 2])) (fs_clock ex_world))"
    by (simp add: ex_manifest_def [symmetric]) (simp add: ex_world_def ex_manifest_def [symmetric])
  from put_get_sealed [OF _ _ _ this _ w'] show ?thesis
    using w' by (auto simp: ex_sealed_def ex_store_def)
qed

text \<open>
  C3. A verified read returns only what was recorded: when the store verifies on read and the
  object has a manifest, a successful get with a non-negative length hands out a body whose
  SHA-256 is the manifest's content hash, under every schedule of failing calls and whatever
  bytes are on the disk.
\<close>

theorem verified_read:
  assumes v: "lVerify l" and sm: "sealed_manifest l jc bucket key w = (Some (m, shard), w1)"
    and g: "get l jc bucket key w = (Inr g, w')" and n: "0 \<le> grSize g"
  shows "hex_decode (smContentHashHex shard) = Some (sha256 (grBody g)) \<and> grETag g = mETag m \<and>
    grModified g = mLastModified m"
  using get_sealed_verified [of l bucket key m shard w1 g w'] v sm g n by (simp add: get_def)

text \<open>A disk with the sealed object in place, and one on which its footer is missing.\<close>

definition ex_disk :: "byte list \<Rightarrow> world" where
  "ex_disk shard = \<lparr>fs_files =
     [([''d'', ''objects'', ''bkt'', ''k'', ''data.ss1''], FileN shard 7),
      ([''d'', ''objects'', ''bkt'', ''k'', ''object.meta''], FileN [0] 7)],
     fs_clock = 7, fs_faults = [], obs_log = [], repairs = []\<rparr>"

definition ex_shard_meta :: shard_meta where
  "ex_shard_meta = sealed_shard_meta ''bkt'' ''k'' (bytes_reader [1, 2]) (header_bytes (sealed_header 2))
     (encode_shard_footer (sha256 [1, 2]))"

lemma ex_sealed_manifest:
  "sealed_manifest ex_sealed (ex_json ex_manifest) ''bkt'' ''k'' (ex_disk s) = (Some (ex_manifest, ex_shard_meta), ex_disk s)"
proof (rule sealed_manifest_quiet)
  show "abs_base (lBase ex_sealed)" "good_elem ''bkt''" by (simp_all add: ex_sealed_def ex_store_def)
  show "file_at (ex_disk s) (meta_elems (lBase ex_sealed) ''bkt'' ''k'') = Some [0]"
    by (simp add: file_at_def lookup_def ex_disk_def meta_elems_def ManifestFilename_def ex_sealed_def ex_store_def ex_obj_elems)
  show "mShards ex_manifest = ex_shard_meta # []"
    by (simp add: ex_manifest_def ex_shard_meta_def)
qed (simp_all add: ex_disk_def ex_json_def ex_manifest_def sealed_object_manifest_valid)

lemma ex_shard_file: "shard_file ex_sealed ex_shard_meta = [''d'', ''objects'', ''bkt'', ''k'', ''data.ss1'']"
  using shard_file_sealed [of ex_sealed "''bkt''" ex_shard_meta "''k''"]
  by (simp add: ex_shard_meta_def ex_sealed_def ex_store_def shard_elems_def ex_obj_elems)

theorem verified_read_witness:
  "\<exists>g w'. get ex_sealed (ex_json ex_manifest) ''bkt'' ''k'' (ex_disk (sealed_bytes [1, 2])) = (Inr g, w') \<and>
     sha256 (grBody g) = sha256 [1, 2] \<and> grSize g = 2"
proof -
  let ?w = "ex_disk (sealed_bytes [1, 2])"
  have gs: "get_sealed ex_sealed ''bkt'' ''k'' ex_manifest ex_shard_meta ?w =
    (Inr \<lparr>grBody = [1, 2], grSize = int (length [1 :: byte, 2]), grETag = mETag ex_manifest,
      grModified = mLastModified ex_manifest\<rparr>,
     observe_sealed ex_sealed ''get'' (int (length [1 :: byte, 2])) False True False ?w)"
    by (rule get_sealed_quiet [where t = 7])
      (simp_all add: ex_shard_file lookup_def, simp_all add: ex_disk_def ex_shard_meta_def)
  then obtain g w' where g: "get ex_sealed (ex_json ex_manifest) ''bkt'' ''k'' ?w = (Inr g, w')" "grSize g = 2"
    by (simp add: get_def ex_sealed_manifest)
  have "lVerify ex_sealed" by (simp add: ex_sealed_def ex_store_def)
  from verified_read [OF this ex_sealed_manifest g(1)] g show ?thesis
    by (auto simp: ex_shard_meta_def)
qed

text \<open>
  C30. Every integrity failure is reported: when \<open>Get\<close> or \<open>Head\<close> returns \<open>ErrIntegrity\<close> and a
  repair callback is registered, exactly one repair item for this bucket and key, with the
  reason \<open>read_integrity_fail\<close>, was handed to it, and the failure was observed exactly once.
\<close>

theorem integrity_reported:
  assumes cb: "lRepCb l"
  shows "(get l jc bucket key w = (Inl ErrIntegrity, w') \<longrightarrow> reported l ''get'' bucket key w w') \<and>
    (head l jc bucket key w = (Inl ErrIntegrity, w') \<longrightarrow> reported l ''head'' bucket key w w')"
proof (intro conjI impI)
  assume "get l jc bucket key w = (Inl ErrIntegrity, w')"
  then show "reported l ''get'' bucket key w w'" using cb by (rule get_reported)
next
  assume "head l jc bucket key w = (Inl ErrIntegrity, w')"
  then show "reported l ''head'' bucket key w w'" using cb by (rule head_reported)
qed

lemma ex_get_damaged:
  "\<exists>w'. get ex_sealed (ex_json ex_manifest) ''bkt'' ''k'' (ex_disk (header_bytes (sealed_header 2) @ [1, 2])) = (Inl ErrIntegrity, w')"
proof -
  let ?c = "header_bytes (sealed_header 2) @ [1, 2 :: byte]"
  let ?w = "ex_disk ?c"
  have q: "fs_faults ?w = []" by (simp add: ex_disk_def)
  have f: "os_open (shard_file ex_sealed ex_shard_meta) ?w = (Inr (FileN ?c 7), ?w)"
    using q by (simp add: ex_shard_file) (simp add: lookup_def ex_disk_def)
  have rh: "read_header (FileN ?c 7) 0 ?w = (Inr (sealed_header 2), ?w)"
    using q by (simp add: read_header_def io_bind_def decode_header_bytes)
  have "decode_shard_footer [] = Inl ErrEOF"
    by (simp add: decode_shard_footer_def read_full_def)
  then have "read_footer (FileN ?c 7) 30 ?w = (Inl ErrEOF, ?w)"
    using q by (simp add: read_footer_def io_bind_def)
  then have "verify_on_read (FileN ?c 7) ex_shard_meta (sealed_header 2) ?w = (CheckBad, ?w)"
    using q sealed_header_fields [of 2] by (simp add: verify_on_read_def)
  moreover have "lVerify ex_sealed" by (simp add: ex_sealed_def ex_store_def)
  ultimately show ?thesis
    using q f rh by (simp add: get_def ex_sealed_manifest get_sealed_def Let_def integrity_fail_def)
qed

lemma reported_one:
  "reported l op bucket key w w' \<Longrightarrow> repairs w = [] \<Longrightarrow>
     length (repairs w') = 1 \<and> map srKey (repairs w') = [key]"
  unfolding reported_def by (elim conjE exE) simp

theorem integrity_reported_witness:
  "\<exists>w'. get ex_sealed (ex_json ex_manifest) ''bkt'' ''k'' (ex_disk (header_bytes (sealed_header 2) @ [1, 2])) =
       (Inl ErrIntegrity, w') \<and> length (repairs w') = 1 \<and> map srKey (repairs w') = [''k'']"
proof -
  let ?w = "ex_disk (header_bytes (sealed_header 2) @ [1, 2])"
  obtain w' where g: "get ex_sealed (ex_json ex_manifest) ''bkt'' ''k'' ?w = (Inl ErrIntegrity, w')"
    using ex_get_damaged by blast
  have "lRepCb ex_sealed" by (simp add: ex_sealed_def ex_store_def)
  then have "reported ex_sealed ''get'' ''bkt'' ''k'' ?w w'"
    by (rule mp [OF conjunct1 [OF integrity_reported] g])
  moreover have "repairs ?w = []" by (simp add: ex_disk_def)
  ultimately have "length (repairs w') = 1 \<and> map srKey (repairs w') = [''k'']"
    by (rule reported_one)
  with g have "get ex_sealed (ex_json ex_manifest) ''bkt'' ''k'' ?w = (Inl ErrIntegrity, w') \<and>
      length (repairs w') = 1 \<and> map srKey (repairs w') = [''k'']"
    by (rule conjI)
  then show ?thesis by (rule exI [of _ w'])
qed



subsection \<open>The recorded header checksum\<close>

text \<open>The number kept as the header's CRC-32C is read one byte late: it is the checksum shifted
  right by one byte.\<close>

lemma recorded_header_crc:
  "last4_le (header_bytes h) = le_word (drop 1 (le_bytes 4 (crc32c (header_fields h))) @ [0])"
  by (simp add: last4_le_def header_bytes_def)

end
