(* ===== verification/StoreConcurrent.thy ===== *)
theory StoreConcurrent imports LocalProps
begin

text \<open>
  Concurrent puts and gets of the plain object store (src/pkg/storage/localfs.go has no lock).
  \<open>Put\<close> and \<open>Get\<close> are cut where others can see them: a put when its temporary file is complete
  and when it is renamed, a get at each of the three times it looks its file up by name. What a
  put does before is done to a file of its own; the name of a temporary file is random, so it is
  not used again between the rename and the removal of the name that ends the put. A get is that
  of a key without a manifest.
\<close>

subsection \<open>The cut operations\<close>

datatype io_pc =
    IoStart
  | Staged fpath nat
  | Statted node
  | Opened node node
  | PutDone "(string \<times> int) result"
  | GetDone "get_result result"

definition put_done :: "(string \<times> int) result \<times> world \<Rightarrow> io_pc \<times> world" where
  "put_done x = (PutDone (fst x), snd x)"

definition get_done :: "get_result result \<times> world \<Rightarrow> io_pc \<times> world" where
  "get_done x = (GetDone (fst x), snd x)"

definition stage_copy :: "localfs \<Rightarrow> reader \<Rightarrow> fpath \<Rightarrow> world \<Rightarrow> io_pc \<times> world" where
  "stage_copy l r tmp w =
     (case os_copy tmp 0 r w of
        (n, copyErr, w1) \<Rightarrow>
          (case and_also (if_ok (copyErr, w1) (os_sync tmp)) (os_close tmp) of
             (Some e, w2) \<Rightarrow> put_done (io_defer (fail_obs l ''put'' (int n) e) (os_remove tmp) w2)
           | (None, w2) \<Rightarrow> (Staged tmp n, w2)))"

definition put_stage :: "localfs \<Rightarrow> fpath \<Rightarrow> reader \<Rightarrow> world \<Rightarrow> io_pc \<times> world" where
  "put_stage l path r w =
     (case os_mkdir_all (butlast path) w of
        (Inl e, w1) \<Rightarrow> put_done (fail_obs l ''put'' 0 e w1)
      | (Inr _, w1) \<Rightarrow>
          (case os_create_temp (butlast path) ''.put-'' '''' w1 of
             (Inl e, w2) \<Rightarrow> put_done (fail_obs l ''put'' 0 e w2)
           | (Inr tmp, w2) \<Rightarrow> stage_copy l r tmp w2))"

definition put_rename :: "localfs \<Rightarrow> fpath \<Rightarrow> reader \<Rightarrow> fpath \<Rightarrow> nat \<Rightarrow> world \<Rightarrow> (string \<times> int) result \<times> world" where
  "put_rename l path r tmp n w =
     (case os_rename tmp path w of
        (Inl e, w1) \<Rightarrow> fail_obs l ''put'' (int n) e w1
      | (Inr _, w1) \<Rightarrow>
          (Inr (hex_encode (md5 (rd_data r)), int n), observe l ''put'' (int n) False (io_ignore (os_chtimes path (fs_clock w1)) w1)))"

definition put_step :: "localfs \<Rightarrow> string \<Rightarrow> string \<Rightarrow> reader \<Rightarrow> io_pc \<Rightarrow> world \<Rightarrow> (io_pc \<times> world) option" where
  "put_step l bucket key r pc w =
     (case (object_path l bucket key, pc) of
        (Inl e, IoStart) \<Rightarrow> Some (put_done (fail_obs l ''put'' 0 e w))
      | (Inr p, IoStart) \<Rightarrow> Some (put_stage l (os_path p) r w)
      | (Inr p, Staged tmp n) \<Rightarrow> Some (put_done (io_defer (put_rename l (os_path p) r tmp n) (os_remove tmp) w))
      | _ \<Rightarrow> None)"

definition get_step :: "localfs \<Rightarrow> string \<Rightarrow> string \<Rightarrow> io_pc \<Rightarrow> world \<Rightarrow> (io_pc \<times> world) option" where
  "get_step l bucket key pc w =
     (case (object_path l bucket key, pc) of
        (Inl e, IoStart) \<Rightarrow> Some (get_done (fail_obs l ''get'' 0 e w))
      | (Inr p, IoStart) \<Rightarrow>
          (case os_stat (os_path p) w of
             (Inl e, w1) \<Rightarrow> Some (get_done (fail_obs l ''get'' 0 e w1))
           | (Inr st, w1) \<Rightarrow> Some (Statted st, w1))
      | (Inr p, Statted st) \<Rightarrow>
          (case os_open (os_path p) w of
             (Inl e, w1) \<Rightarrow> Some (get_done (fail_obs l ''get'' 0 e w1))
           | (Inr f, w1) \<Rightarrow> Some (Opened st f, w1))
      | (Inr p, Opened st f) \<Rightarrow>
          (case md5_file (os_path p) w of
             (Inl e, w1) \<Rightarrow> Some (get_done (fail_obs l ''get'' 0 e (io_ignore (os_close (os_path p)) w1)))
           | (Inr etag, w1) \<Rightarrow>
               Some (GetDone (Inr \<lparr>grBody = node_bytes f, grSize = node_size st, grETag = etag, grModified = node_mtime st\<rparr>),
                     observe l ''get'' (node_size st) False w1))
      | _ \<Rightarrow> None)"

text \<open>The steps of one operation with nothing in between.\<close>

fun io_alone :: "nat \<Rightarrow> (io_pc \<Rightarrow> world \<Rightarrow> (io_pc \<times> world) option) \<Rightarrow> io_pc \<Rightarrow> world \<Rightarrow> io_pc \<times> world" where
  "io_alone 0 f pc w = (pc, w)"
| "io_alone (Suc k) f pc w = (case f pc w of None \<Rightarrow> (pc, w) | Some (pc1, w1) \<Rightarrow> io_alone k f pc1 w1)"

lemma put_alone: "io_alone 2 (put_step l bucket key r) IoStart w = put_done (put_plain l bucket key r w)"
proof (cases "object_path l bucket key")
  case (Inl e)
  then show ?thesis by (simp add: numeral_2_eq_2 put_step_def put_plain_def put_done_def fail_obs_def)
next
  case (Inr p)
  then show ?thesis
    by (auto simp: numeral_2_eq_2 put_step_def put_plain_def put_stage_def stage_copy_def put_plain_tmp_def put_rename_def
        put_done_def io_defer_def fail_obs_def Let_def simp del: if_ok.simps and_also.simps split: prod.split sum.split option.split)
qed

lemma get_alone: "io_alone 3 (get_step l bucket key) IoStart w = get_done (get_plain l bucket key w)"
  by (auto simp: numeral_3_eq_3 get_step_def get_plain_def get_done_def fail_obs_def Let_def split: prod.split sum.split)

subsection \<open>Many at once\<close>

datatype io_req = StorePut string string reader | StoreGet string string

fun req_place :: "localfs \<Rightarrow> io_req \<Rightarrow> fpath" where
  "req_place l (StorePut bucket key r) = obj_elems (lBase l) bucket key"
| "req_place l (StoreGet bucket key) = obj_elems (lBase l) bucket key"

fun req_data :: "io_req \<Rightarrow> byte list" where
  "req_data (StorePut _ _ r) = rd_data r"
| "req_data (StoreGet _ _) = []"

fun req_fits :: "localfs \<Rightarrow> io_req \<Rightarrow> bool" where
  "req_fits l (StorePut bucket key r) \<longleftrightarrow> good_elem bucket \<and> \<not> temp_named (obj_elems (lBase l) bucket key)"
| "req_fits l (StoreGet bucket key) \<longleftrightarrow> good_elem bucket \<and> \<not> temp_named (obj_elems (lBase l) bucket key)"

fun io_step :: "localfs \<Rightarrow> io_req \<Rightarrow> io_pc \<Rightarrow> world \<Rightarrow> (io_pc \<times> world) option" where
  "io_step l (StorePut bucket key r) pc w = put_step l bucket key r pc w"
| "io_step l (StoreGet bucket key) pc w = get_step l bucket key pc w"

text \<open>
  The disk, where each request is, the puts that renamed their file in the order they did, and for
  each request how many had when it started.
\<close>

record io_sys =
  isDisk :: world
  isPcs :: "io_pc list"
  isHist :: "nat list"
  isFrom :: "nat list"

fun renamed :: "io_pc \<Rightarrow> io_pc \<Rightarrow> bool" where
  "renamed (Staged _ _) (PutDone (Inr _)) = True"
| "renamed _ _ = False"

inductive io_sys_step :: "localfs \<Rightarrow> io_req list \<Rightarrow> io_sys \<Rightarrow> io_sys \<Rightarrow> bool" for l reqs where
  ios: "i < length reqs \<Longrightarrow> io_step l (reqs ! i) (isPcs s ! i) (isDisk s) = Some (pc, w) \<Longrightarrow>
    io_sys_step l reqs s
      \<lparr>isDisk = w, isPcs = (isPcs s)[i := pc], isHist = isHist s @ (if renamed (isPcs s ! i) pc then [i] else []),
       isFrom = (if isPcs s ! i = IoStart then (isFrom s)[i := length (isHist s)] else isFrom s)\<rparr>"

definition io_start :: "io_req list \<Rightarrow> world \<Rightarrow> io_sys" where
  "io_start reqs w = \<lparr>isDisk = w, isPcs = replicate (length reqs) IoStart, isHist = [], isFrom = replicate (length reqs) 0\<rparr>"

text \<open>The files after the puts of a history one after the other.\<close>

definition replay :: "localfs \<Rightarrow> io_req list \<Rightarrow> nat list \<Rightarrow> (fpath \<Rightarrow> byte list option) \<Rightarrow> fpath \<Rightarrow> byte list option" where
  "replay l reqs h f = foldl (\<lambda>f i. f(req_place l (reqs ! i) \<mapsto> req_data (reqs ! i))) f h"

lemma replay_snoc: "replay l reqs (h @ [i]) f = (replay l reqs h f)(req_place l (reqs ! i) \<mapsto> req_data (reqs ! i))"
  by (simp add: replay_def)

subsection \<open>What a step changes\<close>

text \<open>Directories stay.\<close>

definition grows :: "'z os_state_scheme \<Rightarrow> 'y os_state_scheme \<Rightarrow> bool" where
  "grows w w' \<longleftrightarrow> (\<forall>q. lookup w q = Some DirN \<longrightarrow> lookup w' q = Some DirN)"

lemma grows_refl [simp]: "grows w w"
  by (simp add: grows_def)

lemma grows_trans [trans]: "grows w v \<Longrightarrow> grows v u \<Longrightarrow> grows w u"
  by (simp add: grows_def)

lemma grows_same: "lookup w' = lookup w \<Longrightarrow> grows w w'"
  by (simp add: grows_def)

lemma grows_put: "lookup w p \<noteq> Some DirN \<or> n = DirN \<Longrightarrow> p \<noteq> [] \<Longrightarrow> grows w (put_node p n w)"
  by (auto simp: grows_def lookup_put_node)

lemma grows_del: "lookup w p \<noteq> Some DirN \<Longrightarrow> p \<noteq> [] \<Longrightarrow> grows w (del_node p w)"
  by (auto simp: grows_def lookup_del_node)

lemma grows_tick: "os_tick w = (r, w') \<Longrightarrow> grows w w'"
  by (rule grows_same) (rule os_tick_lookup)

lemma grows_bind:
  assumes "io_bind os_tick f w = (r, w')" and "\<And>w1. f () w1 = (r, w') \<Longrightarrow> lookup w1 = lookup w \<Longrightarrow> grows w1 w'"
  shows "grows w w'"
  using assms(1)
proof (cases rule: tick_bindE)
  case (runs w1)
  then show ?thesis using assms(2) os_tick_lookup [OF runs(1)] by (auto simp: grows_def)
qed (simp add: grows_tick)

lemma mkdir_from_grows: "mkdir_from pre cs w = (r, w') \<Longrightarrow> grows w w'"
proof (induction pre cs w rule: mkdir_from.induct)
  case (2 pre c cs w)
  show ?case
  proof (cases "lookup w (pre @ [c])")
    case None
    obtain t w1 where tick: "os_tick w = (t, w1)" by fastforce
    have "grows w1 (put_node (pre @ [c]) DirN w1)" by (rule grows_put) simp_all
    then show ?thesis
      using 2 None tick grows_tick [OF tick] by (auto split: sum.split_asm intro: grows_trans)
  next
    case (Some n)
    then show ?thesis using 2 by (cases n) auto
  qed
qed simp

lemma file_grows:
  assumes nd: "lookup w tmp \<noteq> Some DirN"
  shows "os_write_at tmp off bs w = (r, w') \<Longrightarrow> grows w w'" "os_remove tmp w = (r2, w') \<Longrightarrow> grows w w'"
proof -
  have ne: "tmp \<noteq> []" using assms by auto
  show "os_write_at tmp off bs w = (r, w') \<Longrightarrow> grows w w'"
    unfolding os_write_at_def using ne by (elim grows_bind) (auto split: option.split_asm node.split_asm intro!: grows_put)
  show "os_remove tmp w = (r2, w') \<Longrightarrow> grows w w'"
    unfolding os_remove_def using ne nd by (elim grows_bind) (auto split: option.split_asm node.split_asm if_split_asm intro!: grows_del)
qed

lemma flush_lookup:
  assumes "and_also (if_ok (e, w) (os_sync p)) (os_close p) = (e', w')"
  shows "lookup w' = lookup w"
proof -
  have "lookup (snd (os_tick v)) = lookup v" for v :: "'a os_state_scheme" by (rule os_tick_lookup [OF surjective_pairing])
  with assms show ?thesis
    by (cases e) (auto simp: os_sync_def os_close_def split: prod.splits sum.splits dest!: os_tick_lookup)
qed

lemma file_at_lookup: "lookup w' = lookup w \<Longrightarrow> file_at w' = file_at w"
  by (simp add: file_at_def fun_eq_iff)

lemma os_copy_file:
  assumes "os_copy tmp off r w = (n, e, w')" and "is_file (lookup w tmp)"
  shows "grows w w' \<and> is_file (lookup w' tmp)"
proof -
  have wr: "\<exists>x. os_write_at tmp off (rd_data r) w = (x, w')" using assms(1) by (auto simp: os_copy_def split: prod.splits sum.splits)
  have "tmp \<noteq> []" using assms(2) by auto
  with wr assms(2) have "is_file (lookup w' tmp)"
    unfolding os_write_at_def
    by (auto elim!: tick_bindE dest!: os_tick_lookup simp: lookup_put_node split: option.split_asm node.split_asm)
  with wr file_grows(1) [of w tmp] assms(2) show ?thesis by fastforce
qed

lemma io_ignore_remove_grows: "lookup w tmp \<noteq> Some DirN \<Longrightarrow> grows w (io_ignore (os_remove tmp) w)"
  by (cases "os_remove tmp w") (auto simp: io_ignore_def intro: file_grows)

lemma grows_observe [simp]: "grows w (observe l op n f w') = grows w w'"
  by (simp add: grows_def)

text \<open>The copy into the temporary file: complete, or the put has failed and the file is gone or unused.\<close>

lemma stage_copy_effect:
  assumes st: "stage_copy l r tmp w = (pc, w')" and c: "file_at w tmp = Some []"
  shows "grows w w' \<and> keeps {tmp} w w' \<and>
    (pc = Staged tmp (length (rd_data r)) \<and> rd_err r = None \<and> file_at w' = (file_at w)(tmp \<mapsto> rd_data r) \<or> (\<exists>e. pc = PutDone (Inl e)))"
proof -
  obtain n ce w1 where cp: "os_copy tmp 0 r w = (n, ce, w1)" by (cases "os_copy tmp 0 r w")
  obtain e2 w2 where cl: "and_also (if_ok (ce, w1) (os_sync tmp)) (os_close tmp) = (e2, w2)" by fastforce
  have same: "lookup w2 = lookup w1" "file_at w2 = file_at w1"
    using flush_lookup [OF cl] by (auto intro: file_at_lookup)
  from c have "is_file (lookup w tmp)" by (auto simp: file_at_Some)
  with os_copy_file [OF cp] same have g: "grows w w2" and f: "is_file (lookup w2 tmp)" by (auto simp: grows_def)
  have k: "keeps {tmp} w w2" using os_copy_frame [OF cp] same by (auto simp: keeps_def frame_def)
  show ?thesis
  proof (cases e2)
    case None
    with cl have "ce = None" by (auto simp: and_also_None if_ok_None)
    note ok = os_copy_ok [OF cp [unfolded this] c]
    have "pc = Staged tmp n" "w' = w2" using st cp cl None by (simp_all add: stage_copy_def)
    moreover have "file_at w2 = (file_at w)(tmp \<mapsto> rd_data r)" using ok same(2) by (simp add: write_at_def)
    ultimately show ?thesis using ok g k by simp
  next
    case (Some e)
    have "keeps {tmp} w2 (io_ignore (os_remove tmp) (observe l ''put'' (int n) True w2))"
      using io_ignore_remove_frame [of tmp "{tmp}" "observe l ''put'' (int n) True w2"] by (auto simp: keeps_def frame_def)
    moreover have "grows w2 (io_ignore (os_remove tmp) (observe l ''put'' (int n) True w2))"
      using io_ignore_remove_grows [of "observe l ''put'' (int n) True w2" tmp] f by (fastforce simp: grows_def)
    ultimately show ?thesis
      using st cp cl Some g k grows_trans keeps_trans
      by (auto simp: stage_copy_def put_done_def io_defer_def fail_obs_def)
  qed
qed

lemma os_create_temp_grows: "os_create_temp dir pre suf w = (r, w') \<Longrightarrow> grows w w'"
  unfolding os_create_temp_def
  by (elim grows_bind)
    (auto simp: Let_def temp_path_fresh intro!: grows_put split: option.split_asm node.split_asm, metis temp_path_fresh option.distinct(1))

lemma put_temp_named: "os_create_temp dir ''.put-'' '''' w = (Inr tmp, w') \<Longrightarrow> temp_named tmp"
  using os_create_temp_name [of dir "''.put-''" "''''" w tmp w'] by (auto simp: temp_named_def has_prefix_append)

text \<open>The first step of a put touches one new temporary file only.\<close>

lemma put_stage_effect:
  assumes "put_stage l path r w = (pc, w')"
  shows "grows w w' \<and> (\<exists>tmp. temp_named tmp \<and> file_at w tmp = None \<and> keeps {tmp} w w' \<and>
    (pc = Staged tmp (length (rd_data r)) \<and> rd_err r = None \<and> file_at w' tmp = Some (rd_data r) \<or> (\<exists>e. pc = PutDone (Inl e))))"
proof -
  obtain m w1 where mk: "os_mkdir_all (butlast path) w = (m, w1)" by fastforce
  have g1: "grows w w1" and f1: "file_at w1 = file_at w"
    using mk mkdir_from_grows frame_empty [OF os_mkdir_all_frame [OF mk]] by (auto simp: os_mkdir_all_def)
  obtain t w2 where ct: "os_create_temp (butlast path) ''.put-'' '''' w1 = (t, w2)" by fastforce
  have g2: "grows w1 w2" using ct by (rule os_create_temp_grows)
  obtain fr where fr: "file_at w fr = None" "temp_named fr" using fresh_temp_named by blast
  show ?thesis
  proof (cases "is_ok m \<and> is_ok t")
    case True
    then obtain u tmp where ok: "m = Inr u" "t = Inr tmp" by (cases m; cases t) auto
    note c = os_create_temp_ok [OF ct [unfolded ok]]
    have st: "stage_copy l r tmp w2 = (pc, w')" using assms mk ct ok by (simp add: put_stage_def)
    from c have "file_at w2 tmp = Some []" by simp
    from stage_copy_effect [OF st this] c g1 g2 f1 put_temp_named [OF ct [unfolded ok]] show ?thesis
      by (auto simp: keeps_def intro!: exI [of _ tmp] intro: grows_trans)
  next
    case False
    have f2: "file_at w2 = file_at w" if "t = Inl e" for e
      using frame_empty [OF os_create_temp_err [OF ct [unfolded that]]] f1 by simp
    from False assms mk ct have "(\<exists>e. pc = PutDone (Inl e)) \<and> file_at w' = file_at w \<and> grows w w'"
      using g1 f1 f2 grows_trans [OF g1 g2] by (cases m; cases t) (auto simp: put_stage_def put_done_def fail_obs_def)
    with fr show ?thesis by (auto simp: keeps_def)
  qed
qed

lemma os_rename_dirs:
  assumes "os_rename p q w = (r, w')"
  shows "grows w w'" "is_file (lookup w p) \<Longrightarrow> lookup w' p \<noteq> Some DirN"
proof -
  show "grows w w'"
    using assms unfolding os_rename_def
    by (elim grows_bind)
      (auto intro!: grows_trans [OF grows_del grows_put] simp: lookup_del_node lookup_file_ne split: option.split_asm node.split_asm if_split_asm)
  assume f: "is_file (lookup w p)"
  then have ne: "p \<noteq> []" by auto
  show "lookup w' p \<noteq> Some DirN"
    using assms f unfolding os_rename_def
    by (cases "q = []") (auto elim!: tick_bindE dest!: os_tick_lookup simp: lookup_put_node lookup_del_node [OF ne] lookup_file_ne
        split: option.split_asm node.split_asm if_split_asm)
qed

lemma os_chtimes_lookup_dir: "lookup (io_ignore (os_chtimes p t) w) q = Some DirN \<longleftrightarrow> lookup w q = Some DirN"
proof -
  obtain r w' where c: "os_chtimes p t w = (r, w')" by fastforce
  then have "lookup w' q = Some DirN \<longleftrightarrow> lookup w q = Some DirN"
    unfolding os_chtimes_def
    by (auto elim!: tick_bindE dest!: os_tick_lookup simp: lookup_put_node lookup_file_ne
        split: option.split_asm node.split_asm if_split_asm)
  with c show ?thesis by (simp add: io_ignore_def)
qed

text \<open>The rename publishes the temporary file, and the name it had is gone.\<close>

lemma put_rename_effect:
  assumes run: "io_defer (put_rename l path r tmp n) (os_remove tmp) w = (res, w')"
    and c: "file_at w tmp = Some c" and ne: "tmp \<noteq> path"
  shows "grows w w' \<and>
    (case res of Inl e \<Rightarrow> keeps {tmp} w w'
     | Inr (etag, m) \<Rightarrow> etag = hex_encode (md5 (rd_data r)) \<and> m = int n \<and> file_at w' = (file_at w)(tmp := None, path \<mapsto> c))"
proof -
  obtain x w1 where rn: "os_rename tmp path w = (x, w1)" by fastforce
  have g: "grows w w1" "lookup w1 tmp \<noteq> Some DirN" using os_rename_dirs [OF rn] c by (auto simp: file_at_Some)
  show ?thesis
  proof (cases x)
    case (Inl e)
    let ?w = "observe l ''put'' (int n) True w1"
    have "keeps {tmp} w w1" using rn Inl by (auto intro: frame_keeps os_rename_err_frame)
    moreover have "keeps {tmp} ?w (io_ignore (os_remove tmp) ?w)" by (rule frame_keeps) (simp add: io_ignore_remove_frame)
    moreover have "grows ?w (io_ignore (os_remove tmp) ?w)" using g(2) by (intro io_ignore_remove_grows) simp
    ultimately show ?thesis
      using run rn Inl g by (auto simp: io_defer_def put_rename_def fail_obs_def keeps_def grows_def)
  next
    case (Inr u)
    let ?w = "observe l ''put'' (int n) False (io_ignore (os_chtimes path (fs_clock w1)) w1)"
    have f: "file_at w1 = (file_at w)(tmp := None, path \<mapsto> c)" using os_rename_ok [OF rn [unfolded Inr]] c by auto
    then have "file_at ?w tmp = None" using ne by simp
    then have "file_at (io_ignore (os_remove tmp) ?w) = file_at ?w" by (rule io_ignore_remove_gone)
    moreover have "grows ?w (io_ignore (os_remove tmp) ?w)"
      using g(2) by (intro io_ignore_remove_grows) (simp add: os_chtimes_lookup_dir)
    ultimately show ?thesis
      using run rn Inr g f by (auto simp: io_defer_def put_rename_def grows_def os_chtimes_lookup_dir)
  qed
qed

text \<open>A get only looks.\<close>

lemma os_read_from_lookup: "os_read_from f off w = (r, w') \<Longrightarrow> lookup w' = lookup w"
  unfolding os_read_from_def by (elim tick_bindE) (auto dest!: os_tick_lookup split: node.split_asm)

lemma os_close_lookup [simp]: "lookup (io_ignore (os_close p) w) = lookup w"
  unfolding io_ignore_def os_close_def by (rule os_tick_lookup [OF surjective_pairing])

lemma md5_file_lookup:
  assumes "md5_file p w = (r, w')"
  shows "lookup w' = lookup w" "is_ok r \<Longrightarrow> lookup w p \<noteq> Some DirN"
proof -
  obtain o1 w1 where op: "os_open p w = (o1, w1)" by fastforce
  note st = os_stat_lookup [OF op [unfolded os_open_def]]
  obtain b w2 where rd: "os_read_from (projr o1) 0 w1 = (b, w2)" by fastforce
  have "lookup w' = lookup w \<and> (is_ok r \<longrightarrow> is_ok o1 \<and> is_ok b)"
    using assms op rd st os_read_from_lookup [OF rd]
    by (cases o1; cases b) (auto simp: md5_file_def io_bind_def io_defer_def io_return_def)
  moreover have "\<not> is_ok b" if "projr o1 = DirN"
    using rd that unfolding os_read_from_def by (auto elim!: tick_bindE)
  ultimately show "lookup w' = lookup w" "is_ok r \<Longrightarrow> lookup w p \<noteq> Some DirN"
    using st by (cases o1; auto)+
qed

subsection \<open>The invariant\<close>

text \<open>A content the object had at some time since the first \<open>m\<close> puts of the history.\<close>

definition seen :: "localfs \<Rightarrow> io_req list \<Rightarrow> (fpath \<Rightarrow> byte list option) \<Rightarrow> nat list \<Rightarrow> nat \<Rightarrow> fpath \<Rightarrow> byte list \<Rightarrow> bool" where
  "seen l reqs f0 h m p c \<longleftrightarrow> (\<exists>n \<in> set [m..<Suc (length h)]. replay l reqs (take n h) f0 p = Some c)"

fun pc_ok :: "localfs \<Rightarrow> io_req list \<Rightarrow> (fpath \<Rightarrow> byte list option) \<Rightarrow> nat list \<Rightarrow> world \<Rightarrow> nat \<Rightarrow> io_req \<Rightarrow> io_pc \<Rightarrow> bool" where
  "pc_ok l reqs f0 h w m rq IoStart = True"
| "pc_ok l reqs f0 h w m (StorePut bucket key r) (Staged tmp n) \<longleftrightarrow>
     temp_named tmp \<and> file_at w tmp = Some (rd_data r) \<and> rd_err r = None \<and> n = length (rd_data r)"
| "pc_ok l reqs f0 h w m (StorePut bucket key r) (PutDone (Inl e)) = True"
| "pc_ok l reqs f0 h w m (StorePut bucket key r) (PutDone (Inr (etag, n))) \<longleftrightarrow>
     rd_err r = None \<and> etag = hex_encode (md5 (rd_data r)) \<and> n = int (length (rd_data r))"
| "pc_ok l reqs f0 h w m (StoreGet bucket key) (Statted st) = True"
| "pc_ok l reqs f0 h w m (StoreGet bucket key) (Opened st DirN) \<longleftrightarrow> lookup w (obj_elems (lBase l) bucket key) = Some DirN"
| "pc_ok l reqs f0 h w m (StoreGet bucket key) (Opened st (FileN c t)) \<longleftrightarrow> seen l reqs f0 h m (obj_elems (lBase l) bucket key) c"
| "pc_ok l reqs f0 h w m (StoreGet bucket key) (GetDone (Inl e)) = True"
| "pc_ok l reqs f0 h w m (StoreGet bucket key) (GetDone (Inr g)) \<longleftrightarrow> seen l reqs f0 h m (obj_elems (lBase l) bucket key) (grBody g)"
| "pc_ok l reqs f0 h w m rq pc = False"

text \<open>The puts in the history are those answered with success.\<close>

fun put_won :: "io_pc \<Rightarrow> bool" where
  "put_won (PutDone (Inr _)) = True"
| "put_won _ = False"

definition settled :: "localfs \<Rightarrow> io_req list \<Rightarrow> (fpath \<Rightarrow> byte list option) \<Rightarrow> nat list \<Rightarrow> world \<Rightarrow> bool" where
  "settled l reqs f0 h w \<longleftrightarrow> (\<forall>p. \<not> temp_named p \<longrightarrow> file_at w p = replay l reqs h f0 p)"

lemma seen_now:
  "settled l reqs f0 h w \<Longrightarrow> m \<le> length h \<Longrightarrow> \<not> temp_named p \<Longrightarrow> file_at w p = Some c \<Longrightarrow> seen l reqs f0 h m p c"
  by (auto simp: seen_def settled_def intro!: bexI [of _ "length h"])

lemma seen_later: "seen l reqs f0 h m p c \<Longrightarrow> seen l reqs f0 (h @ xs) m p c"
  by (auto simp: seen_def intro!: bexI)

lemma pc_ok_later:
  assumes "pc_ok l reqs f0 h w m rq pc" and "grows w w'"
    and "\<And>tmp n. pc = Staged tmp n \<Longrightarrow> temp_named tmp \<Longrightarrow> file_at w' tmp = file_at w tmp"
  shows "pc_ok l reqs f0 (h @ xs) w' m rq pc"
  using assms by (cases "(l, reqs, f0, h, w, m, rq, pc)" rule: pc_ok.cases) (auto simp: grows_def seen_later)

text \<open>One request's step: its own claim, the files and the temporary files of the others.\<close>

definition own_temp :: "io_pc \<Rightarrow> io_pc \<Rightarrow> world \<Rightarrow> world \<Rightarrow> bool" where
  "own_temp pc pc' w w' \<longleftrightarrow> (\<exists>tmp. (file_at w tmp = None \<or> (\<exists>n. pc = Staged tmp n)) \<and>
     (\<forall>q. q \<noteq> tmp \<longrightarrow> temp_named q \<longrightarrow> file_at w' q = file_at w q) \<and> (\<forall>t n. pc' = Staged t n \<longrightarrow> t = tmp \<and> file_at w t = None))"

lemma keeps_settled: "keeps {tmp} w w' \<Longrightarrow> temp_named tmp \<Longrightarrow> settled l reqs f0 h w \<Longrightarrow> settled l reqs f0 h w'"
  by (auto simp: settled_def keeps_def)

lemma put_step_keeps:
  assumes base: "abs_base (lBase l)" and fits: "req_fits l (StorePut bucket key r)" and i: "reqs ! i = StorePut bucket key r"
    and ok: "pc_ok l reqs f0 h w m (StorePut bucket key r) pc" and st: "settled l reqs f0 h w"
    and run: "put_step l bucket key r pc w = Some (pc', w')"
  shows "grows w w' \<and> own_temp pc pc' w w' \<and> put_won pc' = renamed pc pc' \<and>
    pc_ok l reqs f0 (h @ (if renamed pc pc' then [i] else [])) w' m' (StorePut bucket key r) pc' \<and>
    settled l reqs f0 (h @ (if renamed pc pc' then [i] else [])) w'"
proof -
  obtain p where p: "object_path l bucket key = Inr p" "os_path p = obj_elems (lBase l) bucket key"
    using object_path_ok [OF base, of bucket key] fits by auto
  consider "pc = IoStart" | (staged) tmp n where "pc = Staged tmp n"
    using run p by (cases pc) (auto simp: put_step_def)
  then show ?thesis
  proof cases
    case 1
    with run p have "put_stage l (os_path p) r w = (pc', w')" by (simp add: put_step_def)
    from put_stage_effect [OF this] obtain tmp where g: "grows w w'"
      and t: "temp_named tmp" "file_at w tmp = None" "keeps {tmp} w w'"
      and c: "pc' = Staged tmp (length (rd_data r)) \<and> rd_err r = None \<and> file_at w' tmp = Some (rd_data r) \<or> (\<exists>e. pc' = PutDone (Inl e))"
      by blast
    have "own_temp pc pc' w w'" using t c by (auto simp: own_temp_def keeps_def intro!: exI [of _ tmp])
    with g c 1 t keeps_settled [OF t(3,1) st] show ?thesis by auto
  next
    case staged
    with run p have "\<exists>res. io_defer (put_rename l (os_path p) r tmp n) (os_remove tmp) w = (res, w') \<and> pc' = PutDone res"
      by (auto simp: put_step_def put_done_def)
    then obtain res where run': "io_defer (put_rename l (os_path p) r tmp n) (os_remove tmp) w = (res, w')" and pc': "pc' = PutDone res" by blast
    have t: "temp_named tmp" "file_at w tmp = Some (rd_data r)" and d: "rd_err r = None" "n = length (rd_data r)" using ok staged by simp_all
    then have "tmp \<noteq> os_path p" using fits p by auto
    note e = put_rename_effect [OF run' t(2) this]
    show ?thesis
    proof (cases res)
      case (Inl x)
      with e have "keeps {tmp} w w'" "grows w w'" by auto
      with keeps_settled [OF _ t(1) st] staged pc' Inl show ?thesis
        by (auto simp: own_temp_def keeps_def)
    next
      case (Inr x)
      obtain etag k where x: "x = (etag, k)" by fastforce
      with e Inr have f: "file_at w' = (file_at w)(tmp := None, os_path p \<mapsto> rd_data r)" and g: "grows w w'"
        and a: "etag = hex_encode (md5 (rd_data r))" "k = int n" by auto
      have "settled l reqs f0 (h @ [i]) w'"
        using st t(1) f p i by (auto simp: settled_def replay_snoc)
      moreover have "own_temp pc pc' w w'"
        using f staged pc' p fits by (auto simp: own_temp_def)
      ultimately show ?thesis using staged pc' Inr x g a d by simp
    qed
  qed
qed

lemma get_step_keeps:
  assumes base: "abs_base (lBase l)" and fits: "req_fits l (StoreGet bucket key)"
    and ok: "pc_ok l reqs f0 h w m (StoreGet bucket key) pc" and st: "settled l reqs f0 h w" and m: "m \<le> length h"
    and run: "get_step l bucket key pc w = Some (pc', w')"
  shows "lookup w' = lookup w \<and> (\<forall>t n. pc' \<noteq> Staged t n) \<and> \<not> put_won pc' \<and> \<not> renamed pc pc' \<and>
    (pc = IoStart \<longrightarrow> (\<forall>st f. pc' \<noteq> Opened st f) \<and> (\<forall>g. pc' \<noteq> GetDone (Inr g))) \<and>
    pc_ok l reqs f0 h w' m (StoreGet bucket key) pc'"
proof -
  obtain p where p: "object_path l bucket key = Inr p" "os_path p = obj_elems (lBase l) bucket key"
    using object_path_ok [OF base, of bucket key] fits by auto
  have nt: "\<not> temp_named (obj_elems (lBase l) bucket key)" using fits by simp
  consider (start) "pc = IoStart" | (statted) x where "pc = Statted x" | (opened) x f where "pc = Opened x f"
    using run p by (cases pc) (auto simp: get_step_def)
  then show ?thesis
  proof cases
    case start
    with run p show ?thesis
      by (auto simp: get_step_def get_done_def fail_obs_def split: prod.split_asm sum.split_asm dest!: os_stat_lookup)
  next
    case statted
    obtain y w1 where op: "os_open (obj_elems (lBase l) bucket key) w = (y, w1)" by fastforce
    note s = os_stat_lookup [OF op [unfolded os_open_def]]
    show ?thesis
    proof (cases y)
      case (Inl e)
      with statted run p op s show ?thesis by (auto simp: get_step_def get_done_def fail_obs_def)
    next
      case (Inr f)
      with statted run p op s have "pc' = Opened x f" "w' = w1" "lookup w' = lookup w" "lookup w (obj_elems (lBase l) bucket key) = Some f"
        by (auto simp: get_step_def)
      then show ?thesis using seen_now [OF st m nt] statted by (cases f) (auto simp: file_at_Some)
    qed
  next
    case opened
    obtain y w1 where md: "md5_file (obj_elems (lBase l) bucket key) w = (y, w1)" by fastforce
    note s = md5_file_lookup [OF md]
    show ?thesis
    proof (cases y)
      case (Inl e)
      with opened run p md s show ?thesis by (auto simp: get_step_def get_done_def fail_obs_def)
    next
      case (Inr etag)
      with s ok opened obtain c t where "f = FileN c t" by (cases f) auto
      with opened run p md s Inr ok show ?thesis by (auto simp: get_step_def)
    qed
  qed
qed

definition io_inv :: "localfs \<Rightarrow> io_req list \<Rightarrow> (fpath \<Rightarrow> byte list option) \<Rightarrow> io_sys \<Rightarrow> bool" where
  "io_inv l reqs f0 s \<longleftrightarrow>
     length (isPcs s) = length reqs \<and> length (isFrom s) = length reqs \<and>
     distinct (isHist s) \<and> set (isHist s) = {i. i < length reqs \<and> put_won (isPcs s ! i)} \<and>
     settled l reqs f0 (isHist s) (isDisk s) \<and>
     (\<forall>i < length reqs. isFrom s ! i \<le> length (isHist s) \<and>
        pc_ok l reqs f0 (isHist s) (isDisk s) (isFrom s ! i) (reqs ! i) (isPcs s ! i)) \<and>
     (\<forall>i < length reqs. \<forall>j < length reqs. \<forall>t n k. isPcs s ! i = Staged t n \<longrightarrow> isPcs s ! j = Staged t k \<longrightarrow> i = j)"

lemma io_inv_start: "io_inv l reqs (file_at w) (io_start reqs w)"
  by (auto simp: io_inv_def io_start_def settled_def replay_def)

lemma pc_ok_put_won: "pc_ok l reqs f0 h w m rq pc \<Longrightarrow> io_step l rq pc v = Some x \<Longrightarrow> \<not> put_won pc"
  by (cases rq; cases pc) (auto simp: put_step_def split: sum.split_asm)

lemma own_temp_same: "lookup w' = lookup w \<Longrightarrow> \<forall>t n. pc' \<noteq> Staged t n \<Longrightarrow> own_temp pc pc' w w'"
  using fresh_temp_named [of w] by (auto simp: own_temp_def file_at_def)

lemma io_step_keeps:
  assumes base: "abs_base (lBase l)" and fits: "req_fits l (reqs ! i)"
    and ok: "pc_ok l reqs f0 h w m (reqs ! i) pc" and st: "settled l reqs f0 h w" and m: "m \<le> length h"
    and run: "io_step l (reqs ! i) pc w = Some (pc', w')"
  shows "grows w w' \<and> own_temp pc pc' w w' \<and> put_won pc' = renamed pc pc' \<and>
    pc_ok l reqs f0 (h @ (if renamed pc pc' then [i] else [])) w' (if pc = IoStart then length h else m) (reqs ! i) pc' \<and>
    settled l reqs f0 (h @ (if renamed pc pc' then [i] else [])) w'"
proof (cases "reqs ! i")
  case (StorePut bucket key r)
  then show ?thesis
    using put_step_keeps [OF base _ StorePut _ st, of m pc pc' w' "if pc = IoStart then length h else m"] fits ok run by simp
next
  case (StoreGet bucket key)
  let ?m = "if pc = IoStart then length h else m"
  have "pc_ok l reqs f0 h w ?m (StoreGet bucket key) pc" using ok StoreGet by simp
  then have "lookup w' = lookup w \<and> (\<forall>t n. pc' \<noteq> Staged t n) \<and> \<not> put_won pc' \<and> \<not> renamed pc pc' \<and>
      pc_ok l reqs f0 h w' ?m (StoreGet bucket key) pc'"
    using get_step_keeps [OF base _ _ st _, of bucket key ?m pc pc' w'] fits run m StoreGet by simp
  with StoreGet st show ?thesis
    by (auto simp: grows_same own_temp_same settled_def file_at_def)
qed

lemma io_inv_step:
  assumes base: "abs_base (lBase l)" and fits: "\<forall>rq \<in> set reqs. req_fits l rq"
    and step: "io_sys_step l reqs s s'" and inv: "io_inv l reqs f0 s"
  shows "io_inv l reqs f0 s'"
  using step
proof (cases rule: io_sys_step.cases)
  case (ios i pc' w')
  let ?pc = "isPcs s ! i" and ?h = "isHist s @ (if renamed (isPcs s ! i) pc' then [i] else [])"
  have len: "length (isPcs s) = length reqs" "length (isFrom s) = length reqs" using inv by (simp_all add: io_inv_def)
  have oki: "pc_ok l reqs f0 (isHist s) (isDisk s) (isFrom s ! i) (reqs ! i) ?pc" "isFrom s ! i \<le> length (isHist s)"
    using inv ios by (simp_all add: io_inv_def)
  have "settled l reqs f0 (isHist s) (isDisk s)" using inv by (simp add: io_inv_def)
  note e = io_step_keeps [OF base _ oki(1) this oki(2) ios(3)]
  have fi: "req_fits l (reqs ! i)" using fits ios by simp
  note e = e [OF fi]
  have lost: "\<not> put_won ?pc" using pc_ok_put_won [OF oki(1) ios(3)] .
  obtain tmp where tmp: "file_at (isDisk s) tmp = None \<or> (\<exists>n. ?pc = Staged tmp n)"
    and others: "\<And>q. q \<noteq> tmp \<Longrightarrow> temp_named q \<Longrightarrow> file_at w' q = file_at (isDisk s) q"
    and mine: "\<And>t n. pc' = Staged t n \<Longrightarrow> t = tmp \<and> file_at (isDisk s) t = None"
    using e unfolding own_temp_def by blast
  have staged: "temp_named t \<and> (\<exists>c. file_at (isDisk s) t = Some c)" if "j < length reqs" "isPcs s ! j = Staged t n" for j t n
  proof -
    have "pc_ok l reqs f0 (isHist s) (isDisk s) (isFrom s ! j) (reqs ! j) (Staged t n)" using inv that by (auto simp: io_inv_def)
    then show ?thesis by (cases "reqs ! j") auto
  qed
  have uniq: "j = k" if "j < length reqs" "k < length reqs" "isPcs s ! j = Staged t n" "isPcs s ! k = Staged t n'" for j k t n n'
    using inv that unfolding io_inv_def by blast
  have other_ok: "pc_ok l reqs f0 ?h w' (isFrom s ! j) (reqs ! j) (isPcs s ! j)" if j: "j < length reqs" "j \<noteq> i" for j
  proof (rule pc_ok_later)
    show "pc_ok l reqs f0 (isHist s) (isDisk s) (isFrom s ! j) (reqs ! j) (isPcs s ! j)" using inv j by (simp add: io_inv_def)
    show "grows (isDisk s) w'" using e by simp
    fix t n
    assume t: "isPcs s ! j = Staged t n" "temp_named t"
    have "t \<noteq> tmp" using tmp staged [OF j(1) t(1)] uniq [OF j(1) ios(2) t(1)] j(2) by auto
    then show "file_at w' t = file_at (isDisk s) t" using others t by simp
  qed
  have once: "i \<notin> set (isHist s)" using inv lost by (auto simp: io_inv_def)
  show ?thesis
    unfolding io_inv_def
  proof (intro conjI)
    show "set (isHist s') = {j. j < length reqs \<and> put_won (isPcs s' ! j)}"
      using inv e ios len lost by (auto simp: io_inv_def nth_list_update)
    show "\<forall>j < length reqs. isFrom s' ! j \<le> length (isHist s') \<and>
        pc_ok l reqs f0 (isHist s') (isDisk s') (isFrom s' ! j) (reqs ! j) (isPcs s' ! j)"
    proof (intro allI impI)
      fix j
      assume j: "j < length reqs"
      show "isFrom s' ! j \<le> length (isHist s') \<and> pc_ok l reqs f0 (isHist s') (isDisk s') (isFrom s' ! j) (reqs ! j) (isPcs s' ! j)"
      proof (cases "j = i")
        case True
        with e ios len oki(2) show ?thesis by (simp split: if_split_asm)
      next
        case False
        have "isFrom s ! j \<le> length (isHist s)" using inv j by (simp add: io_inv_def)
        with False other_ok [OF j False] ios len show ?thesis by auto
      qed
    qed
    have new: False if "j < length reqs" "isPcs s ! j = Staged t n" "pc' = Staged t k" for j t n k
      using staged [OF that(1,2)] mine [OF that(3)] by force
    show "\<forall>j < length reqs. \<forall>k < length reqs. \<forall>t n n'. isPcs s' ! j = Staged t n \<longrightarrow> isPcs s' ! k = Staged t n' \<longrightarrow> j = k"
      using uniq new ios len by (auto simp: nth_list_update split: if_split_asm) blast+
  qed (use inv e ios len once in \<open>auto simp: io_inv_def\<close>)
qed

lemma seen_iff:
  "seen l reqs f0 h m p c \<longleftrightarrow> (\<exists>n. m \<le> n \<and> n \<le> length h \<and> replay l reqs (take n h) f0 p = Some c)"
  by (fastforce simp: seen_def)

lemma io_inv_run:
  assumes "abs_base (lBase l)" and "\<forall>rq \<in> set reqs. req_fits l rq"
    and "(io_sys_step l reqs ^^ k) (io_start reqs w0) s"
  shows "io_inv l reqs (file_at w0) s"
  using assms(3)
proof (induction k arbitrary: s)
  case 0
  then have "s = io_start reqs w0" by simp
  then show ?case by (simp add: io_inv_start)
next
  case (Suc k)
  then show ?case using io_inv_step [OF assms(1,2)] by auto
qed

subsection \<open>No request waits for another\<close>

fun io_left :: "io_pc \<Rightarrow> nat" where
  "io_left IoStart = 3"
| "io_left (Statted _) = 2"
| "io_left (Opened _ _) = 1"
| "io_left (Staged _ _) = 1"
| "io_left (PutDone _) = 0"
| "io_left (GetDone _) = 0"

definition io_work :: "io_sys \<Rightarrow> nat" where
  "io_work s = sum_list (map io_left (isPcs s))"

lemma io_step_enabled:
  assumes "abs_base (lBase l)" and "req_fits l rq" and "pc_ok l reqs f0 h w m rq pc"
  shows "io_step l rq pc v = None \<longleftrightarrow> io_left pc = 0"
proof (cases rq)
  case (StorePut bucket key r)
  obtain p where "object_path l bucket key = Inr p"
    using object_path_ok [OF assms(1), of bucket key] assms(2) StorePut by auto
  with StorePut assms(3) show ?thesis by (cases pc) (auto simp: put_step_def)
next
  case (StoreGet bucket key)
  obtain p where "object_path l bucket key = Inr p"
    using object_path_ok [OF assms(1), of bucket key] assms(2) StoreGet by auto
  with StoreGet assms(3) show ?thesis by (cases pc) (auto simp: get_step_def split: prod.split sum.split)
qed

lemma put_stage_left: "put_stage l path r w = (pc, w') \<Longrightarrow> io_left pc \<le> 1"
  using put_stage_effect [of l path r w pc w'] by auto

lemma io_step_left: "io_step l rq pc w = Some (pc', w') \<Longrightarrow> io_left pc' < io_left pc"
  by (cases rq; cases pc)
    (auto simp: put_step_def get_step_def put_done_def get_done_def dest: put_stage_left split: prod.split_asm sum.split_asm)

lemma io_step_work:
  assumes "io_sys_step l reqs s s'" and "length (isPcs s) = length reqs"
  shows "io_work s' < io_work s"
  using assms(1)
proof (cases rule: io_sys_step.cases)
  case (ios i pc w)
  have i: "i < length (isPcs s)" using ios assms(2) by simp
  have "sum_list (map io_left ((isPcs s)[i := pc])) + io_left (isPcs s ! i) = sum_list (map io_left (isPcs s)) + io_left pc"
    using i sum_list_update [of i "map io_left (isPcs s)" "io_left pc"] elem_le_sum_list [of i "map io_left (isPcs s)"]
    by (simp add: map_update)
  with io_step_left [OF ios(3)] ios show ?thesis by (simp add: io_work_def)
qed

lemma io_run_bounded:
  assumes "abs_base (lBase l)" and "\<forall>rq \<in> set reqs. req_fits l rq"
    and "(io_sys_step l reqs ^^ k) (io_start reqs w0) s"
  shows "k + io_work s \<le> 3 * length reqs"
  using assms(3)
proof (induction k arbitrary: s)
  case 0
  then have "s = io_start reqs w0" by simp
  then show ?case by (simp add: io_start_def io_work_def sum_list_replicate)
next
  case (Suc k)
  then obtain s1 where s1: "(io_sys_step l reqs ^^ k) (io_start reqs w0) s1" "io_sys_step l reqs s1 s" by auto
  have "length (isPcs s1) = length reqs" using io_inv_run [OF assms(1,2) s1(1)] by (simp add: io_inv_def)
  with Suc.IH [OF s1(1)] io_step_work [OF s1(2)] show ?case by simp
qed

subsection \<open>Property\<close>

text \<open>
  C13. Racing puts and gets of plain objects linearize. However any number of them interleave at
  their system calls, and whichever calls fail, every file but the temporary ones is at any time
  what the puts that have renamed their file leave when they run one after the other; those are
  exactly the puts answered with success, each with the ETag and length of its own data; and the
  body of an answered get is the object's whole content at some time between the get's first
  step and now, never a mixture of two puts. No request waits for another: each has a
  next step until it is answered, and all are after three steps each at most. The buckets are one
  path element and no key ends in the name of a temporary file.
\<close>

theorem racing_puts_linearize:
  assumes base: "abs_base (lBase l)" and fits: "\<forall>rq \<in> set reqs. req_fits l rq"
    and run: "(io_sys_step l reqs ^^ k) (io_start reqs w0) s"
  shows "(\<forall>p. \<not> temp_named p \<longrightarrow> file_at (isDisk s) p = replay l reqs (isHist s) (file_at w0) p) \<and>
    distinct (isHist s) \<and> set (isHist s) = {i. i < length reqs \<and> put_won (isPcs s ! i)} \<and>
    (\<forall>i < length reqs. case (reqs ! i, isPcs s ! i) of
        (StorePut bucket key r, PutDone (Inr (etag, n))) \<Rightarrow>
          rd_err r = None \<and> etag = hex_encode (md5 (rd_data r)) \<and> n = int (length (rd_data r))
      | (StoreGet bucket key, GetDone (Inr g)) \<Rightarrow>
          (\<exists>n. isFrom s ! i \<le> n \<and> n \<le> length (isHist s) \<and>
             replay l reqs (take n (isHist s)) (file_at w0) (obj_elems (lBase l) bucket key) = Some (grBody g))
      | _ \<Rightarrow> True) \<and>
    k \<le> 3 * length reqs \<and> (\<forall>i < length reqs. io_step l (reqs ! i) (isPcs s ! i) (isDisk s) = None \<longleftrightarrow> io_left (isPcs s ! i) = 0)"
proof -
  have inv: "io_inv l reqs (file_at w0) s" using base fits run by (rule io_inv_run)
  have ok: "pc_ok l reqs (file_at w0) (isHist s) (isDisk s) (isFrom s ! i) (reqs ! i) (isPcs s ! i)" if "i < length reqs" for i
    using inv that by (simp add: io_inv_def)
  show ?thesis
  proof (intro conjI allI impI)
    fix i
    assume i: "i < length reqs"
    show "case (reqs ! i, isPcs s ! i) of
        (StorePut bucket key r, PutDone (Inr (etag, n))) \<Rightarrow>
          rd_err r = None \<and> etag = hex_encode (md5 (rd_data r)) \<and> n = int (length (rd_data r))
      | (StoreGet bucket key, GetDone (Inr g)) \<Rightarrow>
          (\<exists>n. isFrom s ! i \<le> n \<and> n \<le> length (isHist s) \<and>
             replay l reqs (take n (isHist s)) (file_at w0) (obj_elems (lBase l) bucket key) = Some (grBody g))
      | _ \<Rightarrow> True"
      using ok [OF i] by (auto simp: seen_iff split: io_req.split io_pc.split sum.split prod.split)
    show "io_step l (reqs ! i) (isPcs s ! i) (isDisk s) = None \<longleftrightarrow> io_left (isPcs s ! i) = 0"
      using fits i by (intro io_step_enabled [OF base _ ok [OF i]]) simp
  qed (use inv io_run_bounded [OF base fits run] in \<open>auto simp: io_inv_def settled_def\<close>)
qed

text \<open>
  A put that overwrites an object between a get's opening of the file and its computation of the
  ETag: the answer has the old body with the new content's ETag.
\<close>

definition ex_race_world :: world where
  "ex_race_world = ex_world\<lparr>fs_files := [([''d''], DirN), ([''d'', ''objects''], DirN),
     ([''d'', ''objects'', ''bkt''], DirN), ([''d'', ''objects'', ''bkt'', ''k''], FileN [9] 3)]\<rparr>"

definition ex_race :: "io_req list" where
  "ex_race = [StorePut ''bkt'' ''k'' (bytes_reader [1, 2]), StoreGet ''bkt'' ''k'']"

definition ex_race_tmp :: fpath where
  "ex_race_tmp = [''d'', ''objects'', ''bkt'', ''.put-0'']"

lemmas ex_race_calls = ex_calls ex_race_world_def ex_race_tmp_def bytes_reader_def put_stage_def stage_copy_def put_rename_def put_done_def get_done_def os_stat_def os_open_def
  os_read_from_def md5_file_def io_return_def

lemma ex_race_steps:
  "\<exists>w1. put_step ex_store ''bkt'' ''k'' (bytes_reader [1, 2]) IoStart ex_race_world = Some (Staged ex_race_tmp 2, w1) \<and>
     get_step ex_store ''bkt'' ''k'' IoStart w1 = Some (Statted (FileN [9] 3), w1) \<and>
     get_step ex_store ''bkt'' ''k'' (Statted (FileN [9] 3)) w1 = Some (Opened (FileN [9] 3) (FileN [9] 3), w1) \<and>
     (\<exists>w2 w3 g. put_step ex_store ''bkt'' ''k'' (bytes_reader [1, 2]) (Staged ex_race_tmp 2) w1 =
          Some (PutDone (Inr (hex_encode (md5 [1, 2]), 2)), w2) \<and>
        get_step ex_store ''bkt'' ''k'' (Opened (FileN [9] 3) (FileN [9] 3)) w2 = Some (GetDone (Inr g), w3) \<and>
        grBody g = [9] \<and> grSize g = 1 \<and> grETag g = hex_encode (md5 [1, 2]))"
  by (simp add: put_step_def get_step_def ex_object_path ex_os_path) (simp add: ex_race_calls node_size_def)

lemma io_sys_stepI:
  assumes "io_step l (reqs ! i) (pcs ! i) w = Some (pc, w')" and "i < length reqs"
  shows "io_sys_step l reqs \<lparr>isDisk = w, isPcs = pcs, isHist = h, isFrom = f\<rparr>
    \<lparr>isDisk = w', isPcs = pcs[i := pc], isHist = h @ (if renamed (pcs ! i) pc then [i] else []),
      isFrom = (if pcs ! i = IoStart then f[i := length h] else f)\<rparr>"
proof -
  let ?s = "\<lparr>isDisk = w, isPcs = pcs, isHist = h, isFrom = f\<rparr>"
  have "io_step l (reqs ! i) (isPcs ?s ! i) (isDisk ?s) = Some (pc, w')" using assms by simp
  from io_sys_step.ios [OF assms(2) this] show ?thesis by (simp only: io_sys.simps)
qed

lemma get_mixes_puts:
  "\<exists>s g. (io_sys_step ex_store ex_race ^^ 5) (io_start ex_race ex_race_world) s \<and>
     isPcs s = [PutDone (Inr (hex_encode (md5 [1, 2]), 2)), GetDone (Inr g)] \<and> isHist s = [0] \<and>
     grBody g = [9] \<and> grSize g = 1 \<and> grETag g = hex_encode (md5 [1, 2])"
proof -
  let ?put = "Staged ex_race_tmp 2" and ?f = "FileN [9] 3" and ?done = "PutDone (Inr (hex_encode (md5 [1, 2]), 2))"
  let ?st = "\<lambda>w pcs h. \<lparr>isDisk = w, isPcs = pcs, isHist = h, isFrom = [0, 0]\<rparr>"
  obtain w1 w2 w3 g where s:
      "put_step ex_store ''bkt'' ''k'' (bytes_reader [1, 2]) IoStart ex_race_world = Some (?put, w1)"
      "get_step ex_store ''bkt'' ''k'' IoStart w1 = Some (Statted ?f, w1)"
      "get_step ex_store ''bkt'' ''k'' (Statted ?f) w1 = Some (Opened ?f ?f, w1)"
      "put_step ex_store ''bkt'' ''k'' (bytes_reader [1, 2]) ?put w1 = Some (?done, w2)"
      "get_step ex_store ''bkt'' ''k'' (Opened ?f ?f) w2 = Some (GetDone (Inr g), w3)"
    and g: "grBody g = [9]" "grSize g = 1" "grETag g = hex_encode (md5 [1, 2])"
    using ex_race_steps by blast
  note sys = io_sys_stepI [where l = ex_store and reqs = ex_race]
  have "io_sys_step ex_store ex_race (?st ex_race_world [IoStart, IoStart] []) (?st w1 [?put, IoStart] [])"
    using sys [of 0 "[IoStart, IoStart]" ex_race_world ?put w1 "[]" "[0, 0]"] s by (simp add: ex_race_def)
  moreover have "io_sys_step ex_store ex_race (?st w1 [?put, IoStart] []) (?st w1 [?put, Statted ?f] [])"
    using sys [of 1 "[?put, IoStart]" w1 "Statted ?f" w1 "[]" "[0, 0]"] s by (simp add: ex_race_def)
  moreover have "io_sys_step ex_store ex_race (?st w1 [?put, Statted ?f] []) (?st w1 [?put, Opened ?f ?f] [])"
    using sys [of 1 "[?put, Statted ?f]" w1 "Opened ?f ?f" w1 "[]" "[0, 0]"] s by (simp add: ex_race_def)
  moreover have "io_sys_step ex_store ex_race (?st w1 [?put, Opened ?f ?f] []) (?st w2 [?done, Opened ?f ?f] [0])"
    using sys [of 0 "[?put, Opened ?f ?f]" w1 ?done w2 "[]" "[0, 0]"] s by (simp add: ex_race_def)
  moreover have "io_sys_step ex_store ex_race (?st w2 [?done, Opened ?f ?f] [0]) (?st w3 [?done, GetDone (Inr g)] [0])"
    using sys [of 1 "[?done, Opened ?f ?f]" w2 "GetDone (Inr g)" w3 "[0]" "[0, 0]"] s by (simp add: ex_race_def)
  ultimately have "(io_sys_step ex_store ex_race ^^ 5) (?st ex_race_world [IoStart, IoStart] []) (?st w3 [?done, GetDone (Inr g)] [0])"
    unfolding eval_nat_numeral BitM.simps relpowp.simps by blast
  moreover have "io_start ex_race ex_race_world = ?st ex_race_world [IoStart, IoStart] []"
    by (simp add: io_start_def ex_race_def numeral_2_eq_2)
  ultimately show ?thesis using g by (intro exI [of _ "?st w3 [?done, GetDone (Inr g)] [0]"]) auto
qed

theorem racing_puts_linearize_witness:
  "\<exists>s g. (io_sys_step ex_store ex_race ^^ 5) (io_start ex_race ex_race_world) s \<and>
     file_at (isDisk s) [''d'', ''objects'', ''bkt'', ''k''] = Some [1, 2] \<and>
     isPcs s ! 1 = GetDone (Inr g) \<and> grBody g = [9]"
proof -
  obtain s g where run: "(io_sys_step ex_store ex_race ^^ 5) (io_start ex_race ex_race_world) s"
    and s: "isPcs s = [PutDone (Inr (hex_encode (md5 [1, 2]), 2)), GetDone (Inr g)]" "isHist s = [0]" "grBody g = [9]"
    using get_mixes_puts by blast
  have k: "obj_elems (lBase ex_store) ''bkt'' ''k'' = [''d'', ''objects'', ''bkt'', ''k'']"
    by (simp add: ex_store_def ex_obj_elems)
  have nt: "\<not> temp_named [''d'', ''objects'', ''bkt'', ''k'']" by (simp add: temp_named_def)
  have base: "abs_base (lBase ex_store)" by (simp add: ex_store_def)
  have fits: "\<forall>rq \<in> set ex_race. req_fits ex_store rq" using nt by (simp add: ex_race_def k)
  have "file_at (isDisk s) [''d'', ''objects'', ''bkt'', ''k''] = replay ex_store ex_race (isHist s) (file_at ex_race_world) [''d'', ''objects'', ''bkt'', ''k'']"
    using racing_puts_linearize [OF base fits run] nt by blast
  then have "file_at (isDisk s) [''d'', ''objects'', ''bkt'', ''k''] = Some [1, 2]"
    using s k by (simp add: replay_def ex_race_def bytes_reader_def)
  with run s show ?thesis by auto
qed

end
