(* ===== verification/LocalList.thy ===== *)
theory LocalList imports LocalGet
begin

text \<open>
  Listing and removing buckets: \<open>List\<close> with its directory walk, its roll-up of common
  prefixes and its truncation, \<open>IsBucketEmpty\<close> and \<open>RemoveBucket\<close>.
\<close>

subsection \<open>The size of what is still to be walked\<close>

text \<open>The paths strictly below a path; every walk goes down in the number of them.\<close>

definition below :: "'z os_state_scheme \<Rightarrow> fpath \<Rightarrow> fpath set" where
  "below w p = {q \<in> fst ` set (fs_files w). \<exists>ys. ys \<noteq> [] \<and> q = p @ ys}"

definition todo :: "'z os_state_scheme \<Rightarrow> fpath list \<Rightarrow> nat" where
  "todo w ps = sum_list (map (\<lambda>p. Suc (card (below w p))) ps)"

lemma finite_below [simp]: "finite (below w p)"
  by (rule finite_subset [of _ "fst ` set (fs_files w)"]) (auto simp: below_def)

lemma distinct_child_names [simp]: "distinct (child_names w p)"
  by (simp add: child_names_def)

lemma set_child_names:
  "set (child_names w p) = {n. p @ [n] \<in> fst ` set (fs_files w)}"
proof -
  have "q = butlast q @ [last q]" if "q \<noteq> []" for q :: fpath using that by simp
  then show ?thesis
    unfolding child_names_def
    by (auto simp: image_iff) (metis fst_conv last_snoc butlast_snoc append_is_Nil_conv not_Cons_self2)+
qed

lemma todo_children: "todo w (map (\<lambda>n. p @ [n]) (child_names w p)) \<le> card (below w p)"
proof -
  let ?C = "\<lambda>n. insert (p @ [n]) (below w (p @ [n]))"
  have "todo w (map (\<lambda>n. p @ [n]) (child_names w p)) = (\<Sum>n \<in> set (child_names w p). Suc (card (below w (p @ [n]))))"
    by (simp add: todo_def comp_def sum_list_distinct_conv_sum_set)
  also have "\<dots> = (\<Sum>n \<in> set (child_names w p). card (?C n))"
    by (intro sum.cong) (auto simp: below_def)
  also have "\<dots> = card (\<Union>n \<in> set (child_names w p). ?C n)"
    by (intro card_UN_disjoint [symmetric]) (auto simp: below_def)
  also have "\<dots> \<le> card (below w p)"
    by (intro card_mono) (auto simp: set_child_names below_def)
  finally show ?thesis .
qed

lemma todo_append [simp]: "todo w (ps @ qs) = todo w ps + todo w qs"
  by (simp add: todo_def)

lemma todo_Cons [simp]: "todo w (p # ps) = Suc (card (below w p)) + todo w ps"
  by (simp add: todo_def)

lemma todo_rev [simp]: "todo w (rev ps) = todo w ps"
  by (simp add: todo_def rev_map [symmetric] sum_list_rev)

lemma todo_cong: "fs_files w' = fs_files w \<Longrightarrow> todo w' ps = todo w ps"
  by (simp add: todo_def below_def)

lemma todo_enter: "names = child_names w p \<Longrightarrow> todo w (map (\<lambda>n. p @ [n]) names @ ps) < todo w (p # ps)"
  using todo_children [of w p] by simp

lemma os_read_dir_files:
  "os_read_dir p w = (r, w') \<Longrightarrow> fs_files w' = fs_files w \<and> (\<forall>es. r = Inr es \<longrightarrow> es = child_names w p \<and> lookup w p = Some DirN)"
  unfolding os_read_dir_def
  by (elim tick_bindE)
    (auto simp: child_names_def lookup_def dest!: os_tick_same split: option.splits node.splits if_splits)

lemma os_stat_files: "os_stat p w = (r, w') \<Longrightarrow> fs_files w' = fs_files w"
  unfolding os_stat_def by (elim tick_bindE) (auto dest!: os_tick_same split: option.splits)

lemma os_close_files: "os_close p w = (r, w') \<Longrightarrow> fs_files w' = fs_files w"
  by (auto simp: os_close_def dest: os_tick_same)

lemma os_read_from_files: "os_read_from n off w = (r, w') \<Longrightarrow> fs_files w' = fs_files w"
  unfolding os_read_from_def by (elim tick_bindE) (auto dest!: os_tick_same split: node.splits)

lemma read_close_files:
  "io_defer (os_read_from n off) (os_close p) w = (r, w') \<Longrightarrow> fs_files w' = fs_files w"
  by (auto simp: io_defer_iff io_ignore_def)
    (metis os_close_files os_read_from_files prod.collapse)

lemma load_manifest_files: "load_manifest jc base bucket key w = (r, w') \<Longrightarrow> fs_files w' = fs_files w"
  by (auto simp: load_manifest_def io_bind_def os_open_def
      dest!: os_stat_files read_close_files split: sum.split_asm prod.split_asm option.split_asm)

lemma md5_file_files: "md5_file p w = (r, w') \<Longrightarrow> fs_files w' = fs_files w"
  by (auto simp: md5_file_def io_bind_def os_open_def io_return_def
      dest!: os_stat_files read_close_files split: sum.split_asm prod.split_asm)

subsection \<open>Emptiness and removal of a bucket\<close>

text \<open>The explicit stack of directories still to be searched, its top first.\<close>

function empty_loop :: "localfs \<Rightarrow> fpath list \<Rightarrow> world \<Rightarrow> bool result \<times> world" where
  "empty_loop l [] w = (Inr True, observe l ''is_bucket_empty'' 0 False w)"
| "empty_loop l (p # ps) w =
     (case os_stat p w of
        (Inl e, w1) \<Rightarrow> fail_obs l ''is_bucket_empty'' 0 e w1
      | (Inr (FileN _ _), w1) \<Rightarrow> (Inr False, observe l ''is_bucket_empty'' 0 False w1)
      | (Inr DirN, w1) \<Rightarrow>
          (case os_read_dir p w1 of
             (Inl e, w2) \<Rightarrow> fail_obs l ''is_bucket_empty'' 0 e w2
           | (Inr kids, w2) \<Rightarrow> empty_loop l (rev (map (\<lambda>n. p @ [n]) kids) @ ps) w2))"
  by pat_completeness auto
termination
proof (relation "measure (\<lambda>(l, ps, w). todo w ps)")
  fix l p ps w st w1 rd w2 kids
  assume st: "(st, w1) = os_stat p w" and rd: "(rd, w2) = os_read_dir p w1" and kids: "rd = Inr kids"
  have f1: "fs_files w1 = fs_files w" using st [symmetric] by (rule os_stat_files)
  have f2: "fs_files w2 = fs_files w1" "kids = child_names w1 p"
    using os_read_dir_files [OF rd [symmetric]] kids by auto
  have "child_names w1 p = child_names w p" by (simp add: child_names_def f1)
  then show "((l, rev (map (\<lambda>n. p @ [n]) kids) @ ps, w2), l, p # ps, w) \<in> measure (\<lambda>(l, ps, w). todo w ps)"
    using todo_children [of w p] f2 todo_cong [of w2 w] f1 by simp
qed simp

definition bucket_dir :: "localfs \<Rightarrow> string \<Rightarrow> fpath" where
  "bucket_dir l bucket = os_path (join_path [lBase l, ''objects'', bucket])"

definition is_bucket_empty :: "localfs \<Rightarrow> string \<Rightarrow> world \<Rightarrow> bool result \<times> world" where
  "is_bucket_empty l bucket w =
     (let bdir = bucket_dir l bucket in
      case os_read_dir bdir w of
        (Inl e, w1) \<Rightarrow>
          if e = OsErr ENOENT then (Inr True, observe l ''is_bucket_empty'' 0 False w1)
          else fail_obs l ''is_bucket_empty'' 0 e w1
      | (Inr entries, w1) \<Rightarrow>
          empty_loop l (rev (map (\<lambda>n. bdir @ [n]) (filter (\<lambda>n. n \<noteq> ''.multipart'') entries))) w1)"

definition remove_bucket :: "localfs \<Rightarrow> string \<Rightarrow> world \<Rightarrow> unit result \<times> world" where
  "remove_bucket l bucket w =
     (case is_bucket_empty l bucket w of
        (Inl e, w1) \<Rightarrow> (Inl e, w1)
      | (Inr none, w1) \<Rightarrow>
          if \<not> none then (Inl (ErrText ''bucket not empty''), w1)
          else os_remove_all (bucket_dir l bucket) w1)"

subsection \<open>List\<close>

record object_meta =
  omKey :: string
  omSize :: int
  omETag :: string
  omModified :: int

text \<open>The arguments of a listing, and what the walk collects.\<close>

record list_args =
  laPrefix :: string
  laStartAfter :: string
  laDelimiter :: string

record list_acc =
  lcObjects :: "object_meta list"
  lcPrefixes :: "string list"

definition after_start :: "list_args \<Rightarrow> string \<Rightarrow> bool" where
  "after_start a k \<longleftrightarrow> laStartAfter a = '''' \<or> laStartAfter a < k"

definition matches_prefix :: "list_args \<Rightarrow> string \<Rightarrow> bool" where
  "matches_prefix a k \<longleftrightarrow> laPrefix a = '''' \<or> has_prefix k (laPrefix a)"

text \<open>The common prefix a key rolls up to: up to the first delimiter after the prefix.\<close>

definition rolled_prefix :: "list_args \<Rightarrow> string \<Rightarrow> string option" where
  "rolled_prefix a k =
     (if laDelimiter a = '''' then None
      else
        (let part = trim_prefix k (laPrefix a) in
         case index_of part (laDelimiter a) of
           None \<Rightarrow> None
         | Some i \<Rightarrow> Some (laPrefix a @ take (i + length (laDelimiter a)) part)))"

text \<open>A prefix is recorded once, and only when it comes after the start key.\<close>

definition add_prefix :: "list_args \<Rightarrow> string \<Rightarrow> list_acc \<Rightarrow> list_acc" where
  "add_prefix a cp acc =
     (if cp \<notin> set (lcPrefixes acc) \<and> after_start a cp then acc\<lparr>lcPrefixes := lcPrefixes acc @ [cp]\<rparr> else acc)"

definition rel_path :: "fpath \<Rightarrow> string" where
  "rel_path cs = (if cs = [] then ''.'' else join_with CHR ''/'' cs)"

text \<open>A directory of the walk: the new collection, and whether to skip its content.\<close>

definition visit_dir :: "list_args \<Rightarrow> fpath \<Rightarrow> list_acc \<Rightarrow> list_acc \<times> bool" where
  "visit_dir a rel acc =
     (if rel = [] \<or> laDelimiter a = '''' then (acc, False)
      else
        (let checkKey = rel_path rel @ ''/'' in
         if \<not> matches_prefix a checkKey then (acc, False)
         else
           (case rolled_prefix a checkKey of
              None \<Rightarrow> (acc, False)
            | Some cp \<Rightarrow> (add_prefix a cp acc, True))))"

text \<open>The key a file of the walk stands for, and whether it is a sealed object's shard.\<close>

definition file_key :: "fpath \<Rightarrow> fpath \<Rightarrow> string \<times> bool" where
  "file_key path rel =
     (if path \<noteq> [] \<and> last path = ''data.ss1'' then (rel_path (butlast rel), True) else (rel_path rel, False))"

definition listed_object ::
  "localfs \<Rightarrow> json_codec \<Rightarrow> string \<Rightarrow> fpath \<Rightarrow> string \<Rightarrow> bool \<Rightarrow> world \<Rightarrow> object_meta list result \<times> world" where
  "listed_object l jc bucket path objKey isSealed w =
     (if isSealed then
        (case load_manifest jc (lBase l) bucket objKey w of
           (Inl e, w1) \<Rightarrow> (Inr [], w1)
         | (Inr m, w1) \<Rightarrow>
             (Inr [\<lparr>omKey = objKey, omSize = mSize m, omETag = mETag m, omModified = mLastModified m\<rparr>], w1))
      else
        io_bind (os_stat path) (\<lambda>info.
        io_bind (md5_file path) (\<lambda>etag.
        io_return [\<lparr>omKey = objKey, omSize = node_size info, omETag = etag, omModified = node_mtime info\<rparr>])) w)"

definition visit_file ::
  "localfs \<Rightarrow> json_codec \<Rightarrow> string \<Rightarrow> list_args \<Rightarrow> fpath \<Rightarrow> fpath \<Rightarrow> list_acc \<Rightarrow> world \<Rightarrow> list_acc result \<times> world" where
  "visit_file l jc bucket a path rel acc w =
     (if has_prefix (rel_path rel) ''.multipart/'' then (Inr acc, w)
      else if path \<noteq> [] \<and> last path = ManifestFilename then (Inr acc, w)
      else
        (let (objKey, isSealed) = file_key path rel in
         if \<not> matches_prefix a objKey then (Inr acc, w)
         else
           (case rolled_prefix a objKey of
              Some cp \<Rightarrow> (Inr (add_prefix a cp acc), w)
            | None \<Rightarrow>
                if \<not> after_start a objKey then (Inr acc, w)
                else
                  (case listed_object l jc bucket path objKey isSealed w of
                     (Inl e, w1) \<Rightarrow> (Inl e, w1)
                   | (Inr os, w1) \<Rightarrow> (Inr (acc\<lparr>lcObjects := lcObjects acc @ os\<rparr>), w1)))))"

text \<open>
  \<open>filepath.WalkDir\<close> with the callback: the pending paths in visiting order. The callback
  never returns \<open>SkipDir\<close> for a file, so skipping means not entering a directory.
\<close>

lemma visit_file_files: "visit_file l jc bucket a path rel acc w = (r, w') \<Longrightarrow> fs_files w' = fs_files w"
  by (auto simp: visit_file_def listed_object_def Let_def io_bind_def io_return_def
      dest!: load_manifest_files os_stat_files md5_file_files
      split: if_splits option.splits prod.splits sum.splits)

lemma todo_visit: "(r, w') = visit_file l jc bucket a path rel acc w \<Longrightarrow> todo w' ps < Suc (card (below w p) + todo w ps)"
  using visit_file_files [of l jc bucket a path rel acc w r w'] todo_cong [of w' w] by simp

lemma todo_read_dir: "(r, w') = os_read_dir q w \<Longrightarrow> todo w' ps < Suc (card (below w p) + todo w ps)"
  using os_read_dir_files [of q w r w'] todo_cong [of w' w] by simp

lemma todo_descend:
  assumes rd: "(Inr names, w') = os_read_dir p w"
  shows "todo w' (map (\<lambda>n. p @ [n]) names) + todo w' ps < Suc (card (below w p) + todo w ps)"
proof -
  have "fs_files w' = fs_files w" "names = child_names w p"
    using os_read_dir_files [OF rd [symmetric]] by auto
  then show ?thesis
    using todo_children [of w p] todo_cong [of w' w] by simp
qed

function walk ::
  "localfs \<Rightarrow> json_codec \<Rightarrow> string \<Rightarrow> list_args \<Rightarrow> nat \<Rightarrow> fpath list \<Rightarrow> list_acc \<Rightarrow> world \<Rightarrow> list_acc result \<times> world" where
  "walk l jc bucket a d [] acc w = (Inr acc, w)"
| "walk l jc bucket a d (p # ps) acc w =
     (case lookup w p of
        None \<Rightarrow> walk l jc bucket a d ps acc w
      | Some (FileN _ _) \<Rightarrow>
          (case visit_file l jc bucket a p (drop d p) acc w of
             (Inl e, w1) \<Rightarrow> (Inl e, w1)
           | (Inr acc1, w1) \<Rightarrow> walk l jc bucket a d ps acc1 w1)
      | Some DirN \<Rightarrow>
          (case visit_dir a (drop d p) acc of
             (acc1, skip) \<Rightarrow>
               if skip then walk l jc bucket a d ps acc1 w
               else
                 (case os_read_dir p w of
                    (Inl e, w1) \<Rightarrow>
                      if e = OsErr ENOENT then walk l jc bucket a d ps acc1 w1 else (Inl e, w1)
                  | (Inr names, w1) \<Rightarrow> walk l jc bucket a d (map (\<lambda>n. p @ [n]) names @ ps) acc1 w1)))"
  by pat_completeness auto
termination
  by (relation "measure (\<lambda>(l, jc, bucket, a, d, ps, acc, w). todo w ps)")
    (simp_all add: todo_visit todo_read_dir todo_descend)

declare walk.simps [simp del]

definition walk_bucket ::
  "localfs \<Rightarrow> json_codec \<Rightarrow> string \<Rightarrow> list_args \<Rightarrow> world \<Rightarrow> list_acc result \<times> world" where
  "walk_bucket l jc bucket a w =
     (let bdir = bucket_dir l bucket; acc0 = \<lparr>lcObjects = [], lcPrefixes = []\<rparr> in
      case os_stat bdir w of
        (Inl e, w1) \<Rightarrow> if e = OsErr ENOENT then (Inr acc0, w1) else (Inl e, w1)
      | (Inr _, w1) \<Rightarrow> walk l jc bucket a (length bdir) [bdir] acc0 w1)"

text \<open>The truncation: everything below the first entry that does not fit.\<close>

definition truncate_list :: "object_meta list \<Rightarrow> string list \<Rightarrow> nat \<Rightarrow> object_meta list \<times> string list \<times> bool" where
  "truncate_list objects prefixes maxKeys =
     (if length objects + length prefixes > maxKeys then
        (let combined = sort (map omKey objects @ prefixes); cutKey = combined ! maxKeys in
         (filter (\<lambda>o1. omKey o1 < cutKey) objects, filter (\<lambda>p. p < cutKey) prefixes, True))
      else (objects, prefixes, False))"

definition list_objects ::
  "localfs \<Rightarrow> json_codec \<Rightarrow> string \<Rightarrow> list_args \<Rightarrow> nat \<Rightarrow> world \<Rightarrow>
     (object_meta list \<times> string list \<times> bool) result \<times> world" where
  "list_objects l jc bucket a maxKeys w =
     (case walk_bucket l jc bucket a w of
        (Inl e, w1) \<Rightarrow>
          if e = OsErr ENOENT then (Inr ([], [], False), observe l ''list'' 0 False w1)
          else fail_obs l ''list'' 0 e w1
      | (Inr acc, w1) \<Rightarrow>
          (Inr (truncate_list (sort_key omKey (lcObjects acc)) (sort (lcPrefixes acc)) maxKeys),
           observe l ''list'' 0 False w1))"

end
