(* ===== verification/ListProps.thy ===== *)
theory ListProps imports LocalList LocalProps
begin

text \<open>
  The properties of listings and of bucket removal: a listing is sorted, filtered and bounded,
  it shows every plain object, and removing a bucket never removes an object.
\<close>

subsection \<open>Trees\<close>

lemma tree_ok_prefix:
  "tree_ok w \<Longrightarrow> lookup w (p @ ys) = Some n \<Longrightarrow> ys \<noteq> [] \<Longrightarrow> lookup w p = Some DirN"
proof (induction ys arbitrary: n rule: rev_induct)
  case Nil
  then show ?case by simp
next
  case (snoc y ys)
  then have "lookup w (p @ ys) = Some DirN"
    using tree_okD [of w "p @ ys @ [y]" n] by (simp add: butlast_append)
  with snoc show ?case by (cases "ys = []") auto
qed

lemma child_of_lookup:
  assumes "tree_ok w" and "lookup w (p @ y # ys) = Some n"
  shows "y \<in> set (child_names w p)"
proof -
  have "\<exists>m. lookup w (p @ [y]) = Some m"
    using tree_ok_prefix [of w "p @ [y]" ys n] assms by (cases "ys = []") auto
  then show ?thesis
    by (auto simp: set_child_names lookup_def dest!: map_of_SomeD intro: rev_image_eqI)
qed

subsection \<open>Buckets\<close>

lemma os_read_dir_lookup: "os_read_dir p w = (r, w') \<Longrightarrow> lookup w' = lookup w"
  by (drule os_read_dir_files) (simp add: lookup_def fun_eq_iff)

lemma empty_loop_True:
  "empty_loop l ps w = (Inr True, w') \<Longrightarrow> tree_ok w \<Longrightarrow>
     file_at w' = file_at w \<and> (\<forall>p \<in> set ps. \<forall>ys. file_at w (p @ ys) = None)"
proof (induction l ps w rule: empty_loop.induct)
  case (1 l w)
  then show ?case by auto
next
  case (2 l p ps w)
  obtain st w1 where st: "os_stat p w = (st, w1)" by fastforce
  have l1: "lookup w1 = lookup w" using os_stat_lookup [OF st] by blast
  from 2(2) st have "st = Inr DirN"
    by (auto simp: fail_obs_iff split: sum.splits node.splits)
  with st 2(2) obtain kids w2 where rd: "os_read_dir p w1 = (Inr kids, w2)"
    and rec: "empty_loop l (rev (map (\<lambda>n. p @ [n]) kids) @ ps) w2 = (Inr True, w')"
    by (auto simp: fail_obs_iff split: sum.splits prod.splits)
  have dir: "lookup w p = Some DirN" using os_stat_lookup [OF st] \<open>st = Inr DirN\<close> by blast
  have l2: "lookup w2 = lookup w" using os_read_dir_lookup [OF rd] l1 by simp
  then have f2: "file_at w2 = file_at w" and t2: "tree_ok w2"
    using 2(3) by (simp_all add: file_at_def fun_eq_iff tree_ok_def)
  have kids: "set kids = set (child_names w p)"
    using os_read_dir_files [OF rd] os_stat_files [OF st] by (auto simp: set_child_names)
  have IH: "file_at w' = file_at w2" "\<forall>q \<in> set (rev (map (\<lambda>n. p @ [n]) kids) @ ps). \<forall>ys. file_at w2 (q @ ys) = None"
    using 2(1) [OF st [symmetric] \<open>st = Inr DirN\<close> refl rd [symmetric] refl rec t2] by auto
  have "file_at w (p @ ys) = None" for ys
  proof (cases ys)
    case Nil
    then show ?thesis using dir by (simp add: file_at_def)
  next
    case (Cons y zs)
    show ?thesis
    proof (rule ccontr)
      assume "file_at w (p @ ys) \<noteq> None"
      then obtain n where "lookup w (p @ y # zs) = Some n" using Cons by (auto simp: file_at_def split: option.splits)
      then have "y \<in> set kids" using child_of_lookup 2(3) kids by auto
      then have "\<forall>zs. file_at w2 ((p @ [y]) @ zs) = None" by (intro bspec [OF IH(2)]) simp
      then have "file_at w2 ((p @ [y]) @ zs) = None" by (rule spec)
      with \<open>file_at w (p @ ys) \<noteq> None\<close> Cons f2 show False by simp
    qed
  qed
  with IH f2 show ?case by auto
qed

lemma os_remove_all_file_at:
  assumes "os_remove_all p w = (Inr u, w')" and "p \<noteq> []"
  shows "file_at w' q = (if take (length p) q = p then None else file_at w q)"
proof -
  from assms(1) obtain w1 where tick: "os_tick w = (Inr (), w1)"
    and w': "w' = w1\<lparr>fs_files := filter (\<lambda>(q, n). take (length p) q \<noteq> p) (fs_files w1)\<rparr>"
    unfolding os_remove_all_def by (elim tick_bindE) auto
  have mf: "map_of (filter (\<lambda>(q, n). P q) xs) q = (if P q then map_of xs q else None)" for P and xs :: "(fpath \<times> node) list"
    by (induction xs) auto
  have "lookup w' q = (if take (length p) q = p then None else lookup w q)"
    using w' assms(2) mf [of "\<lambda>q. take (length p) q \<noteq> p" "fs_files w1"] os_tick_same [OF tick]
    by (auto simp: lookup_def)
  then show ?thesis by (simp add: file_at_def)
qed

text \<open>A disk that never reports an existing path as missing.\<close>

lemma os_read_dir_missing:
  assumes "os_read_dir p w = (Inl (OsErr ENOENT), w')" and "Some ENOENT \<notin> set (fs_faults w)"
  shows "lookup w p = None"
proof -
  have "\<exists>w1. os_tick w = (Inr (), w1)"
    using assms unfolding os_read_dir_def
    by (elim tick_bindE) (auto simp: os_tick_def split: list.splits option.splits)
  then obtain w1 where tick: "os_tick w = (Inr (), w1)" by blast
  with assms(1) have "lookup w1 p = None"
    by (auto simp: os_read_dir_def io_bind_def split: option.splits node.splits)
  with os_tick_lookup [OF tick] show ?thesis by simp
qed

lemma empty_loop_file_at: "empty_loop l ps w = (r, w') \<Longrightarrow> file_at w' = file_at w"
proof (induction l ps w rule: empty_loop.induct)
  case (1 l w)
  then show ?case by auto
next
  case (2 l p ps w)
  obtain st w1 where st: "os_stat p w = (st, w1)" by fastforce
  obtain rd w2 where rd: "os_read_dir p w1 = (rd, w2)" by fastforce
  have f: "file_at w1 = file_at w" "file_at w2 = file_at w1"
    using frame_empty [OF os_stat_frame [OF st]] frame_empty [OF os_read_dir_frame [OF rd]] by simp_all
  show ?case
    using 2 st rd f by (auto simp: fail_obs_iff split: sum.splits node.splits)
qed

lemma is_bucket_empty_file_at:
  assumes "is_bucket_empty l bucket w = (r, w')"
  shows "file_at w' = file_at w"
proof -
  obtain rd w1 where rd: "os_read_dir (bucket_dir l bucket) w = (rd, w1)" by fastforce
  have "file_at w1 = file_at w" using rd by (rule frame_empty [OF os_read_dir_frame])
  with assms rd show ?thesis
    by (auto simp: is_bucket_empty_def Let_def fail_obs_iff dest: empty_loop_file_at
        split: sum.splits if_splits)
qed

lemma is_bucket_empty_True:
  assumes e: "is_bucket_empty l bucket w = (Inr True, w')" and tree: "tree_ok w"
    and true: "Some ENOENT \<notin> set (fs_faults w)"
  shows "file_at w' = file_at w \<and>
    (\<forall>ys. file_at w (bucket_dir l bucket @ ys) \<noteq> None \<longrightarrow> (\<exists>zs. ys = ''.multipart'' # zs))"
proof -
  let ?b = "bucket_dir l bucket"
  obtain rd w1 where rd: "os_read_dir ?b w = (rd, w1)" by fastforce
  have l1: "lookup w1 = lookup w" using rd by (rule os_read_dir_lookup)
  then have f1: "file_at w1 = file_at w" and t1: "tree_ok w1"
    using tree by (simp_all add: file_at_def fun_eq_iff tree_ok_def)
  show ?thesis
  proof (cases rd)
    case (Inl e1)
    then have e1: "e1 = OsErr ENOENT" "w' = observe l ''is_bucket_empty'' 0 False w1"
      using e rd by (auto simp: is_bucket_empty_def fail_obs_iff Let_def split: if_splits)
    have "lookup w ?b = None"
      using rd Inl e1 true by (intro os_read_dir_missing [of ?b w w1]) simp_all
    then have "file_at w (?b @ ys) = None" for ys
      using tree_ok_prefix [OF tree, of ?b ys]
      by (cases "ys = []") (auto simp: file_at_def split: option.split)
    with e1 f1 show ?thesis by simp
  next
    case (Inr kids)
    then have rec: "empty_loop l (rev (map (\<lambda>n. ?b @ [n]) (filter (\<lambda>n. n \<noteq> ''.multipart'') kids))) w1 = (Inr True, w')"
      using e rd by (simp add: is_bucket_empty_def Let_def)
    have dir: "lookup w ?b = Some DirN" "kids = child_names w ?b"
      using os_read_dir_files [OF rd] Inr by auto
    note el = empty_loop_True [OF rec t1]
    have none: "file_at w ((?b @ [y]) @ zs) = None" if "y \<in> set kids" "y \<noteq> ''.multipart''" for y zs
    proof -
      have "\<forall>zs. file_at w1 ((?b @ [y]) @ zs) = None"
        using that by (intro bspec [OF conjunct2 [OF el]]) simp
      then have "file_at w1 ((?b @ [y]) @ zs) = None" by (rule spec)
      with f1 show ?thesis by simp
    qed
    have "\<exists>zs. ys = ''.multipart'' # zs" if f: "file_at w (?b @ ys) \<noteq> None" for ys
    proof (cases ys)
      case Nil
      with f dir show ?thesis by (simp add: file_at_def)
    next
      case (Cons y zs)
      with f obtain n where "lookup w (?b @ y # zs) = Some n" by (auto simp: file_at_def split: option.splits)
      then have "y \<in> set kids" using child_of_lookup tree dir by auto
      have "y = ''.multipart''"
      proof (rule ccontr)
        assume "y \<noteq> ''.multipart''"
        from none [OF \<open>y \<in> set kids\<close> this, of zs] f Cons show False by simp
      qed
      with Cons show ?thesis by blast
    qed
    with el f1 show ?thesis by simp
  qed
qed

text \<open>A path below a directory, as its first elements.\<close>

lemma take_length_iff: "take (length p) q = p \<longleftrightarrow> (\<exists>ys. q = p @ ys)"
  by (metis append_eq_conv_conj append_take_drop_id)

text \<open>
  Removing a bucket never removes an object: when it succeeds, every file the bucket's directory
  held was below its \<open>.multipart\<close> directory, every file outside the bucket is untouched and nothing
  is left of the bucket; when it fails, no file changes.
\<close>

lemma remove_bucket_effect:
  assumes base: "abs_base (lBase l)" and bucket: "good_elem bucket" and tree: "tree_ok w"
    and true: "Some ENOENT \<notin> set (fs_faults w)" and rm: "remove_bucket l bucket w = (res, w')"
  shows "case res of
      Inl e \<Rightarrow> file_at w' = file_at w
    | Inr _ \<Rightarrow>
        (\<forall>ys. file_at w (bucket_dir l bucket @ ys) \<noteq> None \<longrightarrow> (\<exists>zs. ys = ''.multipart'' # zs)) \<and>
        (\<forall>q. file_at w' q = (if \<exists>ys. q = bucket_dir l bucket @ ys then None else file_at w q))"
proof -
  obtain re w1 where e: "is_bucket_empty l bucket w = (re, w1)" by fastforce
  have ne: "bucket_dir l bucket \<noteq> []"
    using os_path_join_bucket [OF base bucket] by (simp add: bucket_dir_def)
  show ?thesis
  proof (cases "re = Inr True")
    case True
    note et = is_bucket_empty_True [OF e [unfolded True] tree true]
    have ra: "os_remove_all (bucket_dir l bucket) w1 = (res, w')"
      using rm e True by (simp add: remove_bucket_def)
    show ?thesis
    proof (cases res)
      case (Inl er)
      with ra have "frame {} w1 w'"
        unfolding os_remove_all_def by (elim tick_bindE) (auto intro: frame_tick)
      with et Inl show ?thesis by (simp add: frame_empty)
    next
      case (Inr u)
      with os_remove_all_file_at [OF ra [unfolded Inr] ne] et show ?thesis
        by (simp add: take_length_iff)
    qed
  next
    case False
    then have "w' = w1" "\<exists>er. res = Inl er"
      using rm e by (cases re; auto simp: remove_bucket_def split: if_splits)+
    moreover have "file_at w1 = file_at w"
      using e by (rule is_bucket_empty_file_at)
    ultimately show ?thesis by auto
  qed
qed

subsection \<open>A bucket to remove\<close>

definition ex_bucket_world :: world where
  "ex_bucket_world = \<lparr>fs_files =
     [([''d''], DirN), ([''d'', ''objects''], DirN), ([''d'', ''objects'', ''bkt''], DirN),
      ([''d'', ''objects'', ''bkt'', ''.multipart''], DirN),
      ([''d'', ''objects'', ''bkt'', ''.multipart'', ''p1''], FileN [3] 7)],
     fs_clock = 7, fs_faults = [], obs_log = [], repairs = []\<rparr>"

lemma ex_bucket_dir: "bucket_dir ex_store ''bkt'' = [''d'', ''objects'', ''bkt'']"
  using os_path_join_bucket [of "''/d''" "''bkt''"] by (simp add: bucket_dir_def ex_store_def)

lemma ex_bucket_tree: "tree_ok ex_bucket_world"
  by (auto simp: tree_ok_def ex_bucket_world_def lookup_def split: if_splits)

lemma ex_bucket_empty:
  assumes "fs_files w = fs_files ex_bucket_world" and "fs_faults w = []"
  shows "is_bucket_empty ex_store ''bkt'' w = (Inr True, observe ex_store ''is_bucket_empty'' 0 False w)"
proof -
  have "os_read_dir [''d'', ''objects'', ''bkt''] w = (Inr [''.multipart''], w)"
    using assms by (simp add: os_read_dir_def io_bind_def os_tick_def lookup_def child_names_def ex_bucket_world_def)
  then show ?thesis by (simp add: is_bucket_empty_def ex_bucket_dir)
qed

lemma ex_bucket_faults [simp]: "fs_faults ex_bucket_world = []"
  by (simp add: ex_bucket_world_def)

lemma ex_remove:
  assumes "fs_files w = fs_files ex_bucket_world" and "fs_faults w = []"
  shows "\<exists>w'. remove_bucket ex_store ''bkt'' w = (Inr (), w')"
  using assms by (simp add: remove_bucket_def ex_bucket_empty os_remove_all_def io_bind_def os_tick_def observe_def)

subsection \<open>Listings\<close>

text \<open>What every collected entry satisfies.\<close>

definition entries_ok :: "list_args \<Rightarrow> list_acc \<Rightarrow> bool" where
  "entries_ok a acc \<longleftrightarrow>
     (\<forall>o1 \<in> set (lcObjects acc). matches_prefix a (omKey o1) \<and> after_start a (omKey o1) \<and> rolled_prefix a (omKey o1) = None) \<and>
     distinct (lcPrefixes acc) \<and> (\<forall>cp \<in> set (lcPrefixes acc). matches_prefix a cp \<and> after_start a cp)"

lemma rolled_prefix_matches: "rolled_prefix a k = Some cp \<Longrightarrow> matches_prefix a cp"
  by (auto simp: rolled_prefix_def Let_def matches_prefix_def split: if_splits option.splits)

lemma add_prefix_ok: "entries_ok a acc \<Longrightarrow> rolled_prefix a k = Some cp \<Longrightarrow> entries_ok a (add_prefix a cp acc)"
  by (auto simp: entries_ok_def add_prefix_def rolled_prefix_matches)

lemma visit_dir_ok: "visit_dir a rel acc = (acc1, s) \<Longrightarrow> entries_ok a acc \<Longrightarrow> entries_ok a acc1"
  by (auto simp: visit_dir_def Let_def add_prefix_ok split: if_splits option.splits)

lemma listed_object_keys: "listed_object l jc b p k s w = (Inr os, w') \<Longrightarrow> \<forall>o1 \<in> set os. omKey o1 = k"
  by (auto simp: listed_object_def io_bind_Inr io_return_def split: if_splits sum.splits prod.splits)

lemma visit_file_ok: "visit_file l jc b a p rel acc w = (Inr acc1, w') \<Longrightarrow> entries_ok a acc \<Longrightarrow> entries_ok a acc1"
  by (auto simp: visit_file_def Let_def add_prefix_ok split: if_splits option.splits prod.splits sum.splits)
    (auto simp: entries_ok_def dest!: listed_object_keys)

lemma walk_ok: "walk l jc b a d ps acc w = (Inr acc1, w') \<Longrightarrow> entries_ok a acc \<Longrightarrow> entries_ok a acc1"
proof (induction l jc b a d ps acc w rule: walk.induct)
  case (1 l jc b a d acc w)
  then show ?case by (simp add: walk.simps)
next
  case (2 l jc b a d p ps acc w)
  obtain acc2 s where vd: "visit_dir a (drop d p) acc = (acc2, s)" by fastforce
  obtain rd w2 where rd: "os_read_dir p w = (rd, w2)" by fastforce
  have ok: "entries_ok a acc2" using vd 2 by (blast intro: visit_dir_ok)
  show ?case
    using 2 vd rd ok
    by (auto simp: walk.simps split: option.splits node.splits sum.splits if_splits prod.splits dest: visit_file_ok)
qed

lemma length_filter_below_nth:
  fixes xs :: "'a::linorder list"
  assumes "sorted xs" and "k < length xs"
  shows "length (filter (\<lambda>x. x < xs ! k) xs) \<le> k"
proof -
  have "filter (\<lambda>x. x < xs ! k) (drop k xs) = []"
    using assms by (auto simp: filter_empty_conv in_set_conv_nth not_less intro!: sorted_nth_mono)
  then have "filter (\<lambda>x. x < xs ! k) (take k xs @ drop k xs) = filter (\<lambda>x. x < xs ! k) (take k xs)"
    by (simp only: filter_append append_Nil2)
  then have "length (filter (\<lambda>x. x < xs ! k) xs) = length (filter (\<lambda>x. x < xs ! k) (take k xs))"
    by simp
  also have "\<dots> \<le> k"
    by (rule order_trans [OF length_filter_le]) simp
  finally show ?thesis .
qed

lemma truncate_list_bound:
  assumes "truncate_list objs pfx maxKeys = (objs', pfx', t)"
  shows "length objs' + length pfx' \<le> maxKeys"
proof (cases "length objs + length pfx > maxKeys")
  case False
  with assms show ?thesis by (auto simp: truncate_list_def)
next
  case True
  let ?c = "sort (map omKey objs @ pfx)"
  let ?cut = "?c ! maxKeys"
  have "length objs' + length pfx' = length (filter (\<lambda>x. x < ?cut) (map omKey objs @ pfx))"
    using assms True by (auto simp: truncate_list_def Let_def filter_map comp_def)
  also have "\<dots> = length (filter (\<lambda>x. x < ?cut) ?c)"
    by (metis (no_types, lifting) filter_sort length_sort)
  also have "\<dots> \<le> maxKeys"
    using True by (intro length_filter_below_nth) simp_all
  finally show ?thesis .
qed

text \<open>
  C28. A page of a listing: keys and prefixes come back sorted, at most \<open>maxKeys\<close> of them
  together, each prefix once, all of them with the requested prefix and after the start key,
  and no key that rolls up to a prefix is listed as an object.
\<close>

theorem list_page:
  assumes ls: "list_objects l jc bucket a maxKeys w = (Inr (objs, pfx, trunc), w')"
  shows "sorted (map omKey objs) \<and> sorted pfx \<and> distinct pfx \<and> length objs + length pfx \<le> maxKeys \<and>
    (\<forall>o1 \<in> set objs. matches_prefix a (omKey o1) \<and> after_start a (omKey o1) \<and> rolled_prefix a (omKey o1) = None) \<and>
    (\<forall>cp \<in> set pfx. matches_prefix a cp \<and> after_start a cp)"
proof (cases "objs = [] \<and> pfx = []")
  case True
  then show ?thesis by simp
next
  case False
  have ok0: "entries_ok a \<lparr>lcObjects = [], lcPrefixes = []\<rparr>" by (simp add: entries_ok_def)
  obtain acc w1 where wb: "walk_bucket l jc bucket a w = (Inr acc, w1)"
    and tr: "truncate_list (sort_key omKey (lcObjects acc)) (sort (lcPrefixes acc)) maxKeys = (objs, pfx, trunc)"
    using ls False by (auto simp: list_objects_def fail_obs_iff split: prod.splits sum.splits if_splits)
  have ok: "entries_ok a acc"
    using wb ok0 by (auto simp: walk_bucket_def Let_def walk_ok split: prod.splits sum.splits if_splits)
  obtain P Q where pq: "objs = filter P (sort_key omKey (lcObjects acc))" "pfx = filter Q (sort (lcPrefixes acc))"
  proof (cases "length (lcObjects acc) + length (lcPrefixes acc) > maxKeys")
    case True
    with tr that show thesis by (auto simp: truncate_list_def Let_def)
  next
    case False
    with tr that [of "\<lambda>_. True" "\<lambda>_. True"] show thesis by (simp add: truncate_list_def)
  qed
  have sf: "sorted (map omKey (filter P xs))" if "sorted (map omKey xs)" for P and xs :: "object_meta list"
    using that by (simp add: sorted_filter)
  show ?thesis
    using ok truncate_list_bound [OF tr] unfolding pq
    by (auto simp: entries_ok_def sf sorted_wrt_filter)
qed

text \<open>
  The entry of a plain object, and what the walk collects on a disk where no call fails: the
  entry of every plain file below the pending paths that the filters let through.
\<close>

definition plain_entry :: "string \<Rightarrow> byte list \<Rightarrow> int \<Rightarrow> object_meta" where
  "plain_entry k c t = \<lparr>omKey = k, omSize = int (length c), omETag = hex_encode (md5 c), omModified = t\<rparr>"

definition shown :: "list_args \<Rightarrow> fpath \<Rightarrow> fpath \<Rightarrow> bool" where
  "shown a path rel \<longleftrightarrow>
     path \<noteq> [] \<and> last path \<noteq> ManifestFilename \<and> last path \<noteq> ''data.ss1'' \<and>
     \<not> has_prefix (rel_path rel) ''.multipart/'' \<and> matches_prefix a (rel_path rel) \<and> after_start a (rel_path rel)"

lemma load_manifest_quiet_state:
  assumes "fs_faults w = []"
  shows "\<exists>r. load_manifest jc base bucket key w = (r, w)"
  using assms
  by (auto simp: load_manifest_def io_bind_def io_defer_def os_read_from_def split: sum.split option.split node.split)

lemma visit_file_quiet:
  assumes q: "fs_faults w = []" and f: "lookup w p = Some (FileN c t)" and d: "laDelimiter a = ''''"
  shows "\<exists>acc1. visit_file l jc b a p rel acc w = (Inr acc1, w) \<and> set (lcObjects acc) \<subseteq> set (lcObjects acc1) \<and>
    (shown a p rel \<longrightarrow> plain_entry (rel_path rel) c t \<in> set (lcObjects acc1))"
proof -
  have rp: "rolled_prefix a k = None" for k using d by (simp add: rolled_prefix_def)
  obtain k sealed where fk: "file_key p rel = (k, sealed)" by fastforce
  have lo: "\<exists>os. listed_object l jc b p k sealed w = (Inr os, w) \<and> (\<not> sealed \<longrightarrow> os = [plain_entry k c t])"
    using load_manifest_quiet_state [OF q, of jc "lBase l" b k] q f
    by (auto simp: listed_object_def io_bind_def io_return_def plain_entry_def node_size_def split: sum.split)
  then obtain os where "listed_object l jc b p k sealed w = (Inr os, w)"
    "\<not> sealed \<longrightarrow> os = [plain_entry k c t]" by blast
  with fk rp show ?thesis
    by (auto simp: visit_file_def shown_def file_key_def Let_def split: if_splits)
qed

lemma walk_quiet:
  assumes q: "fs_faults w = []" and d: "laDelimiter a = ''''" and tree: "tree_ok w"
  shows "\<exists>acc1. walk l jc b a n ps acc w = (Inr acc1, w) \<and> set (lcObjects acc) \<subseteq> set (lcObjects acc1) \<and>
    (\<forall>p \<in> set ps. \<forall>ys c t. lookup w (p @ ys) = Some (FileN c t) \<longrightarrow> shown a (p @ ys) (drop n (p @ ys)) \<longrightarrow>
       plain_entry (rel_path (drop n (p @ ys))) c t \<in> set (lcObjects acc1))"
  using assms
proof (induction l jc b a n ps acc w rule: walk.induct)
  case (1 l jc b a d acc w)
  then show ?case by (simp add: walk.simps)
next
  case (2 l jc b a n p ps acc w)
  show ?case
  proof (cases "lookup w p")
    case None
    have "lookup w (p @ ys) = None" for ys
      using tree_ok_prefix [OF 2(8), of p ys] None by (cases "ys = []"; cases "lookup w (p @ ys)") auto
    with 2(1) [OF None 2(6-8)] None show ?thesis by (auto simp: walk.simps)
  next
    case (Some nd)
    show ?thesis
    proof (cases nd)
      case (FileN c t)
      then have f: "lookup w p = Some (FileN c t)" using Some by simp
      from visit_file_quiet [OF 2(6) f 2(7), of l jc b "drop n p" acc]
      obtain acc1 where v: "visit_file l jc b a p (drop n p) acc w = (Inr acc1, w)"
        "set (lcObjects acc) \<subseteq> set (lcObjects acc1)"
        "shown a p (drop n p) \<longrightarrow> plain_entry (rel_path (drop n p)) c t \<in> set (lcObjects acc1)" by blast
      have below: "lookup w (p @ ys) = Some (FileN c' t') \<Longrightarrow> ys = []" for ys c' t'
        using tree_ok_prefix [OF 2(8), of p ys] f by (cases "ys = []") auto
      from 2(5) [OF f refl v(1) [symmetric] refl 2(6-8)] obtain acc2 where
          r: "walk l jc b a n ps acc1 w = (Inr acc2, w)" "set (lcObjects acc1) \<subseteq> set (lcObjects acc2)"
        and all: "\<forall>q \<in> set ps. \<forall>ys c t. lookup w (q @ ys) = Some (FileN c t) \<longrightarrow>
          shown a (q @ ys) (drop n (q @ ys)) \<longrightarrow> plain_entry (rel_path (drop n (q @ ys))) c t \<in> set (lcObjects acc2)"
        by blast
      have "walk l jc b a n (p # ps) acc w = (Inr acc2, w)"
        using f v(1) r(1) by (simp add: walk.simps)
      moreover have "plain_entry (rel_path (drop n (p @ ys))) c' t' \<in> set (lcObjects acc2)"
        if "lookup w (p @ ys) = Some (FileN c' t')" "shown a (p @ ys) (drop n (p @ ys))" for ys c' t'
        using below [OF that(1)] that f v(3) r(2) by auto
      ultimately show ?thesis
        using all v(2) r(2) by (intro exI [of _ acc2]) auto
    next
      case DirN
      then have dir: "lookup w p = Some DirN" using Some by simp
      have vd: "visit_dir a (drop n p) acc = (acc, False)" using 2(7) by (simp add: visit_dir_def)
      have rd: "os_read_dir p w = (Inr (child_names w p), w)"
        using 2(6) dir by (simp add: os_read_dir_def)
      from 2(4) [of DirN acc False, OF dir refl vd [symmetric] _ rd [symmetric] refl 2(6-8)]
      obtain acc1 where r: "walk l jc b a n (map (\<lambda>m. p @ [m]) (child_names w p) @ ps) acc w = (Inr acc1, w)"
          "set (lcObjects acc) \<subseteq> set (lcObjects acc1)"
        and all: "\<forall>q \<in> set (map (\<lambda>m. p @ [m]) (child_names w p) @ ps). \<forall>ys c t.
          lookup w (q @ ys) = Some (FileN c t) \<longrightarrow> shown a (q @ ys) (drop n (q @ ys)) \<longrightarrow>
          plain_entry (rel_path (drop n (q @ ys))) c t \<in> set (lcObjects acc1)" by auto
      have here: "plain_entry (rel_path (drop n (p @ ys))) c t \<in> set (lcObjects acc1)"
        if f: "lookup w (p @ ys) = Some (FileN c t)" and sh: "shown a (p @ ys) (drop n (p @ ys))" for ys c t
      proof (cases ys)
        case Nil
        with f dir show ?thesis by simp
      next
        case (Cons y zs)
        then have "p @ [y] \<in> set (map (\<lambda>m. p @ [m]) (child_names w p) @ ps)"
          using child_of_lookup [OF 2(8), of p y zs] f by auto
        from bspec [OF all this] f sh Cons show ?thesis by (metis append.assoc append_Cons append_Nil)
      qed
      show ?thesis
        using r all here dir vd rd by (auto simp: walk.simps)
    qed
  qed
qed

lemma list_complete_page:
  assumes base: "abs_base (lBase l)" and bucket: "good_elem bucket" and tree: "tree_ok w"
    and quiet: "fs_faults w = []" and delim: "laDelimiter a = ''''"
    and f: "lookup w (obj_elems (lBase l) bucket key) = Some (FileN c t)" and ne: "key_elems key \<noteq> []"
    and names: "last (key_elems key) \<noteq> ManifestFilename" "last (key_elems key) \<noteq> ''data.ss1''"
    and filters: "\<not> has_prefix (clean_key key) ''.multipart/''" "matches_prefix a (clean_key key)" "after_start a (clean_key key)"
  shows "\<exists>objs pfx trunc w'. list_objects l jc bucket a maxKeys w = (Inr (objs, pfx, trunc), w') \<and>
    (plain_entry (clean_key key) c t \<in> set objs \<or> trunc \<and> (\<forall>o1 \<in> set objs. omKey o1 < clean_key key))"
proof -
  let ?b = "bucket_dir l bucket" and ?e = "plain_entry (clean_key key) c t"
  have b: "?b = os_path (lBase l) @ [''objects'', bucket]"
    using os_path_join_bucket [OF base bucket] by (simp add: bucket_dir_def)
  have path: "obj_elems (lBase l) bucket key = ?b @ key_elems key" by (simp add: b obj_elems_def)
  have rel: "rel_path (key_elems key) = clean_key key" using ne by (simp add: rel_path_def clean_key_eq)
  have dir: "lookup w ?b = Some DirN"
    using tree_ok_prefix [OF tree] f ne unfolding path by blast
  obtain acc where wk: "walk l jc bucket a (length ?b) [?b] \<lparr>lcObjects = [], lcPrefixes = []\<rparr> w = (Inr acc, w)"
    and all: "\<forall>p \<in> set [?b]. \<forall>ys c t. lookup w (p @ ys) = Some (FileN c t) \<longrightarrow> shown a (p @ ys) (drop (length ?b) (p @ ys)) \<longrightarrow>
       plain_entry (rel_path (drop (length ?b) (p @ ys))) c t \<in> set (lcObjects acc)"
    using walk_quiet [OF quiet delim tree] by blast
  have "shown a (?b @ key_elems key) (drop (length ?b) (?b @ key_elems key))"
    using ne names filters by (simp add: shown_def rel)
  moreover have "\<And>ys c t. lookup w (?b @ ys) = Some (FileN c t) \<Longrightarrow> shown a (?b @ ys) ys \<Longrightarrow>
      plain_entry (rel_path ys) c t \<in> set (lcObjects acc)"
    using all by simp
  ultimately have mem: "?e \<in> set (lcObjects acc)"
    using f rel [symmetric] by (simp add: path)
  have wb: "walk_bucket l jc bucket a w = (Inr acc, w)"
    using wk dir quiet by (simp add: walk_bucket_def Let_def)
  obtain objs pfx trunc where tr: "truncate_list (sort_key omKey (lcObjects acc)) (sort (lcPrefixes acc)) maxKeys = (objs, pfx, trunc)"
    using prod_cases3 by blast
  have "?e \<in> set objs \<or> trunc \<and> (\<forall>o1 \<in> set objs. omKey o1 < omKey ?e)"
  proof (cases "length (lcObjects acc) + length (lcPrefixes acc) > maxKeys")
    case False
    with tr mem show ?thesis by (auto simp: truncate_list_def)
  next
    case True
    then obtain cut where "objs = filter (\<lambda>o1. omKey o1 < cut) (sort_key omKey (lcObjects acc))" "trunc"
      using tr by (auto simp: truncate_list_def Let_def)
    with mem show ?thesis by (cases "omKey ?e < cut") auto
  qed
  moreover have "list_objects l jc bucket a maxKeys w = (Inr (objs, pfx, trunc), observe l ''list'' 0 False w)"
    by (simp add: list_objects_def wb tr)
  ultimately show ?thesis by (auto simp: plain_entry_def)
qed

text \<open>
  C27. Listings are complete and can be paged: on a tree where no call fails, a listing without
  delimiter succeeds, and every plain object the filters admit is in it with its length, ETag
  and modification time, or the page is marked truncated and every key in it comes before
  this object's, so that the next page, after the last key, still has it to come.
\<close>

theorem list_complete:
  assumes base: "abs_base (lBase l)" and bucket: "good_elem bucket" and tree: "tree_ok w"
    and quiet: "fs_faults w = []" and delim: "laDelimiter a = ''''"
    and f: "lookup w (obj_elems (lBase l) bucket key) = Some (FileN c t)" and ne: "key_elems key \<noteq> []"
    and names: "last (key_elems key) \<noteq> ManifestFilename" "last (key_elems key) \<noteq> ''data.ss1''"
    and filters: "\<not> has_prefix (clean_key key) ''.multipart/''" "matches_prefix a (clean_key key)" "after_start a (clean_key key)"
  shows "\<exists>objs pfx trunc w'. list_objects l jc bucket a maxKeys w = (Inr (objs, pfx, trunc), w') \<and>
    (plain_entry (clean_key key) c t \<in> set objs \<or> trunc \<and> (\<forall>o1 \<in> set objs. omKey o1 < clean_key key))"
  using assms by (rule list_complete_page)

definition ex_list_world :: world where
  "ex_list_world = \<lparr>fs_files =
     [([''d''], DirN), ([''d'', ''objects''], DirN), ([''d'', ''objects'', ''bkt''], DirN),
      ([''d'', ''objects'', ''bkt'', ''k''], FileN [1, 2] 7)],
     fs_clock = 7, fs_faults = [], obs_log = [], repairs = []\<rparr>"

definition ex_args :: list_args where
  "ex_args = \<lparr>laPrefix = '''', laStartAfter = ''a'', laDelimiter = ''''\<rparr>"

lemma ex_key_order: "(''a'' :: string) < ''k''"
  by (simp add: less_list_code(3))

theorem list_complete_witness:
  "\<exists>objs pfx trunc w'. list_objects ex_store (ex_json ex_manifest) ''bkt'' ex_args 10 ex_list_world = (Inr (objs, pfx, trunc), w') \<and>
    (plain_entry ''k'' [1, 2] 7 \<in> set objs \<or> trunc \<and> (\<forall>o1 \<in> set objs. omKey o1 < ''k''))"
proof -
  have pre: "abs_base (lBase ex_store)" "fs_faults ex_list_world = []" "laDelimiter ex_args = ''''"
    "lookup ex_list_world (obj_elems (lBase ex_store) ''bkt'' ''k'') = Some (FileN [1, 2] 7)"
    by (simp_all add: ex_store_def ex_list_world_def ex_args_def lookup_def ex_obj_elems)
  have tree: "tree_ok ex_list_world"
    by (auto simp: tree_ok_def ex_list_world_def lookup_def split: if_splits)
  have flt: "last (key_elems ''k'') \<noteq> ManifestFilename" "last (key_elems ''k'') \<noteq> ''data.ss1''"
      "\<not> has_prefix (clean_key ''k'') ''.multipart/''" "matches_prefix ex_args (clean_key ''k'')"
      "after_start ex_args (clean_key ''k'')"
    using ex_key_order by (simp_all add: ManifestFilename_def matches_prefix_def after_start_def ex_args_def)
  show ?thesis
    using list_complete [OF pre(1) ex_base(2) tree pre(2-4) _ flt] by simp
qed

lemma ex_list_runs:
  "\<exists>objs pfx trunc w'. list_objects ex_store (ex_json ex_manifest) ''bkt'' ex_args 10 ex_list_world = (Inr (objs, pfx, trunc), w')"
proof -
  have q: "fs_faults ex_list_world = []" "laDelimiter ex_args = ''''"
    by (simp_all add: ex_list_world_def ex_args_def)
  have tree: "tree_ok ex_list_world"
    by (auto simp: tree_ok_def ex_list_world_def lookup_def split: if_splits)
  have "lookup ex_list_world (bucket_dir ex_store ''bkt'') = Some DirN"
    by (simp add: ex_bucket_dir) (simp add: lookup_def ex_list_world_def)
  moreover obtain acc where "walk ex_store (ex_json ex_manifest) ''bkt'' ex_args (length (bucket_dir ex_store ''bkt''))
      [bucket_dir ex_store ''bkt''] \<lparr>lcObjects = [], lcPrefixes = []\<rparr> ex_list_world = (Inr acc, ex_list_world)"
    using walk_quiet [OF q tree] by blast
  ultimately have wb: "walk_bucket ex_store (ex_json ex_manifest) ''bkt'' ex_args ex_list_world = (Inr acc, ex_list_world)"
    using q by (simp add: walk_bucket_def Let_def)
  obtain objs pfx trunc where
    "truncate_list (sort_key omKey (lcObjects acc)) (sort (lcPrefixes acc)) 10 = (objs, pfx, trunc)"
    using prod_cases3 by blast
  with wb show ?thesis by (simp add: list_objects_def)
qed

theorem list_page_witness:
  "\<exists>objs pfx trunc. fst (list_objects ex_store (ex_json ex_manifest) ''bkt'' ex_args 10 ex_list_world) = Inr (objs, pfx, trunc) \<and>
    length objs + length pfx \<le> 10"
proof -
  obtain objs pfx trunc w' where
    ls: "list_objects ex_store (ex_json ex_manifest) ''bkt'' ex_args 10 ex_list_world = (Inr (objs, pfx, trunc), w')"
    using ex_list_runs by blast
  from list_page [OF ls] ls show ?thesis by simp
qed

end
