(* ===== verification/RepairQueue.thy ===== *)
theory RepairQueue imports Prelude GoStrings
begin

text \<open>
  The bounded repair queue (src/pkg/repair/queue.go). A buffered channel is its capacity, its
  buffered items and whether it is closed; a call that can't proceed is \<open>Blocked\<close>, a send
  on a closed channel is \<open>Panic\<close>. \<open>Enqueue\<close> tests the closed flag and sends in two steps, and
  \<open>Close\<close> sets the flag and closes the channel in two steps: the step relation interleaves
  them.
\<close>

subsection \<open>Items and priorities\<close>

record repair_item =
  riBucket :: string
  riKey :: string
  riShardPath :: string
  riReason :: string
  riPriority :: int
  riDiscovered :: int

definition PriorityHigh :: int where "PriorityHigh = 100"
definition PriorityNormal :: int where "PriorityNormal = 50"
definition PriorityLow :: int where "PriorityLow = 10"

definition priority_for_reason :: "string \<Rightarrow> int" where
  "priority_for_reason reason =
     (let r = to_lower (trim_space reason) in
      if r = ''read_integrity_fail'' \<or> r = ''read_heal'' then PriorityHigh
      else if r = ''scrub_fail'' then PriorityNormal
      else if r = ''admin'' then PriorityLow
      else PriorityNormal)"

subsection \<open>The queue\<close>

record mem_queue =
  mqCap :: nat
  mqBuf :: "repair_item list"
  mqChanClosed :: bool
  mqClosed :: bool
  mqOnce :: bool

datatype 'a outcome = Done 'a | Blocked | Panic

definition new_mem_queue :: "int \<Rightarrow> mem_queue" where
  "new_mem_queue capacity =
     \<lparr>mqCap = nat (if capacity < 0 then 0 else capacity), mqBuf = [], mqChanClosed = False,
      mqClosed = False, mqOnce = False\<rparr>"

definition chan_send :: "repair_item \<Rightarrow> mem_queue \<Rightarrow> mem_queue outcome" where
  "chan_send it q =
     (if mqChanClosed q then Panic
      else if length (mqBuf q) < mqCap q then Done (q\<lparr>mqBuf := mqBuf q @ [it]\<rparr>)
      else Blocked)"

definition chan_recv :: "mem_queue \<Rightarrow> (repair_item option \<times> mem_queue) outcome" where
  "chan_recv q =
     (case mqBuf q of
        x # xs \<Rightarrow> Done (Some x, q\<lparr>mqBuf := xs\<rparr>)
      | [] \<Rightarrow> if mqChanClosed q then Done (None, q) else Blocked)"

text \<open>
  \<open>Enqueue\<close> and \<open>Dequeue\<close> in one go. \<open>ctx\<close> is the error of a cancelled context. When both cases
  of the \<open>select\<close> are ready Go picks one at random: \<open>ctxFirst\<close> is that choice.
\<close>

definition enqueue :: "bool \<Rightarrow> err option \<Rightarrow> repair_item \<Rightarrow> mem_queue \<Rightarrow> (unit result \<times> mem_queue) outcome" where
  "enqueue ctxFirst ctx it q =
     (if mqClosed q then Done (Inl ErrQueueClosed, q)
      else if ctxFirst \<and> ctx \<noteq> None then Done (Inl (the ctx), q)
      else
        (case chan_send it q of
           Done q' \<Rightarrow> Done (Inr (), q')
         | Panic \<Rightarrow> Panic
         | Blocked \<Rightarrow> (case ctx of Some e \<Rightarrow> Done (Inl e, q) | None \<Rightarrow> Blocked)))"

definition dequeue :: "bool \<Rightarrow> err option \<Rightarrow> mem_queue \<Rightarrow> (repair_item result \<times> mem_queue) outcome" where
  "dequeue ctxFirst ctx q =
     (if ctxFirst \<and> ctx \<noteq> None then Done (Inl (the ctx), q)
      else
        (case chan_recv q of
           Done (Some it, q') \<Rightarrow> Done (Inr it, q')
         | Done (None, q') \<Rightarrow> Done (Inl ErrQueueClosed, q')
         | Panic \<Rightarrow> Panic
         | Blocked \<Rightarrow> (case ctx of Some e \<Rightarrow> Done (Inl e, q) | None \<Rightarrow> Blocked)))"

definition queue_len :: "mem_queue \<Rightarrow> nat" where
  "queue_len q = length (mqBuf q)"

definition close_flag :: "mem_queue \<Rightarrow> mem_queue" where
  "close_flag q = q\<lparr>mqOnce := True, mqClosed := True\<rparr>"

definition close_chan :: "mem_queue \<Rightarrow> mem_queue" where
  "close_chan q = q\<lparr>mqChanClosed := True\<rparr>"

definition close_queue :: "mem_queue \<Rightarrow> unit result \<times> mem_queue" where
  "close_queue q =
     (let q' = (if mqOnce q then q else close_chan (close_flag q))
      in (if mqClosed q' then Inr () else Inl ErrQueueClosed, q'))"

subsection \<open>The queue interface\<close>

text \<open>
  What producers and consumers rely on: a queue holds a list of items, a completed enqueue
  appends to it, a completed dequeue takes its head, and neither loses nor invents items.
\<close>

locale fifo_queue =
  fixes items :: "'q \<Rightarrow> 'a list"
    and cap :: "'q \<Rightarrow> nat"
    and enq :: "bool \<Rightarrow> err option \<Rightarrow> 'a \<Rightarrow> 'q \<Rightarrow> (unit result \<times> 'q) outcome"
    and deq :: "bool \<Rightarrow> err option \<Rightarrow> 'q \<Rightarrow> ('a result \<times> 'q) outcome"
  assumes enq_ok: "enq b c x q = Done (Inr (), q') \<Longrightarrow> items q' = items q @ [x] \<and> length (items q) < cap q \<and> cap q' = cap q"
    and enq_err: "enq b c x q = Done (Inl e, q') \<Longrightarrow> items q' = items q \<and> cap q' = cap q"
    and deq_ok: "deq b c q = Done (Inr x, q') \<Longrightarrow> items q = x # items q' \<and> cap q' = cap q"
    and deq_err: "deq b c q = Done (Inl e, q') \<Longrightarrow> items q' = items q \<and> cap q' = cap q"
begin

text \<open>A run of completed calls: the items taken out and the items let in.\<close>

inductive run :: "'q \<Rightarrow> 'a list \<Rightarrow> 'a list \<Rightarrow> 'q \<Rightarrow> bool" where
  run_refl: "run q [] [] q"
| run_enq: "run q ins outs q1 \<Longrightarrow> enq b c x q1 = Done (Inr (), q2) \<Longrightarrow> run q (ins @ [x]) outs q2"
| run_enq_err: "run q ins outs q1 \<Longrightarrow> enq b c x q1 = Done (Inl e, q2) \<Longrightarrow> run q ins outs q2"
| run_deq: "run q ins outs q1 \<Longrightarrow> deq b c q1 = Done (Inr x, q2) \<Longrightarrow> run q ins (outs @ [x]) q2"
| run_deq_err: "run q ins outs q1 \<Longrightarrow> deq b c q1 = Done (Inl e, q2) \<Longrightarrow> run q ins outs q2"

text \<open>First in, first out, nothing lost: what went in is what came out and what is still held.\<close>

lemma run_fifo: "run q ins outs q' \<Longrightarrow> items q @ ins = outs @ items q' \<and> cap q' = cap q"
proof (induction rule: run.induct)
  case (run_refl q)
  then show ?case by simp
next
  case (run_enq q ins outs q1 b c x q2)
  then show ?case using enq_ok [of b c x q1 q2] by simp
next
  case (run_enq_err q ins outs q1 b c x e q2)
  then show ?case using enq_err [of b c x q1 e q2] by simp
next
  case (run_deq q ins outs q1 b c x q2)
  then show ?case using deq_ok [of b c q1 x q2] by simp
next
  case (run_deq_err q ins outs q1 b c e q2)
  then show ?case using deq_err [of b c q1 e q2] by simp
qed

lemma run_bounded: "run q ins outs q' \<Longrightarrow> length (items q) \<le> cap q \<Longrightarrow> length (items q') \<le> cap q'"
proof (induction rule: run.induct)
  case (run_enq q ins outs q1 b c x q2)
  then show ?case using enq_ok [of b c x q1 q2] by simp
next
  case (run_enq_err q ins outs q1 b c x e q2)
  then show ?case using enq_err [of b c x q1 e q2] by simp
next
  case (run_deq q ins outs q1 b c x q2)
  then show ?case using deq_ok [of b c q1 x q2] by simp
next
  case (run_deq_err q ins outs q1 b c e q2)
  then show ?case using deq_err [of b c q1 e q2] by simp
qed simp

end

interpretation memq: fifo_queue mqBuf mqCap enqueue dequeue
proof
  fix b c x q q' e
  show "enqueue b c x q = Done (Inr (), q') \<Longrightarrow> mqBuf q' = mqBuf q @ [x] \<and> length (mqBuf q) < mqCap q \<and> mqCap q' = mqCap q"
    by (auto simp: enqueue_def chan_send_def split: if_splits option.splits)
  show "enqueue b c x q = Done (Inl e, q') \<Longrightarrow> mqBuf q' = mqBuf q \<and> mqCap q' = mqCap q"
    by (auto simp: enqueue_def chan_send_def split: if_splits option.splits)
  show "dequeue b c q = Done (Inr x, q') \<Longrightarrow> mqBuf q = x # mqBuf q' \<and> mqCap q' = mqCap q"
    by (auto simp: dequeue_def chan_recv_def split: if_splits option.splits list.splits)
  show "dequeue b c q = Done (Inl e, q') \<Longrightarrow> mqBuf q' = mqBuf q \<and> mqCap q' = mqCap q"
    by (auto simp: dequeue_def chan_recv_def split: if_splits option.splits list.splits)
qed

subsection \<open>Concurrent producers, consumers and closing\<close>

text \<open>
  The producers that passed the closed test and stand before their send, the items whose send
  completed and those whose receive completed, in order, and whether a send panicked.
\<close>

record queue_system =
  qsQueue :: mem_queue
  qsSending :: "repair_item list"
  qsAccepted :: "repair_item list"
  qsDelivered :: "repair_item list"
  qsPanicked :: bool

definition queue_init :: "int \<Rightarrow> queue_system" where
  "queue_init capacity =
     \<lparr>qsQueue = new_mem_queue capacity, qsSending = [], qsAccepted = [], qsDelivered = [], qsPanicked = False\<rparr>"

inductive queue_step :: "queue_system \<Rightarrow> queue_system \<Rightarrow> bool" where
  qs_check: "\<not> qsPanicked s \<Longrightarrow> \<not> mqClosed (qsQueue s) \<Longrightarrow> queue_step s (s\<lparr>qsSending := it # qsSending s\<rparr>)"
| qs_send: "\<not> qsPanicked s \<Longrightarrow> it \<in> set (qsSending s) \<Longrightarrow> chan_send it (qsQueue s) = Done q \<Longrightarrow>
    queue_step s (s\<lparr>qsQueue := q, qsSending := remove1 it (qsSending s), qsAccepted := qsAccepted s @ [it]\<rparr>)"
| qs_panic: "\<not> qsPanicked s \<Longrightarrow> it \<in> set (qsSending s) \<Longrightarrow> chan_send it (qsQueue s) = Panic \<Longrightarrow>
    queue_step s (s\<lparr>qsPanicked := True\<rparr>)"
| qs_cancel: "\<not> qsPanicked s \<Longrightarrow> it \<in> set (qsSending s) \<Longrightarrow>
    queue_step s (s\<lparr>qsSending := remove1 it (qsSending s)\<rparr>)"
| qs_handoff: "\<not> qsPanicked s \<Longrightarrow> it \<in> set (qsSending s) \<Longrightarrow> mqCap (qsQueue s) = 0 \<Longrightarrow> \<not> mqChanClosed (qsQueue s) \<Longrightarrow>
    queue_step s (s\<lparr>qsSending := remove1 it (qsSending s), qsAccepted := qsAccepted s @ [it],
      qsDelivered := qsDelivered s @ [it]\<rparr>)"
| qs_recv: "\<not> qsPanicked s \<Longrightarrow> chan_recv (qsQueue s) = Done (Some it, q) \<Longrightarrow>
    queue_step s (s\<lparr>qsQueue := q, qsDelivered := qsDelivered s @ [it]\<rparr>)"
| qs_close_flag: "\<not> qsPanicked s \<Longrightarrow> \<not> mqOnce (qsQueue s) \<Longrightarrow> queue_step s (s\<lparr>qsQueue := close_flag (qsQueue s)\<rparr>)"
| qs_close_chan: "\<not> qsPanicked s \<Longrightarrow> mqOnce (qsQueue s) \<Longrightarrow> queue_step s (s\<lparr>qsQueue := close_chan (qsQueue s)\<rparr>)"

text \<open>The invariant of every interleaving.\<close>

definition queue_ok :: "queue_system \<Rightarrow> bool" where
  "queue_ok s \<longleftrightarrow>
     qsAccepted s = qsDelivered s @ mqBuf (qsQueue s) \<and> length (mqBuf (qsQueue s)) \<le> mqCap (qsQueue s) \<and>
     (mqChanClosed (qsQueue s) \<longrightarrow> mqClosed (qsQueue s)) \<and> (mqClosed (qsQueue s) \<longleftrightarrow> mqOnce (qsQueue s)) \<and>
     (qsPanicked s \<longrightarrow> mqChanClosed (qsQueue s) \<and> qsSending s \<noteq> [])"

lemma queue_ok_init: "queue_ok (queue_init c)"
  by (simp add: queue_ok_def queue_init_def new_mem_queue_def)

lemma queue_ok_step: "queue_step s s' \<Longrightarrow> queue_ok s \<Longrightarrow> queue_ok s'"
proof (induction rule: queue_step.induct)
  case (qs_send s it q)
  then show ?case by (auto simp: queue_ok_def chan_send_def split: if_splits)
next
  case (qs_panic s it)
  then show ?case by (auto simp: queue_ok_def chan_send_def split: if_splits)
next
  case (qs_recv s it q)
  then show ?case by (auto simp: queue_ok_def chan_recv_def split: list.splits if_splits)
next
  case (qs_handoff s it)
  then show ?case by (auto simp: queue_ok_def)
qed (auto simp: queue_ok_def close_flag_def close_chan_def)

lemma queue_ok_reachable: "queue_step\<^sup>*\<^sup>* (queue_init c) s \<Longrightarrow> queue_ok s"
  by (induction rule: rtranclp_induct) (auto intro: queue_ok_init queue_ok_step)

lemma queue_cap_step: "queue_step s s' \<Longrightarrow> mqCap (qsQueue s') = mqCap (qsQueue s)"
  by (induction rule: queue_step.induct)
    (auto simp: chan_send_def chan_recv_def close_flag_def close_chan_def split: if_splits list.splits)

lemma queue_cap_reachable: "queue_step\<^sup>*\<^sup>* (queue_init c) s \<Longrightarrow> mqCap (qsQueue s) = nat (if c < 0 then 0 else c)"
  by (induction rule: rtranclp_induct)
    (simp_all add: queue_init_def new_mem_queue_def queue_cap_step)

subsection \<open>Properties\<close>


definition ex_item :: "string \<Rightarrow> repair_item" where
  "ex_item k = \<lparr>riBucket = ''b'', riKey = k, riShardPath = '''', riReason = ''admin'', riPriority = 0, riDiscovered = 0\<rparr>"

lemma ex_queue_race:
  "\<exists>s. queue_step\<^sup>*\<^sup>* (queue_init 1) s \<and> qsPanicked s \<and> qsSending s = [ex_item ''k'']"
proof -
  let ?s0 = "queue_init 1"
  let ?s1 = "?s0\<lparr>qsSending := ex_item ''k'' # qsSending ?s0\<rparr>"
  let ?s2 = "?s1\<lparr>qsQueue := close_flag (qsQueue ?s1)\<rparr>"
  let ?s3 = "?s2\<lparr>qsQueue := close_chan (qsQueue ?s2)\<rparr>"
  let ?s4 = "?s3\<lparr>qsPanicked := True\<rparr>"
  have "queue_step ?s0 ?s1" by (rule qs_check) (simp_all add: queue_init_def new_mem_queue_def)
  moreover have "queue_step ?s1 ?s2" by (rule qs_close_flag) (simp_all add: queue_init_def new_mem_queue_def)
  moreover have "queue_step ?s2 ?s3" by (rule qs_close_chan) (simp_all add: queue_init_def new_mem_queue_def close_flag_def)
  moreover have "queue_step ?s3 ?s4"
    by (rule qs_panic [of _ "ex_item ''k''"])
      (simp_all add: queue_init_def new_mem_queue_def close_flag_def close_chan_def chan_send_def)
  ultimately have "queue_step\<^sup>*\<^sup>* ?s0 ?s4" by (meson converse_rtranclp_into_rtranclp rtranclp.rtrancl_refl)
  moreover have "qsPanicked ?s4" "qsSending ?s4 = [ex_item ''k'']" by (simp_all add: queue_init_def)
  ultimately show ?thesis by blast
qed


text \<open>
  Closing races with producers: a producer that passed the closed test before \<open>Close\<close> and
  sends after it makes the program panic, so the test does not protect the send.
\<close>

lemma queue_close_race: "\<exists>s. queue_step\<^sup>*\<^sup>* (queue_init 1) s \<and> qsPanicked s"
  using ex_queue_race by blast

end
