(* ===== verification/Scrubber.thy ===== *)
theory Scrubber imports ListProps RepairQueue "HOL-Library.Multiset"
begin

text \<open>
  The sealed-object scrubber (src/pkg/repair/scrubber.go): the check of one shard, of one object
  and of every manifest below the data directories, the counters and the items handed to the
  repair queue, and the control protocol of both scrubbers (\<open>Start\<close>, the loop, \<open>Stop\<close>).
\<close>

subsection \<open>State\<close>

record scrub_config =
  sgInterval :: int
  sgConcurrency :: int
  sgVerifyPayload :: bool

text \<open>The configuration of a scrubber and whether a repair queue is set.\<close>

record sealed_scrubber =
  ssConfig :: scrub_config
  ssBaseDirs :: "string list"
  ssRepQ :: bool

text \<open>What a pass changes: the counters, the items handed to \<open>Enqueue\<close>, the last run.\<close>

record scrub_state =
  scScanned :: "64 word"
  scErrors :: "64 word"
  scEnqueued :: "repair_item list"
  scLastRun :: "int option"
  scLastError :: "err option"

record scrub_world = os_state +
  wSc :: scrub_state

definition new_sealed_scrubber :: "string list \<Rightarrow> scrub_config \<Rightarrow> sealed_scrubber" where
  "new_sealed_scrubber baseDirs cfg0 =
     (let cfg1 = (if sgInterval cfg0 \<le> 0 then cfg0\<lparr>sgInterval := 3600000000000\<rparr> else cfg0);
          cfg = (if sgConcurrency cfg1 \<le> 0 then cfg1\<lparr>sgConcurrency := 1\<rparr> else cfg1)
      in \<lparr>ssConfig = cfg, ssBaseDirs = baseDirs, ssRepQ = False\<rparr>)"

definition set_repair_queue :: "bool \<Rightarrow> sealed_scrubber \<Rightarrow> sealed_scrubber" where
  "set_repair_queue q s = s\<lparr>ssRepQ := q\<rparr>"

subsection \<open>One object\<close>

definition bytes_equal :: "byte list \<Rightarrow> byte list \<Rightarrow> bool" where
  "bytes_equal a b \<longleftrightarrow> length a = length b \<and> (\<forall>i \<in> set [0..<length a]. a ! i = b ! i)"

definition scrub_enqueue :: "sealed_scrubber \<Rightarrow> string \<Rightarrow> string \<Rightarrow> string \<Rightarrow> string \<Rightarrow> scrub_world \<Rightarrow> scrub_world" where
  "scrub_enqueue s bucket key shardPath reason w =
     (if \<not> ssRepQ s then w
      else w\<lparr>wSc := (wSc w)\<lparr>scEnqueued := scEnqueued (wSc w) @
        [\<lparr>riBucket = bucket, riKey = key, riShardPath = shardPath, riReason = reason, riPriority = 0,
          riDiscovered = fs_clock w\<rparr>]\<rparr>\<rparr>)"

text \<open>
  The checks of an open shard file. Every failed step has the same effect in the code, so the
  value of the error does not matter.
\<close>

definition check_open_shard :: "bool \<Rightarrow> shard_meta \<Rightarrow> node \<Rightarrow> (unit, 'z) io" where
  "check_open_shard verifyPayload sh f =
     io_bind (os_seek 0) (\<lambda>off.
     io_bind (read_header f off) (\<lambda>hdr.
     io_bind (os_seek (footer_off hdr)) (\<lambda>footerOff.
     io_bind (read_footer f footerOff) (\<lambda>contentHash.
       case hex_decode (smContentHashHex sh) of
         None \<Rightarrow> io_fail ErrIntegrity
       | Some want \<Rightarrow>
           if \<not> bytes_equal want contentHash then io_fail ErrIntegrity
           else if \<not> verifyPayload then io_return ()
           else
             io_bind (os_seek (int (header_off hdr))) (\<lambda>payloadOff.
             io_bind (read_n f payloadOff (payload_len hdr)) (\<lambda>payload.
               if bytes_equal (sha256 payload) contentHash then io_return () else io_fail ErrIntegrity))))))"

definition check_shard :: "bool \<Rightarrow> string \<Rightarrow> shard_meta \<Rightarrow> (unit, 'z) io" where
  "check_shard verifyPayload base sh =
     (let sp = os_path (join_path [base, smPath sh]) in
      io_bind (os_open sp) (\<lambda>f. io_defer (check_open_shard verifyPayload sh f) (os_close sp)))"

fun scrub_shards ::
  "sealed_scrubber \<Rightarrow> string \<Rightarrow> string \<Rightarrow> string \<Rightarrow> shard_meta list \<Rightarrow> bool \<Rightarrow> scrub_world \<Rightarrow> bool \<times> scrub_world" where
  "scrub_shards s base bucket key [] hadErr w = (hadErr, w)"
| "scrub_shards s base bucket key (sh # shs) hadErr w =
     (case check_shard (sgVerifyPayload (ssConfig s)) base sh w of
        (Inr _, w1) \<Rightarrow> scrub_shards s base bucket key shs hadErr w1
      | (Inl _, w1) \<Rightarrow>
          scrub_shards s base bucket key shs True
            (scrub_enqueue s bucket key (smPath sh) ''scrub_fail''
              (w1\<lparr>wSc := (wSc w1)\<lparr>scErrors := scErrors (wSc w1) + 1\<rparr>\<rparr>)))"

definition verify_object ::
  "sealed_scrubber \<Rightarrow> json_codec \<Rightarrow> string \<Rightarrow> string \<Rightarrow> string \<Rightarrow> scrub_world \<Rightarrow> unit result \<times> scrub_world" where
  "verify_object s jc base bucket key w =
     (case load_manifest jc base bucket key w of
        (Inl e, w1) \<Rightarrow> (Inl e, w1)
      | (Inr m, w1) \<Rightarrow>
          if mShards m = [] then (Inr (), w1)
          else
            (case scrub_shards s base bucket key (mShards m) False w1 of
               (hadErr, w2) \<Rightarrow>
                 (if hadErr then Inl (ErrText ''scrubber: one or more shard integrity checks failed'') else Inr (),
                  w2\<lparr>wSc := (wSc w2)\<lparr>scScanned := scScanned (wSc w2) + 1\<rparr>\<rparr>)))"

subsection \<open>Finding the manifests\<close>

type_synonym scrub_job = "string \<times> string \<times> string"

text \<open>Bucket and key of a manifest file, from its path below the data directory.\<close>

definition scrub_job_of :: "string \<Rightarrow> fpath \<Rightarrow> scrub_job option" where
  "scrub_job_of base rel =
     (if rel = [] \<or> last rel \<noteq> ManifestFilename \<or> hd rel \<noteq> ''objects'' then None
      else
        (case tl (butlast rel) of
           bkt # k # ks \<Rightarrow> Some (base, bkt, join_with CHR ''/'' (k # ks))
         | _ \<Rightarrow> None))"

definition first_err :: "err option \<Rightarrow> err \<Rightarrow> err option" where
  "first_err e0 e = (case e0 of None \<Rightarrow> Some e | Some _ \<Rightarrow> e0)"

text \<open>
  \<open>filepath.WalkDir\<close> with the producer's callback: \<open>n\<close> is the length of the base path. The
  callback keeps the first error and goes on.
\<close>

lemma todo_skip: "todo w ps < Suc (card (below w p) + todo w ps)"
  by simp

lemma todo_read_dir_any: "(r, w') = os_read_dir q w \<Longrightarrow> todo w' ps < Suc (card (below w p) + todo w ps)"
  using os_read_dir_files [of q w r w'] todo_cong [of w' w] by simp

lemma todo_descend_any:
  assumes rd: "(Inr names, w') = os_read_dir p w"
  shows "todo w' (map (\<lambda>n. p @ [n]) names) + todo w' ps < Suc (card (below w p) + todo w ps)"
proof -
  have "fs_files w' = fs_files w" "names = child_names w p"
    using os_read_dir_files [OF rd [symmetric]] by auto
  then show ?thesis
    using todo_children [of w p] todo_cong [of w' w] by simp
qed

function find_jobs ::
  "string \<Rightarrow> nat \<Rightarrow> fpath list \<Rightarrow> scrub_job list \<Rightarrow> err option \<Rightarrow> 'z os_state_scheme \<Rightarrow>
     scrub_job list \<times> err option \<times> 'z os_state_scheme" where
  "find_jobs base n [] jobs e0 w = (jobs, e0, w)"
| "find_jobs base n (p # ps) jobs e0 w =
     (case lookup w p of
        None \<Rightarrow> find_jobs base n ps jobs e0 w
      | Some (FileN _ _) \<Rightarrow>
          find_jobs base n ps
            (case scrub_job_of base (drop n p) of None \<Rightarrow> jobs | Some j \<Rightarrow> jobs @ [j]) e0 w
      | Some DirN \<Rightarrow>
          (case os_read_dir p w of
             (Inl e, w1) \<Rightarrow> find_jobs base n ps jobs (first_err e0 e) w1
           | (Inr names, w1) \<Rightarrow> find_jobs base n (map (\<lambda>m. p @ [m]) names @ ps) jobs e0 w1))"
  by pat_completeness auto
termination
  by (relation "measure (\<lambda>(base, n, ps, jobs, e0, w). todo w ps)")
    (simp_all add: todo_read_dir_any todo_descend_any)

declare find_jobs.simps [simp del]

fun scrub_jobs ::
  "string list \<Rightarrow> scrub_job list \<Rightarrow> err option \<Rightarrow> 'z os_state_scheme \<Rightarrow> scrub_job list \<times> err option \<times> 'z os_state_scheme" where
  "scrub_jobs [] jobs e0 w = (jobs, e0, w)"
| "scrub_jobs (base # bases) jobs e0 w =
     (if base = '''' then scrub_jobs bases jobs e0 w
      else
        (let root = os_path (join_path [base, ''objects'']) in
         case os_stat root w of
           (Inl e, w1) \<Rightarrow> scrub_jobs bases jobs (first_err e0 e) w1
         | (Inr _, w1) \<Rightarrow>
             (case find_jobs base (length (os_path base)) [root] jobs e0 w1 of
                (jobs1, e1, w2) \<Rightarrow> scrub_jobs bases jobs1 e1 w2)))"

text \<open>
  A pass: the jobs the producer sends, each verified by one of the workers. \<open>order\<close> is the order
  the workers happen to work in; it rearranges the jobs.
\<close>

definition verify_job :: "sealed_scrubber \<Rightarrow> json_codec \<Rightarrow> scrub_job \<Rightarrow> scrub_world \<Rightarrow> scrub_world" where
  "verify_job s jc j w = (case j of (base, bkt, key) \<Rightarrow> snd (verify_object s jc base bkt key w))"

definition scan_all ::
  "sealed_scrubber \<Rightarrow> json_codec \<Rightarrow> (scrub_job list \<Rightarrow> scrub_job list) \<Rightarrow> scrub_world \<Rightarrow> unit result \<times> scrub_world" where
  "scan_all s jc order w =
     (case scrub_jobs (ssBaseDirs s) [] None w of
        (jobs, e0, w1) \<Rightarrow>
          ((case e0 of None \<Rightarrow> Inr () | Some e \<Rightarrow> Inl e), fold (verify_job s jc) (order jobs) w1))"

definition do_run_once ::
  "sealed_scrubber \<Rightarrow> json_codec \<Rightarrow> (scrub_job list \<Rightarrow> scrub_job list) \<Rightarrow> scrub_world \<Rightarrow> unit result \<times> scrub_world" where
  "do_run_once s jc order w =
     (case scan_all s jc order w of
        (r, w1) \<Rightarrow>
          (r, w1\<lparr>wSc := (wSc w1)\<lparr>scLastRun := Some (fs_clock w1),
              scLastError := (case r of Inl e \<Rightarrow> Some e | Inr _ \<Rightarrow> scLastError (wSc w1))\<rparr>\<rparr>))"

subsection \<open>The no-op scrubber and the statistics\<close>

definition new_noop_scrubber :: "scrub_config \<Rightarrow> scrub_config" where
  "new_noop_scrubber cfg0 =
     (let cfg1 = (if sgInterval cfg0 \<le> 0 then cfg0\<lparr>sgInterval := 30000000000\<rparr> else cfg0)
      in if sgConcurrency cfg1 \<le> 0 then cfg1\<lparr>sgConcurrency := 1\<rparr> else cfg1)"

definition noop_run_once :: "int \<Rightarrow> scrub_state \<Rightarrow> unit result \<times> scrub_state" where
  "noop_run_once now c = (Inr (), c\<lparr>scScanned := scScanned c + 1, scLastRun := Some now\<rparr>)"

record scrub_stats =
  gsScanned :: "64 word"
  gsRepaired :: "64 word"
  gsErrors :: "64 word"
  gsLastRun :: int
  gsLastError :: "err option"
  gsUptime :: int

text \<open>Times are nanoseconds, the zero time is 0; no scrubber ever counts a repair.\<close>

definition since_if_set :: "int \<Rightarrow> int \<Rightarrow> int" where
  "since_if_set now t = (if t = 0 then 0 else now - t)"

definition scrub_stats_of :: "int \<Rightarrow> int \<Rightarrow> scrub_state \<Rightarrow> scrub_stats" where
  "scrub_stats_of now start c =
     \<lparr>gsScanned = scScanned c, gsRepaired = 0, gsErrors = scErrors c,
      gsLastRun = (case scLastRun c of None \<Rightarrow> 0 | Some t \<Rightarrow> t), gsLastError = scLastError c,
      gsUptime = since_if_set now start\<rparr>"

subsection \<open>Start, the loop and Stop\<close>

text \<open>
  Where a loop goroutine stands: in a pass, at its \<open>select\<close>, or in its deferred function before
  \<open>running.Store(false)\<close> and before \<open>close(doneCh)\<close>. \<open>stopCh\<close> is unbuffered and \<open>Stop\<close> sends on it
  with a \<open>default\<close>, so only a loop that stands at its \<open>select\<close> gets the signal.
\<close>

datatype scrub_pc = InPass | AtSelect | Clearing | Closing | Gone

record scrub_life =
  slRunning :: bool
  slLoops :: "scrub_pc list"
  slDone :: bool
  slPanicked :: bool

definition scrub_new :: scrub_life where
  "scrub_new = \<lparr>slRunning = False, slLoops = [], slDone = False, slPanicked = False\<rparr>"

definition scrub_start :: "scrub_life \<Rightarrow> unit result \<times> scrub_life" where
  "scrub_start s =
     (if slRunning s then (Inl (ErrText ''scrubber: already running''), s)
      else (Inr (), s\<lparr>slRunning := True, slLoops := slLoops s @ [InPass]\<rparr>))"

definition set_loop :: "nat \<Rightarrow> scrub_pc \<Rightarrow> scrub_life \<Rightarrow> scrub_life" where
  "set_loop i pc s = s\<lparr>slLoops := (slLoops s)[i := pc]\<rparr>"

text \<open>The send of \<open>Stop\<close>: to the loop \<open>i\<close> that waits, if any loop waits.\<close>

definition scrub_stop_signal :: "nat \<Rightarrow> scrub_life \<Rightarrow> scrub_life" where
  "scrub_stop_signal i s =
     (if slRunning s \<and> i < length (slLoops s) \<and> slLoops s ! i = AtSelect then set_loop i Clearing s else s)"

definition scrub_stop_wait :: "err option \<Rightarrow> scrub_life \<Rightarrow> unit result outcome" where
  "scrub_stop_wait ctx s =
     (if slDone s then Done (Inr ()) else (case ctx of Some e \<Rightarrow> Done (Inl e) | None \<Rightarrow> Blocked))"

definition close_done :: "nat \<Rightarrow> scrub_life \<Rightarrow> scrub_life" where
  "close_done i s = (if slDone s then s\<lparr>slPanicked := True\<rparr> else (set_loop i Gone s)\<lparr>slDone := True\<rparr>)"

inductive life_step :: "scrub_life \<Rightarrow> scrub_life \<Rightarrow> bool" where
  lf_start: "\<not> slPanicked s \<Longrightarrow> scrub_start s = (r, s') \<Longrightarrow> life_step s s'"
| lf_stop: "\<not> slPanicked s \<Longrightarrow> life_step s (scrub_stop_signal i s)"
| lf_pass: "\<not> slPanicked s \<Longrightarrow> i < length (slLoops s) \<Longrightarrow> slLoops s ! i = InPass \<Longrightarrow> life_step s (set_loop i AtSelect s)"
| lf_timer: "\<not> slPanicked s \<Longrightarrow> i < length (slLoops s) \<Longrightarrow> slLoops s ! i = AtSelect \<Longrightarrow> life_step s (set_loop i InPass s)"
| lf_cancel: "\<not> slPanicked s \<Longrightarrow> i < length (slLoops s) \<Longrightarrow> slLoops s ! i = AtSelect \<Longrightarrow> life_step s (set_loop i Clearing s)"
| lf_clear: "\<not> slPanicked s \<Longrightarrow> i < length (slLoops s) \<Longrightarrow> slLoops s ! i = Clearing \<Longrightarrow>
    life_step s ((set_loop i Closing s)\<lparr>slRunning := False\<rparr>)"
| lf_close: "\<not> slPanicked s \<Longrightarrow> i < length (slLoops s) \<Longrightarrow> slLoops s ! i = Closing \<Longrightarrow> life_step s (close_done i s)"


subsection \<open>What an intact shard is\<close>

lemma bytes_equal_iff [simp]: "bytes_equal a b \<longleftrightarrow> a = b"
  by (auto simp: bytes_equal_def intro: nth_equalityI)

definition shard_intact :: "bool \<Rightarrow> shard_meta \<Rightarrow> byte list \<Rightarrow> bool" where
  "shard_intact verifyPayload sh c =
     (case decode_shard_header c of
        Inl _ \<Rightarrow> False
      | Inr (h, _) \<Rightarrow>
          0 \<le> footer_off h \<and>
          (case decode_shard_footer (drop (nat (footer_off h)) c) of
             Inl _ \<Rightarrow> False
           | Inr (d, _) \<Rightarrow>
               hex_decode (smContentHashHex sh) = Some d \<and>
               (verifyPayload \<longrightarrow> header_off h + nat (payload_len h) \<le> max (header_off h) (length c) \<and>
                  sha256 (take (nat (payload_len h)) (drop (header_off h) c)) = d)))"

definition good_shard :: "bool \<Rightarrow> string \<Rightarrow> 'z os_state_scheme \<Rightarrow> shard_meta \<Rightarrow> bool" where
  "good_shard verifyPayload base w sh =
     (case file_at w (os_path (join_path [base, smPath sh])) of None \<Rightarrow> False | Some c \<Rightarrow> shard_intact verifyPayload sh c)"

lemma read_n_bytes:
  "read_n (FileN c t) off n w = (Inr bs, w') \<Longrightarrow>
     bs = take (nat n) (drop off c) \<and> off + nat n \<le> max off (length c)"
  by (auto simp: read_n_def io_return_def io_bind_Inr dest!: os_read_from_ok split: if_splits)

lemma check_open_shard_ok:
  assumes "check_open_shard v sh f w = (Inr u, w')"
  shows "\<exists>c t. f = FileN c t \<and> shard_intact v sh c"
proof -
  from assms obtain off w1 h w2 foff w3 d w4 where sk: "os_seek 0 w = (Inr off, w1)"
    and hd: "read_header f off w1 = (Inr h, w2)" and fo: "os_seek (footer_off h) w2 = (Inr foff, w3)"
    and ft: "read_footer f foff w3 = (Inr d, w4)" and hx: "hex_decode (smContentHashHex sh) = Some d"
    and rest: "v \<longrightarrow> (\<exists>po w5 bs w6. os_seek (int (header_off h)) w4 = (Inr po, w5) \<and>
      read_n f po (payload_len h) w5 = (Inr bs, w6) \<and> sha256 bs = d)"
    by (auto simp: check_open_shard_def io_bind_Inr io_fail_def io_return_def split: option.splits if_splits)
  obtain c t r1 where f: "f = FileN c t" and dh: "decode_shard_header c = Inr (h, r1)"
    using read_header_Inr [OF hd] os_seek_Inr [OF sk] by auto
  moreover obtain r2 where "0 \<le> footer_off h" "decode_shard_footer (drop (nat (footer_off h)) c) = Inr (d, r2)"
    using read_footer_Inr [OF ft] os_seek_Inr [OF fo] f by auto
  moreover have "v \<longrightarrow> header_off h + nat (payload_len h) \<le> max (header_off h) (length c) \<and>
      sha256 (take (nat (payload_len h)) (drop (header_off h) c)) = d"
    using rest os_seek_Inr read_n_bytes f by fastforce
  ultimately show ?thesis using hx by (simp add: shard_intact_def)
qed

lemma check_shard_ok: "check_shard v base sh w = (Inr u, w') \<Longrightarrow> good_shard v base w sh"
  unfolding check_shard_def Let_def io_bind_Inr io_defer_iff
  by (auto dest!: check_open_shard_ok os_open_ok simp: good_shard_def file_at_def)

lemma read_header_quiet:
  "fs_faults w = [] \<Longrightarrow> read_header (FileN c t) off w =
     (case decode_shard_header (drop off c) of Inl e \<Rightarrow> Inl e | Inr (h, _) \<Rightarrow> Inr h, w)"
  by (simp add: read_header_def io_bind_def split: sum.split)

lemma read_footer_quiet:
  "fs_faults w = [] \<Longrightarrow> read_footer (FileN c t) off w =
     (case decode_shard_footer (drop off c) of Inl e \<Rightarrow> Inl e | Inr (d, _) \<Rightarrow> Inr d, w)"
  by (simp add: read_footer_def io_bind_def split: sum.split)

lemma read_n_quiet_any:
  "fs_faults w = [] \<Longrightarrow> read_n (FileN c t) off n w =
     (if off + nat n \<le> max off (length c) then Inr (take (nat n) (drop off c)) else Inl ErrEOF, w)"
  by (auto simp: read_n_def io_bind_def io_return_def)

lemma check_shard_quiet:
  assumes q: "fs_faults w = []"
  shows "\<exists>r. check_shard v base sh w = (r, w) \<and> (is_ok r \<longleftrightarrow> good_shard v base w sh)"
proof (cases "lookup w (os_path (join_path [base, smPath sh]))")
  case None
  with q show ?thesis by (simp add: check_shard_def good_shard_def file_at_def io_bind_def Let_def)
next
  case (Some f)
  have "\<exists>r. check_open_shard v sh f w = (r, w) \<and> (is_ok r \<longleftrightarrow> (\<exists>c t. f = FileN c t \<and> shard_intact v sh c))"
  proof (cases f)
    case DirN
    have "\<exists>e. read_header DirN 0 w = (Inl e, w)"
      using q by (simp add: read_header_def io_bind_def os_read_from_def)
    with q DirN show ?thesis by (auto simp: check_open_shard_def io_bind_def)
  next
    case (FileN c t)
    with q show ?thesis
      by (auto simp: check_open_shard_def shard_intact_def io_bind_def io_fail_def io_return_def
          read_header_quiet read_footer_quiet read_n_quiet_any split: sum.split option.split)
  qed
  with q Some show ?thesis
    by (auto simp: check_shard_def good_shard_def file_at_def io_bind_def io_defer_def Let_def split: node.split)
qed

subsection \<open>One object on a quiet disk\<close>

definition repair_of :: "scrub_world \<Rightarrow> string \<Rightarrow> string \<Rightarrow> shard_meta \<Rightarrow> repair_item" where
  "repair_of w bucket key sh =
     \<lparr>riBucket = bucket, riKey = key, riShardPath = smPath sh, riReason = ''scrub_fail'', riPriority = 0,
      riDiscovered = fs_clock w\<rparr>"

text \<open>What a pass adds to the counters and to the queue.\<close>

definition scrub_gain :: "sealed_scrubber \<Rightarrow> nat \<Rightarrow> repair_item list \<Rightarrow> scrub_world \<Rightarrow> scrub_world" where
  "scrub_gain s n its w =
     w\<lparr>wSc := (wSc w)\<lparr>scScanned := scScanned (wSc w) + of_nat n, scErrors := scErrors (wSc w) + of_nat (length its),
        scEnqueued := scEnqueued (wSc w) @ (if ssRepQ s then its else [])\<rparr>\<rparr>"

lemma scrub_gain_zero [simp]: "scrub_gain s 0 [] w = w"
  by (simp add: scrub_gain_def)

lemma scrub_gain_gain [simp]:
  "scrub_gain s n' its' (scrub_gain s n its w) = scrub_gain s (n + n') (its @ its') w"
  by (simp add: scrub_gain_def add.assoc)

lemma scrub_gain_fs [simp]:
  "fs_files (scrub_gain s n its w) = fs_files w" "fs_faults (scrub_gain s n its w) = fs_faults w"
  "fs_clock (scrub_gain s n its w) = fs_clock w"
  by (simp_all add: scrub_gain_def)

lemma lookup_gain [simp]: "lookup (scrub_gain s n its w) = lookup w"
  by (simp add: lookup_def fun_eq_iff)

lemma file_at_gain [simp]: "file_at (scrub_gain s n its w) = file_at w"
  by (simp add: file_at_def fun_eq_iff)

lemma good_shard_gain [simp]: "good_shard v base (scrub_gain s n its w) = good_shard v base w"
  by (simp add: good_shard_def fun_eq_iff)

lemma repair_of_gain [simp]: "repair_of (scrub_gain s n its w) = repair_of w"
  by (simp add: repair_of_def fun_eq_iff)

abbreviation bad_shards :: "sealed_scrubber \<Rightarrow> string \<Rightarrow> scrub_world \<Rightarrow> shard_meta list \<Rightarrow> shard_meta list" where
  "bad_shards s base w shs \<equiv> filter (\<lambda>sh. \<not> good_shard (sgVerifyPayload (ssConfig s)) base w sh) shs"

lemma scrub_shards_quiet:
  assumes "fs_faults w = []"
  shows "scrub_shards s base bucket key shs hadErr w =
    (hadErr \<or> bad_shards s base w shs \<noteq> [], scrub_gain s 0 (map (repair_of w bucket key) (bad_shards s base w shs)) w)"
  using assms
proof (induction shs arbitrary: hadErr w)
  case Nil
  then show ?case by simp
next
  case (Cons sh shs)
  let ?v = "sgVerifyPayload (ssConfig s)"
  from check_shard_quiet [OF Cons.prems, of ?v base sh]
  obtain r where r: "check_shard ?v base sh w = (r, w)" "is_ok r \<longleftrightarrow> good_shard ?v base w sh" by blast
  show ?case
  proof (cases r)
    case (Inr u)
    with r Cons show ?thesis by simp
  next
    case (Inl e)
    then have one: "scrub_enqueue s bucket key (smPath sh) ''scrub_fail'' (w\<lparr>wSc := (wSc w)\<lparr>scErrors := scErrors (wSc w) + 1\<rparr>\<rparr>) =
        scrub_gain s 0 [repair_of w bucket key sh] w"
      by (simp add: scrub_enqueue_def scrub_gain_def repair_of_def)
    have "scrub_shards s base bucket key (sh # shs) hadErr w =
        scrub_shards s base bucket key shs True (scrub_gain s 0 [repair_of w bucket key sh] w)"
      using r Inl by (simp add: one)
    also have "\<dots> = (True, scrub_gain s 0 (map (repair_of w bucket key) (bad_shards s base w shs))
        (scrub_gain s 0 [repair_of w bucket key sh] w))"
      using Cons.prems by (simp add: Cons.IH)
    finally show ?thesis using r Inl by simp
  qed
qed

lemma load_manifest_quiet_cong:
  assumes "fs_faults w = []" and "fs_faults v = []" and "lookup v = lookup w"
  shows "load_manifest jc base bucket key v = (fst (load_manifest jc base bucket key w), v)"
proof -
  have "missing_err v = missing_err w" using assms(3) by (simp add: missing_err_def fun_eq_iff)
  with assms show ?thesis
    by (simp add: load_manifest_def io_bind_def io_defer_def os_read_from_def
        split: sum.split option.split node.split)
qed

text \<open>The shards of an object as its manifest lists them, and the items for the damaged ones.\<close>

definition object_shards :: "json_codec \<Rightarrow> string \<Rightarrow> string \<Rightarrow> string \<Rightarrow> scrub_world \<Rightarrow> shard_meta list" where
  "object_shards jc base bucket key w =
     (case fst (load_manifest jc base bucket key w) of Inl _ \<Rightarrow> [] | Inr m \<Rightarrow> mShards m)"

definition object_items :: "sealed_scrubber \<Rightarrow> json_codec \<Rightarrow> scrub_world \<Rightarrow> scrub_job \<Rightarrow> repair_item list" where
  "object_items s jc w j =
     (case j of (base, bucket, key) \<Rightarrow>
        map (repair_of w bucket key) (bad_shards s base w (object_shards jc base bucket key w)))"

definition object_scans :: "json_codec \<Rightarrow> scrub_world \<Rightarrow> scrub_job \<Rightarrow> nat" where
  "object_scans jc w j =
     (case j of (base, bucket, key) \<Rightarrow> if object_shards jc base bucket key w = [] then 0 else 1)"

lemma verify_object_quiet:
  assumes q: "fs_faults w = []"
  shows "\<exists>r. verify_object s jc base bucket key w =
      (r, scrub_gain s (object_scans jc w (base, bucket, key)) (object_items s jc w (base, bucket, key)) w) \<and>
    (is_ok r \<longleftrightarrow> is_ok (fst (load_manifest jc base bucket key w)) \<and> object_items s jc w (base, bucket, key) = [])"
proof -
  have ld: "load_manifest jc base bucket key w = (fst (load_manifest jc base bucket key w), w)"
    using load_manifest_quiet_cong [OF q q refl] .
  show ?thesis
  proof (cases "fst (load_manifest jc base bucket key w)")
    case (Inl e)
    with ld show ?thesis
      by (simp add: verify_object_def object_scans_def object_items_def object_shards_def)
  next
    case (Inr m)
    have one: "(scrub_gain s 0 its w)\<lparr>wSc := (wSc (scrub_gain s 0 its w))\<lparr>scScanned := scScanned (wSc (scrub_gain s 0 its w)) + 1\<rparr>\<rparr> =
        scrub_gain s 1 its w" for its
      by (simp add: scrub_gain_def)
    show ?thesis
      using ld Inr
      by (auto simp: verify_object_def object_scans_def object_items_def object_shards_def
          scrub_shards_quiet [OF q] one)
  qed
qed

subsection \<open>A whole pass\<close>

lemma object_shards_gain [simp]:
  "fs_faults w = [] \<Longrightarrow> object_shards jc base bucket key (scrub_gain s n its w) = object_shards jc base bucket key w"
  unfolding object_shards_def
  by (subst load_manifest_quiet_cong [of w "scrub_gain s n its w"]) simp_all

lemma object_items_gain [simp]:
  "fs_faults w = [] \<Longrightarrow> object_items s jc (scrub_gain s n its w) = object_items s jc w"
  by (simp add: object_items_def fun_eq_iff split: prod.split)

lemma object_scans_gain [simp]:
  "fs_faults w = [] \<Longrightarrow> object_scans jc (scrub_gain s n its w) = object_scans jc w"
  by (simp add: object_scans_def fun_eq_iff split: prod.split)

lemma verify_job_quiet:
  "fs_faults w = [] \<Longrightarrow> verify_job s jc j w = scrub_gain s (object_scans jc w j) (object_items s jc w j) w"
proof -
  assume q: "fs_faults w = []"
  obtain base bucket key where "j = (base, bucket, key)" by (cases j) auto
  with verify_object_quiet [OF q, of s jc base bucket key] show ?thesis
    by (auto simp: verify_job_def)
qed

lemma verify_jobs_quiet:
  "fs_faults w = [] \<Longrightarrow> fold (verify_job s jc) js w =
     scrub_gain s (sum_list (map (object_scans jc w) js)) (concat (map (object_items s jc w) js)) w"
  by (induction js arbitrary: w) (simp_all add: verify_job_quiet)

text \<open>The jobs of the manifests at and below a path.\<close>

definition jobs_below :: "string \<Rightarrow> nat \<Rightarrow> 'z os_state_scheme \<Rightarrow> fpath \<Rightarrow> scrub_job set" where
  "jobs_below base n w p = {j. \<exists>ys. is_file (lookup w (p @ ys)) \<and> scrub_job_of base (drop n (p @ ys)) = Some j}"

lemma jobs_below_None:
  assumes "tree_ok w" and "lookup w p = None"
  shows "jobs_below base n w p = {}"
proof -
  have "lookup w (p @ ys) = None" for ys
    using tree_ok_prefix [OF assms(1), of p ys] assms(2) by (cases "ys = []"; cases "lookup w (p @ ys)") auto
  then show ?thesis by (simp add: jobs_below_def)
qed

lemma jobs_below_file:
  assumes "tree_ok w" and f: "lookup w p = Some (FileN c t)"
  shows "jobs_below base n w p = set_option (scrub_job_of base (drop n p))"
proof -
  have "is_file (lookup w (p @ ys)) \<longleftrightarrow> ys = []" for ys
    using tree_ok_prefix [OF assms(1), of p ys] f by (cases "lookup w (p @ ys)"; cases "ys = []") auto
  then show ?thesis by (auto simp: jobs_below_def)
qed

lemma jobs_below_dir:
  assumes tree: "tree_ok w" and dir: "lookup w p = Some DirN"
  shows "jobs_below base n w p = (\<Union>q \<in> set (map (\<lambda>m. p @ [m]) (child_names w p)). jobs_below base n w q)"
proof (intro equalityI subsetI)
  fix j
  assume "j \<in> jobs_below base n w p"
  then obtain ys where y: "is_file (lookup w (p @ ys))" "scrub_job_of base (drop n (p @ ys)) = Some j"
    by (auto simp: jobs_below_def)
  with dir obtain m zs where ys: "ys = m # zs" by (cases ys) auto
  then have "m \<in> set (child_names w p)"
    using child_of_lookup [OF tree, of p m zs] y by (cases "lookup w (p @ ys)") auto
  moreover have "j \<in> jobs_below base n w (p @ [m])"
    unfolding jobs_below_def using y ys by auto
  ultimately show "j \<in> (\<Union>q \<in> set (map (\<lambda>m. p @ [m]) (child_names w p)). jobs_below base n w q)" by auto
next
  fix j
  assume "j \<in> (\<Union>q \<in> set (map (\<lambda>m. p @ [m]) (child_names w p)). jobs_below base n w q)"
  then obtain m ys where "is_file (lookup w ((p @ [m]) @ ys))" "scrub_job_of base (drop n ((p @ [m]) @ ys)) = Some j"
    unfolding jobs_below_def by (auto simp del: drop_append append_assoc)
  moreover have "(p @ [m]) @ ys = p @ m # ys" by simp
  ultimately show "j \<in> jobs_below base n w p" unfolding jobs_below_def by (metis (mono_tags, lifting) mem_Collect_eq)
qed

lemma find_jobs_quiet:
  assumes q: "fs_faults w = []" and tree: "tree_ok w"
  shows "\<exists>js. find_jobs base n ps jobs e0 w = (js, e0, w) \<and>
    set js = set jobs \<union> (\<Union>p \<in> set ps. jobs_below base n w p)"
  using assms
proof (induction base n ps jobs e0 w rule: find_jobs.induct)
  case (1 base n jobs e0 w)
  then show ?case by (simp add: find_jobs.simps)
next
  case (2 base n p ps jobs e0 w)
  show ?case
  proof (cases "lookup w p")
    case None
    with 2(1) [OF None 2(5,6)] jobs_below_None [OF 2(6) None] show ?thesis by (simp add: find_jobs.simps)
  next
    case (Some nd)
    show ?thesis
    proof (cases nd)
      case (FileN c t)
      then have f: "lookup w p = Some (FileN c t)" using Some by simp
      let ?jobs = "case scrub_job_of base (drop n p) of None \<Rightarrow> jobs | Some j \<Rightarrow> jobs @ [j]"
      have "set ?jobs = set jobs \<union> jobs_below base n w p"
        by (simp add: jobs_below_file [OF 2(6) f] split: option.split)
      then show ?thesis
        using 2(4) [OF f refl 2(5,6)] f by (simp add: find_jobs.simps Un_assoc)
    next
      case DirN
      then have dir: "lookup w p = Some DirN" using Some by simp
      have rd: "os_read_dir p w = (Inr (child_names w p), w)"
        using 2(5) dir by (simp add: os_read_dir_def)
      from 2(3) [OF dir refl rd [symmetric] refl 2(5,6)] dir rd show ?thesis
        by (simp add: find_jobs.simps jobs_below_dir [OF 2(6) dir] Un_assoc)
    qed
  qed
qed

definition manifest_found :: "'z os_state_scheme \<Rightarrow> string \<Rightarrow> string \<Rightarrow> string \<Rightarrow> bool" where
  "manifest_found w base bucket key \<longleftrightarrow>
     (\<exists>ks. ks \<noteq> [] \<and> key = join_with CHR ''/'' ks \<and>
        is_file (lookup w (os_path base @ ''objects'' # bucket # ks @ [ManifestFilename])))"

lemma scrub_job_of_iff:
  "scrub_job_of base (''objects'' # ys) = Some j \<longleftrightarrow>
     (\<exists>b ks. ks \<noteq> [] \<and> ys = b # ks @ [ManifestFilename] \<and> j = (base, b, join_with CHR ''/'' ks))"
proof
  assume j: "scrub_job_of base (''objects'' # ys) = Some j"
  then obtain b k ks where m: "last (''objects'' # ys) = ManifestFilename" "tl (butlast (''objects'' # ys)) = b # k # ks"
    "j = (base, b, join_with CHR ''/'' (k # ks))"
    by (auto simp: scrub_job_of_def split: if_splits list.splits simp del: join_with.simps)
  then have ne: "ys \<noteq> []" by auto
  have "butlast ys = b # k # ks" "last ys = ManifestFilename" using m ne by simp_all
  then have "ys = b # (k # ks) @ [ManifestFilename]"
    using append_butlast_last_id [OF ne] by simp
  with m(3) have "k # ks \<noteq> [] \<and> ys = b # (k # ks) @ [ManifestFilename] \<and> j = (base, b, join_with CHR ''/'' (k # ks))"
    by blast
  then show "\<exists>b ks. ks \<noteq> [] \<and> ys = b # ks @ [ManifestFilename] \<and> j = (base, b, join_with CHR ''/'' ks)" by blast
next
  assume "\<exists>b ks. ks \<noteq> [] \<and> ys = b # ks @ [ManifestFilename] \<and> j = (base, b, join_with CHR ''/'' ks)"
  then obtain b k ks where "ys = b # (k # ks) @ [ManifestFilename]" "j = (base, b, join_with CHR ''/'' (k # ks))"
    by (metis neq_Nil_conv)
  then show "scrub_job_of base (''objects'' # ys) = Some j"
    by (simp add: scrub_job_of_def butlast_append del: join_with.simps)
qed

lemma jobs_below_objects:
  "jobs_below base (length (os_path base)) w (os_path base @ [''objects'']) =
     {(base, b, k) | b k. manifest_found w base b k}"
proof -
  have "jobs_below base (length (os_path base)) w (os_path base @ [''objects'']) =
      {j. \<exists>ys. is_file (lookup w (os_path base @ ''objects'' # ys)) \<and> scrub_job_of base (''objects'' # ys) = Some j}"
    by (simp add: jobs_below_def)
  also have "\<dots> = {(base, b, k) | b k. manifest_found w base b k}"
    unfolding scrub_job_of_iff manifest_found_def by blast
  finally show ?thesis .
qed

lemma scrub_jobs_quiet:
  assumes q: "fs_faults w = []" and tree: "tree_ok w"
    and "\<forall>base \<in> set bases. abs_base base \<and> lookup w (os_path base @ [''objects'']) = Some DirN"
  shows "\<exists>js. scrub_jobs bases jobs e0 w = (js, e0, w) \<and>
    set js = set jobs \<union> {(base, b, k) | base b k. base \<in> set bases \<and> manifest_found w base b k}"
  using assms(3)
proof (induction bases arbitrary: jobs)
  case Nil
  then show ?case by simp
next
  case (Cons base bases)
  have ab: "abs_base base" and dir: "lookup w (os_path base @ [''objects'']) = Some DirN" using Cons.prems by auto
  have root: "os_path (join_path [base, ''objects'']) = os_path base @ [''objects'']"
    using ab by (simp add: join_path_base abs_base_def foldl_split_good clean_step_good)
  have ne: "base \<noteq> ''''" using ab by (auto simp: abs_base_def is_rooted_def)
  from find_jobs_quiet [OF q tree, of base "length (os_path base)" "[os_path base @ [''objects'']]" jobs e0]
  obtain js1 where f: "find_jobs base (length (os_path base)) [os_path base @ [''objects'']] jobs e0 w = (js1, e0, w)"
    and s1: "set js1 = set jobs \<union> {(base, b, k) | b k. manifest_found w base b k}"
    by (auto simp: jobs_below_objects)
  from Cons.IH [of js1] Cons.prems obtain js where "scrub_jobs bases js1 e0 w = (js, e0, w)"
    and s: "set js = set js1 \<union> {(base, b, k) | base b k. base \<in> set bases \<and> manifest_found w base b k}" by auto
  moreover have "set js = set jobs \<union> {(base', b, k) | base' b k. base' \<in> set (base # bases) \<and> manifest_found w base' b k}"
    unfolding s s1 by auto
  ultimately show ?case using q ne dir f by (simp add: Let_def root)
qed

lemma check_open_shard_frame:
  assumes "check_open_shard v sh f w = (r, w')"
  shows "frame S w w'"
proof -
  have payload: "frame S w1 w2"
    if "io_bind (os_seek off) (\<lambda>o1. io_bind (read_n f o1 n) (\<lambda>bs. if bytes_equal (sha256 bs) d then io_return () else io_fail e)) w1 = (q, w2)"
    for off n d e q and w1 w2 :: "'a os_state_scheme"
    using that
    by (elim io_bind_frame os_seek_frame read_n_frame) (auto simp: io_return_def io_fail_def split: if_splits)
  from assms show ?thesis
    unfolding check_open_shard_def
    by (elim io_bind_frame os_seek_frame read_header_frame read_footer_frame)
      (auto simp: io_return_def io_fail_def split: if_splits option.splits intro: payload)
qed

lemma check_shard_files:
  assumes "check_shard v base sh w = (r, w')"
  shows "file_at w' = file_at w"
proof (rule frame_empty)
  have "frame {} w1 w2" if "io_defer (check_open_shard v sh f) (os_close p) w1 = (q, w2)"
    for f p q and w1 w2 :: "'a os_state_scheme"
    using that unfolding io_defer_iff
    by (auto intro: frame_trans [OF check_open_shard_frame io_ignore_close_frame])
  with assms show "frame {} w w'"
    unfolding check_shard_def Let_def by (elim io_bind_frame os_open_frame)
qed

end
