(* ===== verification/ScrubProps.thy ===== *)
theory ScrubProps imports Scrubber
begin

text \<open>
  The properties of the scrubbers: what a pass finds, what its verdict on one object means and how
  it relates to a verified read, and the life cycle of \<open>Start\<close>, loop and \<open>Stop\<close>.
\<close>

subsection \<open>Properties\<close>

text \<open>The repair items a pass owes: one for each damaged shard some manifest lists.\<close>

definition damaged :: "sealed_scrubber \<Rightarrow> json_codec \<Rightarrow> scrub_world \<Rightarrow> repair_item set" where
  "damaged s jc w = {repair_of w b k sh | base b k sh.
     base \<in> set (ssBaseDirs s) \<and> manifest_found w base b k \<and> sh \<in> set (object_shards jc base b k w) \<and>
     \<not> good_shard (sgVerifyPayload (ssConfig s)) base w sh}"

lemma object_items_damaged:
  assumes "set js = {(base, b, k) | base b k. base \<in> set (ssBaseDirs s) \<and> manifest_found w base b k}"
  shows "set (concat (map (object_items s jc w) js)) = damaged s jc w"
proof -
  have "set (concat (map (object_items s jc w) js)) = (\<Union>j \<in> set js. set (object_items s jc w j))" by simp
  also have "\<dots> = damaged s jc w"
    unfolding assms damaged_def object_items_def by (fastforce simp: image_iff)
  finally show ?thesis .
qed

text \<open>A pass on a quiet disk, with the jobs in the order the workers took them.\<close>

lemma pass_result:
  assumes bases: "\<forall>base \<in> set (ssBaseDirs s). abs_base base \<and> lookup w (os_path base @ [''objects'']) = Some DirN"
    and tree: "tree_ok w" and quiet: "fs_faults w = []" and order: "\<forall>js. mset (order js) = mset js"
    and run: "do_run_once s jc order w = (r, w')"
  obtains js its where "set js = {(base, b, k) | base b k. base \<in> set (ssBaseDirs s) \<and> manifest_found w base b k}"
    and "its = concat (map (object_items s jc w) js)"
    and "r = Inr ()" and "os_state.truncate w' = os_state.truncate w"
    and "scErrors (wSc w') = scErrors (wSc w) + of_nat (length its)"
    and "scEnqueued (wSc w') = scEnqueued (wSc w) @ (if ssRepQ s then its else [])"
proof -
  obtain js where j: "scrub_jobs (ssBaseDirs s) [] None w = (js, None, w)"
    and sj: "set js = {(base, b, k) | base b k. base \<in> set (ssBaseDirs s) \<and> manifest_found w base b k}"
    using scrub_jobs_quiet [OF quiet tree bases, of "[]" None] by auto
  let ?js = "order js"
  let ?its = "concat (map (object_items s jc w) ?js)"
  have so: "set ?js = set js" using order by (intro mset_eq_setD) simp
  have sc: "scan_all s jc order w = (Inr (), scrub_gain s (sum_list (map (object_scans jc w) ?js)) ?its w)"
    by (simp add: scan_all_def j verify_jobs_quiet [OF quiet])
  show thesis
    by (rule that [of ?js ?its]) (use run so sj in \<open>auto simp: do_run_once_def sc scrub_gain_def os_state.truncate_def\<close>)
qed

text \<open>
  C14. A scrub pass finds exactly the damage: on a disk where no call fails, in whatever order
  the workers take the jobs, the pass succeeds, changes no file, counts every damaged shard as
  one error, and hands to the repair queue, if there is one, items for exactly the damaged shards
  of the objects whose manifest is on the disk.
\<close>

theorem scrub_pass:
  assumes bases: "\<forall>base \<in> set (ssBaseDirs s). abs_base base \<and> lookup w (os_path base @ [''objects'']) = Some DirN"
    and tree: "tree_ok w" and quiet: "fs_faults w = []" and order: "\<forall>js. mset (order js) = mset js"
    and run: "do_run_once s jc order w = (r, w')"
  shows "r = Inr () \<and> file_at w' = file_at w \<and>
    (\<exists>its. set its = damaged s jc w \<and> scErrors (wSc w') = scErrors (wSc w) + of_nat (length its) \<and>
       scEnqueued (wSc w') = scEnqueued (wSc w) @ (if ssRepQ s then its else []))"
proof -
  obtain js its where js: "set js = {(base, b, k) | base b k. base \<in> set (ssBaseDirs s) \<and> manifest_found w base b k}"
    and its: "its = concat (map (object_items s jc w) js)" and r: "r = Inr ()" and d: "os_state.truncate w' = os_state.truncate w"
    and e: "scErrors (wSc w') = scErrors (wSc w) + of_nat (length its)"
    and q: "scEnqueued (wSc w') = scEnqueued (wSc w) @ (if ssRepQ s then its else [])"
    using pass_result [OF assms] .
  have "file_at w' = file_at w" using d by (auto simp: os_state.truncate_def file_at_def lookup_def fun_eq_iff)
  moreover have "set its = damaged s jc w" unfolding its by (rule object_items_damaged [OF js])
  ultimately show ?thesis using r e q by (intro conjI exI [of _ its]) simp_all
qed

lemma scrub_shards_err: "fst (scrub_shards s base bucket key shs True w)"
  by (induction shs arbitrary: w) (simp_all split: prod.split sum.split)

text \<open>
  C32. A clean verdict is sound under every schedule of failing calls: when the check of an
  object with a manifest reports no error, every shard of it was intact on the disk, with the
  recorded content hash in its footer and, with payload verification, with a payload of that hash.
\<close>

theorem scrub_clean:
  assumes v: "verify_object s jc base bucket key w = (Inr (), w')"
    and ld: "load_manifest jc base bucket key w = (Inr m, w1)"
  shows "\<forall>sh \<in> set (mShards m). \<exists>c. file_at w (os_path (join_path [base, smPath sh])) = Some c \<and>
    shard_intact (sgVerifyPayload (ssConfig s)) sh c"
proof -
  have f1: "file_at w1 = file_at w" using ld by (rule frame_empty [OF load_manifest_frame])
  have clean: "\<forall>sh \<in> set shs. good_shard (sgVerifyPayload (ssConfig s)) base w sh"
    if "scrub_shards s base bucket key shs h v0 = (False, v1)" "file_at v0 = file_at w" for shs h v0 v1
    using that
  proof (induction shs arbitrary: h v0)
    case Nil
    then show ?case by simp
  next
    case (Cons sh shs)
    obtain rs v2 where c: "check_shard (sgVerifyPayload (ssConfig s)) base sh v0 = (rs, v2)" by fastforce
    show ?case
    proof (cases rs)
      case (Inl e)
      with Cons.prems(1) c obtain x where "scrub_shards s base bucket key shs True x = (False, v1)" by simp
      with scrub_shards_err [of s base bucket key shs x] show ?thesis by simp
    next
      case (Inr u)
      have "file_at v2 = file_at v0" using c by (rule check_shard_files)
      with Cons c Inr check_shard_ok [OF c [unfolded Inr]] show ?thesis by (simp add: good_shard_def)
    qed
  qed
  have "\<forall>sh \<in> set (mShards m). good_shard (sgVerifyPayload (ssConfig s)) base w sh"
  proof (cases "mShards m = []")
    case False
    obtain hadErr w2 where sc: "scrub_shards s base bucket key (mShards m) False w1 = (hadErr, w2)" by fastforce
    with v ld False have "hadErr = False" by (auto simp: verify_object_def split: if_splits)
    with sc f1 clean show ?thesis by blast
  qed simp
  then show ?thesis by (auto simp: good_shard_def split: option.splits)
qed

lemma get_sealed_ok_quiet:
  assumes q: "fs_faults w = []" and v: "lVerify l"
  shows "is_ok (fst (get_sealed l bucket key m sh w)) \<longleftrightarrow> good_shard True (lBase l) w sh"
proof (cases "lookup w (os_path (join_path [lBase l, smPath sh]))")
  case None
  with q show ?thesis
    by (simp add: get_sealed_def shard_file_def Let_def good_shard_def file_at_def fail_obs_def)
next
  case (Some f)
  show ?thesis
  proof (cases f)
    case DirN
    have "\<exists>e. read_header DirN 0 w = (Inl e, w)"
      using q by (simp add: read_header_def io_bind_def os_read_from_def)
    with q Some DirN show ?thesis
      by (auto simp: get_sealed_def shard_file_def Let_def good_shard_def file_at_def fail_obs_def)
  next
    case (FileN c t)
    with q v Some show ?thesis
      by (auto simp: get_sealed_def shard_file_def Let_def good_shard_def file_at_def fail_obs_def
          integrity_fail_def verify_on_read_def verify_payload_def shard_intact_def
          read_header_quiet read_footer_quiet read_n_quiet_any split: sum.split option.split if_splits)
  qed
qed

text \<open>
  C15. The scrubber and the verified read agree: on the same disk, where no call fails, the
  payload-verifying scrub of an object with a single-shard manifest reports it clean exactly
  when a verifying \<open>Get\<close> of the same object succeeds.
\<close>

theorem scrub_agrees_with_get:
  assumes base: "abs_base (lBase l)" and bucket: "good_elem bucket" and modes: "lVerify l" "sgVerifyPayload (ssConfig s)"
    and quiet: "fs_faults w = []" "fs_faults v = []" and same: "lookup v = lookup w"
    and ld: "load_manifest jc (lBase l) bucket key w = (Inr m, w1)" and one: "mShards m = [sh]"
  shows "is_ok (fst (verify_object s jc (lBase l) bucket key w)) \<longleftrightarrow> is_ok (fst (get l jc bucket key v))"
proof -
  obtain c t where at: "lookup w (meta_elems (lBase l) bucket key) = Some (FileN c t)" and dec: "jdec jc c = Some m"
    and val: "validate_basic m = Inr ()"
    using ld unfolding load_manifest_quiet [OF base bucket quiet(1)]
    by (auto split: option.splits node.splits sum.splits)
  have sm: "sealed_manifest l jc bucket key v = (Some (m, sh), v)"
    using at same by (intro sealed_manifest_quiet [OF base bucket quiet(2) _ dec val one]) (simp add: file_at_def)
  have good: "good_shard True (lBase l) v sh = good_shard True (lBase l) w sh"
    using same by (simp add: good_shard_def file_at_def)
  have "is_ok (fst (verify_object s jc (lBase l) bucket key w)) \<longleftrightarrow> good_shard True (lBase l) w sh"
    using verify_object_quiet [OF quiet(1), of s jc "lBase l" bucket key] ld one modes(2)
    by (auto simp: object_items_def object_shards_def split: if_splits)
  then show ?thesis
    using get_sealed_ok_quiet [OF quiet(2) modes(1), of bucket key m sh] good by (simp add: get_def sm)
qed

subsection \<open>The life of a scrubber that is started once\<close>

fun life_pc_ok :: "scrub_pc \<Rightarrow> scrub_life \<Rightarrow> bool" where
  "life_pc_ok Closing s \<longleftrightarrow> \<not> slRunning s \<and> \<not> slDone s"
| "life_pc_ok Gone s \<longleftrightarrow> \<not> slRunning s \<and> slDone s"
| "life_pc_ok pc s \<longleftrightarrow> slRunning s \<and> \<not> slDone s"

definition life_ok :: "scrub_life \<Rightarrow> bool" where
  "life_ok s \<longleftrightarrow>
     (slLoops s = [] \<longrightarrow> \<not> slRunning s \<and> \<not> slDone s \<and> \<not> slPanicked s) \<and>
     (\<forall>pc. slLoops s = [pc] \<longrightarrow> life_pc_ok pc s \<and> \<not> slPanicked s)"

lemma update_singleton:
  "i < length xs \<Longrightarrow> xs[i := x] = [y] \<longleftrightarrow> (\<exists>z. xs = [z] \<and> i = 0 \<and> y = x)"
  by (cases xs) (auto split: nat.splits)

lemma life_ok_step: "life_step s s' \<Longrightarrow> life_ok s \<Longrightarrow> life_ok s'"
proof (induction rule: life_step.induct)
  case (lf_start s r s')
  then show ?case by (auto simp: life_ok_def scrub_start_def split: if_splits)
next
  case (lf_stop s i)
  then show ?case
    by (auto simp: life_ok_def scrub_stop_signal_def set_loop_def update_singleton)
next
  case (lf_pass s i)
  then show ?case by (auto simp: life_ok_def set_loop_def update_singleton)
next
  case (lf_timer s i)
  then show ?case by (auto simp: life_ok_def set_loop_def update_singleton)
next
  case (lf_cancel s i)
  then show ?case by (auto simp: life_ok_def set_loop_def update_singleton)
next
  case (lf_clear s i)
  then show ?case by (auto simp: life_ok_def set_loop_def update_singleton)
next
  case (lf_close s i)
  then show ?case by (auto simp: life_ok_def close_done_def set_loop_def update_singleton)
qed

lemma life_ok_reachable: "life_step\<^sup>*\<^sup>* scrub_new s \<Longrightarrow> life_ok s"
proof (induction rule: rtranclp_induct)
  case base
  show ?case by (simp add: life_ok_def scrub_new_def)
next
  case (step s s')
  then show ?case by (blast intro: life_ok_step)
qed

text \<open>
  A scrubber that is started once is safe: under every interleaving of passes, ticks,
  cancellation and Stop it never panics, and once its loop is gone it is not running and Stop
  returns at once without an error.
\<close>

lemma scrub_single_start:
  assumes "life_step\<^sup>*\<^sup>* scrub_new s" and "slLoops s = [pc]"
  shows "\<not> slPanicked s \<and> (pc = Gone \<longrightarrow> \<not> slRunning s \<and> scrub_stop_wait ctx s = Done (Inr ()))"
  using life_ok_reachable [OF assms(1)] assms(2) by (cases pc) (auto simp: life_ok_def scrub_stop_wait_def)

definition ex_one_life :: "bool \<Rightarrow> scrub_life" where
  "ex_one_life d = \<lparr>slRunning = False, slLoops = [if d then Gone else Closing], slDone = d, slPanicked = False\<rparr>"

lemma one_life: "life_step\<^sup>*\<^sup>* scrub_new (ex_one_life True)"
proof -
  let ?s = "\<lambda>run pc. \<lparr>slRunning = run, slLoops = [pc], slDone = False, slPanicked = False\<rparr>"
  have "life_step scrub_new (?s True InPass)"
    by (rule lf_start [of _ "Inr ()"]) (simp_all add: scrub_new_def scrub_start_def)
  moreover have "life_step (?s True InPass) (?s True AtSelect)"
    using lf_pass [of "?s True InPass" 0] by (simp add: set_loop_def)
  moreover have "life_step (?s True AtSelect) (?s True Clearing)"
    using lf_stop [of "?s True AtSelect" 0] by (simp add: scrub_stop_signal_def set_loop_def)
  moreover have "life_step (?s True Clearing) (ex_one_life False)"
    using lf_clear [of "?s True Clearing" 0] by (simp add: set_loop_def ex_one_life_def)
  moreover have "life_step (ex_one_life False) (ex_one_life True)"
    using lf_close [of "ex_one_life False" 0] by (simp add: close_done_def set_loop_def ex_one_life_def)
  ultimately show ?thesis by (meson converse_rtranclp_into_rtranclp rtranclp.rtrancl_refl)
qed

text \<open>
  A scrubber can't be restarted: starting it again after a completed Stop succeeds, and the
  end of that second run closes the \<open>done\<close> channel a second time, which panics.
\<close>

lemma scrub_restart_panics:
  "\<exists>s. life_step\<^sup>*\<^sup>* scrub_new s \<and> slPanicked s \<and> length (slLoops s) = 2"
proof -
  let ?s = "\<lambda>run pc. \<lparr>slRunning = run, slLoops = [Gone, pc], slDone = True, slPanicked = False\<rparr>"
  have "life_step (ex_one_life True) (?s True InPass)"
    by (rule lf_start [of _ "Inr ()"]) (simp_all add: ex_one_life_def scrub_start_def)
  moreover have "life_step (?s True InPass) (?s True AtSelect)"
    using lf_pass [of "?s True InPass" 1] by (simp add: set_loop_def)
  moreover have "life_step (?s True AtSelect) (?s True Clearing)"
    using lf_stop [of "?s True AtSelect" 1] by (simp add: scrub_stop_signal_def set_loop_def)
  moreover have "life_step (?s True Clearing) (?s False Closing)"
    using lf_clear [of "?s True Clearing" 1] by (simp add: set_loop_def)
  moreover have "life_step (?s False Closing) ((?s False Closing)\<lparr>slPanicked := True\<rparr>)"
    using lf_close [of "?s False Closing" 1] by (simp add: close_done_def)
  ultimately have "life_step\<^sup>*\<^sup>* (ex_one_life True) ((?s False Closing)\<lparr>slPanicked := True\<rparr>)"
    by (meson converse_rtranclp_into_rtranclp rtranclp.rtrancl_refl)
  with one_life have "life_step\<^sup>*\<^sup>* scrub_new ((?s False Closing)\<lparr>slPanicked := True\<rparr>)" by (rule rtranclp_trans)
  then show ?thesis by fastforce
qed

subsection \<open>Witnesses\<close>

definition ex_scrubber :: sealed_scrubber where
  "ex_scrubber = \<lparr>ssConfig = \<lparr>sgInterval = 1, sgConcurrency = 1, sgVerifyPayload = True\<rparr>, ssBaseDirs = [''/d''], ssRepQ = True\<rparr>"

definition ex_scrub_disk :: "byte list \<Rightarrow> scrub_world" where
  "ex_scrub_disk shard = \<lparr>fs_files =
     [([''d''], DirN), ([''d'', ''objects''], DirN), ([''d'', ''objects'', ''bkt''], DirN),
      ([''d'', ''objects'', ''bkt'', ''k''], DirN),
      ([''d'', ''objects'', ''bkt'', ''k'', ''data.ss1''], FileN shard 7),
      ([''d'', ''objects'', ''bkt'', ''k'', ''object.meta''], FileN [0] 7)],
     fs_clock = 7, fs_faults = [],
     wSc = \<lparr>scScanned = 0, scErrors = 0, scEnqueued = [], scLastRun = None, scLastError = None\<rparr>\<rparr>"

lemma ex_scrub_tree: "tree_ok (ex_scrub_disk shard)"
  by (auto simp: tree_ok_def ex_scrub_disk_def lookup_def split: if_splits)

lemma ex_scrub_load:
  "load_manifest (ex_json ex_manifest) ''/d'' ''bkt'' ''k'' (ex_scrub_disk shard) = (Inr ex_manifest, ex_scrub_disk shard)"
proof -
  have "lookup (ex_scrub_disk shard) (meta_elems ''/d'' ''bkt'' ''k'') = Some (FileN [0] 7)"
    by (simp add: meta_elems_def ManifestFilename_def ex_obj_elems lookup_def ex_scrub_disk_def)
  moreover have "fs_faults (ex_scrub_disk shard) = []" by (simp add: ex_scrub_disk_def)
  ultimately show ?thesis
    by (simp add: load_manifest_quiet ex_json_def ex_manifest_def sealed_object_manifest_valid)
qed

lemma ex_scrub_shards: "mShards ex_manifest = [ex_shard_meta]"
  by (simp add: ex_manifest_def ex_shard_meta_def)

lemma ex_scrub_path: "os_path (join_path [''/d'', smPath ex_shard_meta]) = [''d'', ''objects'', ''bkt'', ''k'', ''data.ss1'']"
  using ex_shard_file by (simp add: shard_file_def ex_sealed_def ex_store_def)

lemma ex_scrub_good:
  "good_shard v ''/d'' (ex_scrub_disk shard) ex_shard_meta \<longleftrightarrow> shard_intact v ex_shard_meta shard"
  by (simp add: good_shard_def ex_scrub_path) (simp add: file_at_def lookup_def ex_scrub_disk_def)

lemma ex_intact: "shard_intact True ex_shard_meta (sealed_bytes [1, 2])"
proof -
  have "footer_off (sealed_header 2) = 30" "header_off (sealed_header 2) = 28" "payload_len (sealed_header 2) = 2"
    using sealed_header_fields [of 2] by simp_all
  then show ?thesis
    by (simp add: shard_intact_def sealed_bytes_def decode_header_bytes ex_shard_meta_def)
qed

lemma ex_damaged_shard_bytes: "\<not> shard_intact True ex_shard_meta []"
  by (simp add: shard_intact_def decode_shard_header_def read_full_def)

lemma ex_scrub_quiet: "fs_faults (ex_scrub_disk shard) = []"
  by (simp add: ex_scrub_disk_def)

lemma ex_scrub_items:
  "object_items ex_scrubber (ex_json ex_manifest) (ex_scrub_disk shard) (''/d'', ''bkt'', ''k'') =
     (if shard_intact True ex_shard_meta shard then [] else [repair_of (ex_scrub_disk shard) ''bkt'' ''k'' ex_shard_meta])"
  by (simp add: object_items_def object_shards_def ex_scrub_load ex_scrub_shards ex_scrub_good ex_scrubber_def)

theorem scrub_pass_witness:
  "\<exists>w'. do_run_once ex_scrubber (ex_json ex_manifest) id (ex_scrub_disk []) = (Inr (), w') \<and>
     repair_of (ex_scrub_disk []) ''bkt'' ''k'' ex_shard_meta \<in> set (scEnqueued (wSc w'))"
proof -
  let ?w = "ex_scrub_disk []" and ?jc = "ex_json ex_manifest"
  obtain r w' where run: "do_run_once ex_scrubber ?jc id ?w = (r, w')" by fastforce
  have bases: "\<forall>base \<in> set (ssBaseDirs ex_scrubber). abs_base base \<and> lookup ?w (os_path base @ [''objects'']) = Some DirN"
    by (simp add: ex_scrubber_def) (simp add: lookup_def ex_scrub_disk_def)
  have "is_file (lookup ?w (os_path ''/d'' @ ''objects'' # ''bkt'' # [''k''] @ [ManifestFilename]))"
    by (simp add: ManifestFilename_def) (simp add: lookup_def ex_scrub_disk_def)
  then have "manifest_found ?w ''/d'' ''bkt'' ''k''"
    unfolding manifest_found_def by (intro exI [of _ "[''k'']"]) simp
  then have "repair_of ?w ''bkt'' ''k'' ex_shard_meta \<in> damaged ex_scrubber ?jc ?w"
    unfolding damaged_def
    by (intro CollectI exI [of _ "''/d''"] exI [of _ "''bkt''"] exI [of _ "''k''"] exI [of _ ex_shard_meta])
      (simp add: object_shards_def ex_scrub_load ex_scrub_shards ex_scrub_good ex_scrubber_def ex_damaged_shard_bytes)
  moreover have "ssRepQ ex_scrubber" by (simp add: ex_scrubber_def)
  ultimately show ?thesis
    using scrub_pass [OF bases ex_scrub_tree ex_scrub_quiet _ run] run by auto
qed

theorem scrub_clean_witness:
  "\<exists>w'. verify_object ex_scrubber (ex_json ex_manifest) ''/d'' ''bkt'' ''k'' (ex_scrub_disk (sealed_bytes [1, 2])) = (Inr (), w') \<and>
     (\<exists>c. file_at (ex_scrub_disk (sealed_bytes [1, 2])) (os_path (join_path [''/d'', smPath ex_shard_meta])) = Some c \<and>
        shard_intact True ex_shard_meta c)"
proof -
  let ?w = "ex_scrub_disk (sealed_bytes [1, 2])" and ?jc = "ex_json ex_manifest"
  obtain r w' where v: "verify_object ex_scrubber ?jc ''/d'' ''bkt'' ''k'' ?w = (r, w')" and "is_ok r"
    using verify_object_quiet [OF ex_scrub_quiet, of ex_scrubber ?jc "''/d''" "''bkt''" "''k''" "sealed_bytes [1, 2]"]
    by (auto simp: ex_scrub_items ex_intact ex_scrub_load)
  then have v: "verify_object ex_scrubber ?jc ''/d'' ''bkt'' ''k'' ?w = (Inr (), w')" by (cases r) auto
  have "sgVerifyPayload (ssConfig ex_scrubber)" by (simp add: ex_scrubber_def)
  with scrub_clean [OF v ex_scrub_load] v show ?thesis by (simp add: ex_scrub_shards)
qed

theorem scrub_agrees_with_get_witness:
  "is_ok (fst (verify_object ex_scrubber (ex_json ex_manifest) ''/d'' ''bkt'' ''k'' (ex_scrub_disk []))) \<longleftrightarrow>
   is_ok (fst (get ex_sealed (ex_json ex_manifest) ''bkt'' ''k''
     \<lparr>fs_files = fs_files (ex_scrub_disk []), fs_clock = 7, fs_faults = [], obs_log = [], repairs = []\<rparr>))"
proof -
  have b: "lBase ex_sealed = ''/d''" "lVerify ex_sealed" by (simp_all add: ex_sealed_def ex_store_def)
  have "sgVerifyPayload (ssConfig ex_scrubber)" by (simp add: ex_scrubber_def)
  from scrub_agrees_with_get [of ex_sealed "''bkt''" ex_scrubber "ex_scrub_disk []" _ "ex_json ex_manifest" "''k''", unfolded b]
    this b(2) ex_scrub_quiet ex_scrub_load ex_scrub_shards show ?thesis
    by (simp add: lookup_def fun_eq_iff)
qed

end
