(* ===== verification/Metadata.thy ===== *)
theory Metadata imports Prelude GoStrings "HOL-Library.AList" "HOL-Library.Multiset"
begin

text \<open>
  The in-memory metadata store (src/pkg/metadata/store.go). A Go map is an association list
  without duplicate keys; every method holds the store's mutex for its whole body, so each is
  one function on the state. The random bytes of an upload id are an argument.
\<close>

subsection \<open>State\<close>

record bucket =
  bName :: string
  bCreated :: int

record part =
  ptNumber :: int
  ptETag :: string
  ptSize :: int
  ptUploaded :: int

record multipart_upload =
  muUploadID :: string
  muBucket :: string
  muKey :: string
  muInitiated :: int
  muParts :: "(int \<times> part) list"

record memory_store =
  msBuckets :: "(string \<times> bucket) list"
  msUploads :: "(string \<times> multipart_upload) list"

definition new_memory_store :: memory_store where
  "new_memory_store = \<lparr>msBuckets = [], msUploads = []\<rparr>"

subsection \<open>Buckets\<close>

definition list_buckets :: "memory_store \<Rightarrow> bucket list" where
  "list_buckets m = sort_key bName (map snd (msBuckets m))"

definition create_bucket :: "string \<Rightarrow> int \<Rightarrow> memory_store \<Rightarrow> unit result \<times> memory_store" where
  "create_bucket name now m =
     (case map_of (msBuckets m) name of
        Some _ \<Rightarrow> (Inl ErrBucketExists, m)
      | None \<Rightarrow> (Inr (), m\<lparr>msBuckets := AList.update name \<lparr>bName = name, bCreated = now\<rparr> (msBuckets m)\<rparr>))"

definition bucket_exists :: "string \<Rightarrow> memory_store \<Rightarrow> bool" where
  "bucket_exists name m = (map_of (msBuckets m) name \<noteq> None)"

definition delete_bucket :: "string \<Rightarrow> memory_store \<Rightarrow> unit result \<times> memory_store" where
  "delete_bucket name m =
     (case map_of (msBuckets m) name of
        None \<Rightarrow> (Inl ErrBucketNotFound, m)
      | Some _ \<Rightarrow> (Inr (), m\<lparr>msBuckets := AList.delete name (msBuckets m)\<rparr>))"

subsection \<open>Multipart uploads\<close>

definition generate_upload_id :: "byte list \<Rightarrow> string" where
  "generate_upload_id rnd = hex_encode rnd"

definition initiate_upload :: "string \<Rightarrow> string \<Rightarrow> byte list \<Rightarrow> int \<Rightarrow> memory_store \<Rightarrow> string \<times> memory_store" where
  "initiate_upload bucket key rnd now m =
     (let uid = generate_upload_id rnd in
      (uid, m\<lparr>msUploads := AList.update uid
         \<lparr>muUploadID = uid, muBucket = bucket, muKey = key, muInitiated = now, muParts = []\<rparr> (msUploads m)\<rparr>))"

definition get_upload :: "string \<Rightarrow> memory_store \<Rightarrow> multipart_upload result" where
  "get_upload uid m = (case map_of (msUploads m) uid of None \<Rightarrow> Inl ErrUploadNotFound | Some u \<Rightarrow> Inr u)"

definition put_part :: "string \<Rightarrow> int \<Rightarrow> string \<Rightarrow> int \<Rightarrow> int \<Rightarrow> memory_store \<Rightarrow> unit result \<times> memory_store" where
  "put_part uid partNum etag sz now m =
     (case map_of (msUploads m) uid of
        None \<Rightarrow> (Inl ErrUploadNotFound, m)
      | Some u \<Rightarrow>
          (Inr (), m\<lparr>msUploads := AList.update uid
             (u\<lparr>muParts := AList.update partNum
                \<lparr>ptNumber = partNum, ptETag = etag, ptSize = sz, ptUploaded = now\<rparr> (muParts u)\<rparr>) (msUploads m)\<rparr>))"

definition complete_upload :: "string \<Rightarrow> memory_store \<Rightarrow> multipart_upload result \<times> memory_store" where
  "complete_upload uid m =
     (case map_of (msUploads m) uid of
        None \<Rightarrow> (Inl ErrUploadNotFound, m)
      | Some u \<Rightarrow> (Inr u, m\<lparr>msUploads := AList.delete uid (msUploads m)\<rparr>))"

definition abort_upload :: "string \<Rightarrow> memory_store \<Rightarrow> unit result \<times> memory_store" where
  "abort_upload uid m =
     (case map_of (msUploads m) uid of
        None \<Rightarrow> (Inl ErrUploadNotFound, m)
      | Some _ \<Rightarrow> (Inr (), m\<lparr>msUploads := AList.delete uid (msUploads m)\<rparr>))"

definition list_uploads :: "string \<Rightarrow> memory_store \<Rightarrow> multipart_upload list" where
  "list_uploads bucket m =
     sort_key muInitiated (filter (\<lambda>u. bucket = '''' \<or> muBucket u = bucket) (map snd (msUploads m)))"

definition active_multipart_count :: "string \<Rightarrow> memory_store \<Rightarrow> nat" where
  "active_multipart_count bucket m = length (filter (\<lambda>u. muBucket u = bucket) (map snd (msUploads m)))"

subsection \<open>The invariant\<close>

text \<open>Keys are unique and every entry carries its own key.\<close>

definition upload_ok :: "string \<Rightarrow> multipart_upload \<Rightarrow> bool" where
  "upload_ok k u \<longleftrightarrow>
     muUploadID u = k \<and> distinct (map fst (muParts u)) \<and> (\<forall>(i, p) \<in> set (muParts u). ptNumber p = i)"

definition meta_ok :: "memory_store \<Rightarrow> bool" where
  "meta_ok m \<longleftrightarrow>
     distinct (map fst (msBuckets m)) \<and> distinct (map fst (msUploads m)) \<and>
     (\<forall>(k, b) \<in> set (msBuckets m). bName b = k) \<and>
     (\<forall>(k, u) \<in> set (msUploads m). upload_ok k u)"

lemma in_update: "(k, v) \<in> set (AList.update k0 v0 xs) \<Longrightarrow> (k, v) = (k0, v0) \<or> (k, v) \<in> set xs"
  by (induction xs) (auto split: if_splits)

lemma in_delete: "(k, v) \<in> set (AList.delete k0 xs) \<Longrightarrow> (k, v) \<in> set xs"
  by (induction xs) (auto split: if_splits)

lemma meta_ok_new: "meta_ok new_memory_store"
  by (simp add: meta_ok_def new_memory_store_def)

lemma meta_ok_create: "meta_ok m \<Longrightarrow> create_bucket name now m = (r, m') \<Longrightarrow> meta_ok m'"
  by (auto simp: meta_ok_def create_bucket_def distinct_update dest!: in_update split: option.splits)

lemma meta_ok_delete: "meta_ok m \<Longrightarrow> delete_bucket name m = (r, m') \<Longrightarrow> meta_ok m'"
  by (auto simp: meta_ok_def delete_bucket_def distinct_delete dest!: in_delete split: option.splits)

lemma upload_ok_new: "upload_ok k \<lparr>muUploadID = k, muBucket = b, muKey = ky, muInitiated = t, muParts = []\<rparr>"
  by (simp add: upload_ok_def)

lemma meta_ok_initiate: "meta_ok m \<Longrightarrow> initiate_upload b k rnd now m = (r, m') \<Longrightarrow> meta_ok m'"
  by (auto simp: meta_ok_def initiate_upload_def Let_def distinct_update upload_ok_new dest!: in_update)

lemma meta_ok_put_part:
  assumes ok: "meta_ok m" and put: "put_part uid n etag sz now m = (r, m')"
  shows "meta_ok m'"
proof (cases "map_of (msUploads m) uid")
  case None
  with assms show ?thesis by (simp add: put_part_def)
next
  case (Some u)
  then have "(uid, u) \<in> set (msUploads m)" by (rule map_of_SomeD)
  with ok have "upload_ok uid u" by (auto simp: meta_ok_def)
  then have "upload_ok uid (u\<lparr>muParts := AList.update n
      \<lparr>ptNumber = n, ptETag = etag, ptSize = sz, ptUploaded = now\<rparr> (muParts u)\<rparr>)"
    by (auto simp: upload_ok_def distinct_update dest!: in_update)
  then show ?thesis
    using ok put Some
    by (auto simp: meta_ok_def put_part_def distinct_update dest!: in_update)
qed

lemma meta_ok_drop:
  "meta_ok m \<Longrightarrow> complete_upload uid m = (r, m') \<Longrightarrow> meta_ok m'"
  "meta_ok m \<Longrightarrow> abort_upload uid m = (r2, m') \<Longrightarrow> meta_ok m'"
  by (auto simp: meta_ok_def complete_upload_def abort_upload_def distinct_delete dest!: in_delete split: option.splits)

subsection \<open>The interface\<close>

text \<open>
  What the API relies on: a set of bucket names and a map of uploads. \<open>names\<close> and \<open>pending\<close>
  are the abstraction of a store; every operation is described by what it does to them.
\<close>

locale metadata_interface =
  fixes names :: "'s \<Rightarrow> string set"
    and pending :: "'s \<Rightarrow> string \<Rightarrow> multipart_upload option"
    and create :: "string \<Rightarrow> int \<Rightarrow> 's \<Rightarrow> unit result \<times> 's"
    and exists :: "string \<Rightarrow> 's \<Rightarrow> bool"
    and remove :: "string \<Rightarrow> 's \<Rightarrow> unit result \<times> 's"
    and part_op :: "string \<Rightarrow> int \<Rightarrow> string \<Rightarrow> int \<Rightarrow> int \<Rightarrow> 's \<Rightarrow> unit result \<times> 's"
    and complete :: "string \<Rightarrow> 's \<Rightarrow> multipart_upload result \<times> 's"
  assumes create_law: "create n now s = (r, s') \<Longrightarrow>
      r = (if n \<in> names s then Inl ErrBucketExists else Inr ()) \<and> names s' = insert n (names s) \<and> pending s' = pending s"
    and exists_law: "exists n s \<longleftrightarrow> n \<in> names s"
    and remove_law: "remove n s = (r, s') \<Longrightarrow>
      r = (if n \<in> names s then Inr () else Inl ErrBucketNotFound) \<and> names s' = names s - {n} \<and> pending s' = pending s"
    and part_law: "part_op uid i etag sz now s = (r, s') \<Longrightarrow> names s' = names s \<and>
      (case pending s uid of
         None \<Rightarrow> r = Inl ErrUploadNotFound \<and> pending s' = pending s
       | Some u \<Rightarrow> r = Inr () \<and> (\<exists>u'. pending s' = (pending s)(uid \<mapsto> u') \<and> muBucket u' = muBucket u \<and> muKey u' = muKey u \<and>
           map_of (muParts u') = (map_of (muParts u))(i \<mapsto> \<lparr>ptNumber = i, ptETag = etag, ptSize = sz, ptUploaded = now\<rparr>)))"
    and complete_law: "complete uid s = (r2, s') \<Longrightarrow> names s' = names s \<and>
      (case pending s uid of
         None \<Rightarrow> r2 = Inl ErrUploadNotFound \<and> pending s' = pending s
       | Some u \<Rightarrow> r2 = Inr u \<and> pending s' = (pending s)(uid := None))"
begin

text \<open>Concurrent creators: of two creations of one name without a removal, one fails.\<close>

lemma create_twice:
  "create n t1 s = (r1, s1) \<Longrightarrow> create n t2 s1 = (r2, s2) \<Longrightarrow> r2 = Inl ErrBucketExists"
  using create_law [of n t1 s r1 s1] create_law [of n t2 s1 r2 s2] by auto

lemma created_exists: "create n t s = (r, s') \<Longrightarrow> exists n s'"
  using create_law [of n t s r s'] exists_law by auto

lemma removed_gone: "remove n s = (r, s') \<Longrightarrow> \<not> exists n s'"
  using remove_law [of n s r s'] exists_law by auto

lemma remove_after_create: "create n t s = (r, s') \<Longrightarrow> remove n s' = (r', s'') \<Longrightarrow> r' = Inr ()"
  using create_law [of n t s r s'] remove_law [of n s' r' s''] by auto

text \<open>An upload is completed once.\<close>

lemma complete_twice:
  assumes "complete uid s = (r1, s1)" and "complete uid s1 = (r2, s2)"
  shows "r2 = Inl ErrUploadNotFound"
  using complete_law [OF assms(1)] complete_law [OF assms(2)] by (auto split: option.splits)

lemma part_after_complete:
  assumes "complete uid s = (r1, s1)" and "part_op uid i e sz t s1 = (r2, s2)"
  shows "r2 = Inl ErrUploadNotFound"
  using complete_law [OF assms(1)] part_law [OF assms(2)] by (auto split: option.splits)

text \<open>The parts of a run of uploads: the last one of each number counts.\<close>

lemma put_parts_pending:
  "pending s uid = Some u \<Longrightarrow>
   \<exists>u'. pending (fold (\<lambda>(i, e, sz, t) s. snd (part_op uid i e sz t s)) ps s) uid = Some u' \<and> muBucket u' = muBucket u \<and> muKey u' = muKey u \<and>
     map_of (muParts u') = map_of (muParts u) ++
       map_of (rev (map (\<lambda>(i, e, sz, t). (i, \<lparr>ptNumber = i, ptETag = e, ptSize = sz, ptUploaded = t\<rparr>)) ps))"
proof (induction ps arbitrary: s u)
  case Nil
  then show ?case by simp
next
  case (Cons p ps)
  obtain i e sz t where p: "p = (i, e, sz, t)" by (cases p)
  obtain r s1 where po: "part_op uid i e sz t s = (r, s1)" by fastforce
  from part_law [OF po] Cons.prems obtain u1 where u1: "pending s1 uid = Some u1" "muBucket u1 = muBucket u"
      "muKey u1 = muKey u" "map_of (muParts u1) = (map_of (muParts u))(i \<mapsto> \<lparr>ptNumber = i, ptETag = e, ptSize = sz, ptUploaded = t\<rparr>)"
    by auto
  from Cons.IH [OF u1(1)] u1 p po show ?case by (auto simp: map_add_def fun_eq_iff split: option.split)
qed

end

interpretation mem: metadata_interface "\<lambda>m. dom (map_of (msBuckets m))" "\<lambda>m. map_of (msUploads m)"
  create_bucket bucket_exists delete_bucket put_part complete_upload
proof
  fix n now r s s'
  assume "create_bucket n now s = (r, s')"
  then show "r = (if n \<in> dom (map_of (msBuckets s)) then Inl ErrBucketExists else Inr ()) \<and>
      dom (map_of (msBuckets s')) = insert n (dom (map_of (msBuckets s))) \<and> map_of (msUploads s') = map_of (msUploads s)"
    by (auto simp: create_bucket_def update_conv' split: option.splits)
next
  fix n s
  show "bucket_exists n s \<longleftrightarrow> n \<in> dom (map_of (msBuckets s))"
    by (simp add: bucket_exists_def dom_def)
next
  fix n r s s'
  assume "delete_bucket n s = (r, s')"
  then show "r = (if n \<in> dom (map_of (msBuckets s)) then Inr () else Inl ErrBucketNotFound) \<and>
      dom (map_of (msBuckets s')) = dom (map_of (msBuckets s)) - {n} \<and> map_of (msUploads s') = map_of (msUploads s)"
    by (auto simp: delete_bucket_def delete_conv' split: option.splits if_splits)
next
  fix uid i etag sz now r s s'
  assume "put_part uid i etag sz now s = (r, s')"
  then show "dom (map_of (msBuckets s')) = dom (map_of (msBuckets s)) \<and>
      (case map_of (msUploads s) uid of
         None \<Rightarrow> r = Inl ErrUploadNotFound \<and> map_of (msUploads s') = map_of (msUploads s)
       | Some u \<Rightarrow> r = Inr () \<and> (\<exists>u'. map_of (msUploads s') = (map_of (msUploads s))(uid \<mapsto> u') \<and> muBucket u' = muBucket u \<and>
           muKey u' = muKey u \<and>
           map_of (muParts u') = (map_of (muParts u))(i \<mapsto> \<lparr>ptNumber = i, ptETag = etag, ptSize = sz, ptUploaded = now\<rparr>)))"
    by (cases "map_of (msUploads s) uid") (auto simp: put_part_def update_conv')
next
  fix uid r2 s s'
  assume "complete_upload uid s = (r2, s')"
  then show "dom (map_of (msBuckets s')) = dom (map_of (msBuckets s)) \<and>
      (case map_of (msUploads s) uid of
         None \<Rightarrow> r2 = Inl ErrUploadNotFound \<and> map_of (msUploads s') = map_of (msUploads s)
       | Some u \<Rightarrow> r2 = Inr u \<and> map_of (msUploads s') = (map_of (msUploads s))(uid := None))"
    by (cases "map_of (msUploads s) uid") (auto simp: complete_upload_def delete_conv')
qed

subsection \<open>Reachable stores\<close>

inductive store_step :: "memory_store \<Rightarrow> memory_store \<Rightarrow> bool" where
  step_create: "create_bucket n t m = (r, m') \<Longrightarrow> store_step m m'"
| step_delete: "delete_bucket n m = (r, m') \<Longrightarrow> store_step m m'"
| step_initiate: "initiate_upload b k rnd t m = (uid, m') \<Longrightarrow> store_step m m'"
| step_part: "put_part uid i e sz t m = (r, m') \<Longrightarrow> store_step m m'"
| step_complete: "complete_upload uid m = (ru, m') \<Longrightarrow> store_step m m'"
| step_abort: "abort_upload uid m = (r, m') \<Longrightarrow> store_step m m'"

lemma meta_ok_step: "store_step m m' \<Longrightarrow> meta_ok m \<Longrightarrow> meta_ok m'"
  by (erule store_step.cases)
    (auto intro: meta_ok_create meta_ok_delete meta_ok_initiate meta_ok_put_part meta_ok_drop)

lemma meta_ok_reachable: "store_step\<^sup>*\<^sup>* new_memory_store m \<Longrightarrow> meta_ok m"
  by (induction rule: rtranclp_induct) (auto intro: meta_ok_new meta_ok_step)

lemma names_of_buckets: "meta_ok m \<Longrightarrow> map bName (map snd (msBuckets m)) = map fst (msBuckets m)"
  by (auto simp: meta_ok_def)

text \<open>
  The bucket namespace: in every reachable store the buckets are listed in strictly
  increasing name order, each exactly once, and the listed names are the ones \<open>BucketExists\<close>
  reports.
\<close>

lemma bucket_listing:
  assumes "store_step\<^sup>*\<^sup>* new_memory_store m"
  shows "sorted (map bName (list_buckets m)) \<and> distinct (map bName (list_buckets m)) \<and>
    (\<forall>n. bucket_exists n m \<longleftrightarrow> n \<in> set (map bName (list_buckets m)))"
proof -
  have ok: "meta_ok m" using assms by (rule meta_ok_reachable)
  have names: "map bName (map snd (msBuckets m)) = map fst (msBuckets m)"
    using ok by (rule names_of_buckets)
  have mset: "mset (map bName (list_buckets m)) = mset (map fst (msBuckets m))"
    using arg_cong [OF names, of mset] by (simp add: list_buckets_def multiset.map_comp)
  then have "distinct (map bName (list_buckets m))"
    using mset_eq_imp_distinct_iff [OF mset] ok by (simp add: meta_ok_def)
  moreover have "bucket_exists n m \<longleftrightarrow> n \<in> set (map bName (list_buckets m))" for n
    using mset_eq_setD [OF mset] by (simp add: bucket_exists_def map_of_eq_None_iff)
  ultimately show ?thesis by (simp add: list_buckets_def)
qed

text \<open>
  Creation and deletion are atomic: a creation succeeds exactly when the name is free and a
  deletion exactly when it is taken, each changes that one name only and no upload, and of
  two creations of one name without a deletion between them the second is refused.
\<close>

lemma bucket_create_delete:
  shows "create_bucket n t m = (r, m') \<Longrightarrow>
      r = (if bucket_exists n m then Inl ErrBucketExists else Inr ()) \<and>
      (\<forall>k. bucket_exists k m' \<longleftrightarrow> k = n \<or> bucket_exists k m) \<and> map_of (msUploads m') = map_of (msUploads m) \<and>
      fst (create_bucket n t2 m') = Inl ErrBucketExists \<and> fst (delete_bucket n m') = Inr () \<and>
      (\<forall>k. bucket_exists k (snd (delete_bucket n m')) \<longleftrightarrow> k \<noteq> n \<and> bucket_exists k m)"
  using mem.create_law [of n t m r m'] mem.create_twice [of n t m r m' t2] mem.remove_after_create [of n t m r m']
    mem.remove_law [of n m'] mem.exists_law
  by (cases "create_bucket n t2 m'"; cases "delete_bucket n m'") auto

text \<open>
  Multipart bookkeeping: whatever parts are put to an active upload, in any order and with
  repetitions, completing it returns its bucket and key and, for every part number, exactly
  the last part put under it; afterwards the upload is gone: it can't be completed again and
  takes no more parts.
\<close>

lemma multipart_parts:
  assumes u: "map_of (msUploads m) uid = Some u"
    and c: "complete_upload uid (fold (\<lambda>(i, e, sz, t) s. snd (put_part uid i e sz t s)) ps m) = (r, m')"
  shows "\<exists>u'. r = Inr u' \<and> muBucket u' = muBucket u \<and> muKey u' = muKey u \<and>
    map_of (muParts u') = map_of (muParts u) ++
      map_of (rev (map (\<lambda>(i, e, sz, t). (i, \<lparr>ptNumber = i, ptETag = e, ptSize = sz, ptUploaded = t\<rparr>)) ps)) \<and>
    fst (complete_upload uid m') = Inl ErrUploadNotFound \<and> fst (put_part uid i e sz t m') = Inl ErrUploadNotFound"
proof -
  obtain u' where u': "map_of (msUploads (fold (\<lambda>(i, e, sz, t) s. snd (put_part uid i e sz t s)) ps m)) uid = Some u'" "muBucket u' = muBucket u" "muKey u' = muKey u"
    "map_of (muParts u') = map_of (muParts u) ++
       map_of (rev (map (\<lambda>(i, e, sz, t). (i, \<lparr>ptNumber = i, ptETag = e, ptSize = sz, ptUploaded = t\<rparr>)) ps))"
    using mem.put_parts_pending [OF u] by blast
  have "r = Inr u'" using mem.complete_law [OF c] u'(1) by simp
  moreover have "fst (complete_upload uid m') = Inl ErrUploadNotFound"
    by (rule mem.complete_twice [OF c surjective_pairing])
  moreover have "fst (put_part uid i e sz t m') = Inl ErrUploadNotFound"
    by (rule mem.part_after_complete [OF c surjective_pairing])
  ultimately show ?thesis using u' by blast
qed

end
