(* ===== verification/S3Api.thy ===== *)
theory S3Api imports LocalList Metadata
begin

text \<open>
  The S3 server (src/pkg/api/s3/server.go): the size-capped reader, the parsing of ranges and
  bucket names, routing and every handler. Metadata is a memory store, the object store is the
  interface the server declares, a record of operations on a state \<open>'w\<close>. A request carries what
  net/http and encoding/xml parsed from it, and what the handler draws from its surroundings: the
  time, random bytes and the order \<open>rqOrder\<close> in which it ranges over a map of parts. A response
  is the status, the headers the handlers set and the body, whose XML text S3Xml adds.
\<close>

subsection \<open>Requests, responses, the server\<close>

record http_request =
  rqMethod :: string
  rqPath :: string
  rqQuery :: "(string \<times> string) list"
  rqHeader :: "string \<Rightarrow> string"
  rqBody :: reader
  rqEOFWithData :: bool
  rqComplete :: "(int \<times> string) list option"
  rqNow :: int
  rqRandom :: "byte list"
  rqOrder :: "int list \<Rightarrow> int list"

definition query_get :: "http_request \<Rightarrow> string \<Rightarrow> string" where
  "query_get rq k = (case map_of (rqQuery rq) k of None \<Rightarrow> '''' | Some v \<Rightarrow> v)"

record list_result =
  lrName :: string
  lrPrefix :: string
  lrDelimiter :: string
  lrMaxKeys :: nat
  lrKeyCount :: nat
  lrIsTruncated :: bool
  lrToken :: string
  lrNextToken :: string
  lrStartAfter :: string
  lrContents :: "object_meta list"
  lrPrefixes :: "string list"

datatype resp_body =
    NoBody
  | Bytes "byte list"
  | XmlError string string "int option"
  | XmlBuckets "(string \<times> int) list"
  | XmlList list_result
  | XmlInitiate string string string
  | XmlComplete string string string string

record http_response =
  rsStatus :: nat
  rsETag :: string
  rsLength :: "int option"
  rsModified :: "int option"
  rsRange :: string
  rsErrorCode :: string
  rsAllow :: string
  rsBody :: resp_body

definition response :: "nat \<Rightarrow> resp_body \<Rightarrow> http_response" where
  "response status body =
     \<lparr>rsStatus = status, rsETag = '''', rsLength = None, rsModified = None, rsRange = '''', rsErrorCode = '''',
      rsAllow = '''', rsBody = body\<rparr>"

text \<open>The object store interface; \<open>obSeekable\<close>: the readers \<open>Get\<close> returns can seek.\<close>

record 'w objs =
  obPut :: "string \<Rightarrow> string \<Rightarrow> reader \<Rightarrow> 'w \<Rightarrow> (string \<times> int) result \<times> 'w"
  obGet :: "string \<Rightarrow> string \<Rightarrow> 'w \<Rightarrow> get_result result \<times> 'w"
  obHead :: "string \<Rightarrow> string \<Rightarrow> 'w \<Rightarrow> (int \<times> string \<times> int) result \<times> 'w"
  obDelete :: "string \<Rightarrow> string \<Rightarrow> 'w \<Rightarrow> unit result \<times> 'w"
  obList :: "string \<Rightarrow> list_args \<Rightarrow> nat \<Rightarrow> 'w \<Rightarrow> (object_meta list \<times> string list \<times> bool) result \<times> 'w"
  obIsEmpty :: "string \<Rightarrow> 'w \<Rightarrow> bool result \<times> 'w"
  obRemoveBucket :: "string \<Rightarrow> 'w \<Rightarrow> unit result \<times> 'w"
  obSeekable :: bool

record limits =
  limSinglePutMax :: int
  limMinPart :: int

record 'w s3_state =
  s3Meta :: memory_store
  s3Objs :: 'w

definition singlePutMaxBytes :: int where "singlePutMaxBytes = 5 * 1024 * 1024 * 1024"
definition minMultipartPartSize :: int where "minMultipartPartSize = 5 * 1024 * 1024"
definition internalMultipartBucket :: string where "internalMultipartBucket = ''.multipart''"

definition new_with_limits :: "limits \<Rightarrow> limits" where
  "new_with_limits lim0 =
     (let lim1 = (if limSinglePutMax lim0 \<le> 0 then lim0\<lparr>limSinglePutMax := singlePutMaxBytes\<rparr> else lim0)
      in if limMinPart lim1 \<le> 0 then lim1\<lparr>limMinPart := minMultipartPartSize\<rparr> else lim1)"

definition s3_new :: limits where
  "s3_new = new_with_limits \<lparr>limSinglePutMax = 0, limMinPart = 0\<rparr>"

definition write_error :: "nat \<Rightarrow> string \<Rightarrow> string \<Rightarrow> http_response" where
  "write_error status code resource = (response status (XmlError code resource None))\<lparr>rsErrorCode := code\<rparr>"

definition write_entity_too_large :: "string \<Rightarrow> int \<Rightarrow> http_response" where
  "write_entity_too_large resource mx =
     (response 400 (XmlError ''EntityTooLarge'' resource (Some mx)))\<lparr>rsErrorCode := ''EntityTooLarge''\<rparr>"

definition internal_error :: "string \<Rightarrow> http_response" where
  "internal_error resource = write_error 500 ''InternalError'' resource"

definition quote_etag :: "string \<Rightarrow> string" where
  "quote_etag s = CHR 0x22 # s @ [CHR 0x22]"

subsection \<open>The capped reader\<close>

text \<open>
  One \<open>Read\<close> with a buffer of \<open>k\<close> bytes. The underlying reader still has \<open>cpLeft\<close> and then ends
  with \<open>cpEnd\<close>; it may hand out fewer bytes than asked (\<open>m\<close>) and report its end together with
  the last bytes or in a read of its own (\<open>early\<close>).
\<close>

record cap_reader =
  cpLeft :: "byte list"
  cpEnd :: err
  cpN :: int

definition under_read :: "nat \<Rightarrow> nat \<Rightarrow> bool \<Rightarrow> cap_reader \<Rightarrow> byte list \<times> err option \<times> cap_reader" where
  "under_read k m early c =
     (let n = min k m; left = drop n (cpLeft c) in
      (take n (cpLeft c),
       if left = [] \<and> (early \<or> cpLeft c = []) then Some (cpEnd c) else None,
       c\<lparr>cpLeft := left\<rparr>))"

definition cap_read :: "int \<Rightarrow> nat \<Rightarrow> nat \<Rightarrow> bool \<Rightarrow> cap_reader \<Rightarrow> byte list \<times> err option \<times> cap_reader" where
  "cap_read mx k m early c =
     (if cpN c \<ge> mx then ([], Some ErrTooLarge, c)
      else
        (let remain = mx - cpN c;
             k' = (if int k > remain then nat remain else k);
             (bs, e, c1) = under_read k' m early c;
             c2 = c1\<lparr>cpN := cpN c1 + int (length bs)\<rparr>
         in case e of
              Some x \<Rightarrow> (bs, Some x, c2)
            | None \<Rightarrow> (bs, if cpN c2 \<ge> mx then Some ErrTooLarge else None, c2)))"

text \<open>A consumer that reads on until an error or the end: what it got, and how it ended.\<close>

fun cap_copy :: "int \<Rightarrow> (nat \<times> nat \<times> bool) list \<Rightarrow> cap_reader \<Rightarrow> (byte list \<times> err) option" where
  "cap_copy mx [] c = None"
| "cap_copy mx ((k, m, early) # reads) c =
     (case cap_read mx k m early c of
        (bs, Some e, c1) \<Rightarrow> Some (bs, e)
      | (bs, None, c1) \<Rightarrow> map_option (\<lambda>(rest, e). (bs @ rest, e)) (cap_copy mx reads c1))"

text \<open>The capped reader as a whole, which the handler passes on.\<close>

definition capped :: "int \<Rightarrow> bool \<Rightarrow> reader \<Rightarrow> reader" where
  "capped mx early r =
     (if int (length (rd_data r)) < mx \<or> (int (length (rd_data r)) = mx \<and> early \<and> 0 < mx) then r
      else \<lparr>rd_data = take (nat mx) (rd_data r), rd_err = Some ErrTooLarge\<rparr>)"

subsection \<open>Ranges and bucket names\<close>

definition parse_range :: "string \<Rightarrow> int \<Rightarrow> (int \<times> int) option" where
  "parse_range hdr tot =
     (if \<not> has_prefix hdr ''bytes='' then None
      else
        (let sp = trim_prefix hdr ''bytes='';
             seg = trim_space (hd (split2 CHR '','' sp))
         in case split2 CHR ''-'' seg of
              [a, b] \<Rightarrow>
                if a = '''' then
                  (case parse_int b of
                     None \<Rightarrow> None
                   | Some suf \<Rightarrow>
                       if suf \<le> 0 then None
                       else (let suf' = (if suf > tot then tot else suf) in Some (tot - suf', tot - 1)))
                else
                  (case parse_int a of
                     None \<Rightarrow> None
                   | Some start \<Rightarrow>
                       if start < 0 \<or> start \<ge> tot then None
                       else if b = '''' then Some (start, tot - 1)
                       else
                         (case parse_int b of
                            None \<Rightarrow> None
                          | Some stop \<Rightarrow> if stop < start \<or> stop \<ge> tot then None else Some (start, stop)))
            | _ \<Rightarrow> None))"

definition lower_or_digit :: "char \<Rightarrow> bool" where
  "lower_or_digit c \<longleftrightarrow> (let n = of_char c :: nat in 97 \<le> n \<and> n \<le> 122 \<or> 48 \<le> n \<and> n \<le> 57)"

definition is_valid_bucket_name :: "string \<Rightarrow> bool" where
  "is_valid_bucket_name name \<longleftrightarrow>
     3 \<le> length name \<and> length name \<le> 63 \<and>
     (\<forall>c \<in> set name. lower_or_digit c \<or> c = CHR ''-'' \<or> c = CHR ''.'') \<and>
     lower_or_digit (hd name) \<and> lower_or_digit (last name)"

subsection \<open>Objects\<close>

type_synonym 'w handler = "http_request \<Rightarrow> 'w s3_state \<Rightarrow> http_response \<times> 'w s3_state"

definition handle_put_object :: "'w objs \<Rightarrow> limits \<Rightarrow> string \<Rightarrow> string \<Rightarrow> 'w handler" where
  "handle_put_object ob lim bucket key rq st =
     (if \<not> bucket_exists bucket (s3Meta st) then (write_error 404 ''NoSuchBucket'' (CHR ''/'' # bucket), st)
      else
        (let maxSingle = (if limSinglePutMax lim \<le> 0 then singlePutMaxBytes else limSinglePutMax lim);
             cl = rqHeader rq ''Content-Length'' in
         if cl \<noteq> '''' \<and> (case parse_int cl of None \<Rightarrow> False | Some v \<Rightarrow> v > maxSingle)
         then (write_entity_too_large (rqPath rq) maxSingle, st)
         else
           (case obPut ob bucket key (capped maxSingle (rqEOFWithData rq) (rqBody rq)) (s3Objs st) of
              (Inl e, w) \<Rightarrow>
                (if e = ErrTooLarge then write_entity_too_large (rqPath rq) maxSingle
                 else internal_error (rqPath rq), st\<lparr>s3Objs := w\<rparr>)
            | (Inr (etag, _), w) \<Rightarrow> ((response 200 NoBody)\<lparr>rsETag := quote_etag etag\<rparr>, st\<lparr>s3Objs := w\<rparr>))))"

definition get_error :: "err \<Rightarrow> string \<Rightarrow> http_response" where
  "get_error e path =
     (if e = ErrIntegrity then internal_error path else write_error 404 ''NoSuchKey'' path)"

text \<open>The response to a successful \<open>Get\<close>: the whole object or a range of it.\<close>

definition get_response :: "bool \<Rightarrow> http_request \<Rightarrow> get_result \<Rightarrow> http_response" where
  "get_response seekable rq g =
     (let tot = grSize g; rangeHdr = rqHeader rq ''Range'' in
      if rangeHdr = '''' then
        (response 200 (Bytes (grBody g)))\<lparr>rsETag := quote_etag (grETag g), rsLength := Some tot,
           rsModified := Some (grModified g)\<rparr>
      else
        (case parse_range rangeHdr tot of
           None \<Rightarrow> (write_error 416 ''InvalidRange'' (rqPath rq))\<lparr>rsRange := ''bytes */'' @ itoa tot\<rparr>
         | Some (start, stop) \<Rightarrow>
             if seekable then
               (let remain = stop - start + 1 in
                (response 206 (Bytes (take (nat remain) (drop (nat start) (grBody g)))))
                  \<lparr>rsETag := quote_etag (grETag g), rsModified := Some (grModified g),
                   rsRange := ''bytes '' @ itoa start @ ''-'' @ itoa stop @ ''/'' @ itoa tot, rsLength := Some remain\<rparr>)
             else write_error 501 ''NotImplemented'' (rqPath rq)))"

definition handle_get_object :: "'w objs \<Rightarrow> string \<Rightarrow> string \<Rightarrow> 'w handler" where
  "handle_get_object ob bucket key rq st =
     (case obGet ob bucket key (s3Objs st) of
        (Inl e, w) \<Rightarrow> (get_error e (rqPath rq), st\<lparr>s3Objs := w\<rparr>)
      | (Inr g, w) \<Rightarrow> (get_response (obSeekable ob) rq g, st\<lparr>s3Objs := w\<rparr>))"

definition handle_head_object :: "'w objs \<Rightarrow> string \<Rightarrow> string \<Rightarrow> 'w handler" where
  "handle_head_object ob bucket key rq st =
     (case obHead ob bucket key (s3Objs st) of
        (Inl e, w) \<Rightarrow> (get_error e (rqPath rq), st\<lparr>s3Objs := w\<rparr>)
      | (Inr (sz, etag, lastMod), w) \<Rightarrow>
          ((response 200 NoBody)\<lparr>rsETag := quote_etag etag, rsLength := Some sz, rsModified := Some lastMod\<rparr>,
           st\<lparr>s3Objs := w\<rparr>))"

definition handle_delete_object :: "'w objs \<Rightarrow> string \<Rightarrow> string \<Rightarrow> 'w handler" where
  "handle_delete_object ob bucket key rq st =
     (case obDelete ob bucket key (s3Objs st) of
        (Inl e, w) \<Rightarrow> (write_error 404 ''NoSuchKey'' (rqPath rq), st\<lparr>s3Objs := w\<rparr>)
      | (Inr _, w) \<Rightarrow> (response 204 NoBody, st\<lparr>s3Objs := w\<rparr>))"

subsection \<open>Buckets\<close>

definition handle_list_buckets :: "'w handler" where
  "handle_list_buckets rq st =
     (response 200 (XmlBuckets (map (\<lambda>b. (bName b, bCreated b)) (list_buckets (s3Meta st)))), st)"

definition handle_create_bucket :: "string \<Rightarrow> 'w handler" where
  "handle_create_bucket name rq st =
     (if \<not> is_valid_bucket_name name then (write_error 400 ''InvalidBucketName'' (CHR ''/'' # name), st)
      else if bucket_exists name (s3Meta st) then (write_error 409 ''BucketAlreadyOwnedByYou'' (CHR ''/'' # name), st)
      else
        (case create_bucket name (rqNow rq) (s3Meta st) of
           (Inl e, m) \<Rightarrow> (internal_error (CHR ''/'' # name), st\<lparr>s3Meta := m\<rparr>)
         | (Inr _, m) \<Rightarrow> (response 200 NoBody, st\<lparr>s3Meta := m\<rparr>)))"

definition handle_delete_bucket :: "'w objs \<Rightarrow> string \<Rightarrow> 'w handler" where
  "handle_delete_bucket ob name rq st =
     (let res = CHR ''/'' # name in
      if \<not> bucket_exists name (s3Meta st) then (write_error 404 ''NoSuchBucket'' res, st)
      else if active_multipart_count name (s3Meta st) > 0 then (write_error 409 ''BucketNotEmpty'' res, st)
      else
        (case obIsEmpty ob name (s3Objs st) of
           (Inl e, w1) \<Rightarrow> (internal_error res, st\<lparr>s3Objs := w1\<rparr>)
         | (Inr none, w1) \<Rightarrow>
             if \<not> none then (write_error 409 ''BucketNotEmpty'' res, st\<lparr>s3Objs := w1\<rparr>)
             else
               (case obRemoveBucket ob name w1 of
                  (Inl e, w2) \<Rightarrow> (internal_error res, st\<lparr>s3Objs := w2\<rparr>)
                | (Inr _, w2) \<Rightarrow>
                    (response 204 NoBody, st\<lparr>s3Objs := w2, s3Meta := snd (delete_bucket name (s3Meta st))\<rparr>))))"

text \<open>The token for the next page: the last key or prefix of this one.\<close>

definition next_token :: "object_meta list \<Rightarrow> string list \<Rightarrow> string" where
  "next_token objects prefixes =
     (let lastKey = (if objects = [] then '''' else omKey (last objects)) in
      if prefixes \<noteq> [] \<and> last prefixes > lastKey then last prefixes else lastKey)"

definition max_keys_of :: "string \<Rightarrow> nat" where
  "max_keys_of s = (case (if s = '''' then None else parse_int s) of
     Some mk \<Rightarrow> if mk > 0 then nat mk else 1000 | None \<Rightarrow> 1000)"

definition handle_list_objects :: "'w objs \<Rightarrow> string \<Rightarrow> 'w handler" where
  "handle_list_objects ob bucket rq st =
     (if \<not> bucket_exists bucket (s3Meta st) then (write_error 404 ''NoSuchBucket'' (CHR ''/'' # bucket), st)
      else
        (let token = query_get rq ''continuation-token'';
             startAfter = (if token \<noteq> '''' then token else query_get rq ''start-after'');
             maxKeys = max_keys_of (query_get rq ''max-keys'');
             a = \<lparr>laPrefix = query_get rq ''prefix'', laStartAfter = startAfter, laDelimiter = query_get rq ''delimiter''\<rparr>
         in case obList ob bucket a maxKeys (s3Objs st) of
              (Inl e, w) \<Rightarrow> (internal_error (rqPath rq), st\<lparr>s3Objs := w\<rparr>)
            | (Inr (objects, prefixes, truncated), w) \<Rightarrow>
                (response 200 (XmlList
                   \<lparr>lrName = bucket, lrPrefix = laPrefix a, lrDelimiter = laDelimiter a, lrMaxKeys = maxKeys,
                    lrKeyCount = length objects + length prefixes, lrIsTruncated = truncated, lrToken = token,
                    lrNextToken = (if truncated then next_token objects prefixes else ''''), lrStartAfter = startAfter,
                    lrContents = objects, lrPrefixes = prefixes\<rparr>), st\<lparr>s3Objs := w\<rparr>)))"

definition handle_bucket :: "'w objs \<Rightarrow> string \<Rightarrow> 'w handler" where
  "handle_bucket ob name rq st =
     (if rqMethod rq = ''GET'' then
        (if query_get rq ''list-type'' = ''2'' then handle_list_objects ob name rq st
         else (write_error 501 ''NotImplemented'' (rqPath rq), st))
      else if rqMethod rq = ''PUT'' then handle_create_bucket name rq st
      else if rqMethod rq = ''DELETE'' then handle_delete_bucket ob name rq st
      else (write_error 501 ''NotImplemented'' (rqPath rq), st))"

subsection \<open>Multipart uploads\<close>

definition part_key :: "string \<Rightarrow> string \<Rightarrow> string \<Rightarrow> int \<Rightarrow> string" where
  "part_key bucket key uid n = bucket @ ''/'' @ key @ ''/'' @ uid @ ''/part.'' @ itoa n"

definition handle_initiate :: "string \<Rightarrow> string \<Rightarrow> 'w handler" where
  "handle_initiate bucket key rq st =
     (if \<not> bucket_exists bucket (s3Meta st) then (write_error 404 ''NoSuchBucket'' (CHR ''/'' # bucket), st)
      else
        (case initiate_upload bucket key (rqRandom rq) (rqNow rq) (s3Meta st) of
           (uid, m) \<Rightarrow> (response 200 (XmlInitiate bucket key uid), st\<lparr>s3Meta := m\<rparr>)))"

definition handle_upload_part :: "'w objs \<Rightarrow> string \<Rightarrow> string \<Rightarrow> string \<Rightarrow> 'w handler" where
  "handle_upload_part ob bucket key uid rq st =
     (case parse_int (query_get rq ''partNumber'') of
        None \<Rightarrow> (write_error 400 ''InvalidArgument'' (rqPath rq), st)
      | Some partNum \<Rightarrow>
          if partNum < 1 \<or> partNum > 10000 then (write_error 400 ''InvalidArgument'' (rqPath rq), st)
          else
            (case get_upload uid (s3Meta st) of
               Inl e \<Rightarrow> (write_error 404 ''NoSuchUpload'' (rqPath rq), st)
             | Inr _ \<Rightarrow>
                 (case obPut ob internalMultipartBucket (part_key bucket key uid partNum) (rqBody rq) (s3Objs st) of
                    (Inl e, w) \<Rightarrow> (internal_error (rqPath rq), st\<lparr>s3Objs := w\<rparr>)
                  | (Inr (etag, sz), w) \<Rightarrow>
                      (case put_part uid partNum etag sz (rqNow rq) (s3Meta st) of
                         (Inl e, m) \<Rightarrow> (internal_error (rqPath rq), st\<lparr>s3Objs := w, s3Meta := m\<rparr>)
                       | (Inr _, m) \<Rightarrow>
                           ((response 200 NoBody)\<lparr>rsETag := quote_etag etag\<rparr>, st\<lparr>s3Objs := w, s3Meta := m\<rparr>)))))"

text \<open>The listed parts exist with the given ETags.\<close>

definition parts_match :: "multipart_upload \<Rightarrow> (int \<times> string) list \<Rightarrow> bool" where
  "parts_match u req \<longleftrightarrow>
     (\<forall>(n, etag) \<in> set req. case map_of (muParts u) n of None \<Rightarrow> False | Some p \<Rightarrow> ptETag p = trim_char CHR 0x22 etag)"

definition int64 :: "int \<Rightarrow> int" where
  "int64 n = sint (word_of_int n :: 64 word)"

definition total_size :: "multipart_upload \<Rightarrow> (int \<times> string) list \<Rightarrow> int" where
  "total_size u req =
     foldl (\<lambda>t (n, _). case map_of (muParts u) n of None \<Rightarrow> t | Some p \<Rightarrow> int64 (t + ptSize p)) 0 req"

definition last_num :: "(int \<times> string) list \<Rightarrow> int" where
  "last_num req = foldl (\<lambda>m (n, _). if n > m then n else m) 0 req"

definition part_too_small :: "limits \<Rightarrow> multipart_upload \<Rightarrow> (int \<times> string) list \<Rightarrow> bool" where
  "part_too_small lim u req \<longleftrightarrow>
     length req > 1 \<and> total_size u req \<ge> limMinPart lim \<and>
     (\<exists>(n, _) \<in> set req. n \<noteq> last_num req \<and>
        (case map_of (muParts u) n of None \<Rightarrow> 0 | Some p \<Rightarrow> ptSize p) < limMinPart lim)"

text \<open>Opening the parts one after the other: their contents, in order.\<close>

fun open_parts :: "'w objs \<Rightarrow> string \<Rightarrow> string \<Rightarrow> string \<Rightarrow> int list \<Rightarrow> 'w \<Rightarrow> byte list result \<times> 'w" where
  "open_parts ob bucket key uid [] w = (Inr [], w)"
| "open_parts ob bucket key uid (i # is) w =
     (case obGet ob internalMultipartBucket (part_key bucket key uid i) w of
        (Inl e, w1) \<Rightarrow> (Inl e, w1)
      | (Inr g, w1) \<Rightarrow>
          (case open_parts ob bucket key uid is w1 of
             (Inl e, w2) \<Rightarrow> (Inl e, w2)
           | (Inr bs, w2) \<Rightarrow> (Inr (grBody g @ bs), w2)))"

definition part_numbers :: "multipart_upload \<Rightarrow> int list" where
  "part_numbers u = map int [1..<Suc (length (muParts u))]"

definition multipart_etag :: "multipart_upload \<Rightarrow> string" where
  "multipart_etag u =
     hex_encode (md5 (concat (map (\<lambda>i. case map_of (muParts u) i of
        None \<Rightarrow> []
      | Some p \<Rightarrow> (case hex_decode (trim_char CHR 0x22 (ptETag p)) of None \<Rightarrow> [] | Some digest \<Rightarrow> digest)) (part_numbers u))))
     @ ''-'' @ itoa (int (length (muParts u)))"

definition delete_parts :: "'w objs \<Rightarrow> string \<Rightarrow> string \<Rightarrow> string \<Rightarrow> int list \<Rightarrow> 'w \<Rightarrow> 'w" where
  "delete_parts ob bucket key uid ns w =
     fold (\<lambda>i w. snd (obDelete ob internalMultipartBucket (part_key bucket key uid i) w)) ns w"

definition handle_complete :: "'w objs \<Rightarrow> limits \<Rightarrow> string \<Rightarrow> string \<Rightarrow> string \<Rightarrow> 'w handler" where
  "handle_complete ob lim bucket key uid rq st =
     (case rqComplete rq of
        None \<Rightarrow> (write_error 400 ''MalformedXML'' (rqPath rq), st)
      | Some req \<Rightarrow>
          (case get_upload uid (s3Meta st) of
             Inl e \<Rightarrow> (write_error 404 ''NoSuchUpload'' (rqPath rq), st)
           | Inr u \<Rightarrow>
               if \<not> parts_match u req then (write_error 400 ''InvalidPart'' (rqPath rq), st)
               else if part_too_small lim u req then (write_error 400 ''EntityTooSmall'' (rqPath rq), st)
               else
                 (case open_parts ob bucket key uid (part_numbers u) (s3Objs st) of
                    (Inl e, w1) \<Rightarrow> (internal_error (rqPath rq), st\<lparr>s3Objs := w1\<rparr>)
                  | (Inr data, w1) \<Rightarrow>
                      (case obPut ob bucket key (bytes_reader data) w1 of
                         (Inl e, w2) \<Rightarrow> (internal_error (rqPath rq), st\<lparr>s3Objs := w2\<rparr>)
                       | (Inr _, w2) \<Rightarrow>
                           (let w3 = delete_parts ob bucket key uid (part_numbers u) w2 in
                            case complete_upload uid (s3Meta st) of
                              (Inl e, m) \<Rightarrow> (internal_error (rqPath rq), st\<lparr>s3Objs := w3, s3Meta := m\<rparr>)
                            | (Inr _, m) \<Rightarrow>
                                (response 200 (XmlComplete (CHR ''/'' # bucket @ ''/'' @ key) bucket key
                                   (quote_etag (multipart_etag u))), st\<lparr>s3Objs := w3, s3Meta := m\<rparr>))))))"

definition handle_abort :: "'w objs \<Rightarrow> string \<Rightarrow> string \<Rightarrow> string \<Rightarrow> 'w handler" where
  "handle_abort ob bucket key uid rq st =
     (case get_upload uid (s3Meta st) of
        Inl e \<Rightarrow> (write_error 404 ''NoSuchUpload'' (rqPath rq), st)
      | Inr u \<Rightarrow>
          (let w = delete_parts ob bucket key uid (rqOrder rq (map fst (muParts u))) (s3Objs st) in
           case abort_upload uid (s3Meta st) of
             (Inl e, m) \<Rightarrow> (internal_error (rqPath rq), st\<lparr>s3Objs := w, s3Meta := m\<rparr>)
           | (Inr _, m) \<Rightarrow> (response 204 NoBody, st\<lparr>s3Objs := w, s3Meta := m\<rparr>)))"

subsection \<open>Routing\<close>

definition handle_object :: "'w objs \<Rightarrow> limits \<Rightarrow> string \<Rightarrow> string \<Rightarrow> 'w handler" where
  "handle_object ob lim bucket key rq st =
     (let uid = query_get rq ''uploadId''; mth = rqMethod rq in
      if uid \<noteq> '''' \<and> mth = ''POST'' then handle_complete ob lim bucket key uid rq st
      else if uid \<noteq> '''' \<and> mth = ''DELETE'' then handle_abort ob bucket key uid rq st
      else if uid \<noteq> '''' \<and> mth = ''PUT'' \<and> query_get rq ''partNumber'' \<noteq> '''' then handle_upload_part ob bucket key uid rq st
      else if map_of (rqQuery rq) ''uploads'' \<noteq> None \<and> mth = ''POST'' then handle_initiate bucket key rq st
      else if mth = ''PUT'' then handle_put_object ob lim bucket key rq st
      else if mth = ''GET'' then handle_get_object ob bucket key rq st
      else if mth = ''HEAD'' then handle_head_object ob bucket key rq st
      else if mth = ''DELETE'' then handle_delete_object ob bucket key rq st
      else (write_error 405 ''MethodNotAllowed'' (rqPath rq), st))"

definition route :: "'w objs \<Rightarrow> limits \<Rightarrow> 'w handler" where
  "route ob lim rq st =
     (if rqPath rq = ''/'' then
        (if rqMethod rq = ''GET'' then handle_list_buckets rq st
         else ((response 405 NoBody)\<lparr>rsAllow := ''GET''\<rparr>, st))
      else
        (let parts = split2 CHR ''/'' (trim_prefix (rqPath rq) ''/'');
             bucketName = hd parts;
             key = (case parts of [_, k] \<Rightarrow> k | _ \<Rightarrow> '''') in
         if key = '''' then handle_bucket ob bucketName rq st
         else handle_object ob lim bucketName key rq st))"

text \<open>The store the server is wired to.\<close>

definition localfs_objs :: "localfs \<Rightarrow> json_codec \<Rightarrow> world objs" where
  "localfs_objs l jc =
     \<lparr>obPut = put l jc, obGet = get l jc, obHead = head l jc, obDelete = delete l jc,
      obList = list_objects l jc, obIsEmpty = is_bucket_empty l, obRemoveBucket = remove_bucket l, obSeekable = True\<rparr>"

end
