(* ===== verification/ObjectStore.thy ===== *)
theory ObjectStore imports ListProps
begin

text \<open>
  The contract of an object store the S3 server relies on, as a locale: a map from locations to
  contents that puts, gets and deletes read and update, with the places where there is room for
  a put. It is interpreted on the plain
  \<open>LocalFS\<close> for states in which no system call fails.
\<close>

locale object_store =
  fixes ok :: "'w \<Rightarrow> bool"
    and loc :: "string \<Rightarrow> string \<Rightarrow> 'i option"
    and content :: "'w \<Rightarrow> 'i \<Rightarrow> byte list option"
    and room :: "'w \<Rightarrow> 'i \<Rightarrow> bool"
    and put_op :: "string \<Rightarrow> string \<Rightarrow> reader \<Rightarrow> 'w \<Rightarrow> (string \<times> int) result \<times> 'w"
    and get_op :: "string \<Rightarrow> string \<Rightarrow> 'w \<Rightarrow> get_result result \<times> 'w"
    and delete_op :: "string \<Rightarrow> string \<Rightarrow> 'w \<Rightarrow> unit result \<times> 'w"
  assumes put_law: "ok w \<Longrightarrow> loc b k = Some i \<Longrightarrow> put_op b k r w = (Inr (etag, n), w') \<Longrightarrow>
      ok w' \<and> content w' = (content w)(i \<mapsto> rd_data r) \<and> rd_err r = None \<and>
      etag = hex_encode (md5 (rd_data r)) \<and> n = int (length (rd_data r))"
    and put_err_law: "ok w \<Longrightarrow> loc b k = Some i \<Longrightarrow> put_op b k r w = (Inl e, w') \<Longrightarrow>
      ok w' \<and> (\<forall>b k j. loc b k = Some j \<longrightarrow> content w' j = content w j)"
    and put_room_law: "ok w \<Longrightarrow> loc b k = Some i \<Longrightarrow> room w i \<Longrightarrow> rd_err r = None \<Longrightarrow> is_ok (fst (put_op b k r w))"
    and get_law: "ok w \<Longrightarrow> loc b k = Some i \<Longrightarrow> get_op b k w = (res, w') \<Longrightarrow>
      ok w' \<and> content w' = content w \<and> room w' = room w \<and>
      (case res of
         Inl e \<Rightarrow> content w i = None \<and> e \<noteq> ErrIntegrity
       | Inr g \<Rightarrow> content w i = Some (grBody g) \<and> grSize g = int (length (grBody g)) \<and>
           grETag g = hex_encode (md5 (grBody g)))"
    and delete_law: "ok w \<Longrightarrow> loc b k = Some i \<Longrightarrow> delete_op b k w = (dres, w') \<Longrightarrow>
      ok w' \<and> content w' = (if is_ok dres then (content w)(i := None) else content w)"

subsection \<open>Operations when no call fails\<close>

lemma mkdir_from_calm: "mkdir_from pre cs w = (r, w') \<Longrightarrow> fs_faults w = [] \<Longrightarrow> fs_faults w' = []"
  by (induction pre cs w rule: mkdir_from.induct) (auto split: option.splits node.splits)

lemma os_mkdir_all_calm: "os_mkdir_all p w = (r, w') \<Longrightarrow> fs_faults w = [] \<Longrightarrow> fs_faults w' = []"
  unfolding os_mkdir_all_def by (rule mkdir_from_calm)

lemma os_create_temp_calm: "os_create_temp d pre suf w = (r, w') \<Longrightarrow> fs_faults w = [] \<Longrightarrow> fs_faults w' = []"
  by (auto simp: os_create_temp_def Let_def split: option.splits node.splits)

lemma os_copy_calm: "os_copy p off rd w = (n, e, w') \<Longrightarrow> fs_faults w = [] \<Longrightarrow> fs_faults w' = []"
  by (auto simp: os_copy_def os_write_at_def split: option.splits node.splits)

lemma os_rename_calm: "os_rename p q w = (r, w') \<Longrightarrow> fs_faults w = [] \<Longrightarrow> fs_faults w' = []"
  by (auto simp: os_rename_def split: option.splits node.splits if_splits)

lemma os_remove_calm: "os_remove p w = (r, w') \<Longrightarrow> fs_faults w = [] \<Longrightarrow> fs_faults w' = []"
  by (auto simp: os_remove_def split: option.splits node.splits if_splits)

lemma io_ignore_calm [simp]:
  "fs_faults w = [] \<Longrightarrow> fs_faults (io_ignore (os_remove p) w) = []"
  "fs_faults w = [] \<Longrightarrow> fs_faults (io_ignore (os_chtimes p t) w) = []"
  by (auto simp: io_ignore_def os_remove_def os_chtimes_def split: option.splits node.splits)

lemma observe_calm [simp]: "fs_faults (observe l op n f w) = fs_faults w"
  by (simp add: observe_def)

lemma put_plain_tmp_calm:
  assumes "put_plain_tmp l path tmp r w = (res, w')" and "fs_faults w = []"
  shows "fs_faults w' = []"
proof -
  obtain n ce w1 where cp: "os_copy tmp 0 r w = (n, ce, w1)" by (cases "os_copy tmp 0 r w")
  have q1: "fs_faults w1 = []" using cp assms(2) by (rule os_copy_calm)
  have "and_also (if_ok (ce, w1) (os_sync tmp)) (os_close tmp) = (ce, w1)"
    using q1 by (cases ce) (simp_all add: os_sync_def os_close_def)
  with assms cp q1 show ?thesis
    by (cases ce)
      (auto simp: put_plain_tmp_def fail_obs_def split: prod.splits sum.splits dest: os_rename_calm)
qed

lemma put_plain_calm:
  assumes "put_plain l bucket key r w = (res, w')" and q: "fs_faults w = []"
  shows "fs_faults w' = []"
proof (cases "object_path l bucket key")
  case (Inl e)
  with assms show ?thesis by (auto simp: put_plain_def fail_obs_def)
next
  case (Inr p)
  obtain rm w1 where mk: "os_mkdir_all (butlast (os_path p)) w = (rm, w1)" by fastforce
  obtain rt w2 where ct: "os_create_temp (butlast (os_path p)) ''.put-'' '''' w1 = (rt, w2)" by fastforce
  have q1: "fs_faults w1 = []" using mk q by (rule os_mkdir_all_calm)
  have q2: "fs_faults w2 = []" using ct q1 by (rule os_create_temp_calm)
  show ?thesis
    using assms(1) Inr mk ct q1 q2
    by (cases rm; cases rt) (auto simp: put_plain_def Let_def fail_obs_iff io_defer_iff dest!: put_plain_tmp_calm)
qed

lemma remove_empty_parents_calm: "fs_faults w = [] \<Longrightarrow> fs_faults (remove_empty_parents dir stop w) = []"
proof (induction dir stop w rule: remove_empty_parents.induct)
  case (1 dir stop w)
  obtain rd w1 where rd: "os_read_dir dir w = (rd, w1)" by fastforce
  have w1: "w1 = w" using rd 1(2) by (auto simp: os_read_dir_def split: option.splits node.splits)
  obtain rm w2 where rm: "os_remove dir w1 = (rm, w2)" by fastforce
  have q2: "fs_faults w2 = []" using rm 1(2) unfolding w1 by (rule os_remove_calm)
  show ?case
    using 1 rd rm q2 w1 by (subst remove_empty_parents.simps) (auto split: sum.split)
qed

lemma remove_empty_parents_tree: "tree_ok w \<Longrightarrow> tree_ok (remove_empty_parents dir stop w)"
proof (induction dir stop w rule: remove_empty_parents.induct)
  case (1 dir stop w)
  obtain rd w1 where rd: "os_read_dir dir w = (rd, w1)" by fastforce
  have t1: "tree_ok w1" using tree_ok_cong [of w1 w] os_read_dir_files [OF rd] 1(2) by (simp add: lookup_def fun_eq_iff)
  obtain rm w2 where rm: "os_remove dir w1 = (rm, w2)" by fastforce
  have t2: "tree_ok w2" using rm t1 by (rule os_remove_tree_ok)
  show ?case
    using 1 rd rm t1 t2 by (subst remove_empty_parents.simps) (auto split: sum.split)
qed

lemma get_plain_calm:
  assumes p: "object_path l bucket key = Inr p" and q: "fs_faults w = []"
    and g: "get_plain l bucket key w = (res, w')"
  shows "fs_faults w' = [] \<and> lookup w' = lookup w \<and>
    (case res of
       Inl e \<Rightarrow> file_at w (os_path p) = None \<and> e \<noteq> ErrIntegrity
     | Inr g \<Rightarrow> file_at w (os_path p) = Some (grBody g) \<and> grSize g = int (length (grBody g)) \<and>
         grETag g = hex_encode (md5 (grBody g)))"
proof (cases "lookup w (os_path p)")
  case None
  with p q g show ?thesis
    by (auto simp: get_plain_def Let_def fail_obs_iff file_at_def missing_err_def)
next
  case (Some f)
  show ?thesis
  proof (cases f)
    case DirN
    have "md5_file (os_path p) w = (Inl (OsErr EISDIR), w)"
      using q Some DirN by (simp add: md5_file_def io_bind_def io_defer_def os_read_from_def)
    with p q g Some DirN show ?thesis
      by (auto simp: get_plain_def Let_def fail_obs_iff file_at_def)
  next
    case (FileN c t)
    then have "lookup w (os_path p) = Some (FileN c t)" using Some by simp
    from get_plain_quiet [OF p q this] g this q show ?thesis by (auto simp: file_at_def)
  qed
qed

subsection \<open>The plain store\<close>

text \<open>
  The states: no call fails, the disk is a tree, and no file has the name of a manifest. The
  locations: a bucket of one element and a key whose file name is neither a manifest's nor that
  of a temporary file.
\<close>

definition plain_ok :: "localfs \<Rightarrow> world \<Rightarrow> bool" where
  "plain_ok l w \<longleftrightarrow> \<not> lSealed l \<and> abs_base (lBase l) \<and> fs_faults w = [] \<and> tree_ok w \<and>
     (\<forall>p. p \<noteq> [] \<longrightarrow> last p = ManifestFilename \<longrightarrow> file_at w p = None)"

definition plain_loc :: "localfs \<Rightarrow> string \<Rightarrow> string \<Rightarrow> fpath option" where
  "plain_loc l bucket key =
     (let p = obj_elems (lBase l) bucket key in
      if good_elem bucket \<and> last p \<noteq> ManifestFilename \<and> \<not> temp_named p then Some p else None)"

lemma plain_locD:
  assumes "plain_loc l bucket key = Some i"
  shows "good_elem bucket" "i = obj_elems (lBase l) bucket key" "last i \<noteq> ManifestFilename" "\<not> temp_named i" "i \<noteq> []"
  using assms by (auto simp: plain_loc_def Let_def obj_elems_def split: if_splits)

lemma plain_no_manifest:
  assumes "plain_ok l w" and "good_elem bucket"
  shows "sealed_manifest l jc bucket key w = (None, w)"
proof (rule sealed_manifest_absent)
  show "abs_base (lBase l)" "fs_faults w = []" using assms by (simp_all add: plain_ok_def)
  show "file_at w (meta_elems (lBase l) bucket key) = None"
    using assms by (simp add: plain_ok_def meta_elems_def)
qed (fact assms)

lemma manifest_not_temp: "temp_named p \<Longrightarrow> last p \<noteq> ManifestFilename"
  by (auto simp: temp_named_def ManifestFilename_def)

text \<open>A place for an object: no directory is in its place, and no file where a directory must be.\<close>

definition plain_room :: "world \<Rightarrow> fpath \<Rightarrow> bool" where
  "plain_room w i \<longleftrightarrow> lookup w i \<noteq> Some DirN \<and> (\<forall>n \<in> {1..<length i}. \<not> is_file (lookup w (take n i)))"

lemma mkdir_from_succeeds:
  "fs_faults w = [] \<Longrightarrow> lookup w pre = Some DirN \<Longrightarrow> \<forall>n \<in> {1..length cs}. \<not> is_file (lookup w (pre @ take n cs)) \<Longrightarrow>
   \<exists>w'. mkdir_from pre cs w = (Inr (), w') \<and> fs_faults w' = [] \<and> lookup w' (pre @ cs) = Some DirN \<and>
     (\<forall>q. length pre + length cs < length q \<longrightarrow> lookup w' q = lookup w q)"
proof (induction pre cs w rule: mkdir_from.induct)
  case (1 pre w)
  then show ?case by simp
next
  case (2 pre c cs w)
  have next_ok: "\<forall>n \<in> {1..length cs}. \<not> is_file (lookup w ((pre @ [c]) @ take n cs))"
    using 2(5) by (auto dest!: bspec [of _ _ "Suc _"])
  show ?case
  proof (cases "lookup w (pre @ [c])")
    case (Some nd)
    then have "nd = DirN" using bspec [OF 2(5), of 1] by (cases nd) auto
    with Some have s: "lookup w (pre @ [c]) = Some DirN" by simp
    from 2(2) [OF s refl 2(3) s next_ok] s show ?thesis by simp
  next
    case None
    let ?w = "put_node (pre @ [c]) DirN w"
    have lk: "lookup ?w = (lookup w)(pre @ [c] \<mapsto> DirN)" by (rule lookup_put_node) simp
    have "\<forall>n \<in> {1..length cs}. \<not> is_file (lookup ?w ((pre @ [c]) @ take n cs))"
      using next_ok by (simp add: lk)
    moreover have "fs_faults ?w = []" "lookup ?w (pre @ [c]) = Some DirN" using 2(3) by (simp_all add: lk)
    moreover have tk: "os_tick w = (Inr (), w)" using 2(3) by (simp add: os_tick_def)
    ultimately obtain w' where w': "mkdir_from (pre @ [c]) cs ?w = (Inr (), w')" "fs_faults w' = []"
        "lookup w' ((pre @ [c]) @ cs) = Some DirN" "\<forall>q. length (pre @ [c]) + length cs < length q \<longrightarrow> lookup w' q = lookup ?w q"
      using 2(1) [OF None tk [symmetric] refl] by blast
    have "lookup w' q = lookup w q" if "length pre + length (c # cs) < length q" for q
      using w'(4) that by (auto simp: lk)
    with w' None tk show ?thesis by simp
  qed
qed

lemma put_plain_tmp_succeeds:
  assumes q: "fs_faults w = []" and tmp: "lookup w tmp = Some (FileN [] t)" and r: "rd_err r = None"
    and ne: "tmp \<noteq> path" "path \<noteq> []" "tmp \<noteq> butlast path"
    and path: "lookup w path \<noteq> Some DirN" and dir: "lookup w (butlast path) = Some DirN"
  shows "is_ok (fst (put_plain_tmp l path tmp r w))"
proof -
  have tne: "tmp \<noteq> []" using tmp by auto
  let ?w1 = "put_node tmp (FileN (write_at [] 0 (rd_data r)) (fs_clock w)) w"
  have cp: "os_copy tmp 0 r w = (length (rd_data r), None, ?w1)"
    using q tmp r by (simp add: os_copy_def os_write_at_def io_bind_def os_tick_def)
  have sc: "and_also (if_ok (None, ?w1) (os_sync tmp)) (os_close tmp) = (None, ?w1)"
    using q by (simp add: os_sync_def os_close_def os_tick_def)
  have lk: "lookup ?w1 = (lookup w)(tmp \<mapsto> FileN (write_at [] 0 (rd_data r)) (fs_clock w))"
    using tne by (rule lookup_put_node)
  have "is_ok (fst (os_rename tmp path ?w1))"
    using q ne path dir by (auto simp: os_rename_def io_bind_def os_tick_def lk split: option.split node.split)
  then obtain u w3 where "os_rename tmp path ?w1 = (Inr u, w3)"
    by (cases "os_rename tmp path ?w1") (auto simp: is_ok_iff)
  then show ?thesis by (simp only: put_plain_tmp_def cp prod.case sc option.case sum.case fst_conv is_ok.simps)
qed

lemma put_plain_succeeds:
  assumes p: "object_path l bucket key = Inr p" "os_path p \<noteq> []" and q: "fs_faults w = []"
    and room: "plain_room w (os_path p)" and nt: "\<not> temp_named (os_path p)" and r: "rd_err r = None"
  shows "is_ok (fst (put_plain l bucket key r w))"
proof -
  let ?p = "os_path p" and ?d = "butlast (os_path p)"
  have "\<forall>n \<in> {1..length ?d}. \<not> is_file (lookup w ([] @ take n ?d))"
    using room p(2) by (auto simp: plain_room_def take_butlast less_Suc_eq_le [symmetric])
  from mkdir_from_succeeds [OF q lookup_Nil this] obtain w1 where
    mk: "os_mkdir_all ?d w = (Inr (), w1)" "fs_faults w1 = []" "lookup w1 ?d = Some DirN"
    and same: "\<And>q. length ?d < length q \<Longrightarrow> lookup w1 q = lookup w q"
    by (auto simp: os_mkdir_all_def)
  obtain rt w2 where ct: "os_create_temp ?d ''.put-'' '''' w1 = (rt, w2)" by fastforce
  have "\<exists>tmp. rt = Inr tmp" using ct mk by (auto simp: os_create_temp_def io_bind_def os_tick_def Let_def)
  then obtain tmp where t: "rt = Inr tmp" by blast
  from ct mk t have tmp: "w2 = put_node tmp (FileN [] (fs_clock w1)) w1"
    by (auto simp: os_create_temp_def io_bind_def os_tick_def Let_def)
  obtain k where tn: "tmp = ?d @ [''.put-'' @ nat_to_dec k]" using os_create_temp_name [OF ct [unfolded t]] by auto
  then have "temp_named tmp" by (simp add: temp_named_def)
  with nt have ne: "tmp \<noteq> ?p" by auto
  have tne: "tmp \<noteq> []" "tmp \<noteq> ?d" using tn by auto
  have lk: "lookup w2 = (lookup w1)(tmp \<mapsto> FileN [] (fs_clock w1))" unfolding tmp using tne(1) by (rule lookup_put_node)
  have "is_ok (fst (put_plain_tmp l ?p tmp r w2))"
  proof (rule put_plain_tmp_succeeds)
    show "lookup w2 ?p \<noteq> Some DirN" using room same [of ?p] p(2) ne by (simp add: lk plain_room_def)
    show "fs_faults w2 = []" using mk(2) by (simp add: tmp)
    show "lookup w2 tmp = Some (FileN [] (fs_clock w1))" by (simp add: lk)
    show "lookup w2 ?d = Some DirN" using mk(3) tne(2) by (simp add: lk)
  qed (use r ne tne p in simp_all)
  then show ?thesis using p(1) mk ct t
    by (cases "put_plain_tmp l ?p tmp r w2") (simp add: put_plain_def Let_def io_defer_def)
qed

interpretation plain: object_store "plain_ok l" "plain_loc l" file_at plain_room "put l jc" "get l jc" "delete l jc" for l jc
proof
  fix w b k i r etag n w' e res
  assume ok: "plain_ok l w" and loc: "plain_loc l b k = Some i"
  note i = plain_locD [OF loc]
  have base: "abs_base (lBase l)" and mode: "\<not> lSealed l" and q: "fs_faults w = []" and tree: "tree_ok w"
    using ok by (simp_all add: plain_ok_def)
  obtain p where p: "object_path l b k = Inr p" "os_path p = i"
    using object_path_ok [OF base i(1)] i(2) by blast
  show "put l jc b k r w = (Inr (etag, n), w') \<Longrightarrow>
      plain_ok l w' \<and> file_at w' = (file_at w)(i \<mapsto> rd_data r) \<and> rd_err r = None \<and>
      etag = hex_encode (md5 (rd_data r)) \<and> n = int (length (rd_data r))"
  proof -
    assume "put l jc b k r w = (Inr (etag, n), w')"
    then have pp: "put_plain l b k r w = (Inr (etag, n), w')" using mode by (simp add: put_def)
    note st = put_plain_stored [OF pp p(1), unfolded p(2), OF i(4)]
    then show ?thesis
      using ok i put_plain_calm [OF pp q] put_plain_tree_ok [OF pp tree] by (auto simp: plain_ok_def)
  qed
  show "put l jc b k r w = (Inl e, w') \<Longrightarrow>
      plain_ok l w' \<and> (\<forall>b k j. plain_loc l b k = Some j \<longrightarrow> file_at w' j = file_at w j)"
  proof -
    assume "put l jc b k r w = (Inl e, w')"
    then have pp: "put_plain l b k r w = (Inl e, w')" using mode by (simp add: put_def)
    obtain tmp where t: "file_at w tmp = None" "temp_named tmp" "keeps {tmp} w w'"
      using put_plain_failed_keeps [OF pp] by blast
    have "file_at w' x = None" if "x \<noteq> []" "last x = ManifestFilename" for x
    proof -
      have "x \<noteq> tmp" using that manifest_not_temp [OF t(2)] by auto
      then show ?thesis using t(3) that ok by (simp add: keeps_def plain_ok_def)
    qed
    then have "plain_ok l w'"
      using base mode put_plain_calm [OF pp q] put_plain_tree_ok [OF pp tree] by (simp add: plain_ok_def)
    moreover have "file_at w' j = file_at w j" if "plain_loc l b k = Some j" for b k j
      using plain_locD(4) [OF that] t by (auto simp: keeps_def)
    ultimately show ?thesis by blast
  qed
  show "plain_room w i \<Longrightarrow> rd_err r = None \<Longrightarrow> is_ok (fst (put l jc b k r w))"
    using put_plain_succeeds [OF p(1) _ q, unfolded p(2), OF i(5) _ i(4)] mode by (simp add: put_def)
  show "get l jc b k w = (res, w') \<Longrightarrow> plain_ok l w' \<and> file_at w' = file_at w \<and> plain_room w' = plain_room w \<and>
      (case res of
         Inl e \<Rightarrow> file_at w i = None \<and> e \<noteq> ErrIntegrity
       | Inr g \<Rightarrow> file_at w i = Some (grBody g) \<and> grSize g = int (length (grBody g)) \<and>
           grETag g = hex_encode (md5 (grBody g)))" for res
  proof -
    assume "get l jc b k w = (res, w')"
    then have gp: "get_plain l b k w = (res, w')" by (simp add: get_def plain_no_manifest [OF ok i(1)])
    note g = get_plain_calm [OF p(1) q gp, unfolded p(2)]
    then have "file_at w' = file_at w" "tree_ok w'" "plain_room w' = plain_room w"
      using tree tree_ok_cong by (auto simp: file_at_def plain_room_def fun_eq_iff)
    with g ok show ?thesis by (simp add: plain_ok_def)
  qed
  show "delete l jc b k w = (res, w') \<Longrightarrow>
      plain_ok l w' \<and> file_at w' = (if is_ok res then (file_at w)(i := None) else file_at w)" for res
  proof -
    assume del: "delete l jc b k w = (res, w')"
    note eff = delete_plain_effect [OF plain_no_manifest [OF ok i(1)] del p(1), unfolded p(2)]
    have f: "file_at w' = (if is_ok res then (file_at w)(i := None) else file_at w)"
      using eff by (cases res) auto
    obtain r2 w2 where rm: "os_remove i w = (r2, w2)" by fastforce
    have "fs_faults w2 = []" "tree_ok w2" using os_remove_calm [OF rm q] os_remove_tree_ok [OF rm tree] by auto
    then have "fs_faults w' = []" "tree_ok w'"
      using del p rm
      by (cases r2; auto simp: delete_def plain_no_manifest [OF ok i(1)] fail_obs_iff
          remove_empty_parents_calm remove_empty_parents_tree)+
    with f ok show ?thesis by (auto simp: plain_ok_def)
  qed
qed

end
