(* ===== verification/S3Props.thy ===== *)
theory S3Props imports S3Api ObjectStore
begin

text \<open>
  Properties of the S3 server's requests: the size cap, ranges, bucket names, and the handlers
  of objects and buckets over the object store's contract.
\<close>

subsection \<open>The capped reader\<close>

lemma take_own_length: "m = length (take n xs) \<Longrightarrow> take n xs = take m xs"
  by (simp add: min_def)

lemma take_split_at: "k = length (take n xs) + j \<Longrightarrow> take k xs = take n xs @ take j (drop n xs)"
  by (cases "n \<le> length xs") (simp_all add: min_def take_add)

lemma nat_remain: "\<not> mx \<le> z \<Longrightarrow> z = n + int l \<Longrightarrow> nat (mx - n) = l + nat (mx - z)"
  by simp

lemma cap_copy_result:
  assumes "cap_copy mx reads c = Some (out, x)" and "0 \<le> cpN c" and "cpN c < mx"
  shows "(int (length (cpLeft c)) < mx - cpN c \<and> out = cpLeft c \<and> x = cpEnd c) \<or>
    (int (length (cpLeft c)) = mx - cpN c \<and> out = cpLeft c \<and> (x = cpEnd c \<or> x = ErrTooLarge)) \<or>
    (int (length (cpLeft c)) > mx - cpN c \<and> out = take (nat (mx - cpN c)) (cpLeft c) \<and> x = ErrTooLarge)"
  using assms
proof (induction mx reads c arbitrary: out rule: cap_copy.induct)
  case (1 mx c)
  then show ?case by simp
next
  case (2 mx k m early reads c)
  let ?k = "if int k > mx - cpN c then nat (mx - cpN c) else k"
  let ?n = "min ?k m"
  let ?bs = "take ?n (cpLeft c)" and ?left = "drop ?n (cpLeft c)"
  let ?c = "c\<lparr>cpLeft := ?left, cpN := cpN c + int (length ?bs)\<rparr>"
  have n: "int ?n \<le> mx - cpN c" using 2(4) by auto
  have split: "cpLeft c = ?bs @ ?left" by simp
  have rd: "cap_read mx k m early c =
      (if ?left = [] \<and> (early \<or> cpLeft c = []) then (?bs, Some (cpEnd c), ?c)
       else (?bs, if cpN ?c \<ge> mx then Some ErrTooLarge else None, ?c))"
    using 2(4) by (auto simp: cap_read_def under_read_def Let_def)
  show ?case
  proof (cases "?left = [] \<and> (early \<or> cpLeft c = [])")
    case True
    then have "cap_read mx k m early c = (?bs, Some (cpEnd c), ?c)" unfolding rd by (rule if_P)
    then have "out = ?bs" "x = cpEnd c" using 2(2) by simp_all
    moreover have "?bs = cpLeft c" "length (cpLeft c) \<le> ?n" using True by auto
    ultimately have "out = cpLeft c" "x = cpEnd c" "int (length (cpLeft c)) \<le> mx - cpN c"
      using n by (metis, metis, linarith)
    then show ?thesis by linarith
  next
    case False
    show ?thesis
    proof (cases "cpN ?c \<ge> mx")
      case True
      have "cap_read mx k m early c = (?bs, Some ErrTooLarge, ?c)"
        unfolding rd if_not_P [OF False] if_P [OF True] by (rule refl)
      then have "out = ?bs" "x = ErrTooLarge" using 2(2) by simp_all
      moreover have "int (length ?bs) = mx - cpN c" using True n by simp
      ultimately have "out = ?bs" "x = ErrTooLarge" "int (length ?bs) = mx - cpN c" by blast+
      moreover have "int (length (cpLeft c)) \<ge> int (length ?bs)" by simp
      moreover have "?bs = take (nat (mx - cpN c)) (cpLeft c)"
      proof -
        have "nat (mx - cpN c) = length ?bs" using \<open>int (length ?bs) = mx - cpN c\<close> by linarith
        then show ?thesis by (rule take_own_length)
      qed
      ultimately show ?thesis by (cases "int (length (cpLeft c)) = mx - cpN c") auto
    next
      case go: False
      have st: "cap_read mx k m early c = (?bs, None, ?c)"
        unfolding rd if_not_P [OF False] if_not_P [OF go] by (rule refl)
      then obtain rest where r: "cap_copy mx reads ?c = Some (rest, x)" "out = ?bs @ rest"
        using 2(2) by auto
      from 2(1) [OF st [symmetric] refl _ r(1)] 2(3) go
      have ih: "(int (length ?left) < mx - cpN ?c \<and> rest = ?left \<and> x = cpEnd c) \<or>
        (int (length ?left) = mx - cpN ?c \<and> rest = ?left \<and> (x = cpEnd c \<or> x = ErrTooLarge)) \<or>
        (int (length ?left) > mx - cpN ?c \<and> rest = take (nat (mx - cpN ?c)) ?left \<and> x = ErrTooLarge)"
        by simp
      have len: "int (length (cpLeft c)) = int (length ?bs) + int (length ?left)"
        by (metis split length_append of_nat_add)
      have tk: "take (nat (mx - cpN c)) (cpLeft c) = ?bs @ take (nat (mx - cpN ?c)) ?left"
      proof -
        have "cpN ?c = cpN c + int (length ?bs)" by simp
        from nat_remain [OF go this] have "nat (mx - cpN c) = length ?bs + nat (mx - cpN ?c)" .
        then show ?thesis by (rule take_split_at)
      qed
      have cn: "cpN ?c = cpN c + int (length ?bs)" by simp
      have out: "rest = ?left \<Longrightarrow> out = cpLeft c" using r(2) by simp
      from ih show ?thesis
      proof (elim disjE conjE)
        assume "int (length ?left) < mx - cpN ?c" "rest = ?left" "x = cpEnd c"
        then have "int (length (cpLeft c)) < mx - cpN c" "out = cpLeft c" "x = cpEnd c" using len cn out by linarith+
        then show ?thesis by blast
      next
        assume "int (length ?left) = mx - cpN ?c" "rest = ?left" "x = cpEnd c"
        then have "int (length (cpLeft c)) = mx - cpN c" "out = cpLeft c" "x = cpEnd c" using len cn out by linarith+
        then show ?thesis by blast
      next
        assume "int (length ?left) = mx - cpN ?c" "rest = ?left" "x = ErrTooLarge"
        then have "int (length (cpLeft c)) = mx - cpN c" "out = cpLeft c" "x = ErrTooLarge" using len cn out by linarith+
        then show ?thesis by blast
      next
        assume a: "int (length ?left) > mx - cpN ?c" "rest = take (nat (mx - cpN ?c)) ?left" "x = ErrTooLarge"
        have "out = take (nat (mx - cpN c)) (cpLeft c)" by (simp only: r(2) a(2) tk)
        moreover have "int (length (cpLeft c)) > mx - cpN c" using a(1) len cn by linarith
        ultimately show ?thesis using a(3) by blast
      qed
    qed
  qed
qed

text \<open>
  C35. The capped reader refines its summary: however the bytes are split over the reads, a
  consumer that reads to the end gets the data and the ending of \<open>capped\<close>, never more than the
  cap; a body longer than the cap always ends with the too-large error.
\<close>

theorem cap_reader_refines:
  assumes cap: "0 < mx"
    and run: "cap_copy mx reads \<lparr>cpLeft = rd_data r, cpEnd = (case rd_err r of None \<Rightarrow> ErrEOF | Some e \<Rightarrow> e), cpN = 0\<rparr> = Some (out, x)"
  shows "int (length out) \<le> mx \<and> (mx < int (length (rd_data r)) \<longrightarrow> x = ErrTooLarge) \<and>
    (\<exists>early. out = rd_data (capped mx early r) \<and> x = (case rd_err (capped mx early r) of None \<Rightarrow> ErrEOF | Some e \<Rightarrow> e))"
proof -
  let ?e = "case rd_err r of None \<Rightarrow> ErrEOF | Some e \<Rightarrow> e"
  from cap_copy_result [OF run] cap consider
      (lt) "int (length (rd_data r)) < mx" "out = rd_data r" "x = ?e"
    | (eq) "int (length (rd_data r)) = mx" "out = rd_data r" "x = ?e"
    | (eqt) "int (length (rd_data r)) = mx" "out = rd_data r" "x = ErrTooLarge"
    | (gt) "int (length (rd_data r)) > mx" "out = take (nat mx) (rd_data r)" "x = ErrTooLarge"
    by auto
  then show ?thesis
  proof cases
    case lt
    then show ?thesis by (auto simp: capped_def)
  next
    case eq
    then show ?thesis using cap by (intro conjI exI [of _ True]) (auto simp: capped_def)
  next
    case eqt
    then show ?thesis using cap by (intro conjI exI [of _ False]) (auto simp: capped_def)
  next
    case gt
    then show ?thesis using cap by (auto simp: capped_def)
  qed
qed

theorem cap_reader_refines_witness:
  "cap_copy 3 [(2, 2, False), (8, 8, False)] \<lparr>cpLeft = [1, 2, 3, 4], cpEnd = ErrEOF, cpN = 0\<rparr> = Some ([1, 2, 3], ErrTooLarge) \<and>
   int (length [1, 2, 3 :: byte]) \<le> 3"
proof -
  have run: "cap_copy 3 [(2, 2, False), (8, 8, False)] \<lparr>cpLeft = rd_data (bytes_reader [1, 2, 3, 4]),
      cpEnd = (case rd_err (bytes_reader [1, 2, 3, 4]) of None \<Rightarrow> ErrEOF | Some e \<Rightarrow> e), cpN = 0\<rparr> = Some ([1, 2, 3], ErrTooLarge)"
    by (simp add: cap_read_def under_read_def bytes_reader_def Let_def)
  from cap_reader_refines [OF _ run] run show ?thesis by (simp add: bytes_reader_def)
qed

subsection \<open>Ranges\<close>

lemma digit_plain:
  assumes "c \<in> set (nat_to_dec n)"
  shows "c \<noteq> CHR ''-''" "c \<noteq> CHR '',''" "\<not> is_space c"
proof -
  obtain d where d: "d < 10" "c = digit_char d" using nat_to_dec_digits [OF assms] by blast
  have n: "(of_char c :: nat) = 48 + d" using d by (simp add: digit_char_def)
  show "c \<noteq> CHR ''-''" "c \<noteq> CHR '',''" "\<not> is_space c" using n by (auto simp: is_space_def)
qed

lemma parse_range_bounds:
  assumes "parse_range hdr tot = Some (s, e)" and "0 < tot"
  shows "0 \<le> s \<and> s \<le> e \<and> e < tot"
  using assms
  by (auto simp: parse_range_def Let_def split: if_splits list.splits option.splits)

lemma parse_range_explicit:
  assumes "0 \<le> a" "a \<le> b" "b < tot" "tot < 2 ^ 63"
  shows "parse_range (''bytes='' @ itoa a @ ''-'' @ itoa b) tot = Some (a, b)"
proof -
  let ?a = "nat_to_dec (nat a)" and ?b = "nat_to_dec (nat b)"
  let ?seg = "?a @ CHR ''-'' # ?b"
  have it: "itoa a = ?a" "itoa b = ?b" using assms by (simp_all add: itoa_def)
  have "CHR '','' \<notin> set ?seg" using digit_plain(2) [where c = "CHR '',''"] by auto
  then have comma: "split2 CHR '','' ?seg = [?seg]" by (rule split2_whole)
  have "\<not> is_space (hd ?a)" "\<not> is_space (last ?b)"
    using digit_plain(3) [OF hd_in_set [OF nat_to_dec_ne]] digit_plain(3) [OF last_in_set [OF nat_to_dec_ne]] by blast+
  then have "\<not> is_space (hd ?seg)" "\<not> is_space (last ?seg)" by (simp_all add: hd_append)
  then have trim: "trim_space ?seg = ?seg" by (rule trim_space_id)
  have "CHR ''-'' \<notin> set ?a" using digit_plain(1) by blast
  then have dash: "split2 CHR ''-'' ?seg = [?a, ?b]" by (rule split2_hd)
  have pa: "parse_int ?a = Some a" "parse_int ?b = Some b"
    using parse_int_itoa [of a] parse_int_itoa [of b] assms it by simp_all
  have hp: "has_prefix (''bytes='' @ ?seg) ''bytes=''" "trim_prefix (''bytes='' @ ?seg) ''bytes='' = ?seg"
    by (rule has_prefix_append trim_prefix_append)+
  have "parse_range (''bytes='' @ ?seg) tot = Some (a, b)"
    unfolding parse_range_def Let_def hp comma list.sel trim dash using assms pa by simp
  then show ?thesis using it by simp
qed

text \<open>
  C36. A ranged read of a non-empty object either answers 416 with the object's size, when the
  header is not a satisfiable single range, or 206 with exactly the bytes from the first to the
  last position announced in Content-Range, as many as Content-Length says; and
  \<open>bytes=a-b\<close> within the object is always answered with the positions \<open>a\<close> to \<open>b\<close>.
\<close>

theorem range_response:
  assumes hdr: "rqHeader rq ''Range'' \<noteq> ''''"
    and tot: "grSize g = int (length (grBody g))" "0 < grSize g" "grSize g < 2 ^ 63"
  shows "(if parse_range (rqHeader rq ''Range'') (grSize g) = None
      then rsStatus (get_response True rq g) = 416 \<and> rsRange (get_response True rq g) = ''bytes */'' @ itoa (grSize g)
      else rsStatus (get_response True rq g) = 206 \<and>
        (\<exists>s e bs. parse_range (rqHeader rq ''Range'') (grSize g) = Some (int s, int e) \<and> s \<le> e \<and> e < length (grBody g) \<and>
           rsBody (get_response True rq g) = Bytes bs \<and> rsLength (get_response True rq g) = Some (int (length bs)) \<and>
           length bs = Suc e - s \<and> grBody g = take s (grBody g) @ bs @ drop (Suc e) (grBody g) \<and>
           rsRange (get_response True rq g) = ''bytes '' @ itoa (int s) @ ''-'' @ itoa (int e) @ ''/'' @ itoa (grSize g))) \<and>
    (\<forall>a b. rqHeader rq ''Range'' = ''bytes='' @ itoa a @ ''-'' @ itoa b \<longrightarrow> 0 \<le> a \<longrightarrow> a \<le> b \<longrightarrow> b < grSize g \<longrightarrow>
       parse_range (rqHeader rq ''Range'') (grSize g) = Some (a, b))"
proof (intro conjI allI impI)
  fix a b
  assume "rqHeader rq ''Range'' = ''bytes='' @ itoa a @ ''-'' @ itoa b" "0 \<le> a" "a \<le> b" "b < grSize g"
  then show "parse_range (rqHeader rq ''Range'') (grSize g) = Some (a, b)"
    using parse_range_explicit [of a b "grSize g"] tot(3) by simp
next
  let ?p = "parse_range (rqHeader rq ''Range'') (grSize g)" and ?r = "get_response True rq g"
  show "if ?p = None then rsStatus ?r = 416 \<and> rsRange ?r = ''bytes */'' @ itoa (grSize g)
      else rsStatus ?r = 206 \<and>
        (\<exists>s e bs. ?p = Some (int s, int e) \<and> s \<le> e \<and> e < length (grBody g) \<and>
           rsBody ?r = Bytes bs \<and> rsLength ?r = Some (int (length bs)) \<and>
           length bs = Suc e - s \<and> grBody g = take s (grBody g) @ bs @ drop (Suc e) (grBody g) \<and>
           rsRange ?r = ''bytes '' @ itoa (int s) @ ''-'' @ itoa (int e) @ ''/'' @ itoa (grSize g))"
  proof (cases ?p)
    case None
    then show ?thesis using hdr by (simp add: get_response_def write_error_def response_def)
  next
    case (Some se)
    then obtain s0 e0 where p: "?p = Some (s0, e0)" by (cases se) auto
    from parse_range_bounds [OF p tot(2)] have bd: "0 \<le> s0" "s0 \<le> e0" "e0 < grSize g" by blast+
    define s e where se: "s = nat s0" "e = nat e0"
    have i: "s0 = int s" "e0 = int e" using bd se by simp_all
    let ?bs = "take (Suc e - s) (drop s (grBody g))"
    have le: "s \<le> e" "e < length (grBody g)" using bd i tot(1) by simp_all
    have len: "length ?bs = Suc e - s" using le by simp
    have rem: "e0 - s0 + 1 = int (length ?bs)" unfolding len using i le by simp
    have "grBody g = take s (grBody g) @ ?bs @ drop (Suc e - s) (drop s (grBody g))"
      by (simp only: append_take_drop_id)
    moreover have "drop (Suc e - s) (drop s (grBody g)) = drop (Suc e) (grBody g)" using le by simp
    ultimately have cut: "grBody g = take s (grBody g) @ ?bs @ drop (Suc e) (grBody g)" by simp
    have nrem: "nat (int e - int s + 1) = Suc e - s" using le by simp
    have r: "rsBody ?r = Bytes ?bs" "rsStatus ?r = 206" "rsLength ?r = Some (int (length ?bs))"
      "rsRange ?r = ''bytes '' @ itoa (int s) @ ''-'' @ itoa (int e) @ ''/'' @ itoa (grSize g)"
      using hdr p len rem nrem by (simp_all add: get_response_def Let_def response_def i)
    show ?thesis using p i le len cut r by (simp del: append_assoc)
  qed
qed

theorem range_response_witness:
  "rsBody (get_response True (\<lparr>rqMethod = ''GET'', rqPath = ''/bkt/k'', rqQuery = [], rqHeader = (\<lambda>h. ''bytes=1-2''),
     rqBody = bytes_reader [], rqEOFWithData = True, rqComplete = None, rqNow = 0, rqRandom = [], rqOrder = id\<rparr>)
     \<lparr>grBody = [10, 11, 12, 13], grSize = 4, grETag = ''e'', grModified = 0\<rparr>) = Bytes [11, 12]"
proof -
  let ?rq = "\<lparr>rqMethod = ''GET'', rqPath = ''/bkt/k'', rqQuery = [], rqHeader = (\<lambda>h. ''bytes=1-2''),
     rqBody = bytes_reader [], rqEOFWithData = True, rqComplete = None, rqNow = 0, rqRandom = [], rqOrder = id\<rparr>"
  let ?g = "\<lparr>grBody = [10, 11, 12, 13 :: byte], grSize = 4, grETag = ''e'', grModified = 0\<rparr>"
  have h: "rqHeader ?rq ''Range'' \<noteq> ''''" "grSize ?g = int (length (grBody ?g))" "0 < grSize ?g" "grSize ?g < 2 ^ 63" by simp_all
  have p: "parse_range (rqHeader ?rq ''Range'') (grSize ?g) = Some (1, 2)" by code_simp
  from range_response [OF h] p obtain s e bs where r: "Some (1 :: int, 2 :: int) = Some (int s, int e)"
      "rsBody (get_response True ?rq ?g) = Bytes bs" "length bs = Suc e - s"
      "grBody ?g = take s (grBody ?g) @ bs @ drop (Suc e) (grBody ?g)"
    unfolding p by (simp only: option.distinct if_False) blast
  then have "s = 1" "e = 2" by auto
  with r show ?thesis by simp
qed

subsection \<open>Boundary cases\<close>

text \<open>A suffix range of an empty object is served as the range from 0 to -1.\<close>

lemma suffix_range_of_empty: "parse_range ''bytes=-5'' 0 = Some (0, -1)"
  by code_simp

text \<open>A body of exactly the allowed size is refused when its end comes on a read of its own.\<close>

lemma cap_refuses_exact_size:
  "int (length (rd_data r)) = mx \<Longrightarrow> 0 < mx \<Longrightarrow> rd_err (capped mx False r) = Some ErrTooLarge"
  by (simp add: capped_def)

end
