(* ===== verification/S3Store.thy ===== *)
theory S3Store imports S3Props
begin

text \<open>
  The S3 server's object and multipart handlers over an object store that keeps its contract
  (ObjectStore): what a PUT, GET or DELETE answers, and that a completed multipart upload stores
  its parts. The server's contract is a locale of its own, interpreted on the plain LocalFS.
\<close>

subsection \<open>The server over its store\<close>

text \<open>
  The abstract multipart upload, a map from part numbers to contents, and the run of a sequence
  of UploadPart requests that maintains it: a request answered 200 replaces its part.
\<close>

definition part_number_of :: "http_request \<Rightarrow> int" where
  "part_number_of rq = the (parse_int (query_get rq ''partNumber''))"

fun upload_parts :: "'w objs \<Rightarrow> string \<Rightarrow> string \<Rightarrow> string \<Rightarrow> http_request list \<Rightarrow>
    (int \<Rightarrow> byte list option) \<times> 'w s3_state \<Rightarrow> (int \<Rightarrow> byte list option) \<times> 'w s3_state" where
  "upload_parts ob b k uid [] s = s"
| "upload_parts ob b k uid (rq # rqs) s =
     (case handle_upload_part ob b k uid rq (snd s) of
        (r, st1) \<Rightarrow> upload_parts ob b k uid rqs
          (if rsStatus r = 200 then (fst s)(part_number_of rq \<mapsto> rd_data (rqBody rq)) else fst s, st1))"

text \<open>The contents of an abstract upload in part order, and its ETag.\<close>

definition joined :: "(int \<Rightarrow> byte list option) \<Rightarrow> nat \<Rightarrow> byte list" where
  "joined g n = concat (map (\<lambda>i. the (g (int i))) [1..<Suc n])"

definition joined_etag :: "(int \<Rightarrow> byte list option) \<Rightarrow> nat \<Rightarrow> string" where
  "joined_etag g n = hex_encode (md5 (concat (map (\<lambda>i. md5 (the (g (int i)))) [1..<Suc n]))) @ ''-'' @ itoa (int n)"

lemma response_sel [simp]:
  "rsStatus (response s b) = s" "rsBody (response s b) = b" "rsETag (response s b) = ''''"
  "rsLength (response s b) = None"
  by (simp_all add: response_def)

lemma write_error_sel [simp]:
  "rsStatus (write_error s c r) = s" "rsStatus (internal_error r) = 500" "rsStatus (write_entity_too_large r mx) = 400"
  by (simp_all add: write_error_def internal_error_def write_entity_too_large_def)

locale s3_server = object_store ok loc content room "obPut ob" "obGet ob" "obDelete ob"
    for ok :: "'w \<Rightarrow> bool" and loc :: "string \<Rightarrow> string \<Rightarrow> 'i option"
      and content :: "'w \<Rightarrow> 'i \<Rightarrow> byte list option" and room :: "'w \<Rightarrow> 'i \<Rightarrow> bool" and ob :: "'w objs" +
  assumes part_loc: "\<exists>i. loc internalMultipartBucket (part_key b k uid n) = Some i"
    and part_inj: "loc internalMultipartBucket (part_key b k uid n) = loc internalMultipartBucket (part_key b k uid m) \<Longrightarrow> n = m"
    and bucket_inj: "loc b k = Some i \<Longrightarrow> loc b' k' = Some i \<Longrightarrow> b = b'"
begin

subsubsection \<open>Objects\<close>

lemma put_object_ok:
  assumes ok: "ok (s3Objs st)" and loc: "loc b k = Some i"
    and put: "handle_put_object ob lim b k rq st = (r, st')" and s: "rsStatus r = 200"
  shows "ok (s3Objs st') \<and> s3Meta st' = s3Meta st \<and> bucket_exists b (s3Meta st) \<and>
    content (s3Objs st') = (content (s3Objs st))(i \<mapsto> rd_data (rqBody rq)) \<and>
    rsETag r = quote_etag (hex_encode (md5 (rd_data (rqBody rq)))) \<and>
    int (length (rd_data (rqBody rq))) \<le> (if limSinglePutMax lim \<le> 0 then singlePutMaxBytes else limSinglePutMax lim)"
proof -
  let ?mx = "if limSinglePutMax lim \<le> 0 then singlePutMaxBytes else limSinglePutMax lim"
  let ?c = "capped ?mx (rqEOFWithData rq) (rqBody rq)"
  obtain res w where o: "obPut ob b k ?c (s3Objs st) = (res, w)" by fastforce
  have ex: "bucket_exists b (s3Meta st)" using put s by (auto simp: handle_put_object_def split: if_splits)
  have "\<exists>x. res = Inr x"
    using put s ex o by (cases res) (auto simp: handle_put_object_def Let_def split: if_splits)
  then obtain etag n where res: "res = Inr (etag, n)" by force
  note law = put_law [OF ok loc o [unfolded res]]
  then have c: "?c = rqBody rq" "int (length (rd_data (rqBody rq))) \<le> ?mx"
    by (auto simp: capped_def split: if_splits)
  have "st' = st\<lparr>s3Objs := w\<rparr>" "rsETag r = quote_etag etag"
    using put s ex o res by (auto simp: handle_put_object_def Let_def split: if_splits)
  with law c ex show ?thesis by simp
qed

lemma put_object_refused:
  assumes ok: "ok (s3Objs st)" and loc: "loc b k = Some i"
    and put: "handle_put_object ob lim b k rq st = (r, st')" and s: "rsStatus r \<noteq> 200"
  shows "ok (s3Objs st') \<and> s3Meta st' = s3Meta st \<and>
    (\<forall>b' k' j. loc b' k' = Some j \<longrightarrow> content (s3Objs st') j = content (s3Objs st) j)"
proof -
  let ?mx = "if limSinglePutMax lim \<le> 0 then singlePutMaxBytes else limSinglePutMax lim"
  obtain res w where o: "obPut ob b k (capped ?mx (rqEOFWithData rq) (rqBody rq)) (s3Objs st) = (res, w)" by fastforce
  show ?thesis
  proof (cases res)
    case (Inl e)
    with put s o put_err_law [OF ok loc o [unfolded Inl]] ok show ?thesis
      by (auto simp: handle_put_object_def Let_def split: if_splits)
  next
    case (Inr x)
    with put s o ok show ?thesis
      by (auto simp: handle_put_object_def Let_def split: if_splits prod.splits)
  qed
qed

lemma put_object_accepts:
  assumes ok: "ok (s3Objs st)" and loc: "loc b k = Some i" and room: "room (s3Objs st) i"
    and ex: "bucket_exists b (s3Meta st)" and r: "rd_err (rqBody rq) = None"
    and cap: "int (length (rd_data (rqBody rq))) < (if limSinglePutMax lim \<le> 0 then singlePutMaxBytes else limSinglePutMax lim)"
    and cl: "rqHeader rq ''Content-Length'' = itoa (int (length (rd_data (rqBody rq)))) \<or> rqHeader rq ''Content-Length'' = ''''"
    and small: "int (length (rd_data (rqBody rq))) < 2 ^ 63"
  shows "rsStatus (fst (handle_put_object ob lim b k rq st)) = 200"
proof -
  let ?mx = "if limSinglePutMax lim \<le> 0 then singlePutMaxBytes else limSinglePutMax lim"
  have c: "capped ?mx (rqEOFWithData rq) (rqBody rq) = rqBody rq" using cap by (simp add: capped_def)
  have h: "\<not> (rqHeader rq ''Content-Length'' \<noteq> '''' \<and>
      (case parse_int (rqHeader rq ''Content-Length'') of None \<Rightarrow> False | Some v \<Rightarrow> v > ?mx))"
    using cl cap parse_int_itoa [of "int (length (rd_data (rqBody rq)))"] small by auto
  obtain x w where o: "obPut ob b k (rqBody rq) (s3Objs st) = (Inr x, w)"
    using put_room_law [OF ok loc room r] by (cases "obPut ob b k (rqBody rq) (s3Objs st)") (auto simp: is_ok_iff)
  show ?thesis
    unfolding handle_put_object_def Let_def if_not_P [OF h] c o
    using ex by (simp split: prod.split)
qed

lemma get_object_reads:
  assumes ok: "ok (s3Objs st)" and loc: "loc b k = Some i" and nr: "rqHeader rq ''Range'' = ''''"
    and get: "handle_get_object ob b k rq st = (r, st')"
  shows "ok (s3Objs st') \<and> content (s3Objs st') = content (s3Objs st) \<and> s3Meta st' = s3Meta st \<and>
    (case content (s3Objs st) i of
       None \<Rightarrow> rsStatus r = 404
     | Some c \<Rightarrow> rsStatus r = 200 \<and> rsBody r = Bytes c \<and> rsLength r = Some (int (length c)) \<and>
         rsETag r = quote_etag (hex_encode (md5 c)))"
proof -
  obtain res w where o: "obGet ob b k (s3Objs st) = (res, w)" by fastforce
  from get_law [OF ok loc o] get o nr show ?thesis
    by (cases res) (auto simp: handle_get_object_def get_error_def get_response_def)
qed

lemma delete_object_effect:
  assumes ok: "ok (s3Objs st)" and loc: "loc b k = Some i" and del: "handle_delete_object ob b k rq st = (r, st')"
  shows "ok (s3Objs st') \<and> s3Meta st' = s3Meta st \<and>
    content (s3Objs st') = (if rsStatus r = 204 then (content (s3Objs st))(i := None) else content (s3Objs st))"
proof -
  obtain res w where o: "obDelete ob b k (s3Objs st) = (res, w)" by fastforce
  from delete_law [OF ok loc o] del o show ?thesis
    by (cases res) (auto simp: handle_delete_object_def)
qed

end

subsection \<open>Multipart uploads\<close>

lemma hex_char_plain: "n < 16 \<Longrightarrow> hex_char n \<noteq> CHR 0x22"
proof -
  assume n: "n < 16"
  then have "(of_char (hex_char n) :: nat) = (if n < 10 then 48 + n else 87 + n)" by (simp add: hex_char_def)
  then show ?thesis using n by (auto split: if_splits)
qed

lemma hex_encode_plain: "CHR 0x22 \<notin> set (hex_encode bs)"
proof (induction bs)
  case (Cons b bs)
  have "unat b < 256" using unsigned_less [of b, where 'a = nat] by simp
  then have "unat b div 16 < 16" "unat b mod 16 < 16" by simp_all
  then show ?case using Cons hex_char_plain by (metis hex_encode.simps(2) set_ConsD)
qed simp

lemma trim_char_id: "d \<notin> set s \<Longrightarrow> trim_char d s = s"
proof -
  assume d: "d \<notin> set s"
  have "dropWhile (\<lambda>c. c = d) xs = xs" if "d \<notin> set xs" for xs
    using that by (cases xs) auto
  with d show ?thesis by (simp add: trim_char_def)
qed

text \<open>The parts a store has recorded are the abstract upload, and their contents are staged.\<close>

definition parts_agree :: "(int \<Rightarrow> byte list option) \<Rightarrow> multipart_upload \<Rightarrow> bool" where
  "parts_agree g u \<longleftrightarrow> distinct (map fst (muParts u)) \<and> dom (map_of (muParts u)) = dom g \<and> dom g \<subseteq> {1..10000} \<and>
     (\<forall>n bs p. g n = Some bs \<longrightarrow> map_of (muParts u) n = Some p \<longrightarrow>
        ptETag p = hex_encode (md5 bs) \<and> ptSize p = int (length bs))"

lemma parts_agree_update:
  assumes "parts_agree g u" and "1 \<le> n" and "n \<le> 10000"
  shows "parts_agree (g(n \<mapsto> bs)) (u\<lparr>muParts := AList.update n
    \<lparr>ptNumber = n, ptETag = hex_encode (md5 bs), ptSize = int (length bs), ptUploaded = t\<rparr> (muParts u)\<rparr>)"
  using assms by (auto simp: parts_agree_def distinct_update update_conv' split: if_splits)

lemma parts_agree_count: "parts_agree g u \<Longrightarrow> card (dom g) = length (muParts u)"
proof -
  assume a: "parts_agree g u"
  then have "dom g = set (map fst (muParts u))" by (simp add: parts_agree_def dom_map_of_conv_image_fst)
  with a show ?thesis using distinct_card [of "map fst (muParts u)"] by (simp add: parts_agree_def)
qed

lemma multipart_etag_joined:
  assumes a: "parts_agree g u" and d: "dom g = {1..int (length (muParts u))}"
  shows "multipart_etag u = joined_etag g (length (muParts u))"
proof -
  let ?N = "length (muParts u)"
  have part: "(case map_of (muParts u) (int i) of None \<Rightarrow> []
      | Some p \<Rightarrow> (case hex_decode (trim_char CHR 0x22 (ptETag p)) of None \<Rightarrow> [] | Some digest \<Rightarrow> digest)) =
      md5 (the (g (int i)))" if "i \<in> set [1..<Suc ?N]" for i
  proof -
    have "int i \<in> dom g" using that d by auto
    then obtain bs where g: "g (int i) = Some bs" by blast
    then have "int i \<in> dom (map_of (muParts u))" using a unfolding parts_agree_def by blast
    then obtain p where p: "map_of (muParts u) (int i) = Some p" by blast
    with a g have "ptETag p = hex_encode (md5 bs)" unfolding parts_agree_def by blast
    then show ?thesis using g p by (simp add: trim_char_id hex_encode_plain)
  qed
  have "map (\<lambda>i. case map_of (muParts u) i of None \<Rightarrow> []
      | Some p \<Rightarrow> (case hex_decode (trim_char CHR 0x22 (ptETag p)) of None \<Rightarrow> [] | Some digest \<Rightarrow> digest)) (part_numbers u) =
      map (\<lambda>i. md5 (the (g (int i)))) [1..<Suc ?N]"
    unfolding part_numbers_def list.map_comp comp_def by (rule map_cong [OF refl part])
  then show ?thesis by (simp only: multipart_etag_def joined_etag_def)
qed

context s3_server
begin

definition part_place :: "string \<Rightarrow> string \<Rightarrow> string \<Rightarrow> int \<Rightarrow> 'i" where
  "part_place b k uid n = the (loc internalMultipartBucket (part_key b k uid n))"

lemma part_place_loc: "loc internalMultipartBucket (part_key b k uid n) = Some (part_place b k uid n)"
  using part_loc [of b k uid n] by (auto simp: part_place_def)

lemma part_place_inj: "part_place b k uid n = part_place b k uid m \<longleftrightarrow> n = m"
  using part_inj [of b k uid n m] by (auto simp: part_place_loc)

text \<open>The invariant of an upload that is only driven through its own key.\<close>

definition upload_inv :: "string \<Rightarrow> string \<Rightarrow> string \<Rightarrow> (int \<Rightarrow> byte list option) \<Rightarrow> 'w s3_state \<Rightarrow> bool" where
  "upload_inv b k uid g st \<longleftrightarrow> ok (s3Objs st) \<and> (\<forall>n. content (s3Objs st) (part_place b k uid n) = g n) \<and>
     (\<exists>u. map_of (msUploads (s3Meta st)) uid = Some u \<and> parts_agree g u)"

lemma upload_part_inv:
  assumes inv: "upload_inv b k uid g st" and up: "handle_upload_part ob b k uid rq st = (r, st')"
  shows "upload_inv b k uid (if rsStatus r = 200 then g(part_number_of rq \<mapsto> rd_data (rqBody rq)) else g) st'"
proof -
  let ?n = "part_number_of rq" and ?k = "part_key b k uid (part_number_of rq)"
  from inv obtain u where u: "map_of (msUploads (s3Meta st)) uid = Some u" "parts_agree g u"
    and ok: "ok (s3Objs st)" and c: "\<And>n. content (s3Objs st) (part_place b k uid n) = g n"
    by (auto simp: upload_inv_def)
  have gu: "get_upload uid (s3Meta st) = Inr u" using u(1) by (simp add: get_upload_def)
  show ?thesis
  proof (cases "parse_int (query_get rq ''partNumber'') = None \<or> ?n < 1 \<or> ?n > 10000")
    case True
    then have "rsStatus r \<noteq> 200 \<and> st' = st" using up by (auto simp: handle_upload_part_def part_number_of_def split: option.splits)
    with inv show ?thesis by simp
  next
    case False
    then have pn: "parse_int (query_get rq ''partNumber'') = Some ?n" "1 \<le> ?n" "?n \<le> 10000"
      by (auto simp: part_number_of_def)
    obtain res w where o: "obPut ob internalMultipartBucket ?k (rqBody rq) (s3Objs st) = (res, w)" by fastforce
    show ?thesis
    proof (cases res)
      case (Inl e)
      have "rsStatus r \<noteq> 200" "st' = st\<lparr>s3Objs := w\<rparr>"
        using up pn gu o Inl by (auto simp: handle_upload_part_def)
      moreover have "ok w" "content w (part_place b k uid n) = g n" for n
        using put_err_law [OF ok part_place_loc o [unfolded Inl]] c part_place_loc by (blast, metis)
      ultimately show ?thesis using u by (auto simp: upload_inv_def)
    next
      case (Inr x)
      then obtain etag sz where res: "res = Inr (etag, sz)" by (cases x) auto
      note law = put_law [OF ok part_place_loc o [unfolded res]]
      let ?u = "u\<lparr>muParts := AList.update ?n
        \<lparr>ptNumber = ?n, ptETag = etag, ptSize = sz, ptUploaded = rqNow rq\<rparr> (muParts u)\<rparr>"
      have "put_part uid ?n etag sz (rqNow rq) (s3Meta st) = (Inr (), (s3Meta st)\<lparr>msUploads := AList.update uid ?u (msUploads (s3Meta st))\<rparr>)"
        using u(1) by (simp add: put_part_def)
      then have r: "rsStatus r = 200" "s3Objs st' = w" "msUploads (s3Meta st') = AList.update uid ?u (msUploads (s3Meta st))"
        using up pn gu o res by (auto simp: handle_upload_part_def)
      have "parts_agree (g(?n \<mapsto> rd_data (rqBody rq))) ?u"
        using parts_agree_update [OF u(2) pn(2,3)] law by simp
      with r law c show ?thesis by (auto simp: upload_inv_def update_conv' part_place_inj)
    qed
  qed
qed

lemma upload_parts_inv:
  "upload_inv b k uid g st \<Longrightarrow> upload_parts ob b k uid rqs (g, st) = (g', st') \<Longrightarrow> upload_inv b k uid g' st'"
proof (induction rqs arbitrary: g st)
  case (Cons rq rqs)
  obtain r st1 where up: "handle_upload_part ob b k uid rq st = (r, st1)" by fastforce
  show ?case
  proof (rule Cons.IH [OF upload_part_inv [OF Cons.prems(1) up]])
    show "upload_parts ob b k uid rqs
        (if rsStatus r = 200 then g(part_number_of rq \<mapsto> rd_data (rqBody rq)) else g, st1) = (g', st')"
      using Cons.prems(2) by (simp only: upload_parts.simps snd_conv fst_conv up prod.case)
  qed
qed simp

lemma open_parts_result:
  "ok w \<Longrightarrow> open_parts ob b k uid ns w = (res, w') \<Longrightarrow>
   ok w' \<and> content w' = content w \<and> room w' = room w \<and>
   (case res of
      Inl e \<Rightarrow> \<exists>n \<in> set ns. content w (part_place b k uid n) = None
    | Inr bs \<Rightarrow> (\<forall>n \<in> set ns. content w (part_place b k uid n) \<noteq> None) \<and>
        bs = concat (map (\<lambda>n. the (content w (part_place b k uid n))) ns))"
proof (induction ns arbitrary: w res w')
  case Nil
  then show ?case by auto
next
  case (Cons n ns)
  obtain rg w1 where g: "obGet ob internalMultipartBucket (part_key b k uid n) w = (rg, w1)" by fastforce
  note law = get_law [OF Cons.prems(1) part_place_loc g]
  show ?case
  proof (cases rg)
    case (Inl e)
    with law Cons.prems(2) g show ?thesis by auto
  next
    case (Inr x)
    obtain r2 w2 where o: "open_parts ob b k uid ns w1 = (r2, w2)" by fastforce
    from law have "ok w1" by blast
    from Cons.IH [OF this o] law Cons.prems(2) g Inr o show ?thesis by (cases r2) auto
  qed
qed

lemma delete_parts_result:
  "ok w \<Longrightarrow> ok (delete_parts ob b k uid ns w) \<and>
   (\<forall>j. (\<forall>n. j \<noteq> part_place b k uid n) \<longrightarrow> content (delete_parts ob b k uid ns w) j = content w j)"
proof (induction ns arbitrary: w)
  case Nil
  then show ?case by (simp add: delete_parts_def)
next
  case (Cons n ns)
  obtain dr w1 where d: "obDelete ob internalMultipartBucket (part_key b k uid n) w = (dr, w1)" by fastforce
  from delete_law [OF Cons.prems part_place_loc d] have
    "ok w1" "\<And>j. j \<noteq> part_place b k uid n \<Longrightarrow> content w1 j = content w j" by (auto split: if_splits)
  with Cons.IH [of w1] d show ?case by (simp add: delete_parts_def)
qed

end

lemma last_num_result:
  "a \<le> foldl (\<lambda>m (n, _). if n > m then n else m) a req \<and>
   (\<forall>(n, e) \<in> set req. n \<le> foldl (\<lambda>m (n, _). if n > m then n else m) a req) \<and>
   (foldl (\<lambda>m (n, _). if n > m then n else m) a req = a \<or>
    (\<exists>e. (foldl (\<lambda>m (n, _). if n > m then n else m) a req, e) \<in> set req))" for a :: int
proof (induction req arbitrary: a)
  case (Cons x req)
  obtain n e where x: "x = (n, e)" by (cases x)
  from Cons [of "if n > a then n else a"] show ?case by (auto simp: x split: if_splits)
qed simp

lemma last_num_max:
  assumes "(n, e) \<in> set req" and "\<forall>(m, e) \<in> set req. m \<le> n" and "0 \<le> n"
  shows "last_num req = n"
proof -
  from last_num_result [of 0 req] have "n \<le> last_num req" "last_num req = 0 \<or> (\<exists>e. (last_num req, e) \<in> set req)"
    using assms(1) unfolding last_num_def by blast+
  with assms show ?thesis by fastforce
qed

text \<open>The parts list of a completion request that names parts of the upload, all large enough but the last.\<close>

definition parts_listed :: "(int \<Rightarrow> byte list option) \<Rightarrow> limits \<Rightarrow> (int \<times> string) list \<Rightarrow> bool" where
  "parts_listed g lim req \<longleftrightarrow> (\<forall>(n, e) \<in> set req. \<exists>bs. g n = Some bs \<and> trim_char CHR 0x22 e = hex_encode (md5 bs) \<and>
     (limMinPart lim \<le> int (length bs) \<or> (\<forall>(m, e) \<in> set req. m \<le> n)))"

lemma parts_listed_accepted:
  assumes a: "parts_agree g u" and l: "parts_listed g lim req"
  shows "parts_match u req \<and> \<not> part_too_small lim u req"
proof -
  have one: "\<exists>p. map_of (muParts u) n = Some p \<and> ptETag p = trim_char CHR 0x22 e \<and>
      (limMinPart lim \<le> ptSize p \<or> n = last_num req)" if ne: "(n, e) \<in> set req" for n e
  proof -
    from l ne obtain bs where g: "g n = Some bs" "trim_char CHR 0x22 e = hex_encode (md5 bs)"
      and big: "limMinPart lim \<le> int (length bs) \<or> (\<forall>(m, e) \<in> set req. m \<le> n)"
      unfolding parts_listed_def by blast
    have dom: "dom (map_of (muParts u)) = dom g" "dom g \<subseteq> {1..10000}" using a by (simp_all only: parts_agree_def)
    have "n \<in> dom g" using g(1) by (rule domI)
    with dom have n: "0 \<le> n" and "n \<in> dom (map_of (muParts u))" by auto
    then obtain p where p: "map_of (muParts u) n = Some p" by blast
    from a have "g n = Some bs \<Longrightarrow> map_of (muParts u) n = Some p \<Longrightarrow>
        ptETag p = hex_encode (md5 bs) \<and> ptSize p = int (length bs)"
      by (simp only: parts_agree_def)
    with g(1) p have eq: "ptETag p = hex_encode (md5 bs)" "ptSize p = int (length bs)" by blast+
    show ?thesis
    proof (intro exI conjI)
      show "map_of (muParts u) n = Some p" "ptETag p = trim_char CHR 0x22 e" using p eq(1) g(2) by simp_all
      show "limMinPart lim \<le> ptSize p \<or> n = last_num req"
        using big last_num_max [OF ne _ n] eq(2) by metis
    qed
  qed
  have "parts_match u req" unfolding parts_match_def using one by fastforce
  moreover have "\<not> part_too_small lim u req" unfolding part_too_small_def using one by fastforce
  ultimately show ?thesis by blast
qed

context s3_server
begin

lemma complete_result:
  assumes inv: "upload_inv b k uid g st" and loc: "loc b k = Some i" and b: "b \<noteq> internalMultipartBucket"
    and c: "handle_complete ob lim b k uid rq st = (r, st')"
  shows "(rsStatus r = 200 \<longrightarrow>
      dom g = {1..int (card (dom g))} \<and> ok (s3Objs st') \<and> content (s3Objs st') i = Some (joined g (card (dom g))) \<and>
      rsBody r = XmlComplete (CHR ''/'' # b @ ''/'' @ k) b k (quote_etag (joined_etag g (card (dom g)))) \<and>
      get_upload uid (s3Meta st') = Inl ErrUploadNotFound) \<and>
    (\<forall>req. rqComplete rq = Some req \<longrightarrow> parts_listed g lim req \<longrightarrow> dom g = {1..int (card (dom g))} \<longrightarrow>
       room (s3Objs st) i \<longrightarrow> rsStatus r = 200)"
proof -
  from inv obtain u where u: "map_of (msUploads (s3Meta st)) uid = Some u" "parts_agree g u"
    and ok: "ok (s3Objs st)" and cn: "\<And>n. content (s3Objs st) (part_place b k uid n) = g n"
    by (auto simp: upload_inv_def)
  have gu: "get_upload uid (s3Meta st) = Inr u" using u(1) by (simp add: get_upload_def)
  let ?N = "length (muParts u)"
  have N: "card (dom g) = ?N" using u(2) by (rule parts_agree_count)
  have sub: "dom g \<subseteq> {1..10000}" using u(2) by (simp add: parts_agree_def)
  obtain ro w1 where o: "open_parts ob b k uid (part_numbers u) (s3Objs st) = (ro, w1)" by fastforce
  note op = open_parts_result [OF ok o]
  have numbers: "set (part_numbers u) = {1..int ?N}"
  proof -
    have "set (part_numbers u) = int ` {1..<Suc ?N}" by (simp only: part_numbers_def set_map set_upt)
    also have "\<dots> = {int 1..<int (Suc ?N)}" by (rule image_int_atLeastLessThan)
    also have "\<dots> = {1..int ?N}" by auto
    finally show ?thesis .
  qed
  have whole: "dom g = {1..int ?N}" if "ro = Inr bs" for bs
  proof -
    have "{1..int ?N} \<subseteq> dom g" using op that numbers cn by auto
    moreover have "finite (dom g)" using sub by (rule finite_subset) simp
    moreover have "card {1..int ?N} = card (dom g)" using N by simp
    ultimately show ?thesis by (metis card_subset_eq)
  qed
  have data: "bs = joined g ?N" if "ro = Inr bs" for bs
  proof -
    have "bs = concat (map (\<lambda>n. the (content (s3Objs st) (part_place b k uid n))) (part_numbers u))"
      using op unfolding that by simp
    then show ?thesis unfolding joined_def part_numbers_def cn list.map_comp comp_def .
  qed
  have stored: "rsStatus r = 200 \<and> ok (s3Objs st') \<and> content (s3Objs st') i = Some (joined g ?N) \<and>
      rsBody r = XmlComplete (CHR ''/'' # b @ ''/'' @ k) b k (quote_etag (joined_etag g ?N)) \<and>
      get_upload uid (s3Meta st') = Inl ErrUploadNotFound"
    if req: "rqComplete rq = Some req" "parts_match u req" "\<not> part_too_small lim u req"
      and ro: "ro = Inr bs" and pt: "obPut ob b k (bytes_reader bs) w1 = (Inr x, w2)" for req bs x w2
  proof -
    obtain etag n where x: "x = (etag, n)" by (cases x)
    from op have ok1: "ok w1" by blast
    note law = put_law [OF ok1 loc pt [unfolded x]]
    have away: "i \<noteq> part_place b k uid n" for n
      using bucket_inj [OF loc] part_place_loc [of b k uid n] b by metis
    let ?w3 = "delete_parts ob b k uid (part_numbers u) w2"
    have w3: "ok ?w3" "content ?w3 i = Some (joined g ?N)"
      using delete_parts_result [of w2 b k uid "part_numbers u"] law away data [OF ro] by (simp_all add: bytes_reader_def)
    have cu: "complete_upload uid (s3Meta st) = (Inr u, (s3Meta st)\<lparr>msUploads := AList.delete uid (msUploads (s3Meta st))\<rparr>)"
      using u(1) by (simp add: complete_upload_def)
    have "r = response 200 (XmlComplete (CHR ''/'' # b @ ''/'' @ k) b k (quote_etag (multipart_etag u)))"
        "s3Objs st' = ?w3" "s3Meta st' = (s3Meta st)\<lparr>msUploads := AList.delete uid (msUploads (s3Meta st))\<rparr>"
      using c req gu o ro pt x cu by (auto simp: handle_complete_def Let_def)
    with w3 show ?thesis
      by (simp add: multipart_etag_joined [OF u(2) whole [OF ro]] get_upload_def delete_conv')
  qed
  have only: "\<exists>req bs x w2. rqComplete rq = Some req \<and> parts_match u req \<and> \<not> part_too_small lim u req \<and>
      ro = Inr bs \<and> obPut ob b k (bytes_reader bs) w1 = (Inr x, w2)" if "rsStatus r = 200"
    using c that gu o
    by (cases "rqComplete rq"; cases ro) (auto simp: handle_complete_def Let_def split: if_splits prod.splits sum.splits)
  have accepts: "rsStatus r = 200" if req: "rqComplete rq = Some req" "parts_listed g lim req"
      and full: "dom g = {1..int (card (dom g))}" and rm: "room (s3Objs st) i" for req
  proof -
    have "ro = Inr (joined g ?N)"
    proof (cases ro)
      case (Inl e)
      then show ?thesis using op cn numbers full N by auto
    next
      case (Inr bs)
      then show ?thesis using data by simp
    qed
    moreover obtain x w2 where "obPut ob b k (bytes_reader (joined g ?N)) w1 = (Inr x, w2)"
      using put_room_law [OF _ loc, of w1 "bytes_reader (joined g ?N)"] op rm
      by (cases "obPut ob b k (bytes_reader (joined g ?N)) w1") (auto simp: bytes_reader_def is_ok_iff)
    ultimately show ?thesis using stored parts_listed_accepted [OF u(2) req(2)] req(1) by blast
  qed
  show ?thesis
  proof (intro conjI impI allI)
    assume "rsStatus r = 200"
    from only [OF this] obtain req bs x w2 where a: "rqComplete rq = Some req" "parts_match u req"
        "\<not> part_too_small lim u req" "ro = Inr bs" "obPut ob b k (bytes_reader bs) w1 = (Inr x, w2)"
      by blast
    from stored [OF a] whole [OF a(4)] N show "dom g = {1..int (card (dom g))}" "ok (s3Objs st')"
        "content (s3Objs st') i = Some (joined g (card (dom g)))"
        "rsBody r = XmlComplete (CHR ''/'' # b @ ''/'' @ k) b k (quote_etag (joined_etag g (card (dom g))))"
        "get_upload uid (s3Meta st') = Inl ErrUploadNotFound"
      by simp_all
  qed (rule accepts)
qed

end

subsection \<open>The server on the plain LocalFS\<close>

lemma key_elems_snoc:
  assumes "good_elem e"
  shows "key_elems (s @ CHR ''/'' # e) = key_elems s @ [e]"
  using assms
  by (simp add: key_elems_def os_path_def clean_elems_def split_on_append_sep foldl_split_good split_on_no_sep
      good_elem_def clean_step_good)

lemma itoa_inj: "itoa m = itoa n \<Longrightarrow> m = n"
proof -
  have neg: "nat_to_dec k \<noteq> CHR ''-'' # s" "CHR ''-'' # s \<noteq> nat_to_dec k" for k s
    using digit_plain(1) [OF hd_in_set [OF nat_to_dec_ne, of k]] by (metis list.sel(1))+
  assume "itoa m = itoa n"
  then show "m = n"
    using nat_to_dec_inj [of "nat (- m)" "nat (- n)"] nat_to_dec_inj [of "nat m" "nat n"]
    by (auto simp: itoa_def neg split: if_splits)
qed

lemma part_elem_good: "good_elem (''part.'' @ itoa n)"
proof -
  have "CHR ''/'' \<notin> set (nat_to_dec k)" for k
  proof
    assume "CHR ''/'' \<in> set (nat_to_dec k)"
    from nat_to_dec_digits [OF this] obtain d where d: "d < 10" "CHR ''/'' = digit_char d" by blast
    then have "(of_char (CHR ''/'') :: nat) = 48 + d" by (simp add: digit_char_def)
    then show False by simp
  qed
  then show ?thesis by (simp add: good_elem_def itoa_def)
qed

lemma part_key_snoc: "part_key b k uid n = (b @ ''/'' @ k @ ''/'' @ uid) @ CHR ''/'' # ''part.'' @ itoa n"
  by (simp add: part_key_def)

lemma part_elems: "obj_elems base internalMultipartBucket (part_key b k uid n) =
    obj_elems base internalMultipartBucket (b @ ''/'' @ k @ ''/'' @ uid) @ [''part.'' @ itoa n]"
  unfolding obj_elems_def part_key_snoc key_elems_snoc [OF part_elem_good] by simp

lemma part_plain_loc: "plain_loc l internalMultipartBucket (part_key b k uid n) =
    Some (obj_elems (lBase l) internalMultipartBucket (b @ ''/'' @ k @ ''/'' @ uid) @ [''part.'' @ itoa n])"
  unfolding plain_loc_def Let_def part_elems
  by (simp add: temp_named_def ManifestFilename_def internalMultipartBucket_def good_elem_def)

interpretation lfs: s3_server "plain_ok l" "plain_loc l" file_at plain_room "localfs_objs l jc" for l jc
proof (intro s3_server.intro s3_server_axioms.intro)
  show "object_store (plain_ok l) (plain_loc l) file_at plain_room (obPut (localfs_objs l jc)) (obGet (localfs_objs l jc))
      (obDelete (localfs_objs l jc))"
    using plain.object_store_axioms [of l jc] by (simp add: localfs_objs_def)
  fix b k uid n m i b' k'
  show "\<exists>i. plain_loc l internalMultipartBucket (part_key b k uid n) = Some i"
    by (simp add: part_plain_loc)
  show "plain_loc l internalMultipartBucket (part_key b k uid n) = plain_loc l internalMultipartBucket (part_key b k uid m) \<Longrightarrow> n = m"
    by (auto simp: part_plain_loc dest: itoa_inj)
  show "plain_loc l b k = Some i \<Longrightarrow> plain_loc l b' k' = Some i \<Longrightarrow> b = b'"
    by (auto simp: plain_loc_def Let_def obj_elems_def split: if_splits)
qed

lemma route_object:
  assumes "CHR ''/'' \<notin> set b" and "b \<noteq> ''''" and "k \<noteq> ''''" and "rqPath rq = CHR ''/'' # b @ ''/'' @ k"
  shows "route ob lim rq st = handle_object ob lim b k rq st"
proof -
  have s: "split2 CHR ''/'' (trim_prefix (rqPath rq) ''/'') = [b, k]"
    using assms split2_hd [of "CHR ''/''" b k] by simp
  show ?thesis unfolding route_def Let_def s using assms by simp
qed

text \<open>
  C12. PUT then GET over a plain LocalFS whose calls do not fail, both as routed requests for
  one bucket and key: a PUT answered 200 carried at most the configured number of bytes, changed
  that one file only, and the next GET answers 200 with exactly its bytes, their length and the
  same ETag; a PUT answered otherwise left every object as it was; and a PUT below the size cap
  with an honest Content-Length to an existing bucket, where no directory is in the way, is
  answered 200.
\<close>

theorem s3_put_get:
  assumes ok: "plain_ok l (s3Objs st)" and loc: "plain_loc l b k = Some i" and k: "k \<noteq> ''''"
    and p1: "rqPath rq = CHR ''/'' # b @ ''/'' @ k" "rqMethod rq = ''PUT''" "rqQuery rq = []"
    and p2: "rqPath rq2 = CHR ''/'' # b @ ''/'' @ k" "rqMethod rq2 = ''GET''" "rqQuery rq2 = []" "rqHeader rq2 ''Range'' = ''''"
    and put: "route (localfs_objs l jc) lim rq st = (r, st1)"
    and get: "route (localfs_objs l jc) lim rq2 st1 = (r2, st2)"
    and mx: "mx = (if limSinglePutMax lim \<le> 0 then singlePutMaxBytes else limSinglePutMax lim)"
  shows "(if rsStatus r = 200
      then int (length (rd_data (rqBody rq))) \<le> mx \<and>
        file_at (s3Objs st1) = (file_at (s3Objs st))(i \<mapsto> rd_data (rqBody rq)) \<and>
        rsStatus r2 = 200 \<and> rsBody r2 = Bytes (rd_data (rqBody rq)) \<and>
        rsLength r2 = Some (int (length (rd_data (rqBody rq)))) \<and> rsETag r2 = rsETag r \<and>
        rsETag r = quote_etag (hex_encode (md5 (rd_data (rqBody rq))))
      else \<forall>b' k' j. plain_loc l b' k' = Some j \<longrightarrow> file_at (s3Objs st1) j = file_at (s3Objs st) j) \<and>
    (bucket_exists b (s3Meta st) \<longrightarrow> plain_room (s3Objs st) i \<longrightarrow> rd_err (rqBody rq) = None \<longrightarrow>
      int (length (rd_data (rqBody rq))) < mx \<longrightarrow> int (length (rd_data (rqBody rq))) < 2 ^ 63 \<longrightarrow>
      rqHeader rq ''Content-Length'' = itoa (int (length (rd_data (rqBody rq)))) \<longrightarrow> rsStatus r = 200)"
proof -
  have b: "CHR ''/'' \<notin> set b" "b \<noteq> ''''" using plain_locD(1) [OF loc] by (auto simp: good_elem_def)
  have put': "handle_put_object (localfs_objs l jc) lim b k rq st = (r, st1)"
    using put p1(2,3) by (simp add: route_object [OF b k p1(1)] handle_object_def query_get_def Let_def)
  have get': "handle_get_object (localfs_objs l jc) b k rq2 st1 = (r2, st2)"
    using get p2(2,3) by (simp add: route_object [OF b k p2(1)] handle_object_def query_get_def Let_def)
  have "if rsStatus r = 200
      then int (length (rd_data (rqBody rq))) \<le> mx \<and>
        file_at (s3Objs st1) = (file_at (s3Objs st))(i \<mapsto> rd_data (rqBody rq)) \<and>
        rsStatus r2 = 200 \<and> rsBody r2 = Bytes (rd_data (rqBody rq)) \<and>
        rsLength r2 = Some (int (length (rd_data (rqBody rq)))) \<and> rsETag r2 = rsETag r \<and>
        rsETag r = quote_etag (hex_encode (md5 (rd_data (rqBody rq))))
      else \<forall>b' k' j. plain_loc l b' k' = Some j \<longrightarrow> file_at (s3Objs st1) j = file_at (s3Objs st) j"
  proof (cases "rsStatus r = 200")
    case True
    note pt = lfs.put_object_ok [OF ok loc put' True]
    then have "plain_ok l (s3Objs st1)" by blast
    from lfs.get_object_reads [OF this loc p2(4) get'] pt True mx show ?thesis by simp
  next
    case False
    from lfs.put_object_refused [OF ok loc put' False] False show ?thesis by simp
  qed
  moreover have "rsStatus r = 200"
    if "bucket_exists b (s3Meta st)" "plain_room (s3Objs st) i" "rd_err (rqBody rq) = None"
      "int (length (rd_data (rqBody rq))) < mx" "int (length (rd_data (rqBody rq))) < 2 ^ 63"
      "rqHeader rq ''Content-Length'' = itoa (int (length (rd_data (rqBody rq))))"
    using lfs.put_object_accepts [OF ok loc that(2) that(1) that(3) that(4) [unfolded mx] disjI1 [OF that(6)] that(5)] put'
    by (metis fst_conv)
  ultimately show ?thesis by blast
qed

text \<open>A request with the given method, path and body, and a server with one bucket.\<close>

definition ex_request :: "string \<Rightarrow> string \<Rightarrow> (string \<times> string) list \<Rightarrow> byte list \<Rightarrow> http_request" where
  "ex_request mth path q body =
     \<lparr>rqMethod = mth, rqPath = path, rqQuery = q, rqHeader = (\<lambda>h. ''''), rqBody = bytes_reader body, rqEOFWithData = True,
      rqComplete = Some [], rqNow = 5, rqRandom = [171], rqOrder = id\<rparr>"

definition ex_server :: "world s3_state" where
  "ex_server = \<lparr>s3Meta = \<lparr>msBuckets = [(''bkt'', \<lparr>bName = ''bkt'', bCreated = 1\<rparr>)], msUploads =
     [(''ab'', \<lparr>muUploadID = ''ab'', muBucket = ''bkt'', muKey = ''k'', muInitiated = 2, muParts = []\<rparr>)]\<rparr>, s3Objs = ex_world\<rparr>"

lemma ex_plain_ok: "plain_ok ex_store ex_world"
proof -
  have "file_at ex_world p = None" for p by (auto simp: file_at_def lookup_def ex_world_def)
  then show ?thesis using ex_tree by (simp add: plain_ok_def ex_store_def) (simp add: ex_world_def)
qed

lemma ex_plain_loc: "plain_loc ex_store ''bkt'' ''k'' = Some [''d'', ''objects'', ''bkt'', ''k'']"
  by (simp add: plain_loc_def obj_elems_def ex_store_def temp_named_def ManifestFilename_def)

lemma ex_plain_room: "plain_room ex_world [''d'', ''objects'', ''bkt'', ''k'']"
  by (auto simp: plain_room_def lookup_def ex_world_def)

lemma ex_request_sel [simp]:
  "rqMethod (ex_request mth path q body) = mth" "rqPath (ex_request mth path q body) = path"
  "rqQuery (ex_request mth path q body) = q" "rqBody (ex_request mth path q body) = bytes_reader body"
  "rqHeader (ex_request mth path q body) h = ''''" "rqComplete (ex_request mth path q body) = Some []"
  by (simp_all add: ex_request_def)

theorem s3_put_get_witness:
  "\<exists>r st1. route (localfs_objs ex_store (ex_json ex_manifest)) s3_new (ex_request ''PUT'' ''/bkt/k'' [] [1, 2]) ex_server = (r, st1) \<and>
     rsStatus r = 200 \<and>
     rsBody (fst (route (localfs_objs ex_store (ex_json ex_manifest)) s3_new (ex_request ''GET'' ''/bkt/k'' [] []) st1)) = Bytes [1, 2]"
proof -
  let ?ob = "localfs_objs ex_store (ex_json ex_manifest)"
  let ?put = "ex_request ''PUT'' ''/bkt/k'' [] [1, 2]" and ?get = "ex_request ''GET'' ''/bkt/k'' [] []"
  obtain r st1 where p: "route ?ob s3_new ?put ex_server = (r, st1)" by fastforce
  obtain r2 st2 where g: "route ?ob s3_new ?get st1 = (r2, st2)" by fastforce
  have ok: "plain_ok ex_store (s3Objs ex_server)" using ex_plain_ok by (simp add: ex_server_def)
  have "handle_put_object ?ob s3_new ''bkt'' ''k'' ?put ex_server = (r, st1)"
    using p by (simp add: route_object [of "''bkt''" "''k''" ?put] handle_object_def query_get_def Let_def)
  moreover have "rsStatus (fst (handle_put_object ?ob s3_new ''bkt'' ''k'' ?put ex_server)) = 200"
    by (rule lfs.put_object_accepts [OF ok ex_plain_loc])
      (simp_all add: ex_server_def ex_plain_room bucket_exists_def bytes_reader_def s3_new_def new_with_limits_def Let_def singlePutMaxBytes_def)
  ultimately have s: "rsStatus r = 200" by simp
  have "rsBody r2 = Bytes [1, 2]"
    using s3_put_get [OF ok ex_plain_loc _ _ _ _ _ _ _ _ p g refl] s by (simp add: bytes_reader_def)
  with p g s show ?thesis by (metis fst_conv)
qed


lemma ex_part_key: "part_key ''bkt'' ''k'' ''ab'' 1 = ''bkt/k/ab/part.1''"
proof -
  have "itoa 1 = ''1''" by code_simp
  then show ?thesis by (simp add: part_key_def)
qed

lemma ex_part_path: "object_path ex_store internalMultipartBucket ''bkt/k/ab/part.1'' = Inr ''/d/objects/.multipart/bkt/k/ab/part.1''"
  "os_path ''/d/objects/.multipart/bkt/k/ab/part.1'' = [''d'', ''objects'', ''.multipart'', ''bkt'', ''k'', ''ab'', ''part.1'']"
  by (simp_all add: object_path_def ex_store_def join_path_def clean_def is_rooted_def clean_elems_def
      clean_step.simps under_base_def internalMultipartBucket_def clean_key_eq key_elems_def os_path_def)

lemma ex_put_part:
  "\<exists>w'. put ex_store jc internalMultipartBucket ''bkt/k/ab/part.1'' (bytes_reader [1, 2]) ex_world =
     (Inr (hex_encode (md5 [1, 2]), 2), w') \<and> plain_room w' [''d'', ''objects'', ''bkt'', ''k'']"
  by (simp add: put_def put_plain_def ex_part_path)
    (simp add: put_plain_tmp_def ex_calls bytes_reader_def plain_room_def numeral_eq_Suc atLeastLessThanSuc)

definition ex_part_request :: http_request where
  "ex_part_request = ex_request ''PUT'' ''/bkt/k'' [(''uploadId'', ''ab''), (''partNumber'', ''1'')] [1, 2]"

definition ex_complete_request :: http_request where
  "ex_complete_request = (ex_request ''POST'' ''/bkt/k'' [(''uploadId'', ''ab'')] [])
     \<lparr>rqComplete := Some [(1, hex_encode (md5 [1, 2]))]\<rparr>"


end
