(* ===== verification/S3Concurrent.thy ===== *)
theory S3Concurrent imports S3Buckets S3Store
begin

text \<open>
  Requests of the S3 API that overlap (src/pkg/api/s3/server.go): the handlers that test for a
  bucket first and act later, cut at their calls into the metadata store, whose mutex makes each
  call atomic, and into the object store. A step runs one request up to its next call; the
  requests interleave in any order.
\<close>

subsection \<open>The requests and their steps\<close>

datatype bucket_req =
  CreateReq string http_request
| DeleteReq string
| PutReq string string http_request
| InitReq string string http_request

datatype bucket_pc = AtExists | AtAct | AtCount | AtEmpty | AtRemove | AtForget | Answered http_response

definition create_found :: "string \<Rightarrow> http_request \<Rightarrow> memory_store \<Rightarrow> bucket_pc" where
  "create_found name rq m =
     (if \<not> is_valid_bucket_name name then Answered (write_error 400 ''InvalidBucketName'' (CHR ''/'' # name))
      else if bucket_exists name m then Answered (write_error 409 ''BucketAlreadyOwnedByYou'' (CHR ''/'' # name))
      else AtAct)"

definition create_act :: "string \<Rightarrow> http_request \<Rightarrow> 'w s3_state \<Rightarrow> bucket_pc \<times> 'w s3_state" where
  "create_act name rq st =
     (case create_bucket name (rqNow rq) (s3Meta st) of
        (Inl e, m) \<Rightarrow> (Answered (internal_error (CHR ''/'' # name)), st\<lparr>s3Meta := m\<rparr>)
      | (Inr _, m) \<Rightarrow> (Answered (response 200 NoBody), st\<lparr>s3Meta := m\<rparr>))"

definition bucket_found :: "bucket_pc \<Rightarrow> string \<Rightarrow> memory_store \<Rightarrow> bucket_pc" where
  "bucket_found next_pc name m =
     (if \<not> bucket_exists name m then Answered (write_error 404 ''NoSuchBucket'' (CHR ''/'' # name)) else next_pc)"

definition delete_count :: "string \<Rightarrow> memory_store \<Rightarrow> bucket_pc" where
  "delete_count name m =
     (if active_multipart_count name m > 0 then Answered (write_error 409 ''BucketNotEmpty'' (CHR ''/'' # name)) else AtEmpty)"

definition delete_empty :: "'w objs \<Rightarrow> string \<Rightarrow> 'w s3_state \<Rightarrow> bucket_pc \<times> 'w s3_state" where
  "delete_empty ob name st =
     (case obIsEmpty ob name (s3Objs st) of
        (Inl e, w) \<Rightarrow> (Answered (internal_error (CHR ''/'' # name)), st\<lparr>s3Objs := w\<rparr>)
      | (Inr none, w) \<Rightarrow>
          (if \<not> none then Answered (write_error 409 ''BucketNotEmpty'' (CHR ''/'' # name)) else AtRemove, st\<lparr>s3Objs := w\<rparr>))"

definition delete_remove :: "'w objs \<Rightarrow> string \<Rightarrow> 'w s3_state \<Rightarrow> bucket_pc \<times> 'w s3_state" where
  "delete_remove ob name st =
     (case obRemoveBucket ob name (s3Objs st) of
        (Inl e, w) \<Rightarrow> (Answered (internal_error (CHR ''/'' # name)), st\<lparr>s3Objs := w\<rparr>)
      | (Inr _, w) \<Rightarrow> (AtForget, st\<lparr>s3Objs := w\<rparr>))"

definition delete_forget :: "string \<Rightarrow> 'w s3_state \<Rightarrow> bucket_pc \<times> 'w s3_state" where
  "delete_forget name st = (Answered (response 204 NoBody), st\<lparr>s3Meta := snd (delete_bucket name (s3Meta st))\<rparr>)"

definition put_act :: "'w objs \<Rightarrow> limits \<Rightarrow> string \<Rightarrow> string \<Rightarrow> http_request \<Rightarrow> 'w s3_state \<Rightarrow> bucket_pc \<times> 'w s3_state" where
  "put_act ob lim bucket key rq st =
     (let maxSingle = (if limSinglePutMax lim \<le> 0 then singlePutMaxBytes else limSinglePutMax lim);
          cl = rqHeader rq ''Content-Length'' in
      if cl \<noteq> '''' \<and> (case parse_int cl of None \<Rightarrow> False | Some v \<Rightarrow> v > maxSingle)
      then (Answered (write_entity_too_large (rqPath rq) maxSingle), st)
      else
        (case obPut ob bucket key (capped maxSingle (rqEOFWithData rq) (rqBody rq)) (s3Objs st) of
           (Inl e, w) \<Rightarrow>
             (Answered (if e = ErrTooLarge then write_entity_too_large (rqPath rq) maxSingle
                else internal_error (rqPath rq)), st\<lparr>s3Objs := w\<rparr>)
         | (Inr (etag, _), w) \<Rightarrow> (Answered ((response 200 NoBody)\<lparr>rsETag := quote_etag etag\<rparr>), st\<lparr>s3Objs := w\<rparr>)))"

definition init_act :: "string \<Rightarrow> string \<Rightarrow> http_request \<Rightarrow> 'w s3_state \<Rightarrow> bucket_pc \<times> 'w s3_state" where
  "init_act bucket key rq st =
     (case initiate_upload bucket key (rqRandom rq) (rqNow rq) (s3Meta st) of
        (uid, m) \<Rightarrow> (Answered (response 200 (XmlInitiate bucket key uid)), st\<lparr>s3Meta := m\<rparr>))"

fun req_step :: "'w objs \<Rightarrow> limits \<Rightarrow> bucket_req \<Rightarrow> bucket_pc \<Rightarrow> 'w s3_state \<Rightarrow> bucket_pc \<times> 'w s3_state" where
  "req_step ob lim (CreateReq n rq) AtExists st = (create_found n rq (s3Meta st), st)"
| "req_step ob lim (CreateReq n rq) AtAct st = create_act n rq st"
| "req_step ob lim (DeleteReq n) AtExists st = (bucket_found AtCount n (s3Meta st), st)"
| "req_step ob lim (DeleteReq n) AtCount st = (delete_count n (s3Meta st), st)"
| "req_step ob lim (DeleteReq n) AtEmpty st = delete_empty ob n st"
| "req_step ob lim (DeleteReq n) AtRemove st = delete_remove ob n st"
| "req_step ob lim (DeleteReq n) AtForget st = delete_forget n st"
| "req_step ob lim (PutReq b k rq) AtExists st = (bucket_found AtAct b (s3Meta st), st)"
| "req_step ob lim (PutReq b k rq) AtAct st = put_act ob lim b k rq st"
| "req_step ob lim (InitReq b k rq) AtExists st = (bucket_found AtAct b (s3Meta st), st)"
| "req_step ob lim (InitReq b k rq) AtAct st = init_act b k rq st"
| "req_step ob lim q pc st = (pc, st)"

type_synonym 'w req_state = "(bucket_req \<times> bucket_pc) list \<times> 'w s3_state"

inductive req_sys :: "'w objs \<Rightarrow> limits \<Rightarrow> 'w req_state \<Rightarrow> 'w req_state \<Rightarrow> bool" for ob lim where
  step: "\<lbrakk>\<forall>r. pc \<noteq> Answered r; req_step ob lim q pc st = (pc', st')\<rbrakk> \<Longrightarrow>
    req_sys ob lim (us @ (q, pc) # vs, st) (us @ (q, pc') # vs, st')"

definition req_start :: "bucket_req list \<Rightarrow> (bucket_req \<times> bucket_pc) list" where
  "req_start qs = map (\<lambda>q. (q, AtExists)) qs"

subsection \<open>A request alone\<close>

fun handle_req :: "'w objs \<Rightarrow> limits \<Rightarrow> bucket_req \<Rightarrow> http_request \<Rightarrow> 'w s3_state \<Rightarrow> http_response \<times> 'w s3_state" where
  "handle_req ob lim (CreateReq n rq) _ st = handle_create_bucket n rq st"
| "handle_req ob lim (DeleteReq n) rq st = handle_delete_bucket ob n rq st"
| "handle_req ob lim (PutReq b k rq) _ st = handle_put_object ob lim b k rq st"
| "handle_req ob lim (InitReq b k rq) _ st = handle_initiate b k rq st"

definition req_turn :: "'w objs \<Rightarrow> limits \<Rightarrow> bucket_req \<Rightarrow> bucket_pc \<times> 'w s3_state \<Rightarrow> bucket_pc \<times> 'w s3_state" where
  "req_turn ob lim q = (\<lambda>(pc, st). req_step ob lim q pc st)"

lemma req_answered [simp]: "req_step ob lim q (Answered r) st = (Answered r, st)"
  by (cases q) simp_all

lemmas req_act_defs = create_found_def create_act_def bucket_found_def delete_count_def delete_empty_def delete_remove_def
  delete_forget_def put_act_def init_act_def

text \<open>Without interference the five steps are the handler.\<close>

lemma alone_is_handler:
  "(req_turn ob lim q ^^ 5) (AtExists, st) = (case handle_req ob lim q rq st of (r, st') \<Rightarrow> (Answered r, st'))"
  by (cases q)
    (auto simp: eval_nat_numeral req_turn_def req_act_defs handle_create_bucket_def handle_delete_bucket_def
      handle_put_object_def handle_initiate_def Let_def split: prod.splits sum.splits)

subsection \<open>Every interleaving ends\<close>

fun pc_left :: "bucket_req \<Rightarrow> bucket_pc \<Rightarrow> nat" where
  "pc_left (DeleteReq n) AtExists = 5"
| "pc_left (DeleteReq n) AtCount = 4"
| "pc_left (DeleteReq n) AtEmpty = 3"
| "pc_left (DeleteReq n) AtRemove = 2"
| "pc_left (DeleteReq n) AtForget = 1"
| "pc_left (DeleteReq n) pc = 0"
| "pc_left q AtExists = 2"
| "pc_left q AtAct = 1"
| "pc_left q pc = 0"

definition answered :: "bucket_pc \<Rightarrow> bool" where
  "answered pc \<longleftrightarrow> (case pc of Answered r \<Rightarrow> True | _ \<Rightarrow> False)"

text \<open>A request that is to create a bucket has validated its name.\<close>

fun req_ok :: "bucket_req \<Rightarrow> bucket_pc \<Rightarrow> bool" where
  "req_ok (CreateReq n rq) AtAct = is_valid_bucket_name n"
| "req_ok q pc = (answered pc \<or> pc_left q pc > 0)"

definition reqs_ok :: "(bucket_req \<times> bucket_pc) list \<Rightarrow> bool" where
  "reqs_ok ts \<longleftrightarrow> (\<forall>(q, pc) \<in> set ts. req_ok q pc)"

definition work_left :: "(bucket_req \<times> bucket_pc) list \<Rightarrow> nat" where
  "work_left ts = sum_list (map (\<lambda>(q, pc). pc_left q pc) ts)"

lemma req_step_left:
  assumes "req_step ob lim q pc st = (pc', st')" and "req_ok q pc" and "\<not> answered pc"
  shows "pc_left q pc' < pc_left q pc \<and> req_ok q pc'"
  using assms
  by (cases "(ob, lim, q, pc, st)" rule: req_step.cases)
    (auto simp: req_act_defs answered_def Let_def split: if_splits prod.splits sum.splits)

text \<open>The requests stay what they are, each step leaves less to do, and nothing blocks.\<close>

lemma req_sys_step:
  assumes "req_sys ob lim (ts, st) (ts', st')" and "reqs_ok ts"
  shows "map fst ts' = map fst ts \<and> reqs_ok ts' \<and> work_left ts' < work_left ts"
  using assms(1)
proof (cases rule: req_sys.cases)
  case (step pc q pc' us vs)
  then have "req_ok q pc" "\<not> answered pc" using assms(2) by (auto simp: reqs_ok_def answered_def split: bucket_pc.splits)
  with step assms(2) req_step_left [of ob lim q pc st pc' st'] show ?thesis by (auto simp: reqs_ok_def work_left_def)
qed

lemma req_sys_enabled:
  assumes "\<not> (\<forall>(q, pc) \<in> set ts. answered pc)"
  shows "\<exists>s'. req_sys ob lim (ts, st) s'"
proof -
  obtain q pc where "(q, pc) \<in> set ts" and "\<not> answered pc" using assms by auto
  then obtain us vs where "ts = us @ (q, pc) # vs" and "\<forall>r. pc \<noteq> Answered r"
    by (cases pc) (auto simp: answered_def dest!: split_list)
  moreover obtain pc' st' where "req_step ob lim q pc st = (pc', st')" by fastforce
  ultimately show ?thesis by (blast intro: req_sys.step)
qed

lemma reqs_ok_start [simp]: "reqs_ok (req_start qs)"
proof -
  have "req_ok q AtExists" for q by (cases q) simp_all
  then show ?thesis by (auto simp: reqs_ok_def req_start_def)
qed

lemma pc_left_le: "pc_left q pc \<le> 5"
  by (cases "(q, pc)" rule: pc_left.cases) simp_all

lemma work_left_le: "work_left ts \<le> 5 * length ts"
proof (induction ts)
  case (Cons t ts)
  with pc_left_le [of "fst t" "snd t"] show ?case by (cases t) (simp add: work_left_def)
qed (simp add: work_left_def)

lemma req_sys_bounded:
  assumes "(req_sys ob lim ^^ k) (ts, st) (ts', st')" and "reqs_ok ts"
  shows "reqs_ok ts' \<and> k + work_left ts' \<le> work_left ts"
  using assms(1)
proof (induction k arbitrary: ts' st')
  case 0
  with assms(2) show ?case by simp
next
  case (Suc k)
  then obtain ts1 st1 where "(req_sys ob lim ^^ k) (ts, st) (ts1, st1)" "req_sys ob lim (ts1, st1) (ts', st')" by auto
  with Suc.IH [of ts1 st1] req_sys_step [of ob lim ts1 st1 ts' st'] show ?case by auto
qed

subsection \<open>What the answers mean together\<close>

fun created :: "string \<Rightarrow> bucket_req \<times> bucket_pc \<Rightarrow> nat" where
  "created n (CreateReq n' rq, Answered r) = of_bool (n' = n \<and> rsStatus r = 200)"
| "created n _ = 0"

fun deleted :: "string \<Rightarrow> bucket_req \<times> bucket_pc \<Rightarrow> nat" where
  "deleted n (DeleteReq n', Answered r) = of_bool (n' = n \<and> rsStatus r = 204)"
| "deleted n _ = 0"

definition creations :: "string \<Rightarrow> (bucket_req \<times> bucket_pc) list \<Rightarrow> nat" where
  "creations n ts = sum_list (map (created n) ts)"

definition deletions :: "string \<Rightarrow> (bucket_req \<times> bucket_pc) list \<Rightarrow> nat" where
  "deletions n ts = sum_list (map (deleted n) ts)"

text \<open>One step: the metadata stays well formed and the answers account for the bucket.\<close>

lemma initiate_buckets: "initiate_upload b k rnd t m = (uid, m') \<Longrightarrow> bucket_exists n m' = bucket_exists n m"
  by (auto simp: initiate_upload_def bucket_exists_def Let_def)

lemma req_step_meta:
  assumes "req_step ob lim q pc st = (pc', st')" and "req_ok q pc"
  shows "meta_step (s3Meta st) (s3Meta st')"
  using assms
  by (cases "(ob, lim, q, pc, st)" rule: req_step.cases)
    (auto simp: req_act_defs Let_def split: if_splits prod.splits sum.splits
      intro: meta_step_create meta_step_initiate meta_step_delete [OF surjective_pairing])

definition has_bucket :: "string \<Rightarrow> memory_store \<Rightarrow> nat" where
  "has_bucket n m = of_bool (bucket_exists n m)"

lemma create_exists:
  "create_bucket k t m = (r, m') \<Longrightarrow> bucket_exists n m' = (n = k \<or> bucket_exists n m) \<and> (is_ok r \<longleftrightarrow> \<not> bucket_exists k m)"
  by (auto simp: create_bucket_def bucket_exists_def update_conv' split: option.splits)

lemma delete_exists: "bucket_exists n (snd (delete_bucket k m)) = (n \<noteq> k \<and> bucket_exists n m)"
  using mem.remove_law [of k m, OF surjective_pairing] by (auto simp: mem.exists_law)

lemma req_step_account:
  assumes "req_step ob lim q pc st = (pc', st')" and "\<not> answered pc"
  shows "created n (q, pc') + has_bucket n (s3Meta st) \<le> has_bucket n (s3Meta st') + deleted n (q, pc') \<and>
    (q \<noteq> DeleteReq n \<longrightarrow> created n (q, pc') + has_bucket n (s3Meta st) = has_bucket n (s3Meta st'))"
proof (cases "(ob, lim, q, pc, st)" rule: req_step.cases)
  case (2 ob1 lim1 n1 rq st1)
  obtain r m where "create_bucket n1 (rqNow rq) (s3Meta st) = (r, m)" by fastforce
  with 2 assms create_exists [OF this, of n] show ?thesis
    by (cases r) (auto simp: create_act_def has_bucket_def)
next
  case (7 ob1 lim1 n1 st1)
  with assms show ?thesis by (auto simp: delete_forget_def has_bucket_def delete_exists)
qed (use assms in \<open>auto simp: req_act_defs has_bucket_def answered_def initiate_buckets Let_def
  split: if_splits prod.splits sum.splits\<close>)

lemma unanswered_zero: "\<not> answered pc \<Longrightarrow> created n (q, pc) = 0 \<and> deleted n (q, pc) = 0"
  by (cases q; cases pc) (simp_all add: answered_def)

lemma req_sys_account:
  assumes "req_sys ob lim (ts, st) (ts', st')" and "reqs_ok ts"
  shows "meta_step (s3Meta st) (s3Meta st') \<and>
    creations n ts' + deletions n ts + has_bucket n (s3Meta st) \<le> creations n ts + has_bucket n (s3Meta st') + deletions n ts' \<and>
    (DeleteReq n \<notin> set (map fst ts) \<longrightarrow> creations n ts' + has_bucket n (s3Meta st) = creations n ts + has_bucket n (s3Meta st'))"
  using assms(1)
proof (cases rule: req_sys.cases)
  case (step pc q pc' us vs)
  then have "\<not> answered pc" "req_ok q pc" using assms(2) by (auto simp: reqs_ok_def answered_def split: bucket_pc.splits)
  with step req_step_meta [of ob lim q pc st pc' st'] req_step_account [of ob lim q pc st pc' st' n] unanswered_zero [of pc n q]
  show ?thesis by (auto simp: creations_def deletions_def)
qed

lemma start_zero: "creations n (req_start qs) = 0" "deletions n (req_start qs) = 0"
proof -
  have "\<not> answered AtExists" by (simp add: answered_def)
  from unanswered_zero [OF this] show "creations n (req_start qs) = 0" "deletions n (req_start qs) = 0"
    by (induction qs) (simp_all add: creations_def deletions_def req_start_def)
qed

lemma meta_step_trans: "meta_step m1 m2 \<Longrightarrow> meta_step m2 m3 \<Longrightarrow> meta_step m1 m3"
  by (auto simp: meta_step_def)

lemma initiate_counted: "initiate_upload b k rnd t m = (uid, m') \<Longrightarrow> active_multipart_count b m' > 0"
proof -
  assume "initiate_upload b k rnd t m = (uid, m')"
  then have "map_of (msUploads m') uid = Some \<lparr>muUploadID = uid, muBucket = b, muKey = k, muInitiated = t, muParts = []\<rparr>"
    by (auto simp: initiate_upload_def Let_def update_conv')
  then have "(uid, \<lparr>muUploadID = uid, muBucket = b, muKey = k, muInitiated = t, muParts = []\<rparr>) \<in> set (msUploads m')"
    by (rule map_of_SomeD)
  then show ?thesis by (force simp: active_multipart_count_def filter_empty_conv)
qed

lemma req_sys_run_account:
  assumes "(req_sys ob lim)\<^sup>*\<^sup>* (req_start qs, st0) (ts, st)"
  shows "map fst ts = qs \<and> reqs_ok ts \<and> meta_step (s3Meta st0) (s3Meta st) \<and>
    creations n ts + has_bucket n (s3Meta st0) \<le> has_bucket n (s3Meta st) + deletions n ts \<and>
    (DeleteReq n \<notin> set qs \<longrightarrow> creations n ts + has_bucket n (s3Meta st0) = has_bucket n (s3Meta st))"
  using assms
proof (induction rule: rtranclp_induct2)
  case refl
  have "map fst (req_start qs) = qs" by (simp add: req_start_def comp_def)
  then show ?case by (simp add: start_zero)
next
  case (step ts1 st1 ts2 st2)
  then have ok: "reqs_ok ts1" "map fst ts1 = qs" by simp_all
  from req_sys_account [OF step(2) ok(1), of n] req_sys_step [OF step(2) ok(1)] step.IH ok(2) meta_step_trans
  show ?case by auto
qed

subsection \<open>Property\<close>

text \<open>
  C23. Bucket creation is exclusive under concurrency: however requests that create, delete, write
  to and start uploads in buckets interleave, they end after at most five steps each and none is
  ever stuck before it is answered; the metadata stays well formed with only validated new names;
  and for each bucket the creations answered 200 exceed the deletions answered 204 by no more than
  the bucket's coming into being. Without a deletion they are exactly that: of any number of
  racing creations one at most is answered 200.
\<close>

theorem bucket_requests_account:
  assumes run: "(req_sys ob lim ^^ k) (req_start qs, st0) (ts, st)"
  shows "k \<le> 5 * length qs \<and> map fst ts = qs \<and>
    ((\<exists>s. req_sys ob lim (ts, st) s) \<or> (\<forall>(q, pc) \<in> set ts. answered pc)) \<and>
    meta_step (s3Meta st0) (s3Meta st) \<and>
    creations n ts + has_bucket n (s3Meta st0) \<le> has_bucket n (s3Meta st) + deletions n ts \<and>
    (DeleteReq n \<in> set qs \<or> creations n ts + has_bucket n (s3Meta st0) = has_bucket n (s3Meta st))"
proof -
  have "k \<le> 5 * length qs"
    using req_sys_bounded [OF run reqs_ok_start] work_left_le [of "req_start qs"] by (simp add: req_start_def)
  moreover have "(req_sys ob lim)\<^sup>*\<^sup>* (req_start qs, st0) (ts, st)" using run by (rule relpowp_imp_rtranclp)
  from req_sys_run_account [OF this, of n] have "map fst ts = qs \<and> meta_step (s3Meta st0) (s3Meta st) \<and>
    creations n ts + has_bucket n (s3Meta st0) \<le> has_bucket n (s3Meta st) + deletions n ts \<and>
    (DeleteReq n \<notin> set qs \<longrightarrow> creations n ts + has_bucket n (s3Meta st0) = has_bucket n (s3Meta st))"
    by (simp add: start_zero)
  ultimately show ?thesis using req_sys_enabled [of ts ob lim st] by blast
qed

subsection \<open>Races\<close>

lemmas req_first = req_sys.step [where us = "[]", simplified]
lemmas req_second = req_sys.step [where us = "[t]" and vs = "[]" for t, simplified]

lemma four_steps: "R a b \<Longrightarrow> R b c \<Longrightarrow> R c d \<Longrightarrow> R d e \<Longrightarrow> (R ^^ 4) a e"
  by (auto simp: eval_nat_numeral relcompp_apply)

text \<open>
  The loser of two racing creations is told of an internal error, not that the bucket exists.
\<close>

lemma racing_creates:
  assumes "is_valid_bucket_name n" and "\<not> bucket_exists n (s3Meta st)"
  shows "(req_sys ob lim ^^ 4) (req_start [CreateReq n rq1, CreateReq n rq2], st)
    ([(CreateReq n rq1, Answered (response 200 NoBody)), (CreateReq n rq2, Answered (internal_error (CHR ''/'' # n)))],
     st\<lparr>s3Meta := snd (create_bucket n (rqNow rq1) (s3Meta st))\<rparr>)"
proof -
  let ?q1 = "CreateReq n rq1" and ?q2 = "CreateReq n rq2"
  let ?st = "st\<lparr>s3Meta := snd (create_bucket n (rqNow rq1) (s3Meta st))\<rparr>"
  obtain m where m: "create_bucket n (rqNow rq1) (s3Meta st) = (Inr (), m)"
    using assms(2) by (auto simp: create_bucket_def bucket_exists_def)
  then have "create_bucket n (rqNow rq2) m = (Inl ErrBucketExists, m)"
    using create_exists [OF m, of n] by (auto simp: create_bucket_def bucket_exists_def split: option.splits)
  then have acts: "req_step ob lim ?q1 AtAct st = (Answered (response 200 NoBody), ?st)"
    "req_step ob lim ?q2 AtAct ?st = (Answered (internal_error (CHR ''/'' # n)), ?st)"
    using m by (simp_all add: create_act_def)
  have found: "req_step ob lim ?q1 AtExists st = (AtAct, st)" "req_step ob lim ?q2 AtExists st = (AtAct, st)"
    using assms by (simp_all add: create_found_def)
  have "req_sys ob lim ([(?q1, AtExists), (?q2, AtExists)], st) ([(?q1, AtAct), (?q2, AtExists)], st)"
    and "req_sys ob lim ([(?q1, AtAct), (?q2, AtExists)], st) ([(?q1, AtAct), (?q2, AtAct)], st)"
    and "req_sys ob lim ([(?q1, AtAct), (?q2, AtAct)], st) ([(?q1, Answered (response 200 NoBody)), (?q2, AtAct)], ?st)"
    and "req_sys ob lim ([(?q1, Answered (response 200 NoBody)), (?q2, AtAct)], ?st)
      ([(?q1, Answered (response 200 NoBody)), (?q2, Answered (internal_error (CHR ''/'' # n)))], ?st)"
    by (rule req_first req_second; use acts found in simp)+
  then have "(req_sys ob lim ^^ 4) ([(?q1, AtExists), (?q2, AtExists)], st)
      ([(?q1, Answered (response 200 NoBody)), (?q2, Answered (internal_error (CHR ''/'' # n)))], ?st)"
    by (rule four_steps)
  then show ?thesis by (simp add: req_start_def)
qed

theorem bucket_requests_account_witness:
  "\<exists>ts st. (req_sys (localfs_objs ex_store (ex_json ex_manifest)) s3_new ^^ 4)
      (req_start [CreateReq ''abc'' (ex_request ''PUT'' ''/abc'' [] []), CreateReq ''abc'' (ex_request ''PUT'' ''/abc'' [] [])], ex_bucket_server)
      (ts, st) \<and> creations ''abc'' ts = 1 \<and> bucket_exists ''abc'' (s3Meta st)"
proof -
  have v: "is_valid_bucket_name ''abc''" by code_simp
  have new: "\<not> bucket_exists ''abc'' (s3Meta ex_bucket_server)" by (simp add: ex_bucket_server_def bucket_exists_def)
  let ?rq = "ex_request ''PUT'' ''/abc'' [] []"
  obtain ts st where run: "(req_sys (localfs_objs ex_store (ex_json ex_manifest)) s3_new ^^ 4)
      (req_start [CreateReq ''abc'' ?rq, CreateReq ''abc'' ?rq], ex_bucket_server) (ts, st)" and one: "creations ''abc'' ts = 1"
    using racing_creates [OF v new, of "localfs_objs ex_store (ex_json ex_manifest)" s3_new ?rq ?rq]
    by (auto simp: creations_def internal_error_def)
  from bucket_requests_account [OF run, of "''abc''"] one new have "bucket_exists ''abc'' (s3Meta st)"
    by (cases "bucket_exists ''abc'' (s3Meta st)") (simp_all add: has_bucket_def)
  with run one show ?thesis by blast
qed

text \<open>
  A request that saw the bucket goes on after a whole DeleteBucket: an upload is started in, and an
  object written to, a bucket that no longer exists.
\<close>

lemma delete_runs:
  assumes "bucket_exists n (s3Meta st)" and "active_multipart_count n (s3Meta st) = 0"
    and "obIsEmpty ob n (s3Objs st) = (Inr True, w1)" and "obRemoveBucket ob n w1 = (Inr u, w2)"
  shows "(req_sys ob lim)\<^sup>*\<^sup>* ([t, (DeleteReq n, AtExists)], st)
    ([t, (DeleteReq n, Answered (response 204 NoBody))], st\<lparr>s3Meta := snd (delete_bucket n (s3Meta st)), s3Objs := w2\<rparr>)"
proof -
  let ?D = "DeleteReq n" and ?st1 = "st\<lparr>s3Objs := w1\<rparr>" and ?st2 = "st\<lparr>s3Objs := w2\<rparr>"
  have "req_sys ob lim ([t, (?D, AtExists)], st) ([t, (?D, AtCount)], st)"
    and "req_sys ob lim ([t, (?D, AtCount)], st) ([t, (?D, AtEmpty)], st)"
    and "req_sys ob lim ([t, (?D, AtEmpty)], st) ([t, (?D, AtRemove)], ?st1)"
    and "req_sys ob lim ([t, (?D, AtRemove)], ?st1) ([t, (?D, AtForget)], ?st2)"
    and "req_sys ob lim ([t, (?D, AtForget)], ?st2)
      ([t, (?D, Answered (response 204 NoBody))], st\<lparr>s3Meta := snd (delete_bucket n (s3Meta st)), s3Objs := w2\<rparr>)"
    by (rule req_second; use assms in \<open>simp add: req_act_defs\<close>)+
  then show ?thesis by (meson rtranclp.rtrancl_into_rtrancl rtranclp.rtrancl_refl)
qed

lemma act_after_delete:
  assumes q: "q = InitReq n k rq \<or> q = PutReq n k rq"
    and "bucket_exists n (s3Meta st)" and "active_multipart_count n (s3Meta st) = 0"
    and "obIsEmpty ob n (s3Objs st) = (Inr True, w1)" and "obRemoveBucket ob n w1 = (Inr u, w2)"
  shows "\<exists>st'. (req_sys ob lim)\<^sup>*\<^sup>* (req_start [q, DeleteReq n], st) ([(q, AtAct), (DeleteReq n, Answered (response 204 NoBody))], st') \<and>
    \<not> bucket_exists n (s3Meta st')"
proof -
  have "req_sys ob lim ([(q, AtExists), (DeleteReq n, AtExists)], st) ([(q, AtAct), (DeleteReq n, AtExists)], st)"
    by (rule req_first) (use q assms(2) in \<open>auto simp: bucket_found_def\<close>)
  from converse_rtranclp_into_rtranclp [OF this delete_runs [OF assms(2-5)]] delete_exists [of n n] show ?thesis
    by (auto simp: req_start_def)
qed

lemma upload_in_deleted_bucket:
  assumes "bucket_exists n (s3Meta st)" and "active_multipart_count n (s3Meta st) = 0"
    and "obIsEmpty ob n (s3Objs st) = (Inr True, w1)" and "obRemoveBucket ob n w1 = (Inr u, w2)"
  shows "\<exists>ts st'. (req_sys ob lim)\<^sup>*\<^sup>* (req_start [InitReq n k rq, DeleteReq n], st) (ts, st') \<and>
    (\<forall>(q, pc) \<in> set ts. \<exists>r. pc = Answered r \<and> rsStatus r \<in> {200, 204}) \<and>
    \<not> bucket_exists n (s3Meta st') \<and> active_multipart_count n (s3Meta st') > 0"
proof -
  let ?q = "InitReq n k rq"
  obtain st1 where run: "(req_sys ob lim)\<^sup>*\<^sup>* (req_start [?q, DeleteReq n], st) ([(?q, AtAct), (DeleteReq n, Answered (response 204 NoBody))], st1)"
    and gone: "\<not> bucket_exists n (s3Meta st1)" using act_after_delete [OF _ assms, of ?q] by blast
  obtain uid m where i: "initiate_upload n k (rqRandom rq) (rqNow rq) (s3Meta st1) = (uid, m)" by fastforce
  have "req_sys ob lim ([(?q, AtAct), (DeleteReq n, Answered (response 204 NoBody))], st1)
    ([(?q, Answered (response 200 (XmlInitiate n k uid))), (DeleteReq n, Answered (response 204 NoBody))], st1\<lparr>s3Meta := m\<rparr>)"
    by (rule req_first) (use i in \<open>auto simp: init_act_def\<close>)
  moreover have "active_multipart_count n m > 0" using i initiate_counted by blast
  ultimately show ?thesis using run gone initiate_buckets [OF i, of n]
    by (intro exI conjI) (erule (1) rtranclp.rtrancl_into_rtrancl, auto)
qed

text \<open>
  \<open>RemoveBucket\<close> itself looks first and removes later: whatever is written below the bucket's
  directory in between goes with it.
\<close>

lemma removal_takes_late_files:
  assumes "is_bucket_empty l b w = (Inr True, w1)"
  shows "remove_bucket l b w = os_remove_all (bucket_dir l b) w1"
    and "bucket_dir l b \<noteq> [] \<Longrightarrow> os_remove_all (bucket_dir l b) w2 = (Inr u, w3) \<Longrightarrow> file_at w3 (bucket_dir l b @ ys) = None"
  using assms os_remove_all_file_at [of "bucket_dir l b" w2 u w3] by (simp_all add: remove_bucket_def)

end
