(* ===== verification/RepairWorker.thy ===== *)
theory RepairWorker imports RepairQueue "HOL-Library.Multiset"
begin

text \<open>
  The background repair worker (src/pkg/repair/worker.go): its control operations, the loop of
  one consumer goroutine as transitions between the points where it waits, and the system of
  all goroutines with the queue they share. Counters have the width of their atomics.
\<close>

subsection \<open>State\<close>

record worker_config =
  wcConcurrency :: int
  wcBackoff :: int
  wcPollInterval :: int
  wcMaxRetries :: int

text \<open>Where a consumer goroutine stands in its loop.\<close>

datatype loop_pc = AtTop | PauseWait | AtDequeue | BackOff | Processing repair_item | Exited

record worker =
  wkConfig :: worker_config
  wkCancelled :: bool
  wkThreads :: "loop_pc list"
  wkRunning :: bool
  wkPaused :: bool
  wkProcessed :: "64 word"
  wkSkipped :: "64 word"
  wkFailed :: "64 word"
  wkInflight :: "32 word"
  wkStarted :: int
  wkLastErr :: "err option"

record worker_stats =
  stRunning :: bool
  stPaused :: bool
  stProcessed :: "64 word"
  stSkipped :: "64 word"
  stFailed :: "64 word"
  stInflight :: int
  stQueueLen :: nat
  stLastError :: "err option"
  stStarted :: int
  stUpdated :: int

definition new_worker :: "worker_config \<Rightarrow> worker" where
  "new_worker cfg0 =
     (let cfg1 = (if wcConcurrency cfg0 \<le> 0 then cfg0\<lparr>wcConcurrency := 1\<rparr> else cfg0);
          cfg = (if wcPollInterval cfg1 \<le> 0 then cfg1\<lparr>wcPollInterval := 200000000\<rparr> else cfg1)
      in \<lparr>wkConfig = cfg, wkCancelled = False, wkThreads = [], wkRunning = False, wkPaused = False,
          wkProcessed = 0, wkSkipped = 0, wkFailed = 0, wkInflight = 0, wkStarted = 0, wkLastErr = None\<rparr>)"

subsection \<open>Control operations\<close>

definition worker_start :: "int \<Rightarrow> worker \<Rightarrow> worker" where
  "worker_start now w =
     (if wkRunning w then w
      else w\<lparr>wkCancelled := False, wkStarted := now, wkRunning := True,
             wkThreads := replicate (nat (wcConcurrency (wkConfig w))) AtTop\<rparr>)"

text \<open>\<open>Stop\<close> cancels, then waits for the goroutines: it returns once all have exited, or with
  its context's error.\<close>

definition worker_stop_request :: "worker \<Rightarrow> worker" where
  "worker_stop_request w = (if wkRunning w then w\<lparr>wkCancelled := True\<rparr> else w)"

definition worker_stop_wait :: "err option \<Rightarrow> worker \<Rightarrow> (unit result \<times> worker) outcome" where
  "worker_stop_wait ctx w =
     (if \<not> wkRunning w then Done (Inr (), w)
      else if \<forall>pc \<in> set (wkThreads w). pc = Exited then Done (Inr (), w\<lparr>wkRunning := False\<rparr>)
      else (case ctx of Some e \<Rightarrow> Done (Inl e, w) | None \<Rightarrow> Blocked))"

definition worker_pause :: "worker \<Rightarrow> worker" where "worker_pause w = w\<lparr>wkPaused := True\<rparr>"
definition worker_resume :: "worker \<Rightarrow> worker" where "worker_resume w = w\<lparr>wkPaused := False\<rparr>"

definition worker_stats_of :: "mem_queue option \<Rightarrow> int \<Rightarrow> worker \<Rightarrow> worker_stats" where
  "worker_stats_of q now w =
     \<lparr>stRunning = wkRunning w, stPaused = wkPaused w, stProcessed = wkProcessed w, stSkipped = wkSkipped w,
      stFailed = wkFailed w, stInflight = sint (wkInflight w),
      stQueueLen = (case q of None \<Rightarrow> 0 | Some q' \<Rightarrow> queue_len q'), stLastError = wkLastErr w,
      stStarted = wkStarted w, stUpdated = now\<rparr>"

definition set_last_err :: "err option \<Rightarrow> worker \<Rightarrow> worker" where
  "set_last_err e w = (case e of None \<Rightarrow> w | Some x \<Rightarrow> w\<lparr>wkLastErr := Some x\<rparr>)"

definition backoff_or_default :: "int \<Rightarrow> int \<Rightarrow> int" where
  "backoff_or_default d def = (if d \<le> 0 then def else d)"

subsection \<open>The loop\<close>

text \<open>What a waiting goroutine can be woken by.\<close>

datatype loop_event =
    EvGo
  | EvDone
  | EvTick
  | EvTimer
  | EvDequeued "repair_item result"
  | EvProcessed "err option"

definition count_outcome :: "err option \<Rightarrow> worker \<Rightarrow> worker" where
  "count_outcome perr w =
     (case perr of
        None \<Rightarrow> w\<lparr>wkProcessed := wkProcessed w + 1\<rparr>
      | Some e \<Rightarrow>
          if e = ErrSkip \<or> e = ErrUnsupported then w\<lparr>wkSkipped := wkSkipped w + 1\<rparr>
          else set_last_err perr (w\<lparr>wkFailed := wkFailed w + 1\<rparr>))"

fun loop_step :: "loop_event \<Rightarrow> loop_pc \<Rightarrow> worker \<Rightarrow> (loop_pc \<times> worker) option" where
  "loop_step EvGo AtTop w =
     Some (if wkCancelled w then Exited else if wkPaused w then PauseWait else AtDequeue, w)"
| "loop_step EvDone PauseWait w = (if wkCancelled w then Some (Exited, w) else None)"
| "loop_step EvTick PauseWait w = Some (AtTop, w)"
| "loop_step (EvDequeued (Inr it)) AtDequeue w = Some (Processing it, w\<lparr>wkInflight := wkInflight w + 1\<rparr>)"
| "loop_step (EvDequeued (Inl e)) AtDequeue w =
     Some (if e = ErrQueueClosed then (Exited, w)
           else if wkCancelled w then (Exited, w)
           else (BackOff, set_last_err (Some e) w))"
| "loop_step EvDone BackOff w = (if wkCancelled w then Some (Exited, w) else None)"
| "loop_step EvTimer BackOff w = Some (AtTop, w)"
| "loop_step (EvProcessed perr) (Processing it) w =
     (let w1 = count_outcome perr w in Some (AtTop, w1\<lparr>wkInflight := wkInflight w1 - 1\<rparr>))"
| "loop_step _ _ w = None"

subsection \<open>The system of goroutines and queue\<close>

text \<open>The items taken from the queue and the items finished, with their outcome.\<close>

record worker_system =
  wsWorker :: worker
  wsQueue :: mem_queue
  wsTaken :: "repair_item list"
  wsFinished :: "(repair_item \<times> err option) list"

definition worker_ctx :: "worker \<Rightarrow> err option" where
  "worker_ctx w = (if wkCancelled w then Some ErrCtx else None)"

definition set_thread :: "nat \<Rightarrow> loop_pc \<Rightarrow> worker \<Rightarrow> worker" where
  "set_thread i pc w = w\<lparr>wkThreads := (wkThreads w)[i := pc]\<rparr>"

inductive worker_step :: "worker_system \<Rightarrow> worker_system \<Rightarrow> bool" where
  ws_move: "i < length (wkThreads (wsWorker s)) \<Longrightarrow> ev \<in> {EvGo, EvDone, EvTick, EvTimer} \<Longrightarrow>
    loop_step ev (wkThreads (wsWorker s) ! i) (wsWorker s) = Some (pc, w) \<Longrightarrow>
    worker_step s (s\<lparr>wsWorker := set_thread i pc w\<rparr>)"
| ws_dequeue: "i < length (wkThreads (wsWorker s)) \<Longrightarrow> dequeue b (worker_ctx (wsWorker s)) (wsQueue s) = Done (r, q) \<Longrightarrow>
    loop_step (EvDequeued r) (wkThreads (wsWorker s) ! i) (wsWorker s) = Some (pc, w) \<Longrightarrow>
    worker_step s (s\<lparr>wsWorker := set_thread i pc w, wsQueue := q,
      wsTaken := wsTaken s @ (case r of Inr it \<Rightarrow> [it] | Inl _ \<Rightarrow> [])\<rparr>)"
| ws_process: "i < length (wkThreads (wsWorker s)) \<Longrightarrow> wkThreads (wsWorker s) ! i = Processing it \<Longrightarrow>
    loop_step (EvProcessed perr) (Processing it) (wsWorker s) = Some (pc, w) \<Longrightarrow>
    worker_step s (s\<lparr>wsWorker := set_thread i pc w, wsFinished := wsFinished s @ [(it, perr)]\<rparr>)"

text \<open>What others do meanwhile: control calls and producers.\<close>

inductive outside_step :: "worker_system \<Rightarrow> worker_system \<Rightarrow> bool" where
  os_pause: "outside_step s (s\<lparr>wsWorker := worker_pause (wsWorker s)\<rparr>)"
| os_resume: "outside_step s (s\<lparr>wsWorker := worker_resume (wsWorker s)\<rparr>)"
| os_stop: "outside_step s (s\<lparr>wsWorker := worker_stop_request (wsWorker s)\<rparr>)"
| os_enqueue: "enqueue b c it (wsQueue s) = Done (r, q) \<Longrightarrow> outside_step s (s\<lparr>wsQueue := q\<rparr>)"
| os_close: "close_queue (wsQueue s) = (r, q) \<Longrightarrow> outside_step s (s\<lparr>wsQueue := q\<rparr>)"

definition system_init :: "worker_config \<Rightarrow> int \<Rightarrow> int \<Rightarrow> worker_system" where
  "system_init cfg capacity now =
     \<lparr>wsWorker = worker_start now (new_worker cfg), wsQueue = new_mem_queue capacity, wsTaken = [], wsFinished = []\<rparr>"

definition any_step :: "worker_system \<Rightarrow> worker_system \<Rightarrow> bool" where
  "any_step s s' \<longleftrightarrow> worker_step s s' \<or> outside_step s s'"

inductive_cases outside_stepE: "outside_step s s'"

subsection \<open>Accounting\<close>

text \<open>The items in the hands of the goroutines.\<close>

fun in_hand :: "loop_pc \<Rightarrow> repair_item list" where
  "in_hand (Processing it) = [it]"
| "in_hand _ = []"

definition held :: "loop_pc list \<Rightarrow> repair_item multiset" where
  "held pcs = (\<Sum>pc \<in># mset pcs. mset (in_hand pc))"

fun skipped_err :: "err option \<Rightarrow> bool" where
  "skipped_err (Some e) = (e = ErrSkip \<or> e = ErrUnsupported)"
| "skipped_err None = False"

definition accounts_ok :: "worker_system \<Rightarrow> bool" where
  "accounts_ok s \<longleftrightarrow>
     (let w = wsWorker s; outs = map snd (wsFinished s) in
      wkProcessed w = of_nat (length (filter (\<lambda>o1. o1 = None) outs)) \<and>
      wkSkipped w = of_nat (length (filter skipped_err outs)) \<and>
      wkFailed w = of_nat (length (filter (\<lambda>o1. o1 \<noteq> None \<and> \<not> skipped_err o1) outs)) \<and>
      wkInflight w = of_nat (size (held (wkThreads w))) \<and>
      mset (wsTaken s) = mset (map fst (wsFinished s)) + held (wkThreads w))"

lemma held_update:
  assumes "i < length pcs"
  shows "held (pcs[i := pc]) + mset (in_hand (pcs ! i)) = held pcs + mset (in_hand pc)"
proof -
  define M where "M = mset pcs - {#pcs ! i#}"
  have new: "mset (pcs[i := pc]) = add_mset pc M"
    using assms by (simp add: mset_update M_def)
  have old: "mset pcs = add_mset (pcs ! i) M"
    using assms by (simp add: insert_DiffM M_def)
  show ?thesis
    unfolding held_def new by (subst old) (simp add: ac_simps)
qed

lemma held_same:
  "i < length pcs \<Longrightarrow> in_hand (pcs ! i) = [] \<Longrightarrow> in_hand pc = [] \<Longrightarrow> held (pcs[i := pc]) = held pcs"
  using held_update [of i pcs pc] by simp

lemma held_take:
  "i < length pcs \<Longrightarrow> in_hand (pcs ! i) = [] \<Longrightarrow> held (pcs[i := Processing it]) = add_mset it (held pcs)"
  using held_update [of i pcs "Processing it"] by simp

lemma held_drop:
  "i < length pcs \<Longrightarrow> pcs ! i = Processing it \<Longrightarrow> in_hand pc = [] \<Longrightarrow> held pcs = add_mset it (held (pcs[i := pc]))"
  using held_update [of i pcs pc] by simp

lemma loop_step_move:
  "loop_step ev pc w = Some (pc', w') \<Longrightarrow> ev \<in> {EvGo, EvDone, EvTick, EvTimer} \<Longrightarrow>
     w' = w \<and> in_hand pc = [] \<and> in_hand pc' = []"
  by (cases "(ev, pc, w)" rule: loop_step.cases) (auto split: if_splits)

lemma loop_step_dequeued:
  "loop_step (EvDequeued r) pc w = Some (pc', w') \<Longrightarrow> pc = AtDequeue \<and>
     (case r of Inr it \<Rightarrow> pc' = Processing it \<and> w' = w\<lparr>wkInflight := wkInflight w + 1\<rparr>
      | Inl e \<Rightarrow> in_hand pc' = [] \<and> (w' = w \<or> w' = w\<lparr>wkLastErr := Some e\<rparr>))"
  by (cases "(EvDequeued r, pc, w)" rule: loop_step.cases) (auto simp: set_last_err_def split: if_splits sum.splits)

lemma accounts_ok_worker: "worker_step s s' \<Longrightarrow> accounts_ok s \<Longrightarrow> accounts_ok s'"
proof (induction rule: worker_step.induct)
  case (ws_move i s ev pc w)
  note m = loop_step_move [OF ws_move(3,2)]
  have "held ((wkThreads (wsWorker s))[i := pc]) = held (wkThreads (wsWorker s))"
    using ws_move(1) m by (intro held_same) auto
  with ws_move(4) m show ?case by (simp add: accounts_ok_def Let_def set_thread_def)
next
  case (ws_dequeue i s b r q pc w)
  note d = loop_step_dequeued [OF ws_dequeue(3)]
  then have e: "in_hand (wkThreads (wsWorker s) ! i) = []" by simp
  show ?case
  proof (cases r)
    case (Inl er)
    then have "in_hand pc = []" "w = wsWorker s \<or> w = (wsWorker s)\<lparr>wkLastErr := Some er\<rparr>" using d by auto
    moreover from this have "held ((wkThreads (wsWorker s))[i := pc]) = held (wkThreads (wsWorker s))"
      using ws_dequeue(1) e by (intro held_same) auto
    ultimately show ?thesis using ws_dequeue(4) Inl by (auto simp: accounts_ok_def Let_def set_thread_def)
  next
    case (Inr it)
    then have "pc = Processing it" "w = (wsWorker s)\<lparr>wkInflight := wkInflight (wsWorker s) + 1\<rparr>" using d by auto
    moreover have "held ((wkThreads (wsWorker s))[i := Processing it]) = add_mset it (held (wkThreads (wsWorker s)))"
      using ws_dequeue(1) e by (rule held_take)
    ultimately show ?thesis using ws_dequeue(4) Inr by (simp add: accounts_ok_def Let_def set_thread_def)
  qed
next
  case (ws_process i s it perr pc w)
  let ?w = "wsWorker s"
  have pc: "pc = AtTop" and w: "w = (count_outcome perr ?w)\<lparr>wkInflight := wkInflight (count_outcome perr ?w) - 1\<rparr>"
    using ws_process(3) by (auto simp: Let_def)
  have h: "held (wkThreads ?w) = add_mset it (held ((wkThreads ?w)[i := AtTop]))"
    using ws_process(1,2) by (intro held_drop) simp_all
  have th: "wkThreads w = wkThreads ?w" "wkInflight w = wkInflight ?w - 1"
    by (auto simp: w count_outcome_def set_last_err_def split: option.splits)
  have "wkProcessed w = wkProcessed ?w + (if perr = None then 1 else 0)"
    "wkSkipped w = wkSkipped ?w + (if skipped_err perr then 1 else 0)"
    "wkFailed w = wkFailed ?w + (if perr \<noteq> None \<and> \<not> skipped_err perr then 1 else 0)"
    by (auto simp: w count_outcome_def set_last_err_def split: option.splits)
  with ws_process(4) h th pc show ?case
    by (auto simp: accounts_ok_def Let_def set_thread_def)
qed

lemma accounts_ok_outside: "outside_step s s' \<Longrightarrow> accounts_ok s \<Longrightarrow> accounts_ok s'"
  by (erule outside_stepE)
    (auto simp: accounts_ok_def Let_def worker_pause_def worker_resume_def worker_stop_request_def)

lemma accounts_ok_init: "accounts_ok (system_init cfg c now)"
proof -
  have "held (replicate n AtTop) = {#}" for n by (simp add: held_def)
  then show ?thesis
    by (simp add: accounts_ok_def system_init_def worker_start_def new_worker_def Let_def held_def)
qed

lemma accounts_ok_reachable: "any_step\<^sup>*\<^sup>* (system_init cfg c now) s \<Longrightarrow> accounts_ok s"
  by (induction rule: rtranclp_induct)
    (auto simp: any_step_def intro: accounts_ok_init accounts_ok_worker accounts_ok_outside)

text \<open>What a goroutine takes is what the queue gives, in the queue's order.\<close>

lemma worker_step_takes:
  "worker_step s s' \<Longrightarrow> wsTaken s @ mqBuf (wsQueue s) = wsTaken s' @ mqBuf (wsQueue s')"
proof (induction rule: worker_step.induct)
  case (ws_dequeue i s b r q pc w)
  show ?case
  proof (cases r)
    case (Inl e)
    with memq.deq_err [of b "worker_ctx (wsWorker s)" "wsQueue s" e q] ws_dequeue show ?thesis by simp
  next
    case (Inr it)
    with memq.deq_ok [of b "worker_ctx (wsWorker s)" "wsQueue s" it q] ws_dequeue show ?thesis by simp
  qed
qed simp_all

subsection \<open>Shutdown\<close>

text \<open>How many loop transitions a goroutine can still make after cancellation.\<close>

fun pc_rank :: "loop_pc \<Rightarrow> nat" where
  "pc_rank Exited = 0"
| "pc_rank AtTop = 1"
| "pc_rank PauseWait = 2"
| "pc_rank BackOff = 2"
| "pc_rank (Processing it) = 2"
| "pc_rank AtDequeue = 3"

lemma loop_step_rank:
  "loop_step ev pc w = Some (pc', w') \<Longrightarrow> wkCancelled w \<Longrightarrow> pc_rank pc' < pc_rank pc \<and> wkCancelled w' \<and> wkThreads w' = wkThreads w"
  by (cases "(ev, pc, w)" rule: loop_step.cases)
    (auto simp: Let_def count_outcome_def set_last_err_def split: if_splits option.splits)

definition ranks :: "worker_system \<Rightarrow> nat" where
  "ranks s = sum_list (map pc_rank (wkThreads (wsWorker s)))"

lemma sum_rank_bound: "sum_list (map pc_rank pcs) \<le> 3 * length pcs"
proof (induction pcs)
  case Nil
  then show ?case by simp
next
  case (Cons pc pcs)
  have "pc_rank pc \<le> 3" by (cases pc) simp_all
  with Cons show ?case by simp
qed

lemma sum_list_update_less:
  fixes xs :: "nat list"
  shows "i < length xs \<Longrightarrow> y < xs ! i \<Longrightarrow> sum_list (xs[i := y]) < sum_list xs"
  by (induction xs arbitrary: i) (auto split: nat.splits)

lemma ranks_thread:
  assumes "i < length (wkThreads w)" and "pc_rank pc < pc_rank (wkThreads w ! i)" and "wkThreads w' = wkThreads w"
  shows "sum_list (map pc_rank (wkThreads (set_thread i pc w'))) < sum_list (map pc_rank (wkThreads w))"
  using assms sum_list_update_less [of i "map pc_rank (wkThreads w)" "pc_rank pc"]
  by (simp add: set_thread_def map_update)

lemma worker_step_rank:
  "worker_step s s' \<Longrightarrow> wkCancelled (wsWorker s) \<Longrightarrow> ranks s' < ranks s \<and> wkCancelled (wsWorker s')"
proof (induction rule: worker_step.induct)
  case (ws_move i s ev pc w)
  with loop_step_rank [OF ws_move(3,4)] ranks_thread [of i "wsWorker s" pc w] show ?case
    by (simp add: ranks_def) (simp add: set_thread_def)
next
  case (ws_dequeue i s b r q pc w)
  with loop_step_rank [OF ws_dequeue(3,4)] ranks_thread [of i "wsWorker s" pc w] show ?case
    by (simp add: ranks_def) (simp add: set_thread_def)
next
  case (ws_process i s it perr pc w)
  with loop_step_rank [OF ws_process(3,4)] ranks_thread [of i "wsWorker s" pc w] show ?case
    by (simp add: ranks_def) (simp add: set_thread_def)
qed

lemma dequeue_cancelled: "\<exists>r q'. dequeue b (Some e) q = Done (r, q')"
  by (auto simp: dequeue_def chan_recv_def split: list.split)

text \<open>After cancellation no goroutine is stuck.\<close>

lemma worker_progress:
  assumes c: "wkCancelled (wsWorker s)" and i: "i < length (wkThreads (wsWorker s))"
    and ne: "wkThreads (wsWorker s) ! i \<noteq> Exited"
  shows "\<exists>s'. worker_step s s'"
proof (cases "wkThreads (wsWorker s) ! i")
  case AtTop
  then show ?thesis using ws_move [OF i, of EvGo] c by auto
next
  case PauseWait
  then show ?thesis using ws_move [OF i, of EvDone] c by auto
next
  case BackOff
  then show ?thesis using ws_move [OF i, of EvDone] c by auto
next
  case AtDequeue
  obtain r q' where d: "dequeue b (worker_ctx (wsWorker s)) (wsQueue s) = Done (r, q')"
    using dequeue_cancelled c by (metis worker_ctx_def)
  have "\<exists>pw. loop_step (EvDequeued r) AtDequeue (wsWorker s) = Some pw" by (cases r) auto
  then obtain pc w where "loop_step (EvDequeued r) AtDequeue (wsWorker s) = Some (pc, w)" by auto
  then show ?thesis using ws_dequeue [OF i d] AtDequeue by metis
next
  case (Processing it)
  then show ?thesis using ws_process [OF i Processing, of None] by (auto simp: Let_def)
next
  case Exited
  with ne show ?thesis by simp
qed

subsection \<open>Pausing\<close>

definition at_dequeue :: "worker_system \<Rightarrow> nat" where
  "at_dequeue s = length (filter (\<lambda>pc. pc = AtDequeue) (wkThreads (wsWorker s)))"

lemma count_update:
  "i < length xs \<Longrightarrow>
   length (filter P (xs[i := y])) + (if P (xs ! i) then 1 else 0) = length (filter P xs) + (if P y then 1 else 0)"
  using arg_cong [OF id_take_nth_drop [of i xs], of "\<lambda>xs. length (filter P xs)"]
  by (simp add: upd_conv_take_nth_drop)

lemma at_dequeue_update:
  assumes "i < length (wkThreads (wsWorker s))" and "wkThreads w = wkThreads (wsWorker s)"
  shows "length (filter (\<lambda>pc. pc = AtDequeue) (wkThreads (set_thread i pc w))) +
      (if wkThreads (wsWorker s) ! i = AtDequeue then 1 else 0) = at_dequeue s + (if pc = AtDequeue then 1 else 0)"
  using count_update [OF assms(1), of "\<lambda>pc. pc = AtDequeue" pc] assms(2) by (simp add: set_thread_def at_dequeue_def)

lemma paused_step:
  "worker_step s s' \<Longrightarrow> wkPaused (wsWorker s) \<Longrightarrow>
     length (wsTaken s') + at_dequeue s' \<le> length (wsTaken s) + at_dequeue s \<and> wkPaused (wsWorker s')"
proof (induction rule: worker_step.induct)
  case (ws_move i s ev pc w)
  have "w = wsWorker s" using loop_step_move [OF ws_move(3,2)] by simp
  moreover have "pc \<noteq> AtDequeue"
    using ws_move(3,4) by (cases "(ev, wkThreads (wsWorker s) ! i, wsWorker s)" rule: loop_step.cases) (auto simp: Let_def split: if_splits)
  ultimately show ?case
    using at_dequeue_update [OF ws_move(1), of w pc] ws_move(4) by (auto simp: at_dequeue_def set_thread_def split: if_splits)
next
  case (ws_dequeue i s b r q pc w)
  note d = loop_step_dequeued [OF ws_dequeue(3)]
  have "pc \<noteq> AtDequeue"
    using ws_dequeue(3) by (cases "(EvDequeued r, wkThreads (wsWorker s) ! i, wsWorker s)" rule: loop_step.cases) (auto simp: Let_def split: if_splits)
  moreover have "wkThreads w = wkThreads (wsWorker s)" "wkPaused w = wkPaused (wsWorker s)"
    using d by (auto split: sum.splits)
  ultimately show ?case
    using at_dequeue_update [OF ws_dequeue(1), of w pc] ws_dequeue(4) d
    by (auto simp: at_dequeue_def set_thread_def split: sum.splits)
next
  case (ws_process i s it perr pc w)
  have "pc = AtTop" "wkThreads w = wkThreads (wsWorker s)" "wkPaused w = wkPaused (wsWorker s)"
    using ws_process(3) by (auto simp: Let_def count_outcome_def set_last_err_def split: option.splits if_splits)
  then show ?case
    using at_dequeue_update [OF ws_process(1), of w pc] ws_process(2,4)
    by (auto simp: at_dequeue_def set_thread_def)
qed

lemma paused_run:
  "worker_step\<^sup>*\<^sup>* s s' \<Longrightarrow> wkPaused (wsWorker s) \<Longrightarrow>
     length (wsTaken s') + at_dequeue s' \<le> length (wsTaken s) + at_dequeue s \<and> wkPaused (wsWorker s')"
proof (induction rule: rtranclp_induct)
  case base
  then show ?case by simp
next
  case (step s1 s2)
  then show ?case using paused_step [of s1 s2] by auto
qed

subsection \<open>Properties\<close>


definition ex_worker_config :: worker_config where
  "ex_worker_config = \<lparr>wcConcurrency = 2, wcBackoff = 0, wcPollInterval = 0, wcMaxRetries = 0\<rparr>"

definition ex_cancelled :: worker_system where
  "ex_cancelled = (system_init ex_worker_config 4 1)
     \<lparr>wsWorker := worker_stop_request (wsWorker (system_init ex_worker_config 4 1))\<rparr>"

lemma ex_cancelled_sel:
  "wkThreads (wsWorker ex_cancelled) = [AtTop, AtTop]" "wkCancelled (wsWorker ex_cancelled)"
  "wsFinished ex_cancelled = []"
  by (simp_all add: ex_cancelled_def system_init_def worker_start_def new_worker_def ex_worker_config_def
      worker_stop_request_def numeral_eq_Suc Let_def)


text \<open>
  C25. Shutdown terminates: after \<open>Stop\<close> has cancelled the context every loop transition brings
  the goroutines closer to their exit, at most three transitions each, none of them is ever
  stuck, and once none can move all have exited and \<open>Stop\<close> returns.
\<close>

theorem worker_shutdown:
  assumes "wkCancelled (wsWorker s)"
  shows "ranks s \<le> 3 * length (wkThreads (wsWorker s)) \<and>
    (\<forall>s'. worker_step s s' \<longrightarrow> ranks s' < ranks s \<and> wkCancelled (wsWorker s')) \<and>
    ((\<nexists>s'. worker_step s s') \<longrightarrow>
      (\<forall>pc \<in> set (wkThreads (wsWorker s)). pc = Exited) \<and>
      (\<exists>w'. worker_stop_wait None (wsWorker s) = Done (Inr (), w') \<and> \<not> wkRunning w'))"
proof (intro conjI allI impI)
  show "ranks s \<le> 3 * length (wkThreads (wsWorker s))"
    unfolding ranks_def by (rule sum_rank_bound)
next
  fix s'
  assume "worker_step s s'"
  then show "ranks s' < ranks s" "wkCancelled (wsWorker s')" using worker_step_rank assms by blast+
next
  assume stuck: "\<nexists>s'. worker_step s s'"
  show all: "\<forall>pc \<in> set (wkThreads (wsWorker s)). pc = Exited"
  proof
    fix pc
    assume "pc \<in> set (wkThreads (wsWorker s))"
    then obtain i where "i < length (wkThreads (wsWorker s))" "wkThreads (wsWorker s) ! i = pc"
      by (auto simp: in_set_conv_nth)
    with worker_progress [OF assms] stuck show "pc = Exited" by blast
  qed
  then show "\<exists>w'. worker_stop_wait None (wsWorker s) = Done (Inr (), w') \<and> \<not> wkRunning w'"
    by (simp add: worker_stop_wait_def)
qed

theorem worker_shutdown_witness: "wkCancelled (wsWorker ex_cancelled) \<and> ranks ex_cancelled \<le> 6"
proof -
  show ?thesis using worker_shutdown [OF ex_cancelled_sel(2)] by (simp add: ex_cancelled_sel)
qed

text \<open>
  Pausing: while the worker is paused it stays paused, and in any run of its goroutines at
  most the items for which a goroutine was already waiting in \<open>Dequeue\<close> are taken, so at most
  one for each goroutine.
\<close>

lemma worker_pause_bound:
  assumes "worker_step\<^sup>*\<^sup>* s s'" and "wkPaused (wsWorker s)"
  shows "wkPaused (wsWorker s') \<and> length (wsTaken s') \<le> length (wsTaken s) + at_dequeue s \<and>
    at_dequeue s \<le> length (wkThreads (wsWorker s))"
  using paused_run [OF assms] by (auto simp: at_dequeue_def)

end
