(* ===== verification/Rewriter.thy ===== *)
theory Rewriter imports LocalProps RepairQueue
begin

text \<open>
  The single-shard rewriter (src/pkg/repair/rewriter.go): it rebuilds header and footer of a
  sealed shard around a payload whose hash still matches the manifest, and records the new
  checksums. An error wrapped with \<open>%w\<close> is the error itself.
\<close>

subsection \<open>Repair\<close>

text \<open>The shard's length as the manifest gives it.\<close>

definition repair_payload_len :: "manifest \<Rightarrow> shard_meta \<Rightarrow> int" where
  "repair_payload_len m shard = (if smPayloadLength shard \<le> 0 then mSize m else smPayloadLength shard)"

definition repaired_manifest :: "manifest \<Rightarrow> shard_meta \<Rightarrow> byte list \<Rightarrow> byte list \<Rightarrow> byte list \<Rightarrow> int \<Rightarrow> int \<Rightarrow> manifest" where
  "repaired_manifest m shard hdrBytes footerBytes digest payloadLen now =
     m\<lparr>mShards := [shard\<lparr>smHeaderCRC32C := last4_le hdrBytes, smFooterCRC32C := last4_le footerBytes,
         smPayloadLength := payloadLen, smContentHashHex := hex_encode digest\<rparr>],
       mLastModified := now\<rparr>"

text \<open>From the footer on: publish the rewritten shard and save the manifest.\<close>

definition repair_publish ::
  "json_codec \<Rightarrow> string \<Rightarrow> repair_item \<Rightarrow> manifest \<Rightarrow> shard_meta \<Rightarrow> fpath \<Rightarrow> fpath \<Rightarrow> byte list \<Rightarrow> byte list \<Rightarrow> int \<Rightarrow>
     (unit, 'z) io" where
  "repair_publish jc baseDir item m shard absShard tmp hdrBytes digest payloadLen =
     io_bind (os_write_at tmp (length hdrBytes + nat payloadLen) (encode_shard_footer digest)) (\<lambda>_.
     io_bind (os_sync tmp) (\<lambda>_.
     io_bind (os_close tmp) (\<lambda>_.
     io_bind (os_rename tmp absShard) (\<lambda>_.
     io_bind (sync_dir (butlast absShard)) (\<lambda>_ w.
       save_manifest jc baseDir (riBucket item) (riKey item)
         (repaired_manifest m shard hdrBytes (encode_shard_footer digest) digest payloadLen (fs_clock w)) w)))))"

text \<open>Filling the temporary file and the check of the payload's hash.\<close>

definition repair_rewrite ::
  "json_codec \<Rightarrow> string \<Rightarrow> repair_item \<Rightarrow> manifest \<Rightarrow> shard_meta \<Rightarrow> fpath \<Rightarrow> node \<Rightarrow> nat \<Rightarrow> int \<Rightarrow> fpath \<Rightarrow> (unit, 'z) io" where
  "repair_rewrite jc baseDir item m shard absShard src off payloadLen tmp =
     (case seal_header payloadLen of
        Inl e \<Rightarrow> io_fail e
      | Inr hdrBytes \<Rightarrow>
          io_bind (os_write_at tmp 0 hdrBytes) (\<lambda>_.
          io_bind (read_n src off payloadLen) (\<lambda>payload.
          io_bind (os_write_at tmp (length hdrBytes) payload) (\<lambda>_.
            case hex_decode (smContentHashHex shard) of
              None \<Rightarrow> io_fail ErrUnsupported
            | Some expectedHash \<Rightarrow>
                if length expectedHash \<noteq> 32 then io_fail ErrUnsupported
                else if sha256 payload \<noteq> expectedHash then io_fail ErrPayloadMismatch
                else repair_publish jc baseDir item m shard absShard tmp hdrBytes (sha256 payload) payloadLen))))"

definition repair_shard ::
  "json_codec \<Rightarrow> string \<Rightarrow> repair_item \<Rightarrow> manifest \<Rightarrow> shard_meta \<Rightarrow> int \<Rightarrow> fpath \<Rightarrow> (unit, 'z) io" where
  "repair_shard jc baseDir item m shard payloadLen absShard =
     io_bind (os_open absShard) (\<lambda>src.
     io_defer
       (io_bind (os_seek 28) (\<lambda>off.
        io_bind (os_create_temp (butlast absShard) ''.repair-'' '''') (\<lambda>tmp.
        io_defer (repair_rewrite jc baseDir item m shard absShard src off payloadLen tmp)
          (\<lambda>w. os_remove tmp (io_ignore (os_close tmp) w)))))
       (os_close absShard))"

definition repair_single :: "json_codec \<Rightarrow> string \<Rightarrow> repair_item \<Rightarrow> manifest \<Rightarrow> shard_meta \<Rightarrow> (unit, 'z) io" where
  "repair_single jc baseDir item m shard w =
     (if smPath shard = '''' then (Inl ErrUnsupported, w)
      else if riShardPath item \<noteq> '''' \<and> riShardPath item \<noteq> smPath shard then (Inl ErrSkip, w)
      else
        (let payloadLen = repair_payload_len m shard in
         if payloadLen \<le> 0 then (Inl ErrUnsupported, w)
         else
           (let absShard = os_path (join_path [baseDir, smPath shard]) in
            case os_stat absShard w of
              (Inl e, w1) \<Rightarrow> (Inl (if e = OsErr ENOENT then ErrSkip else e), w1)
            | (Inr info, w1) \<Rightarrow>
                if node_size info < sint (word_of_int (28 + payloadLen + 36) :: 64 word)
                then (Inl (ErrText ''repair: shard truncated''), w1)
                else repair_shard jc baseDir item m shard payloadLen absShard w1)))"

definition repair :: "json_codec \<Rightarrow> string \<Rightarrow> err option \<Rightarrow> repair_item \<Rightarrow> (unit, 'z) io" where
  "repair jc baseDir ctx item w =
     (if baseDir = '''' then (Inl ErrSkip, w)
      else
        (case ctx of
           Some e \<Rightarrow> (Inl e, w)
         | None \<Rightarrow>
             (case load_manifest jc baseDir (riBucket item) (riKey item) w of
                (Inl e, w1) \<Rightarrow> (Inl (if e = OsErr ENOENT then ErrSkip else e), w1)
              | (Inr m, w1) \<Rightarrow>
                  (case mShards m of
                     [shard] \<Rightarrow> repair_single jc baseDir item m shard w1
                   | _ \<Rightarrow> (Inl ErrUnsupported, w1)))))"

subsection \<open>What the rewriter touches\<close>

lemma io_bind_preserves:
  assumes "io_bind m f w = (r, w')" and "\<And>r1 w1. m w = (r1, w1) \<Longrightarrow> preserves T w w1"
    and "\<And>x w1. m w = (Inr x, w1) \<Longrightarrow> f x w1 = (r, w') \<Longrightarrow> preserves T w1 w'"
  shows "preserves T w w'"
proof -
  obtain r1 w1 where m: "m w = (r1, w1)" by fastforce
  show ?thesis
    using assms m by (cases r1) (auto simp: io_bind_def intro: preserves_trans)
qed

lemma repair_publish_ok:
  assumes pb: "repair_publish jc baseDir item m shard absShard tmp hdr digest n w = (Inr u, w')"
    and c: "file_at w tmp = Some c" and base: "abs_base baseDir" and bucket: "good_elem (riBucket item)"
  shows "\<exists>data. jenc jc (manifest_defaults (fs_clock w) (repaired_manifest m shard hdr (encode_shard_footer digest) digest n (fs_clock w))) = Some data \<and>
    validate_basic (manifest_defaults (fs_clock w) (repaired_manifest m shard hdr (encode_shard_footer digest) digest n (fs_clock w))) = Inr () \<and>
    file_at w' = (file_at w)(tmp := None,
      absShard \<mapsto> write_at c (length hdr + nat n) (encode_shard_footer digest),
      meta_elems baseDir (riBucket item) (riKey item) \<mapsto> data) \<and> fs_clock w' = fs_clock w"
proof -
  let ?S = "{tmp, absShard}"
  from pb obtain w1 w2 w3 w4 w5 where
      wr: "os_write_at tmp (length hdr + nat n) (encode_shard_footer digest) w = (Inr (), w1)"
    and sy: "os_sync tmp w1 = (Inr (), w2)" and cl: "os_close tmp w2 = (Inr (), w3)"
    and rn: "os_rename tmp absShard w3 = (Inr (), w4)" and sd: "sync_dir (butlast absShard) w4 = (Inr (), w5)"
    and sv: "save_manifest jc baseDir (riBucket item) (riKey item)
         (repaired_manifest m shard hdr (encode_shard_footer digest) digest n (fs_clock w5)) w5 = (Inr u, w')"
    by (auto simp: repair_publish_def io_bind_Inr)
  have "frame ?S w w1" using wr by (rule os_write_at_frame) simp
  also have "frame ?S w1 w2" using sy by (rule os_sync_frame)
  also have "frame ?S w2 w3" using cl by (rule os_close_frame)
  also have "frame ?S w3 w4" using rn by (rule os_rename_frame) simp_all
  also have "frame ?S w4 w5" using sd by (rule sync_dir_frame)
  finally have clk: "fs_clock w5 = fs_clock w" by (simp add: frame_def)
  have "file_at w3 = file_at w1" "file_at w5 = file_at w4"
    using frame_empty [OF os_sync_frame [OF sy]] frame_empty [OF os_close_frame [OF cl]]
      frame_empty [OF sync_dir_frame [OF sd]] by simp_all
  then have "file_at w5 = (file_at w)(tmp := None, absShard \<mapsto> write_at c (length hdr + nat n) (encode_shard_footer digest))"
    using os_write_at_ok [OF wr c] os_rename_ok [OF rn] by (auto simp: fun_eq_iff)
  with save_manifest_ok [OF sv base bucket] clk show ?thesis by auto
qed

text \<open>
  What may happen to the files that exist: apart from \<open>T\<close> each keeps its content, or is the
  shard and holds \<open>new\<close>.
\<close>

definition replaces :: "fpath set \<Rightarrow> fpath \<Rightarrow> byte list \<Rightarrow> 'z os_state_scheme \<Rightarrow> 'z os_state_scheme \<Rightarrow> bool" where
  "replaces T shard new w w' \<longleftrightarrow>
     (\<forall>q c. q \<notin> T \<longrightarrow> file_at w q = Some c \<longrightarrow>
        file_at w' q = Some c \<or> q = shard \<and> file_at w' q = Some new)"

lemma preserves_replaces: "preserves T w w' \<Longrightarrow> replaces T shard new w w'"
  by (simp add: preserves_def replaces_def)

lemma replaces_after: "preserves T w w1 \<Longrightarrow> replaces T shard new w1 w' \<Longrightarrow> replaces T shard new w w'"
  by (simp add: preserves_def replaces_def)

lemma replaces_before: "replaces T shard new w w1 \<Longrightarrow> preserves T w1 w' \<Longrightarrow> replaces T shard new w w'"
  by (auto simp: preserves_def replaces_def)

lemma repair_publish_replaces:
  assumes pb: "repair_publish jc baseDir item m shard absShard tmp hdr digest n w = (r, w')"
    and c: "file_at w tmp = Some c" and base: "abs_base baseDir" and bucket: "good_elem (riBucket item)"
  shows "replaces {tmp, meta_elems baseDir (riBucket item) (riKey item)} absShard
    (write_at c (length hdr + nat n) (encode_shard_footer digest)) w w'"
proof -
  let ?meta = "meta_elems baseDir (riBucket item) (riKey item)"
  let ?new = "write_at c (length hdr + nat n) (encode_shard_footer digest)"
  let ?R = "replaces {tmp, ?meta} absShard ?new"
  obtain r1 w1 where wr: "os_write_at tmp (length hdr + nat n) (encode_shard_footer digest) w = (r1, w1)" by fastforce
  obtain r2 w2 where sy: "os_sync tmp w1 = (r2, w2)" by fastforce
  obtain r3 w3 where cl: "os_close tmp w2 = (r3, w3)" by fastforce
  obtain r4 w4 where rn: "os_rename tmp absShard w3 = (r4, w4)" by fastforce
  obtain r5 w5 where sd: "sync_dir (butlast absShard) w4 = (r5, w5)" by fastforce
  have f1: "frame {tmp} w w1" using wr by (rule os_write_at_frame) simp
  have f2: "frame {tmp} w w2" using f1 os_sync_frame [OF sy] by (rule frame_trans)
  have f3: "frame {tmp} w w3" using f2 os_close_frame [OF cl] by (rule frame_trans)
  have early: "?R w v" if "frame {tmp} w v" for v
    using that by (intro preserves_replaces preserves_frame) (auto intro: frame_mono)
  show ?thesis
  proof (cases "is_ok r1 \<and> is_ok r2 \<and> is_ok r3 \<and> is_ok r4")
    case False
    have "frame {tmp} w w4" if "\<not> is_ok r4"
      using that rn frame_trans [OF f3 os_rename_err_frame] by (cases r4) auto
    with False have "w' = w1 \<or> w' = w2 \<or> w' = w3 \<or> (w' = w4 \<and> \<not> is_ok r4)"
      using pb wr sy cl rn by (cases r1; cases r2; cases r3; cases r4) (auto simp: repair_publish_def io_bind_def)
    with early f1 f2 f3 \<open>\<not> is_ok r4 \<Longrightarrow> frame {tmp} w w4\<close> show ?thesis by auto
  next
    case True
    then have ok: "r1 = Inr ()" "r4 = Inr ()" "r2 = Inr ()" "r3 = Inr ()"
      by (cases r1; cases r2; cases r3; cases r4; simp)+
    have "file_at w3 = file_at w1"
      using frame_empty [OF os_sync_frame [OF sy]] frame_empty [OF os_close_frame [OF cl]] by simp
    then have "file_at w4 = (file_at w)(tmp := None, absShard \<mapsto> ?new)"
      using os_write_at_ok [OF wr [unfolded ok] c] os_rename_ok [OF rn [unfolded ok]] by (auto simp: fun_eq_iff)
    moreover have "file_at w5 = file_at w4" using sd by (rule frame_empty [OF sync_dir_frame])
    ultimately have R5: "?R w w5" by (auto simp: replaces_def)
    show ?thesis
    proof (cases r5)
      case (Inl e)
      then have "w' = w5" using pb wr sy cl rn sd ok by (simp add: repair_publish_def io_bind_def)
      with R5 show ?thesis by simp
    next
      case (Inr u)
      then have sv: "save_manifest jc baseDir (riBucket item) (riKey item)
         (repaired_manifest m shard hdr (encode_shard_footer digest) digest n (fs_clock w5)) w5 = (r, w')"
        using pb wr sy cl rn sd ok by (simp add: repair_publish_def io_bind_def)
      obtain tmp2 where t2: "file_at w5 tmp2 = None" "frame {tmp2, ?meta} w5 w'"
        using save_manifest_frame [OF sv base bucket] by blast
      have "preserves {tmp, ?meta} w5 w'"
        unfolding preserves_def
      proof (intro allI impI)
        fix q c0
        assume "q \<notin> {tmp, ?meta}" and c0: "file_at w5 q = Some c0"
        with t2(1) have "q \<notin> {tmp2, ?meta}" by auto
        with frame_file_at [OF t2(2)] c0 show "file_at w' q = Some c0" by simp
      qed
      with R5 show ?thesis by (rule replaces_before)
    qed
  qed
qed

lemma read_n_file:
  assumes "read_n (FileN c t) off n w = (Inr bs, w')" and "0 < n"
  shows "bs = take (nat n) (drop off c) \<and> length bs = nat n"
  using assms by (auto simp: read_n_def io_bind_Inr dest!: os_read_from_ok split: if_splits)

text \<open>The content a rewrite publishes: the sealed form of the payload it found.\<close>

lemma repair_rewrite_replaces:
  assumes rw: "repair_rewrite jc baseDir item m shard absShard (FileN c t) 28 n tmp w = (r, w')"
    and e: "file_at w tmp = Some []" and n: "0 < n" and base: "abs_base baseDir" and bucket: "good_elem (riBucket item)"
  shows "\<exists>payload. replaces {tmp, meta_elems baseDir (riBucket item) (riKey item)} absShard (sealed_bytes payload) w w' \<and>
    (preserves {tmp, meta_elems baseDir (riBucket item) (riKey item)} w w' \<or>
      payload = take (nat n) (drop 28 c) \<and> length payload = nat n \<and> hex_decode (smContentHashHex shard) = Some (sha256 payload))"
proof -
  let ?meta = "meta_elems baseDir (riBucket item) (riKey item)" and ?hdr = "header_bytes (sealed_header n)"
  let ?T = "{tmp, ?meta}"
  have early: ?thesis if "frame ?T w w'"
    using that preserves_frame preserves_replaces by blast
  obtain r1 w1 where w1: "os_write_at tmp 0 ?hdr w = (r1, w1)" by fastforce
  have f1: "frame ?T w w1" using w1 by (rule os_write_at_frame) simp
  obtain r2 w2 where w2: "read_n (FileN c t) 28 n w1 = (r2, w2)" by fastforce
  have f2: "frame ?T w w2" using f1 read_n_frame [OF w2] by (rule frame_trans)
  show ?thesis
  proof (cases "is_ok r1 \<and> is_ok r2")
    case False
    then have "w' = w1 \<or> w' = w2"
      using rw w1 w2 by (cases r1; cases r2) (auto simp: repair_rewrite_def io_bind_def)
    with early f1 f2 show ?thesis by blast
  next
    case True
    then obtain payload where ok: "r1 = Inr ()" "r2 = Inr payload" by (cases r1; cases r2) auto
    obtain r3 w3 where w3: "os_write_at tmp 28 payload w2 = (r3, w3)" by fastforce
    have f3: "frame ?T w w3" using f2 os_write_at_frame [OF w3] by (rule frame_trans) simp
    note pl = read_n_file [OF w2 [unfolded ok] n]
    have rest: "(case r3 of Inl e \<Rightarrow> (Inl e, w3)
        | Inr _ \<Rightarrow> (case hex_decode (smContentHashHex shard) of
              None \<Rightarrow> io_fail ErrUnsupported
            | Some expectedHash \<Rightarrow>
                if length expectedHash \<noteq> 32 then io_fail ErrUnsupported
                else if sha256 payload \<noteq> expectedHash then io_fail ErrPayloadMismatch
                else repair_publish jc baseDir item m shard absShard tmp ?hdr (sha256 payload) n) w3) = (r, w')"
      using rw w1 w2 w3 ok by (cases r3) (auto simp: repair_rewrite_def io_bind_def)
    show ?thesis
    proof (cases "r3 = Inr () \<and> hex_decode (smContentHashHex shard) = Some (sha256 payload)")
      case False
      then have "w' = w3" using rest by (auto simp: io_fail_def split: sum.splits option.splits if_splits)
      with early f3 show ?thesis by blast
    next
      case True
      then have pb: "repair_publish jc baseDir item m shard absShard tmp ?hdr (sha256 payload) n w3 = (r, w')"
        using rest by simp
      have "file_at w1 tmp = Some (write_at [] 0 ?hdr)" using os_write_at_ok [OF w1 [unfolded ok] e] by simp
      then have "file_at w2 tmp = Some (write_at [] 0 ?hdr)" using frame_empty [OF read_n_frame [OF w2]] by simp
      then have t3: "file_at w3 tmp = Some (write_at (write_at [] 0 ?hdr) 28 payload)"
        using os_write_at_ok [OF w3 [unfolded conjunct1 [OF True]]] by simp
      have nn: "n = int (length payload)" using conjunct2 [OF pl] n by simp
      have new: "write_at (write_at (write_at [] 0 ?hdr) 28 payload) (length ?hdr + nat n) (encode_shard_footer (sha256 payload)) =
          sealed_bytes payload"
        using nn by (simp add: write_at_def sealed_bytes_def)
      have "replaces ?T absShard (sealed_bytes payload) w3 w'"
        using repair_publish_replaces [OF pb t3 base bucket] unfolding new .
      with preserves_frame [OF f3] have "replaces ?T absShard (sealed_bytes payload) w w'" by (rule replaces_after)
      with pl True show ?thesis by blast
    qed
  qed
qed

text \<open>A rewritten shard: the sealed form of the payload it held, which has the recorded hash.\<close>

definition rewritten :: "shard_meta \<Rightarrow> int \<Rightarrow> byte list \<Rightarrow> byte list \<Rightarrow> bool" where
  "rewritten shard n old new \<longleftrightarrow>
     (let payload = take (nat n) (drop 28 old) in
      length payload = nat n \<and> hex_decode (smContentHashHex shard) = Some (sha256 payload) \<and> new = sealed_bytes payload)"

definition repairs_only :: "fpath set \<Rightarrow> fpath \<Rightarrow> shard_meta \<Rightarrow> int \<Rightarrow> 'z os_state_scheme \<Rightarrow> 'z os_state_scheme \<Rightarrow> bool" where
  "repairs_only T absShard shard n w w' \<longleftrightarrow>
     (\<forall>q c. q \<notin> T \<longrightarrow> file_at w q = Some c \<longrightarrow>
        file_at w' q = Some c \<or> q = absShard \<and> (\<exists>new. file_at w' q = Some new \<and> rewritten shard n c new))"

lemma preserves_repairs: "preserves T w w' \<Longrightarrow> repairs_only T absShard shard n w w'"
  by (simp add: preserves_def repairs_only_def)

lemma repair_shard_effect:
  assumes rp: "repair_shard jc baseDir item m shard n absShard w = (r, w')" and n: "0 < n"
    and base: "abs_base baseDir" and bucket: "good_elem (riBucket item)"
  shows "repairs_only {meta_elems baseDir (riBucket item) (riKey item)} absShard shard n w w'"
proof -
  let ?T = "{meta_elems baseDir (riBucket item) (riKey item)}"
  obtain ro w1 where op: "os_open absShard w = (ro, w1)" by fastforce
  have f1: "file_at w1 = file_at w" using op by (rule frame_empty [OF os_open_frame])
  show ?thesis
  proof (cases ro)
    case (Inl e)
    with rp op f1 show ?thesis
      by (auto simp: repair_shard_def io_bind_def intro: preserves_repairs preserves_eq)
  next
    case (Inr src)
    obtain rs w2 where sk: "os_seek 28 w1 = (rs, w2)" by fastforce
    obtain rt w3 where ct: "os_create_temp (butlast absShard) ''.repair-'' '''' w2 = (rt, w3)" by fastforce
    have f2: "file_at w2 = file_at w" using frame_empty [OF os_seek_frame [OF sk]] f1 by simp
    show ?thesis
    proof (cases "rs = Inr 28 \<and> is_ok rt")
      case False
      have rs: "rs = Inr 28 \<or> (\<exists>e. rs = Inl e)" using sk os_seek_Inr [of 28 w1 _ w2] by (cases rs) auto
      have f3: "file_at w3 = file_at w" if "rt = Inl e" for e
        using ct that f2 frame_empty [OF os_create_temp_err] by metis
      have "file_at w' = file_at w"
        using rp op Inr sk ct rs False f2 f3
        by (cases rt) (auto simp: repair_shard_def io_bind_def io_defer_def)
      then show ?thesis by (intro preserves_repairs preserves_eq)
    next
      case True
      then obtain tmp where t: "rs = Inr 28" "rt = Inr tmp" by (cases rt) auto
      obtain r4 w4 where rw: "repair_rewrite jc baseDir item m shard absShard src 28 n tmp w3 = (r4, w4)" by fastforce
      have w': "w' = io_ignore (os_close absShard) (io_ignore (os_remove tmp) (io_ignore (os_close tmp) w4))"
        using rp op Inr sk ct t rw by (simp add: repair_shard_def io_bind_def io_defer_def io_ignore_def)
      have tmp: "file_at w tmp = None" "file_at w3 = (file_at w)(tmp \<mapsto> [])"
        using os_create_temp_ok [OF ct [unfolded t]] f2 by auto
      have after: "preserves {tmp} w4 w'"
      proof -
        have "preserves {tmp} (io_ignore (os_close tmp) w4) (io_ignore (os_remove tmp) (io_ignore (os_close tmp) w4))"
          by (rule preserves_frame [OF io_ignore_remove_frame]) simp
        then show ?thesis by (simp add: w' preserves_def)
      qed
      have l: "lookup w absShard = Some src" using os_open_ok [OF op [unfolded Inr]] .
      show ?thesis
      proof (cases src)
        case DirN
        obtain rw1 w5 where wr: "os_write_at tmp 0 (header_bytes (sealed_header n)) w3 = (rw1, w5)" by fastforce
        obtain rn w6 where rn: "read_n DirN 28 n w5 = (rn, w6)" by fastforce
        have "\<exists>e. rn = Inl e" using rn n by (auto simp: read_n_def io_bind_def dest: os_read_from_dir split: sum.splits prod.splits)
        then have "w4 = w5 \<or> w4 = w6"
          using rw wr rn DirN by (cases rw1) (auto simp: repair_rewrite_def io_bind_def)
        moreover have "frame {tmp} w3 w5" using wr by (rule os_write_at_frame) simp
        moreover have "frame {tmp} w5 w6" using rn by (rule read_n_frame)
        ultimately have "frame {tmp} w3 w4" by (auto intro: frame_trans)
        then have "preserves {tmp} w3 w'" using after by (auto intro: preserves_frame preserves_trans)
        then have "preserves {} w w'" using tmp by (auto simp: preserves_def) (metis option.distinct(1))
        then show ?thesis by (intro preserves_repairs) (simp add: preserves_def)
      next
        case (FileN c t)
        have "file_at w3 tmp = Some []" using tmp by simp
        from repair_rewrite_replaces [OF rw [unfolded FileN] this n base bucket]
        obtain payload where rpl: "replaces (insert tmp ?T) absShard (sealed_bytes payload) w3 w4"
          and pl: "preserves (insert tmp ?T) w3 w4 \<or> payload = take (nat n) (drop 28 c) \<and> length payload = nat n \<and>
            hex_decode (smContentHashHex shard) = Some (sha256 payload)" by blast
        have cs: "file_at w absShard = Some c" using l FileN by (simp add: file_at_def)
        show ?thesis
          unfolding repairs_only_def
        proof (intro allI impI)
          fix q c0
          assume q: "q \<notin> ?T" and c0: "file_at w q = Some c0"
          then have qt: "q \<noteq> tmp" using tmp by auto
          then have c3: "file_at w3 q = Some c0" using c0 tmp by simp
          have keep: "file_at w' q = Some x" if "file_at w4 q = Some x" for x
            using after that qt by (simp add: preserves_def)
          show "file_at w' q = Some c0 \<or> q = absShard \<and> (\<exists>new. file_at w' q = Some new \<and> rewritten shard n c0 new)"
          proof (cases "file_at w4 q = Some c0")
            case True
            then show ?thesis using keep by blast
          next
            case False
            then have "q = absShard" "file_at w4 q = Some (sealed_bytes payload)"
              using rpl q qt c3 by (auto simp: replaces_def)
            moreover have "payload = take (nat n) (drop 28 c) \<and> length payload = nat n \<and>
                hex_decode (smContentHashHex shard) = Some (sha256 payload)"
              using pl False q qt c3 by (auto simp: preserves_def)
            ultimately show ?thesis
              using keep cs c0 by (auto simp: rewritten_def Let_def)
          qed
        qed
      qed
    qed
  qed
qed

lemma os_remove_None: "os_remove p w = (r, w') \<Longrightarrow> file_at w p = None \<Longrightarrow> file_at w' p = None"
  by (auto simp: os_remove_def io_bind_def os_tick_def file_at_def lookup_def del_node_def delete_conv'
      split: list.splits option.splits if_splits node.splits sum.splits prod.splits)

text \<open>What a successful repair leaves: the shard and the manifest, nothing else differs.\<close>

lemma repair_shard_ok:
  assumes rp: "repair_shard jc baseDir item m shard n absShard w = (Inr u, w')" and n: "0 < n"
    and base: "abs_base baseDir" and bucket: "good_elem (riBucket item)"
    and ne: "absShard \<noteq> meta_elems baseDir (riBucket item) (riKey item)" and v: "mVersion m \<noteq> ''''"
  shows "\<exists>c data. file_at w absShard = Some c \<and> length (take (nat n) (drop 28 c)) = nat n \<and>
    hex_decode (smContentHashHex shard) = Some (sha256 (take (nat n) (drop 28 c))) \<and>
    file_at w' = (file_at w)(absShard \<mapsto> sealed_bytes (take (nat n) (drop 28 c)),
      meta_elems baseDir (riBucket item) (riKey item) \<mapsto> data) \<and> fs_clock w' = fs_clock w \<and>
    jenc jc (repaired_manifest m shard (header_bytes (sealed_header n)) (encode_shard_footer (sha256 (take (nat n) (drop 28 c))))
        (sha256 (take (nat n) (drop 28 c))) n (fs_clock w)) = Some data \<and>
    validate_basic (repaired_manifest m shard (header_bytes (sealed_header n)) (encode_shard_footer (sha256 (take (nat n) (drop 28 c))))
        (sha256 (take (nat n) (drop 28 c))) n (fs_clock w)) = Inr ()"
proof -
  let ?meta = "meta_elems baseDir (riBucket item) (riKey item)" and ?hdr = "header_bytes (sealed_header n)"
  from rp obtain src w1 off w2 tmp w3 w4 where op: "os_open absShard w = (Inr src, w1)"
    and sk: "os_seek 28 w1 = (Inr off, w2)" and ct: "os_create_temp (butlast absShard) ''.repair-'' '''' w2 = (Inr tmp, w3)"
    and rw: "repair_rewrite jc baseDir item m shard absShard src off n tmp w3 = (Inr u, w4)"
    and w': "w' = io_ignore (os_close absShard) (io_ignore (os_remove tmp) (io_ignore (os_close tmp) w4))"
    by (auto simp: repair_shard_def io_bind_Inr io_defer_iff io_ignore_def)
  have off: "off = 28" using os_seek_Inr [OF sk] by simp
  have f2: "file_at w2 = file_at w"
    using frame_empty [OF os_open_frame [OF op]] frame_empty [OF os_seek_frame [OF sk]] by simp
  have tmp: "file_at w tmp = None" "file_at w3 = (file_at w)(tmp \<mapsto> [])"
    using os_create_temp_ok [OF ct] f2 by auto
  from rw obtain wa payload wb wc where w1: "os_write_at tmp 0 ?hdr w3 = (Inr (), wa)"
    and rd: "read_n src off n wa = (Inr payload, wb)" and w3: "os_write_at tmp 28 payload wb = (Inr (), wc)"
    and hx: "hex_decode (smContentHashHex shard) = Some (sha256 payload)"
    and pb: "repair_publish jc baseDir item m shard absShard tmp ?hdr (sha256 payload) n wc = (Inr u, w4)"
    by (auto simp: repair_rewrite_def io_bind_Inr io_fail_def split: option.splits if_splits)
  obtain c t where src: "src = FileN c t"
    using rd n by (cases src) (auto simp: read_n_def io_bind_Inr dest!: os_read_from_ok split: if_splits)
  note pl = read_n_file [OF rd [unfolded src off] n]
  have nn: "n = int (length payload)" using conjunct2 [OF pl] n by simp
  have cs: "file_at w absShard = Some c" using os_open_ok [OF op] src by (simp add: file_at_def)
  have ta: "file_at wa tmp = Some (write_at [] 0 ?hdr)" using os_write_at_ok [OF w1, of "[]"] tmp by simp
  then have ta': "file_at wb tmp = Some (write_at [] 0 ?hdr)" using frame_empty [OF read_n_frame [OF rd]] by simp
  then have tc: "file_at wc tmp = Some (write_at (write_at [] 0 ?hdr) 28 payload)" using os_write_at_ok [OF w3] by simp
  have "frame {tmp} w w1" using op by (rule os_open_frame)
  also have "frame {tmp} w1 w2" using sk by (rule os_seek_frame)
  also have "frame {tmp} w2 w3" using os_create_temp_ok [OF ct] by blast
  also have "frame {tmp} w3 wa" using w1 by (rule os_write_at_frame) simp
  also have "frame {tmp} wa wb" using rd by (rule read_n_frame)
  also have "frame {tmp} wb wc" using w3 by (rule os_write_at_frame) simp
  finally have clk: "fs_clock wc = fs_clock w" by (simp add: frame_def)
  have new: "write_at (write_at (write_at [] 0 ?hdr) 28 payload) (length ?hdr + nat n) (encode_shard_footer (sha256 payload)) =
      sealed_bytes payload"
    using nn by (simp add: write_at_def sealed_bytes_def)
  have md: "manifest_defaults now (repaired_manifest m shard hd ft dg k now) = repaired_manifest m shard hd ft dg k now" for now hd ft dg k
    using v by (simp add: manifest_defaults_def repaired_manifest_def Let_def)
  obtain data where d: "jenc jc (repaired_manifest m shard ?hdr (encode_shard_footer (sha256 payload)) (sha256 payload) n (fs_clock wc)) = Some data"
      "validate_basic (repaired_manifest m shard ?hdr (encode_shard_footer (sha256 payload)) (sha256 payload) n (fs_clock wc)) = Inr ()"
      "file_at w4 = (file_at wc)(tmp := None, absShard \<mapsto> sealed_bytes payload, ?meta \<mapsto> data)" "fs_clock w4 = fs_clock wc"
    using repair_publish_ok [OF pb tc base bucket] unfolding new md by blast
  have gone: "file_at w4 q = file_at w' q" if "q \<noteq> tmp" for q
    using that frame_file_at [OF io_ignore_remove_frame [of tmp "{tmp}" "io_ignore (os_close tmp) w4"], of q]
    by (simp add: w')
  have st: "absShard \<noteq> tmp" using cs tmp by auto
  have mt: "?meta \<noteq> tmp"
  proof
    assume True: "?meta = tmp"
    then have "last tmp = ManifestFilename" by (simp add: meta_elems_def flip: True)
    moreover obtain k where "tmp = butlast absShard @ [''.repair-'' @ nat_to_dec k]"
      using os_create_temp_name [OF ct] by auto
    ultimately have "''.repair-'' @ nat_to_dec k = ManifestFilename" by (metis last_snoc)
    then show False by (simp add: ManifestFilename_def)
  qed
  have "file_at w4 tmp = None" using d(3) st mt by simp
  then have no: "file_at w' tmp = None"
    by (simp add: w' io_ignore_def frame_empty [OF os_close_frame [OF surjective_pairing]] os_remove_None [OF surjective_pairing])
  have "fs_clock w' = fs_clock w4"
    using io_ignore_remove_frame [of tmp "{tmp}" "io_ignore (os_close tmp) w4"]
    by (simp add: w' frame_def io_ignore_def os_close_def os_tick_same [OF surjective_pairing])
  then have clk': "fs_clock w' = fs_clock w" using d(4) clk by simp
  have wc: "file_at wc q = file_at w q" if "q \<noteq> tmp" for q
    using that f2 tmp(2) os_write_at_ok [OF w1, of "[]"] frame_empty [OF read_n_frame [OF rd]]
      os_write_at_ok [OF w3 ta'] by simp
  have fin: "file_at w' = (file_at w)(absShard \<mapsto> sealed_bytes payload, ?meta \<mapsto> data)"
  proof
    fix q
    show "file_at w' q = ((file_at w)(absShard \<mapsto> sealed_bytes payload, ?meta \<mapsto> data)) q"
      using gone [of q] d(3) wc [of q] tmp(1) no st mt by (cases "q = tmp") auto
  qed
  have "payload = take (nat n) (drop 28 c)" using pl by simp
  with cs pl hx fin d(1,2) clk clk' show ?thesis by (intro exI [of _ c] exI [of _ data]) simp
qed

subsection \<open>Properties\<close>

text \<open>
  C4. A repair never loses a payload: whatever its outcome and whichever system calls fail on the
  way, every existing file but the object's manifest keeps its content, or it is the one shard
  the manifest names and holds the sealed form of exactly the payload bytes it held before,
  whose SHA-256 is the recorded content hash.
\<close>

theorem repair_keeps_payload:
  assumes base: "abs_base baseDir" and bucket: "good_elem (riBucket item)"
    and rp: "repair jc baseDir ctx item w = (res, w')"
    and q: "q \<noteq> meta_elems baseDir (riBucket item) (riKey item)" and c: "file_at w q = Some c"
  shows "file_at w' q = Some c \<or>
    (\<exists>m w1 shard new. load_manifest jc baseDir (riBucket item) (riKey item) w = (Inr m, w1) \<and> mShards m = [shard] \<and>
       q = os_path (join_path [baseDir, smPath shard]) \<and> file_at w' q = Some new \<and>
       rewritten shard (repair_payload_len m shard) c new)"
proof -
  let ?T = "{meta_elems baseDir (riBucket item) (riKey item)}"
  obtain rl w1 where ld: "load_manifest jc baseDir (riBucket item) (riKey item) w = (rl, w1)" by fastforce
  have f1: "file_at w1 = file_at w" using ld by (rule frame_empty [OF load_manifest_frame])
  show ?thesis
  proof (cases "\<exists>m shard. rl = Inr m \<and> mShards m = [shard]")
    case False
    then have "w' = w \<or> w' = w1"
      using rp ld by (auto simp: repair_def split: if_splits option.splits sum.splits list.splits)
    with f1 c show ?thesis by auto
  next
    case True
    then obtain m shard where m: "rl = Inr m" "mShards m = [shard]" by blast
    let ?n = "repair_payload_len m shard" and ?s = "os_path (join_path [baseDir, smPath shard])"
    have "repairs_only ?T ?s shard ?n w1 w'"
    proof (cases "w' = w \<or> w' = w1")
      case True
      with f1 have "file_at w' = file_at w1" by auto
      then show ?thesis by (intro preserves_repairs preserves_eq)
    next
      case other: False
      then have rs: "repair_single jc baseDir item m shard w1 = (res, w')"
        using rp ld m by (auto simp: repair_def split: if_splits option.splits)
      obtain rst w2 where st: "os_stat ?s w1 = (rst, w2)" by fastforce
      have f2: "file_at w2 = file_at w1" using st by (rule frame_empty [OF os_stat_frame])
      show ?thesis
      proof (cases "w' = w2")
        case True
        then show ?thesis using f2 by (auto intro: preserves_repairs preserves_eq)
      next
        case False
        then have n: "0 < ?n" and sh: "repair_shard jc baseDir item m shard ?n ?s w2 = (res, w')"
          using rs st other by (auto simp: repair_single_def Let_def split: if_splits sum.splits)
        from repair_shard_effect [OF sh n base bucket] f2 show ?thesis by (simp add: repairs_only_def)
      qed
    qed
    then show ?thesis
      using q c f1 ld m unfolding repairs_only_def by auto
  qed
qed

definition ex_repair_item :: repair_item where
  "ex_repair_item = \<lparr>riBucket = ''bkt'', riKey = ''k'', riShardPath = '''', riReason = ''read_integrity_fail'',
     riPriority = 0, riDiscovered = 0\<rparr>"

text \<open>A disk on which the shard's header and footer are overwritten with zeros.\<close>

definition ex_damaged :: world where
  "ex_damaged = \<lparr>fs_files =
     [([''d''], DirN), ([''d'', ''objects''], DirN), ([''d'', ''objects'', ''bkt''], DirN),
      ([''d'', ''objects'', ''bkt'', ''k''], DirN),
      ([''d'', ''objects'', ''bkt'', ''k'', ''data.ss1''], FileN (replicate 28 0 @ [1, 2] @ replicate 36 0) 7),
      ([''d'', ''objects'', ''bkt'', ''k'', ''object.meta''], FileN [0] 7)],
     fs_clock = 7, fs_faults = [], obs_log = [], repairs = []\<rparr>"

text \<open>A codec for one manifest.\<close>

definition ex_one :: json_codec where
  "ex_one = \<lparr>jenc = \<lambda>m. if m = ex_manifest then Some [0] else None, jdec = \<lambda>_. Some ex_manifest\<rparr>"

lemma ex_damaged_load:
  "load_manifest ex_one ''/d'' ''bkt'' ''k'' ex_damaged = (Inr ex_manifest, ex_damaged)"
proof -
  have "lookup ex_damaged (meta_elems ''/d'' ''bkt'' ''k'') = Some (FileN [0] 7)"
    by (simp add: meta_elems_def ManifestFilename_def ex_obj_elems lookup_def ex_damaged_def)
  moreover have "fs_faults ex_damaged = []" by (simp add: ex_damaged_def)
  ultimately show ?thesis
    by (simp add: load_manifest_quiet ex_one_def ex_manifest_def sealed_object_manifest_valid)
qed

lemma ex_damaged_repair:
  "\<exists>w'. repair ex_one ''/d'' None ex_repair_item ex_damaged = (Inr (), w') \<and> fs_faults w' = []"
proof -
  have sh: "mShards ex_manifest = [ex_shard_meta]"
    by (simp add: ex_manifest_def ex_shard_meta_def)
  have pl: "repair_payload_len ex_manifest ex_shard_meta = 2"
    by (simp add: repair_payload_len_def ex_shard_meta_def sealed_shard_meta_def bytes_reader_def)
  have path: "os_path (join_path [''/d'', smPath ex_shard_meta]) = [''d'', ''objects'', ''bkt'', ''k'', ''data.ss1'']"
    using ex_shard_file by (simp add: shard_file_def ex_sealed_def ex_store_def)
  have pne: "smPath ex_shard_meta \<noteq> ''''"
    using path by (auto simp: join_path_def clean_def is_rooted_def clean_elems_def clean_step.simps os_path_def)
  have hx: "hex_decode (smContentHashHex ex_shard_meta) = Some (sha256 [1, 2])"
    by (simp add: ex_shard_meta_def)
  have man: "repaired_manifest ex_manifest ex_shard_meta (header_bytes (sealed_header 2)) (encode_shard_footer (sha256 [1, 2]))
      (sha256 [1, 2]) 2 7 = ex_manifest"
    by (simp add: repaired_manifest_def ex_manifest_def sealed_object_manifest_def new_single_shard_manifest_def
        ex_shard_meta_def sealed_shard_meta_def bytes_reader_def)
  have mp: "manifest_path ''/d'' ''bkt'' ''k'' = Inr ''/d/objects/bkt/k/object.meta''"
    by (simp add: manifest_path_def drop_clean_key join_path_def clean_def clean_elems_def clean_step.simps is_rooted_def ManifestFilename_def)
  have op: "os_path ''/d/objects/bkt/k/object.meta'' = [''d'', ''objects'', ''bkt'', ''k'', ''object.meta'']"
    by (simp add: os_path_def clean_elems_def clean_step.simps)
  have md: "manifest_defaults 7 ex_manifest = ex_manifest" "validate_basic ex_manifest = Inr ()"
    by (simp_all add: ex_manifest_def sealed_object_manifest_valid)
  have rs: "repair ex_one ''/d'' None ex_repair_item ex_damaged =
      repair_shard ex_one ''/d'' ex_repair_item ex_manifest ex_shard_meta 2 [''d'', ''objects'', ''bkt'', ''k'', ''data.ss1''] ex_damaged"
    by (simp add: repair_def ex_repair_item_def ex_damaged_load sh repair_single_def pl path pne Let_def)
      (simp add: lookup_def ex_damaged_def node_size_def ex_repair_item_def)
  show ?thesis
    unfolding rs
    by (simp add: repair_shard_def repair_rewrite_def repair_publish_def read_n_def os_seek_def os_read_from_def
        hx man md mp op save_manifest_def save_manifest_tmp_def sync_dir_def ex_calls os_open_def os_stat_def
        ex_damaged_def ex_one_def ex_repair_item_def)
qed

lemma ex_damaged_shard:
  "file_at ex_damaged [''d'', ''objects'', ''bkt'', ''k'', ''data.ss1''] = Some (replicate 28 0 @ [1, 2] @ replicate 36 0)"
  by (simp add: file_at_def lookup_def ex_damaged_def)

lemma ex_damaged_paths: "meta_elems ''/d'' ''bkt'' ''k'' = [''d'', ''objects'', ''bkt'', ''k'', ''object.meta'']"
  by (simp add: meta_elems_def ManifestFilename_def ex_obj_elems)

theorem repair_keeps_payload_witness:
  "\<exists>w'. repair ex_one ''/d'' None ex_repair_item ex_damaged = (Inr (), w') \<and>
    (file_at w' [''d'', ''objects'', ''bkt'', ''k'', ''data.ss1''] = Some (replicate 28 0 @ [1, 2] @ replicate 36 0) \<or>
     file_at w' [''d'', ''objects'', ''bkt'', ''k'', ''data.ss1''] = Some (sealed_bytes [1, 2]))"
proof -
  obtain w' where rp: "repair ex_one ''/d'' None ex_repair_item ex_damaged = (Inr (), w')"
    using ex_damaged_repair by blast
  have it: "riBucket ex_repair_item = ''bkt''" "riKey ex_repair_item = ''k''" by (simp_all add: ex_repair_item_def)
  have sh: "mShards ex_manifest = [ex_shard_meta]"
    by (simp add: ex_manifest_def ex_shard_meta_def)
  have pl: "repair_payload_len ex_manifest ex_shard_meta = 2"
    by (simp add: repair_payload_len_def ex_shard_meta_def sealed_shard_meta_def bytes_reader_def)
  have "good_elem (riBucket ex_repair_item)" by (simp add: it)
  from repair_keeps_payload [OF ex_base(1) this rp _ ex_damaged_shard]
  have "file_at w' [''d'', ''objects'', ''bkt'', ''k'', ''data.ss1''] = Some (replicate 28 0 @ [1, 2] @ replicate 36 0) \<or>
     file_at w' [''d'', ''objects'', ''bkt'', ''k'', ''data.ss1''] = Some (sealed_bytes [1, 2])"
    by (auto simp: it ex_damaged_paths ex_damaged_load sh pl rewritten_def)
  with rp show ?thesis by blast
qed

lemma load_manifest_valid:
  assumes "load_manifest jc base bucket key w = (Inr m, w')"
  shows "validate_basic m = Inr ()"
proof -
  obtain bs v where "(case jdec jc bs of None \<Rightarrow> (Inl (ErrText ''json''), v)
      | Some m \<Rightarrow> (case validate_basic m of Inl e \<Rightarrow> (Inl e, v) | Inr _ \<Rightarrow> (Inr m, v))) = (Inr m, w')"
    using assms unfolding load_manifest_def
    by (cases "manifest_path base bucket key") (auto simp only: io_bind_Inr sum.case)
  then show ?thesis
    by (cases "jdec jc bs"; cases "validate_basic (the (jdec jc bs))") auto
qed

text \<open>After a successful repair the object reads again.\<close>

lemma repair_then_get:
  assumes base: "abs_base (lBase l)" and bucket: "good_elem (riBucket item)"
    and codec: "\<forall>m d. jenc jc m = Some d \<longrightarrow> jdec jc d = Some m"
    and ld: "load_manifest jc (lBase l) (riBucket item) (riKey item) w = (Inr m, w1)" and sh: "mShards m = [shard]"
    and ne: "shard_file l shard \<noteq> meta_elems (lBase l) (riBucket item) (riKey item)"
    and n: "repair_payload_len m shard < 2 ^ 63 - 28"
    and rp: "repair jc (lBase l) ctx item w = (Inr u, w')" and quiet: "fs_faults w' = []"
  shows "\<exists>c g w2. file_at w (shard_file l shard) = Some c \<and>
    get l jc (riBucket item) (riKey item) w' = (Inr g, w2) \<and>
    grBody g = take (nat (repair_payload_len m shard)) (drop 28 c) \<and> grSize g = repair_payload_len m shard \<and>
    hex_decode (smContentHashHex shard) = Some (sha256 (grBody g)) \<and> grETag g = mETag m"
proof -
  let ?n = "repair_payload_len m shard" and ?s = "shard_file l shard"
  have valid: "validate_basic m = Inr ()"
    using ld by (rule load_manifest_valid)
  then have v: "mVersion m \<noteq> ''''"
    by (auto simp: validate_basic_def ManifestFormatV1_def split: if_splits)
  have f1: "file_at w1 = file_at w" using ld by (rule frame_empty [OF load_manifest_frame])
  obtain info w2 where n0: "0 < ?n" and st: "os_stat ?s w1 = (Inr info, w2)"
    and rs: "repair_shard jc (lBase l) item m shard ?n ?s w2 = (Inr u, w')"
    using rp ld sh
    by (auto simp: repair_def repair_single_def shard_file_def Let_def split: if_splits option.splits sum.splits prod.splits)
  have f2: "file_at w2 = file_at w" using frame_empty [OF os_stat_frame [OF st]] f1 by simp
  obtain c data where c: "file_at w2 ?s = Some c" and len: "length (take (nat ?n) (drop 28 c)) = nat ?n"
    and hx: "hex_decode (smContentHashHex shard) = Some (sha256 (take (nat ?n) (drop 28 c)))"
    and files: "file_at w' = (file_at w2)(?s \<mapsto> sealed_bytes (take (nat ?n) (drop 28 c)),
        meta_elems (lBase l) (riBucket item) (riKey item) \<mapsto> data)"
    and enc: "jenc jc (repaired_manifest m shard (header_bytes (sealed_header ?n)) (encode_shard_footer (sha256 (take (nat ?n) (drop 28 c))))
        (sha256 (take (nat ?n) (drop 28 c))) ?n (fs_clock w2)) = Some data"
    and val: "validate_basic (repaired_manifest m shard (header_bytes (sealed_header ?n)) (encode_shard_footer (sha256 (take (nat ?n) (drop 28 c))))
        (sha256 (take (nat ?n) (drop 28 c))) ?n (fs_clock w2)) = Inr ()"
    using repair_shard_ok [OF rs n0 base bucket ne v] by blast
  let ?p = "take (nat ?n) (drop 28 c)"
  let ?m = "repaired_manifest m shard (header_bytes (sealed_header ?n)) (encode_shard_footer (sha256 ?p)) (sha256 ?p) ?n (fs_clock w2)"
  have new: "file_at w' ?s = Some (sealed_bytes ?p)" and meta: "file_at w' (meta_elems (lBase l) (riBucket item) (riKey item)) = Some data"
    using files ne by simp_all
  obtain shard' where sh': "mShards ?m = [shard']" "smPath shard' = smPath shard"
      "hex_decode (smContentHashHex shard') = Some (sha256 ?p)"
    by (simp add: repaired_manifest_def)
  have sm: "sealed_manifest l jc (riBucket item) (riKey item) w' = (Some (?m, shard'), w')"
    using codec enc by (intro sealed_manifest_quiet [OF base bucket quiet meta _ val sh'(1)]) blast
  have sf: "shard_file l shard' = ?s" by (simp add: shard_file_def sh'(2))
  obtain t where "lookup w' (shard_file l shard') = Some (FileN (sealed_bytes ?p) t)"
    using new sf by (auto simp: file_at_Some)
  from get_sealed_quiet [OF this _ quiet] n n0 sh'(3) len
  have "get_sealed l (riBucket item) (riKey item) ?m shard' w' =
    (Inr \<lparr>grBody = ?p, grSize = ?n, grETag = mETag m, grModified = mLastModified ?m\<rparr>,
     observe_sealed l ''get'' ?n False True False w')"
    by (simp add: repaired_manifest_def)
  then show ?thesis using c f2 hx by (simp add: get_def sm)
qed



end
