(* ===== verification/Sigv4.thy ===== *)
theory Sigv4 imports Digest GoStrings
begin

text \<open>
  Verification of AWS signature version 4 (src/pkg/security/sigv4/verify.go): the credential
  store, the canonical request, the signing key, the freshness of a request and both kinds of
  signed requests, header-signed and presigned. A request is what net/http parsed: its header
  map with canonical names, the query as (name, value) pairs in order, the escaped path. The
  order in which Go ranges over the query map is the request's \<open>arOrder\<close>, and over the set of
  signed headers it does not matter. HMAC-SHA-256 is the bit-level one of Digest.
\<close>

subsection \<open>Requests\<close>

record auth_request =
  arMethod :: string
  arEscapedPath :: string
  arQuery :: "(string \<times> string) list"
  arOrder :: "string list \<Rightarrow> string list"
  arHeader :: "(string \<times> string) list"
  arHost :: string
  arBody :: "reader option"

definition q_get :: "auth_request \<Rightarrow> string \<Rightarrow> string" where
  "q_get rq k = (case map_of (arQuery rq) k of None \<Rightarrow> '''' | Some v \<Rightarrow> v)"

definition q_values :: "auth_request \<Rightarrow> string \<Rightarrow> string list" where
  "q_values rq k = map snd (filter (\<lambda>(k', v). k' = k) (arQuery rq))"

definition char_upper :: "char \<Rightarrow> char" where
  "char_upper c = (let n = of_char c :: nat in if 97 \<le> n \<and> n \<le> 122 then char_of (n - 32) else c)"

definition to_upper :: "string \<Rightarrow> string" where
  "to_upper s = map char_upper s"

definition equal_fold :: "string \<Rightarrow> string \<Rightarrow> bool" where
  "equal_fold s t \<longleftrightarrow> to_lower s = to_lower t"

text \<open>\<open>http.Header.Get\<close> and the canonical form of a header name (net/textproto).\<close>

definition is_alnum :: "char \<Rightarrow> bool" where
  "is_alnum c \<longleftrightarrow> (let n = of_char c :: nat in 65 \<le> n \<and> n \<le> 90 \<or> 97 \<le> n \<and> n \<le> 122 \<or> 48 \<le> n \<and> n \<le> 57)"

definition token_char :: "char \<Rightarrow> bool" where
  "token_char c \<longleftrightarrow> is_alnum c \<or> c \<in> set ''!#$%&*+-.^_|~'' \<or> c \<in> {CHR 0x27, CHR 0x60}"

fun canonical_case :: "bool \<Rightarrow> string \<Rightarrow> string" where
  "canonical_case upper [] = []"
| "canonical_case upper (c # s) = (if upper then char_upper c else char_lower c) # canonical_case (c = CHR ''-'') s"

definition canonical_key :: "string \<Rightarrow> string" where
  "canonical_key s = (if list_all token_char s then canonical_case True s else s)"

definition h_get :: "auth_request \<Rightarrow> string \<Rightarrow> string" where
  "h_get rq name = (case map_of (arHeader rq) (canonical_key name) of None \<Rightarrow> '''' | Some v \<Rightarrow> v)"

subsection \<open>Credentials\<close>

record access_key =
  akAccess :: string
  akSecret :: string
  akUser :: string

type_synonym static_store = "(string \<Rightarrow> (string \<times> string) option) option"

definition new_static_store :: "access_key list \<Rightarrow> static_store" where
  "new_static_store keys = Some (foldl (\<lambda>m k.
     let ak = trim_space (akAccess k); sk = trim_space (akSecret k)
     in if ak = '''' \<or> sk = '''' then m else m(ak \<mapsto> (sk, trim_space (akUser k)))) Map.empty keys)"

definition store_lookup :: "static_store \<Rightarrow> string \<Rightarrow> (string \<times> string) option" where
  "store_lookup s accessKey = (case s of None \<Rightarrow> None | Some creds \<Rightarrow> creds accessKey)"

definition parse_credential_scope :: "string \<Rightarrow> (string \<times> string \<times> string \<times> string) result" where
  "parse_credential_scope cred =
     (if cred = '''' then Inl ErrAuthInvalid
      else
        (let parts = split_on CHR ''/'' cred in
         if length parts < 5 then Inl ErrAuthInvalid
         else
           (let ak = trim_space (parts ! 0); date = trim_space (parts ! 1);
                region = trim_space (parts ! 2); service = trim_space (parts ! 3)
            in if ak = '''' \<or> date = '''' \<or> region = '''' \<or> service = '''' then Inl ErrAuthInvalid
               else Inr (ak, date, region, service))))"

definition auth_token :: "string \<times> string \<times> string \<Rightarrow> string \<Rightarrow> string \<times> string \<times> string" where
  "auth_token vals tok =
     (case vals of (cred, sh, sig) \<Rightarrow>
        let t = trim_space tok in
        if has_prefix t ''Credential='' then (trim_prefix t ''Credential='', sh, sig)
        else if has_prefix t ''SignedHeaders='' then (cred, trim_prefix t ''SignedHeaders='', sig)
        else if has_prefix t ''Signature='' then (cred, sh, trim_prefix t ''Signature='')
        else (cred, sh, sig))"

record auth_parts =
  apKey :: string
  apDate :: string
  apRegion :: string
  apService :: string
  apSigned :: "string list"
  apSignature :: string

definition parse_authorization_header :: "string \<Rightarrow> auth_parts result" where
  "parse_authorization_header auth =
     (if \<not> has_prefix auth ''AWS4-HMAC-SHA256 '' then Inl ErrAuthInvalid
      else
        (let kv = trim_prefix auth ''AWS4-HMAC-SHA256 '' in
         case foldl auth_token ('''', '''', '''') (split_on CHR '','' kv) of
           (credVal, shVal, sigVal) \<Rightarrow>
             if credVal = '''' \<or> shVal = '''' \<or> sigVal = '''' then Inl ErrAuthInvalid
             else
               (case parse_credential_scope credVal of
                  Inl e \<Rightarrow> Inl ErrAuthInvalid
                | Inr (ak, date, region, service) \<Rightarrow>
                    Inr \<lparr>apKey = ak, apDate = date, apRegion = region, apService = service,
                         apSigned = split_on CHR '';'' (to_lower (trim_space shVal)), apSignature = trim_space sigVal\<rparr>)))"

subsection \<open>The canonical request\<close>

definition unreserved :: "char \<Rightarrow> bool" where
  "unreserved c \<longleftrightarrow> is_alnum c \<or> c \<in> set ''-_.~''"

definition pct_encode :: "char \<Rightarrow> string" where
  "pct_encode c = CHR 0x25 # to_upper (hex_encode [of_char c])"

definition uri_encode :: "string \<Rightarrow> bool \<Rightarrow> string" where
  "uri_encode s encodeSlash =
     concat (map (\<lambda>c. if unreserved c then [c] else if c = CHR ''/'' \<and> \<not> encodeSlash then [c] else pct_encode c) s)"

definition uri_encode_path :: "string \<Rightarrow> string" where
  "uri_encode_path path =
     (if path = '''' then ''/''
      else concat (map (\<lambda>c. if c = CHR ''/'' then [c] else if unreserved c then [c] else pct_encode c) path))"

definition canonical_query_string :: "auth_request \<Rightarrow> bool \<Rightarrow> string" where
  "canonical_query_string rq presigned =
     (let keys = filter (\<lambda>k. \<not> (presigned \<and> equal_fold k ''X-Amz-Signature'')) (arOrder rq (remdups (map fst (arQuery rq))));
          sorted_keys = sort_key to_lower keys
      in join_with CHR ''&'' (concat (map (\<lambda>k. map (\<lambda>v. uri_encode k False @ ''='' @ uri_encode v False) (sort (q_values rq k))) sorted_keys)))"

definition header_canonical_case :: "string \<Rightarrow> string" where
  "header_canonical_case s =
     (let l = to_lower s in
      if l = ''content-type'' then ''Content-Type''
      else if l = ''x-amz-content-sha256'' then ''X-Amz-Content-Sha256''
      else if l = ''x-amz-date'' then ''X-Amz-Date''
      else if l = ''host'' then ''Host''
      else s)"

text \<open>Runs of blanks become one space.\<close>

fun collapse_spaces :: "bool \<Rightarrow> string \<Rightarrow> string" where
  "collapse_spaces sp [] = []"
| "collapse_spaces sp (c # s) =
     (if c \<in> {CHR '' '', CHR 0x09, CHR 0x0A, CHR 0x0D}
      then (if sp then collapse_spaces True s else CHR '' '' # collapse_spaces True s)
      else c # collapse_spaces False s)"

definition trim_spaces :: "string \<Rightarrow> string" where
  "trim_spaces s = collapse_spaces False (trim_space s)"

definition header_value :: "auth_request \<Rightarrow> string \<Rightarrow> string" where
  "header_value rq name =
     (if name = ''host'' then (if arHost rq = '''' then h_get rq ''Host'' else arHost rq)
      else (let val = h_get rq name in if val = '''' then h_get rq (header_canonical_case name) else val))"

definition signed_header_values :: "auth_request \<Rightarrow> string list \<Rightarrow> (string \<times> string) list" where
  "signed_header_values rq signedHeaders =
     sort_key fst (map (\<lambda>name. (to_lower name, trim_spaces (header_value rq name)))
       (filter (\<lambda>name. header_value rq name \<noteq> '''') (remdups (map to_lower signedHeaders))))"

definition canonical_headers_and_list :: "auth_request \<Rightarrow> string list \<Rightarrow> string \<times> string list" where
  "canonical_headers_and_list rq signedHeaders =
     (let hdrs = signed_header_values rq signedHeaders in
      (concat (map (\<lambda>(k, v). k @ '':'' @ v @ [CHR 0x0A]) hdrs), map fst hdrs))"

definition build_canonical_request :: "auth_request \<Rightarrow> string list \<Rightarrow> string \<Rightarrow> bool \<Rightarrow> string result" where
  "build_canonical_request rq signedHeaders payloadHash presigned =
     (let uri0 = arEscapedPath rq;
          uri1 = (if uri0 = '''' \<or> hd uri0 \<noteq> CHR ''/'' then CHR ''/'' # uri0 else uri0);
          canonURI = uri_encode_path uri1;
          canonQuery = canonical_query_string rq presigned
      in case canonical_headers_and_list rq signedHeaders of
           (canonHeaders, signedList) \<Rightarrow>
             if signedList = [] then Inl ErrAuthInvalid
             else Inr (arMethod rq @ [CHR 0x0A] @ canonURI @ [CHR 0x0A] @ canonQuery @ [CHR 0x0A] @ canonHeaders @ [CHR 0x0A] @
               join_with CHR '';'' signedList @ [CHR 0x0A] @ payloadHash))"

subsection \<open>Signatures\<close>

definition sha256_hex :: "byte list \<Rightarrow> string" where
  "sha256_hex bz = hex_encode (sha256 bz)"

definition derive_signing_key :: "string \<Rightarrow> string \<Rightarrow> string \<Rightarrow> string \<Rightarrow> byte list" where
  "derive_signing_key secret date region service =
     (let kDate = hmac_sha256 (string_bytes (''AWS4'' @ secret)) (string_bytes date);
          kRegion = hmac_sha256 kDate (string_bytes region);
          kService = hmac_sha256 kRegion (string_bytes service)
      in hmac_sha256 kService (string_bytes ''aws4_request''))"

definition build_string_to_sign :: "string \<Rightarrow> string \<Rightarrow> string \<Rightarrow> string \<Rightarrow> string \<Rightarrow> string" where
  "build_string_to_sign amzDate date region service crHash =
     ''AWS4-HMAC-SHA256'' @ [CHR 0x0A] @ amzDate @ [CHR 0x0A] @ date @ ''/'' @ region @ ''/'' @ service @ ''/aws4_request'' @
     [CHR 0x0A] @ crHash"

definition expected_signature :: "string \<Rightarrow> string \<Rightarrow> string \<Rightarrow> string \<Rightarrow> string \<Rightarrow> string \<Rightarrow> string" where
  "expected_signature secret amzDate date region service canonicalReq =
     to_lower (hex_encode (hmac_sha256 (derive_signing_key secret date region service)
       (string_bytes (build_string_to_sign amzDate date region service (sha256_hex (string_bytes canonicalReq))))))"

text \<open>The payload hash of a header-signed request; reading the body leaves what was read in its place.\<close>

definition get_payload_hash :: "auth_request \<Rightarrow> string result \<times> auth_request" where
  "get_payload_hash rq =
     (let h = h_get rq ''X-Amz-Content-Sha256'' in
      if h = '''' then
        (if arMethod rq = ''GET'' \<or> arMethod rq = ''HEAD'' then (Inr ''UNSIGNED-PAYLOAD'', rq)
         else if h_get rq ''Content-Length'' = '''' then (Inr (sha256_hex []), rq)
         else (Inl ErrAuthInvalid, rq))
      else if equal_fold h ''UNSIGNED-PAYLOAD'' then (Inr ''UNSIGNED-PAYLOAD'', rq)
      else if length h = 64 then (Inr (to_lower h), rq)
      else
        (case arBody rq of
           Some b \<Rightarrow> (Inr (sha256_hex (rd_data b)), rq\<lparr>arBody := Some (bytes_reader (rd_data b))\<rparr>)
         | None \<Rightarrow> (Inr (sha256_hex []), rq)))"

subsection \<open>Timestamps\<close>

text \<open>
  \<open>time.Parse\<close> with the layout \<open>20060102T150405Z\<close>, as nanoseconds since 1970: fixed two-digit
  fields, except that the hour may have one digit, and an optional fraction after the seconds,
  which Go accepts although the layout has none.
\<close>

definition parse_fixed :: "nat \<Rightarrow> string \<Rightarrow> (nat \<times> string) option" where
  "parse_fixed n s =
     (if n \<le> length s then map_option (\<lambda>v. (v, drop n s)) (dec_digits 0 (take n s)) else None)"

definition parse_hour :: "string \<Rightarrow> (nat \<times> string) option" where
  "parse_hour s = (case parse_fixed 2 s of Some x \<Rightarrow> Some x | None \<Rightarrow> parse_fixed 1 s)"

definition parse_literal :: "char \<Rightarrow> string \<Rightarrow> string option" where
  "parse_literal c s = (case s of [] \<Rightarrow> None | d # t \<Rightarrow> if d = c then Some t else None)"

text \<open>The fraction: the nanoseconds of the first nine digits.\<close>

definition parse_fraction :: "string \<Rightarrow> nat \<times> string" where
  "parse_fraction s =
     (case s of
        c # d # t \<Rightarrow>
          if (c = CHR ''.'' \<or> c = CHR '','') \<and> digit_val d \<noteq> None then
            (let ds = takeWhile (\<lambda>c. digit_val c \<noteq> None) (d # t); f = take 9 ds
             in ((case dec_digits 0 f of None \<Rightarrow> 0 | Some v \<Rightarrow> v) * 10 ^ (9 - length f), drop (length ds) (d # t)))
          else (0, s)
      | _ \<Rightarrow> (0, s))"

definition leap_year :: "int \<Rightarrow> bool" where
  "leap_year y \<longleftrightarrow> y mod 4 = 0 \<and> (y mod 100 \<noteq> 0 \<or> y mod 400 = 0)"

definition days_in :: "int \<Rightarrow> nat \<Rightarrow> int" where
  "days_in y m = (if m = 2 then (if leap_year y then 29 else 28) else if m \<in> {4, 6, 9, 11} then 30 else 31)"

definition unix_days :: "int \<Rightarrow> nat \<Rightarrow> nat \<Rightarrow> int" where
  "unix_days y m d =
     365 * (y - 1) + (y - 1) div 4 - (y - 1) div 100 + (y - 1) div 400 + sum_list (map (days_in y) [1..<m]) + int d - 719163"

definition parse_amz_date :: "string \<Rightarrow> int option" where
  "parse_amz_date s0 =
     Option.bind (parse_fixed 4 s0) (\<lambda>(y, s1).
     Option.bind (parse_fixed 2 s1) (\<lambda>(m, s2).
     Option.bind (parse_fixed 2 s2) (\<lambda>(d, s3).
     Option.bind (parse_literal CHR ''T'' s3) (\<lambda>s4.
     Option.bind (parse_hour s4) (\<lambda>(h, s5).
     Option.bind (parse_fixed 2 s5) (\<lambda>(mi, s6).
     Option.bind (parse_fixed 2 s6) (\<lambda>(se, s7).
       case parse_fraction s7 of (ns, s8) \<Rightarrow>
         if parse_literal CHR ''Z'' s8 = Some '''' \<and> 1 \<le> m \<and> m \<le> 12 \<and> 1 \<le> d \<and> int d \<le> days_in (int y) m \<and>
            h < 24 \<and> mi < 60 \<and> se < 60
         then Some ((unix_days (int y) m d * 86400 + int h * 3600 + int mi * 60 + int se) * 1000000000 + int ns)
         else None)))))))"

definition second :: int where "second = 1000000000"
definition maxClockSkew :: int where "maxClockSkew = 15 * 60 * second"
definition maxPresignTTL :: int where "maxPresignTTL = 7 * 24 * 3600 * second"

definition validate_timestamp :: "string \<Rightarrow> int \<Rightarrow> int \<Rightarrow> unit result" where
  "validate_timestamp amzDate expiresSeconds now =
     (case parse_amz_date amzDate of
        None \<Rightarrow> Inl ErrAuthInvalid
      | Some ts \<Rightarrow>
          if expiresSeconds \<le> 0 then
            (if now < ts - maxClockSkew \<or> now > ts + maxClockSkew then Inl ErrRequestExpired else Inr ())
          else if expiresSeconds > maxPresignTTL div second then Inl ErrRequestExpired
          else
            (let window = expiresSeconds * second in
             if now < ts - maxClockSkew \<or> now > ts + (window + maxClockSkew) then Inl ErrRequestExpired else Inr ()))"

subsection \<open>Verification\<close>

definition verify_presigned :: "(string \<Rightarrow> (string \<times> string) option) \<Rightarrow> int \<Rightarrow> auth_request \<Rightarrow> unit result" where
  "verify_presigned lookup now rq =
     (if q_get rq ''X-Amz-Algorithm'' \<noteq> ''AWS4-HMAC-SHA256'' then Inl ErrAuthInvalid
      else
        (case parse_credential_scope (q_get rq ''X-Amz-Credential'') of
           Inl e \<Rightarrow> Inl ErrAuthInvalid
         | Inr (ak, scopeDate, region, service) \<Rightarrow>
             (case lookup ak of
                None \<Rightarrow> Inl ErrAuthInvalid
              | Some (secret, _) \<Rightarrow>
                  (let amzDate = q_get rq ''X-Amz-Date''; expireStr = q_get rq ''X-Amz-Expires'' in
                   if amzDate = '''' \<or> expireStr = '''' then Inl ErrAuthInvalid
                   else
                     (case parse_int expireStr of
                        None \<Rightarrow> Inl ErrAuthInvalid
                      | Some expires \<Rightarrow>
                          (case validate_timestamp amzDate expires now of
                             Inl e \<Rightarrow> Inl e
                           | Inr _ \<Rightarrow>
                               (let csv = q_get rq ''X-Amz-SignedHeaders'' in
                                if csv = '''' then Inl ErrAuthInvalid
                                else
                                  (let payload0 = q_get rq ''X-Amz-Content-Sha256'';
                                       payload = (if payload0 = '''' then ''UNSIGNED-PAYLOAD'' else payload0)
                                   in case build_canonical_request rq (split_on CHR '';'' (to_lower csv)) payload True of
                                        Inl e \<Rightarrow> Inl ErrAuthInvalid
                                      | Inr canonicalReq \<Rightarrow>
                                          (let got = q_get rq ''X-Amz-Signature'' in
                                           if got = '''' then Inl ErrAuthInvalid
                                           else if to_lower got \<noteq> expected_signature secret amzDate scopeDate region service canonicalReq
                                           then Inl ErrAuthInvalid
                                           else Inr ())))))))))"

definition verify_signature :: "string \<Rightarrow> string \<Rightarrow> auth_parts \<Rightarrow> auth_request \<Rightarrow> string \<Rightarrow> unit result" where
  "verify_signature secret amzDate ap rq payloadHash =
     (case build_canonical_request rq (apSigned ap) payloadHash False of
        Inl e \<Rightarrow> Inl ErrAuthInvalid
      | Inr canonicalReq \<Rightarrow>
          if to_lower (apSignature ap) \<noteq> expected_signature secret amzDate (apDate ap) (apRegion ap) (apService ap) canonicalReq
          then Inl ErrAuthInvalid
          else Inr ())"

definition verify_header :: "(string \<Rightarrow> (string \<times> string) option) \<Rightarrow> int \<Rightarrow> auth_request \<Rightarrow> unit result \<times> auth_request" where
  "verify_header lookup now rq =
     (let auth = h_get rq ''Authorization'' in
      if auth = '''' then (Inl ErrAuthMissing, rq)
      else if \<not> has_prefix auth ''AWS4-HMAC-SHA256 '' then (Inl ErrAuthInvalid, rq)
      else
        (case parse_authorization_header auth of
           Inl e \<Rightarrow> (Inl ErrAuthInvalid, rq)
         | Inr ap \<Rightarrow>
             (case lookup (apKey ap) of
                None \<Rightarrow> (Inl ErrAuthInvalid, rq)
              | Some (secret, _) \<Rightarrow>
                  (let amzDate = h_get rq ''X-Amz-Date'' in
                   if amzDate = '''' then (Inl ErrAuthInvalid, rq)
                   else
                     (case validate_timestamp amzDate 0 now of
                        Inl e \<Rightarrow> (Inl e, rq)
                      | Inr _ \<Rightarrow>
                          (case get_payload_hash rq of
                             (Inl e, rq1) \<Rightarrow> (Inl ErrAuthInvalid, rq1)
                           | (Inr payloadHash, rq1) \<Rightarrow> (verify_signature secret amzDate ap rq1 payloadHash, rq1)))))))"

definition verify_request :: "(string \<Rightarrow> (string \<times> string) option) \<Rightarrow> int \<Rightarrow> auth_request \<Rightarrow> unit result \<times> auth_request" where
  "verify_request lookup now rq =
     (if q_get rq ''X-Amz-Algorithm'' \<noteq> '''' then (verify_presigned lookup now rq, rq)
      else verify_header lookup now rq)"

text \<open>The middleware: 403 with the error, or the next handler on the request as it was left.\<close>

definition sigv4_middleware ::
    "(string \<Rightarrow> (string \<times> string) option) \<Rightarrow> (auth_request \<Rightarrow> bool) option \<Rightarrow> int \<Rightarrow>
     (err \<Rightarrow> 'r) \<Rightarrow> (auth_request \<Rightarrow> 'r) \<Rightarrow> auth_request \<Rightarrow> 'r" where
  "sigv4_middleware lookup exempt now forbidden next_handler rq =
     (if (case exempt of None \<Rightarrow> False | Some ex \<Rightarrow> ex rq) then next_handler rq
      else (case verify_request lookup now rq of
              (Inl e, _) \<Rightarrow> forbidden e
            | (Inr _, rq1) \<Rightarrow> next_handler rq1))"

end
