(* ===== verification/SigProps.thy ===== *)
theory SigProps imports Sigv4 "HOL-Library.Multiset"
begin

text \<open>
  Properties of signature verification: what an accepted request guarantees, that a correctly
  signed request is accepted, and what a signature binds.
\<close>

subsection \<open>Characters and encodings\<close>

lemma unat_of_char: "unat (of_char c :: byte) = of_char c"
proof -
  have "(of_char c :: byte) = word_of_nat (of_char c)" by (rule of_nat_of_char [symmetric])
  then have "unat (of_char c :: byte) = of_char c mod 2 ^ 8" by (simp only: unat_of_nat) simp
  then show ?thesis using of_char_mod_256 [of c, where 'a = nat] by simp
qed

lemma of_char_byte_inj: "(of_char c :: byte) = of_char d \<longleftrightarrow> c = d"
  using unat_of_char [of c] unat_of_char [of d] by (metis of_char_eq_iff)

lemma hex_char_val: "n < 16 \<Longrightarrow> (of_char (hex_char n) :: nat) = (if n < 10 then 48 + n else 87 + n)"
  by (simp add: hex_char_def)

lemma hex_upper_val: "n < 16 \<Longrightarrow> (of_char (char_upper (hex_char n)) :: nat) = (if n < 10 then 48 + n else 55 + n)"
  by (simp add: char_upper_def Let_def hex_char_val)

lemma hex_val_upper: "n < 16 \<Longrightarrow> hex_val (char_upper (hex_char n)) = Some n"
  by (simp add: hex_val_def Let_def hex_upper_val)

lemma hex_lower: "n < 16 \<Longrightarrow> char_lower (hex_char n) = hex_char n"
  by (simp add: char_lower_def Let_def hex_char_val)

lemma byte_halves: "unat (b :: byte) div 16 < 16" "unat b mod 16 < 16"
  using unsigned_less [of b, where 'a = nat] by simp_all

lemma hex_decode_upper: "hex_decode (to_upper (hex_encode bs)) = Some bs"
proof (induction bs)
  case (Cons b bs)
  then show ?case using hex_val_upper [OF byte_halves(1) [of b]] hex_val_upper [OF byte_halves(2) [of b]]
    by (simp add: to_upper_def)
qed (simp add: to_upper_def)

lemma to_lower_hex [simp]: "to_lower (hex_encode bs) = hex_encode bs"
  by (induction bs) (simp_all add: to_lower_def hex_lower byte_halves)

lemma hex_char_alnum: "n < 16 \<Longrightarrow> is_alnum (hex_char n) \<and> is_alnum (char_upper (hex_char n))"
  by (simp add: is_alnum_def Let_def hex_char_val hex_upper_val)

lemma hex_alnum: "c \<in> set (hex_encode bs) \<Longrightarrow> is_alnum c"
  by (induction bs) (auto simp: hex_char_alnum byte_halves)

lemma hex_upper_alnum: "c \<in> set (to_upper (hex_encode bs)) \<Longrightarrow> is_alnum c"
  by (induction bs) (auto simp: to_upper_def hex_char_alnum byte_halves)

lemma not_alnum [simp]:
  "\<not> is_alnum CHR 0x25" "\<not> is_alnum CHR 0x0A" "\<not> is_alnum CHR ''&''" "\<not> is_alnum CHR ''=''" "\<not> is_alnum CHR ''/''"
  "\<not> is_alnum CHR '',''" "\<not> is_alnum CHR '';''" "\<not> is_alnum CHR '' ''"
  by (simp_all add: is_alnum_def)

lemma not_unreserved [simp]:
  "\<not> unreserved CHR 0x25" "\<not> unreserved CHR 0x0A" "\<not> unreserved CHR ''&''" "\<not> unreserved CHR ''=''" "\<not> unreserved CHR ''/''"
  by (simp_all add: unreserved_def)

text \<open>A prefix-free code on characters is injective on strings.\<close>

lemma prefix_code_inj:
  assumes "\<And>c. f c \<noteq> []" and "\<And>c d x y. f c @ x = f d @ y \<Longrightarrow> c = d"
  shows "concat (map f s) = concat (map f t) \<Longrightarrow> s = t"
proof (induction s arbitrary: t)
  case Nil
  then show ?case using assms(1) by (cases t) auto
next
  case (Cons c s)
  then show ?case
  proof (cases t)
    case (Cons d t')
    with Cons.prems assms(2) [of c "concat (map f s)" d "concat (map f t')"] have "c = d" by simp
    with Cons Cons.prems Cons.IH show ?thesis by simp
  qed (use assms(1) in simp)
qed

definition uri_char :: "char \<Rightarrow> string" where
  "uri_char c = (if unreserved c \<or> c = CHR ''/'' then [c] else pct_encode c)"

lemma uri_encode_chars: "uri_encode s False = concat (map uri_char s)"
  unfolding uri_encode_def uri_char_def by (rule arg_cong [of _ _ concat]) simp

lemma uri_encode_path_chars: "s \<noteq> '''' \<Longrightarrow> uri_encode_path s = concat (map uri_char s)"
  unfolding uri_encode_path_def uri_char_def by (simp, rule arg_cong [of _ _ concat]) simp

lemma uri_char_prefix: "uri_char c @ x = uri_char d @ y \<Longrightarrow> c = d"
proof -
  have len: "length (to_upper (hex_encode [of_char e])) = 2" for e by (simp add: to_upper_def)
  assume eq: "uri_char c @ x = uri_char d @ y"
  consider "unreserved c \<or> c = CHR ''/''" "unreserved d \<or> d = CHR ''/''"
    | "\<not> (unreserved c \<or> c = CHR ''/'')" "\<not> (unreserved d \<or> d = CHR ''/'')"
    | "unreserved c \<or> c = CHR ''/''" "\<not> (unreserved d \<or> d = CHR ''/'')"
    | "\<not> (unreserved c \<or> c = CHR ''/'')" "unreserved d \<or> d = CHR ''/''" by blast
  then show ?thesis
  proof cases
    case 1
    with eq show ?thesis by (auto simp: uri_char_def)
  next
    case 2
    then have "to_upper (hex_encode [of_char c]) = to_upper (hex_encode [of_char d])"
      using eq by (simp add: uri_char_def pct_encode_def len append_eq_append_conv del: hex_encode.simps)
    then have "[of_char c :: byte] = [of_char d]" using hex_decode_upper by (metis option.inject)
    then show ?thesis by (simp only: list.inject of_char_byte_inj)
  next
    case 3
    with eq have "c = CHR 0x25" by (auto simp: uri_char_def pct_encode_def)
    with 3(1) show ?thesis by auto
  next
    case 4
    with eq have "d = CHR 0x25" by (auto simp: uri_char_def pct_encode_def)
    with 4(2) show ?thesis by auto
  qed
qed

lemma uri_char_inj: "concat (map uri_char s) = concat (map uri_char t) \<Longrightarrow> s = t"
proof (rule prefix_code_inj [of uri_char])
  show "uri_char c \<noteq> []" for c by (simp add: uri_char_def pct_encode_def)
qed (auto dest: uri_char_prefix)

lemma uri_char_set1: "d \<in> set (uri_char c) \<Longrightarrow> d \<noteq> CHR 0x0A \<and> d \<noteq> CHR ''&'' \<and> d \<noteq> CHR ''=''"
proof (cases "unreserved c \<or> c = CHR ''/''")
  case True
  assume "d \<in> set (uri_char c)"
  with True have "unreserved d \<or> d = CHR ''/''" by (simp add: uri_char_def)
  then show ?thesis using not_unreserved(2,3,4) by auto
next
  case False
  assume "d \<in> set (uri_char c)"
  with False have "d = CHR 0x25 \<or> d \<in> set (to_upper (hex_encode [of_char c]))"
    by (simp add: uri_char_def pct_encode_def)
  then have "d = CHR 0x25 \<or> is_alnum d" using hex_upper_alnum by blast
  then show ?thesis using not_alnum(2,3,4) by auto
qed

lemma uri_char_set: "d \<in> set (concat (map uri_char s)) \<Longrightarrow> d \<noteq> CHR 0x0A \<and> d \<noteq> CHR ''&'' \<and> d \<noteq> CHR ''=''"
  using uri_char_set1 by (metis (no_types, lifting) UN_E set_concat set_map image_iff)

subsection \<open>The canonical request is injective\<close>

lemma join_with_Cons: "qs \<noteq> [] \<Longrightarrow> join_with d (p # qs) = p @ d # join_with d qs"
  by (cases qs) auto

lemma join_with_inj:
  assumes "join_with d ps = join_with d qs" and "\<forall>p \<in> set ps. d \<notin> set p" and "\<forall>q \<in> set qs. d \<notin> set q"
    and "'''' \<notin> set ps" and "'''' \<notin> set qs"
  shows "ps = qs"
proof (cases "ps = [] \<or> qs = []")
  case True
  have empty: "join_with d xs = '''' \<Longrightarrow> '''' \<notin> set xs \<Longrightarrow> xs = []" for xs
    by (cases "(d, xs)" rule: join_with.cases) auto
  from True show ?thesis
    using empty [of ps] empty [of qs] assms by auto
next
  case False
  then show ?thesis using split_on_join [of ps d] split_on_join [of qs d] assms by metis
qed

text \<open>The (name, value) pairs in the order of the canonical query, and their encoding.\<close>

definition query_pairs :: "auth_request \<Rightarrow> (string \<times> string) list" where
  "query_pairs rq =
     concat (map (\<lambda>k. map (\<lambda>v. (k, v)) (sort (q_values rq k))) (sort_key to_lower (arOrder rq (remdups (map fst (arQuery rq))))))"

definition enc_pair :: "string \<times> string \<Rightarrow> string" where
  "enc_pair p = uri_encode (fst p) False @ CHR ''='' # uri_encode (snd p) False"

lemma canonical_query_pairs: "canonical_query_string rq False = join_with CHR ''&'' (map enc_pair (query_pairs rq))"
  by (simp add: canonical_query_string_def query_pairs_def enc_pair_def map_concat comp_def)

lemma enc_pair_inj: "enc_pair p = enc_pair q \<Longrightarrow> p = q"
proof -
  assume eq: "enc_pair p = enc_pair q"
  have no: "CHR ''='' \<notin> set (uri_encode s False)" for s using uri_char_set by (auto simp: uri_encode_chars)
  from eq have "uri_encode (fst p) False = uri_encode (fst q) False \<and> uri_encode (snd p) False = uri_encode (snd q) False"
    unfolding enc_pair_def using no by (metis append_Cons_eq_iff)
  then show ?thesis unfolding uri_encode_chars using uri_char_inj by (metis prod_eqI)
qed

lemma enc_pair_plain: "CHR ''&'' \<notin> set (enc_pair p)" "CHR 0x0A \<notin> set (enc_pair p)" "enc_pair p \<noteq> ''''"
  using uri_char_set by (auto simp: enc_pair_def uri_encode_chars)

lemma canonical_query_inj:
  assumes "canonical_query_string rq1 False = canonical_query_string rq2 False"
  shows "query_pairs rq1 = query_pairs rq2"
proof -
  have "map enc_pair (query_pairs rq1) = map enc_pair (query_pairs rq2)"
    by (rule join_with_inj [OF assms [unfolded canonical_query_pairs]])
      (simp_all add: enc_pair_plain image_iff enc_pair_plain(3) [symmetric])
  moreover have "inj enc_pair" by (auto intro: injI enc_pair_inj)
  ultimately show ?thesis by simp
qed

lemma mset_group:
  assumes "distinct ks" and "fst ` set xs \<subseteq> set ks"
  shows "mset (concat (map (\<lambda>k. filter (\<lambda>p. fst p = k) xs) ks)) = mset xs"
  using assms(2)
proof (induction xs)
  case Nil
  have "concat (map (\<lambda>k. []) ks) = []" by (induction ks) simp_all
  then show ?case by simp
next
  case (Cons x xs)
  have one: "mset (concat (map (\<lambda>k. filter (\<lambda>p. fst p = k) (x # xs)) js)) =
      (if fst x \<in> set js then {#x#} else {#}) + mset (concat (map (\<lambda>k. filter (\<lambda>p. fst p = k) xs) js))"
    if "distinct js" for js
    using that by (induction js) auto
  from one [OF assms(1)] Cons show ?case by simp
qed

text \<open>Ranging over the query map visits every name once.\<close>

definition order_ok :: "auth_request \<Rightarrow> bool" where
  "order_ok rq \<longleftrightarrow> mset (arOrder rq (remdups (map fst (arQuery rq)))) = mset (remdups (map fst (arQuery rq)))"

lemma query_pairs_mset:
  assumes "order_ok rq"
  shows "mset (query_pairs rq) = mset (arQuery rq)"
proof -
  let ?ks = "sort_key to_lower (arOrder rq (remdups (map fst (arQuery rq))))"
  have m: "mset ?ks = mset (remdups (map fst (arQuery rq)))" using assms by (simp add: order_ok_def)
  then have d: "distinct ?ks" using mset_eq_imp_distinct_iff by blast
  have s: "set ?ks = fst ` set (arQuery rq)" using mset_eq_setD [OF m] by simp
  have one: "mset (map (\<lambda>v. (k, v)) (sort (q_values rq k))) = mset (filter (\<lambda>p. fst p = k) (arQuery rq))" for k
  proof -
    have "map (\<lambda>v. (k, v)) (q_values rq k) = filter (\<lambda>p. fst p = k) (arQuery rq)"
    proof -
      have "map (\<lambda>v. (k, v)) (map snd (filter (\<lambda>(k', v). k' = k) xs)) = filter (\<lambda>p. fst p = k) xs" for xs :: "(string \<times> string) list"
        by (induction xs) auto
      then show ?thesis by (simp add: q_values_def)
    qed
    then show ?thesis by (metis mset_map mset_sort)
  qed
  have "mset (concat (map f ks)) = mset (concat (map g ks))" if "\<And>k. mset (f k) = mset (g k)" for f g :: "string \<Rightarrow> (string \<times> string) list" and ks
    using that by (induction ks) simp_all
  from this [of "\<lambda>k. map (\<lambda>v. (k, v)) (sort (q_values rq k))" "\<lambda>k. filter (\<lambda>p. fst p = k) (arQuery rq)"] one
  show ?thesis unfolding query_pairs_def using mset_group [OF d, of "arQuery rq"] s by simp
qed

lemma collapse_no_newline: "CHR 0x0A \<notin> set (collapse_spaces sp s)"
  by (induction sp s rule: collapse_spaces.induct) auto

definition header_line :: "string \<times> string \<Rightarrow> string" where
  "header_line h = fst h @ CHR '':'' # snd h"

definition canonical_lines :: "auth_request \<Rightarrow> string list \<Rightarrow> string \<Rightarrow> string list" where
  "canonical_lines rq names payload =
     [arMethod rq, uri_encode_path (if arEscapedPath rq = '''' \<or> hd (arEscapedPath rq) \<noteq> CHR ''/'' then CHR ''/'' # arEscapedPath rq else arEscapedPath rq),
      canonical_query_string rq False] @ map header_line (signed_header_values rq names) @
     ['''', join_with CHR '';'' (map fst (signed_header_values rq names)), payload]"

lemma join_lines: "ls \<noteq> [] \<Longrightarrow> join_with CHR 0x0A (map header_line hs @ ls) = concat (map (\<lambda>(k, v). k @ '':'' @ v @ [CHR 0x0A]) hs) @ join_with CHR 0x0A ls"
proof (induction hs)
  case (Cons h hs)
  then have "map header_line hs @ ls \<noteq> []" by simp
  with Cons show ?case by (simp add: join_with_Cons header_line_def [of h] split: prod.split)
qed simp

lemma canonical_request_lines:
  "build_canonical_request rq names payload False =
     (if signed_header_values rq names = [] then Inl ErrAuthInvalid
      else Inr (join_with CHR 0x0A (canonical_lines rq names payload)))"
proof -
  show ?thesis
    by (simp add: build_canonical_request_def canonical_headers_and_list_def canonical_lines_def Let_def join_lines join_with_Cons)
qed

text \<open>
  What net/http guarantees of a request: no line break in its method or its header values, and
  no header without a name.
\<close>

definition wire_ok :: "auth_request \<Rightarrow> bool" where
  "wire_ok rq \<longleftrightarrow> order_ok rq \<and> CHR 0x0A \<notin> set (arMethod rq) \<and> (\<forall>(k, v) \<in> set (arHeader rq). k \<noteq> '''' \<and> CHR 0x0A \<notin> set v)"

lemma h_get_plain: "wire_ok rq \<Longrightarrow> CHR 0x0A \<notin> set (h_get rq name)"
proof (cases "map_of (arHeader rq) (canonical_key name)")
  case (Some v)
  assume "wire_ok rq"
  with map_of_SomeD [OF Some] Some show ?thesis by (auto simp: wire_ok_def h_get_def)
qed (simp add: h_get_def)

text \<open>The names of signed headers that contain neither a line break nor a separator.\<close>

definition names_ok :: "string list \<Rightarrow> bool" where
  "names_ok names \<longleftrightarrow> (\<forall>n \<in> set names. CHR 0x0A \<notin> set n \<and> CHR '';'' \<notin> set n \<and> to_lower n = n)"

lemma signed_names: "names_ok names \<Longrightarrow> p \<in> set (signed_header_values rq names) \<Longrightarrow>
    CHR 0x0A \<notin> set (fst p) \<and> CHR '';'' \<notin> set (fst p)"
  by (auto simp: signed_header_values_def names_ok_def)

lemma signed_values: "p \<in> set (signed_header_values rq names) \<Longrightarrow> CHR 0x0A \<notin> set (snd p)"
  by (auto simp: signed_header_values_def trim_spaces_def collapse_no_newline)

lemma signed_nonempty: "wire_ok rq \<Longrightarrow> names_ok names \<Longrightarrow> '''' \<notin> fst ` set (signed_header_values rq names)"
proof -
  assume w: "wire_ok rq"
  then have "'''' \<notin> fst ` set (arHeader rq)" by (auto simp: wire_ok_def)
  then have "map_of (arHeader rq) '''' = None" by (simp add: map_of_eq_None_iff)
  then have "h_get rq '''' = ''''" by (simp add: h_get_def canonical_key_def)
  then have "header_value rq '''' = ''''" by (simp add: header_value_def header_canonical_case_def to_lower_def)
  then have "header_value rq n \<noteq> '''' \<Longrightarrow> to_lower n \<noteq> ''''" for n by (cases n) (simp_all add: to_lower_def)
  then have "'''' \<notin> set (map fst (map (\<lambda>name. (to_lower name, trim_spaces (header_value rq name)))
      (filter (\<lambda>name. header_value rq name \<noteq> '''') (remdups (map to_lower names)))))"
    by (auto simp: comp_def) metis
  then show ?thesis unfolding signed_header_values_def set_map set_sort .
qed

lemma header_lines_inj:
  "map fst hs = map fst gs \<Longrightarrow> map header_line hs = map header_line gs \<Longrightarrow> hs = gs"
proof (induction hs arbitrary: gs)
  case (Cons h hs)
  then show ?case by (cases gs) (auto simp: header_line_def prod_eq_iff)
qed simp

lemma join_newline_free: "\<forall>p \<in> set ps. c \<notin> set p \<Longrightarrow> c \<noteq> d \<Longrightarrow> c \<notin> set (join_with d ps)"
  by (induction d ps rule: join_with.induct) auto

definition canonical_uri :: "auth_request \<Rightarrow> string" where
  "canonical_uri rq = (if arEscapedPath rq = '''' \<or> hd (arEscapedPath rq) \<noteq> CHR ''/'' then CHR ''/'' # arEscapedPath rq else arEscapedPath rq)"

lemma canonical_uri_ne: "canonical_uri rq \<noteq> ''''"
  by (simp add: canonical_uri_def)

lemma canonical_lines_plain:
  assumes w: "wire_ok rq" and n: "names_ok names" and p: "CHR 0x0A \<notin> set payload"
  shows "\<forall>l \<in> set (canonical_lines rq names payload). CHR 0x0A \<notin> set l"
proof -
  have q: "CHR 0x0A \<notin> set (canonical_query_string rq False)"
    unfolding canonical_query_pairs by (rule join_newline_free) (auto simp: enc_pair_plain)
  have u: "CHR 0x0A \<notin> set (uri_encode_path (canonical_uri rq))"
    unfolding uri_encode_path_chars [OF canonical_uri_ne] using uri_char_set by blast
  have h: "\<forall>l \<in> set (map header_line (signed_header_values rq names)). CHR 0x0A \<notin> set l"
    using signed_names [OF n] signed_values by (auto simp: header_line_def)
  have c: "CHR 0x0A \<notin> set (join_with CHR '';'' (map fst (signed_header_values rq names)))"
    by (rule join_newline_free) (use signed_names [OF n] in auto)
  show ?thesis
    using w p q u h c unfolding canonical_lines_def canonical_uri_def [symmetric]
    by (simp add: wire_ok_def)
qed

lemma canonical_lines_inj:
  assumes w: "wire_ok rq1" "wire_ok rq2" and n: "names_ok names"
    and eq: "canonical_lines rq1 names p1 = canonical_lines rq2 names p2"
  shows "arMethod rq1 = arMethod rq2 \<and> canonical_uri rq1 = canonical_uri rq2 \<and> query_pairs rq1 = query_pairs rq2 \<and>
    signed_header_values rq1 names = signed_header_values rq2 names \<and> p1 = p2"
proof -
  let ?h1 = "signed_header_values rq1 names" and ?h2 = "signed_header_values rq2 names"
  let ?t1 = "['''', join_with CHR '';'' (map fst ?h1), p1]" and ?t2 = "['''', join_with CHR '';'' (map fst ?h2), p2]"
  from eq have e: "arMethod rq1 = arMethod rq2" "uri_encode_path (canonical_uri rq1) = uri_encode_path (canonical_uri rq2)"
      "canonical_query_string rq1 False = canonical_query_string rq2 False"
      "map header_line ?h1 @ ?t1 = map header_line ?h2 @ ?t2"
    unfolding canonical_lines_def canonical_uri_def [symmetric] by simp_all
  from e(4) have l: "map header_line ?h1 = map header_line ?h2" "?t1 = ?t2"
    by (simp_all add: append_eq_append_conv)
  then have "map fst ?h1 = map fst ?h2"
    by (intro join_with_inj [of "CHR '';''"])
      (use signed_names [OF n] signed_nonempty [OF w(1) n] signed_nonempty [OF w(2) n] in auto)
  with l(1) have "?h1 = ?h2" by (rule header_lines_inj [rotated])
  moreover have "canonical_uri rq1 = canonical_uri rq2"
    using e(2) uri_char_inj by (simp add: uri_encode_path_chars canonical_uri_ne)
  ultimately show ?thesis using e(1) canonical_query_inj [OF e(3)] l(2) by simp
qed

text \<open>What a signature covers of a request, and when two requests agree on it.\<close>

definition same_signed_content :: "auth_request \<Rightarrow> auth_request \<Rightarrow> string list \<Rightarrow> bool" where
  "same_signed_content rq1 rq2 names \<longleftrightarrow>
     arMethod rq1 = arMethod rq2 \<and> canonical_uri rq1 = canonical_uri rq2 \<and> mset (arQuery rq1) = mset (arQuery rq2) \<and>
     signed_header_values rq1 names = signed_header_values rq2 names"

lemma canonical_request_inj:
  assumes w: "wire_ok rq1" "wire_ok rq2" and n: "names_ok names"
    and p: "CHR 0x0A \<notin> set p1" "CHR 0x0A \<notin> set p2"
    and b: "build_canonical_request rq1 names p1 False = Inr cr" "build_canonical_request rq2 names p2 False = Inr cr"
  shows "same_signed_content rq1 rq2 names \<and> p1 = p2"
proof -
  have j: "join_with CHR 0x0A (canonical_lines rq1 names p1) = cr" "join_with CHR 0x0A (canonical_lines rq2 names p2) = cr"
    using b by (simp_all add: canonical_request_lines split: if_splits)
  have ne: "canonical_lines rq names p \<noteq> []" for rq p by (simp add: canonical_lines_def)
  have "canonical_lines rq1 names p1 = split_on CHR 0x0A cr"
    using split_on_join [OF ne canonical_lines_plain [OF w(1) n p(1)]] j(1) by simp
  also have "\<dots> = canonical_lines rq2 names p2"
    using split_on_join [OF ne canonical_lines_plain [OF w(2) n p(2)]] j(2) by simp
  finally have "canonical_lines rq1 names p1 = canonical_lines rq2 names p2" .
  from canonical_lines_inj [OF w n this] query_pairs_mset [of rq1] query_pairs_mset [of rq2] w show ?thesis
    by (auto simp: same_signed_content_def wire_ok_def)
qed

subsection \<open>What a signature binds\<close>

lemma char_lower_idem [simp]: "char_lower (char_lower c) = char_lower c"
  by (simp add: char_lower_def Let_def)

lemma char_lower_newline: "char_lower c = CHR 0x0A \<longleftrightarrow> c = CHR 0x0A"
proof -
  have "(of_char (char_lower c) :: nat) = 10 \<longleftrightarrow> (of_char c :: nat) = 10"
    by (auto simp: char_lower_def Let_def)
  moreover have "(of_char x :: nat) = 10 \<longleftrightarrow> x = CHR 0x0A" for x
    using of_char_eq_iff [of x "CHR 0x0A", where 'a = nat] by simp
  ultimately show ?thesis by blast
qed

lemma to_lower_newline [simp]: "CHR 0x0A \<in> set (to_lower s) \<longleftrightarrow> CHR 0x0A \<in> set s"
  by (auto simp: to_lower_def image_iff) (metis char_lower_newline)+

lemma set_trim: "set (trim_space s) \<subseteq> set s" "set (trim_prefix s p) \<subseteq> set s"
  by (auto simp: trim_space_def trim_prefix_def dest!: set_dropWhileD in_set_dropD)

lemma join_with_subset: "p \<in> set ps \<Longrightarrow> set p \<subseteq> set (join_with d ps)"
  by (induction d ps rule: join_with.induct) auto

lemma split_on_subset: "p \<in> set (split_on d s) \<Longrightarrow> set p \<subseteq> set s"
  using join_with_subset [of p "split_on d s" d] by (simp add: join_split_on)

lemma auth_token_plain:
  assumes "c \<notin> set cred \<union> set sh \<union> set sig \<union> set tok" and "auth_token (cred, sh, sig) tok = (cred', sh', sig')"
  shows "c \<notin> set cred' \<union> set sh' \<union> set sig'"
  using assms set_trim(1) [of tok] set_trim(2) [of "trim_space tok"]
  by (auto simp: auth_token_def Let_def split: if_splits)

lemma auth_tokens_plain:
  "c \<notin> set cred \<union> set sh \<union> set sig \<Longrightarrow> \<forall>t \<in> set toks. c \<notin> set t \<Longrightarrow>
   foldl auth_token (cred, sh, sig) toks = (cred', sh', sig') \<Longrightarrow> c \<notin> set cred' \<union> set sh' \<union> set sig'"
proof (induction toks arbitrary: cred sh sig)
  case (Cons t toks)
  obtain a b d where t: "auth_token (cred, sh, sig) t = (a, b, d)" by (cases "auth_token (cred, sh, sig) t")
  have "c \<notin> set a \<union> set b \<union> set d" by (rule auth_token_plain [OF _ t]) (use Cons.prems in auto)
  from Cons.IH [OF this] Cons.prems t show ?case by simp
qed simp

lemma parsed_names_ok:
  assumes w: "wire_ok rq" and p: "parse_authorization_header (h_get rq name) = Inr ap"
  shows "names_ok (apSigned ap)"
proof -
  let ?kv = "trim_prefix (h_get rq name) ''AWS4-HMAC-SHA256 ''"
  obtain cred sh sig where f: "foldl auth_token ('''', '''', '''') (split_on CHR '','' ?kv) = (cred, sh, sig)"
    by (cases "foldl auth_token ('''', '''', '''') (split_on CHR '','' ?kv)")
  have kv: "CHR 0x0A \<notin> set ?kv" using h_get_plain [OF w] set_trim(2) by blast
  have "CHR 0x0A \<notin> set cred \<union> set sh \<union> set sig"
    by (rule auth_tokens_plain [OF _ _ f]) (use kv split_on_subset in auto)
  then have sh: "CHR 0x0A \<notin> set (to_lower (trim_space sh))" using set_trim(1) [of sh] by auto
  have ap: "apSigned ap = split_on CHR '';'' (to_lower (trim_space sh))"
    using p f by (auto simp: parse_authorization_header_def Let_def split: if_splits sum.splits)
  have low: "to_lower n = n" if "n \<in> set (split_on d (to_lower s))" for n d s
  proof -
    have "set n \<subseteq> set (to_lower s)" using that by (rule split_on_subset)
    then have "char_lower c = c" if "c \<in> set n" for c using that by (auto simp: to_lower_def)
    then show ?thesis unfolding to_lower_def by (intro map_idI)
  qed
  show ?thesis unfolding names_ok_def ap
    using low split_on_subset [of _ "CHR '';''" "to_lower (trim_space sh)"] sh split_on_pieces [of _ "CHR '';''" "to_lower (trim_space sh)"]
    by blast
qed

lemma payload_hash_plain:
  assumes w: "wire_ok rq" and g: "get_payload_hash rq = (Inr p, rq')"
  shows "CHR 0x0A \<notin> set p"
proof -
  have "CHR 0x0A \<notin> set (sha256_hex bs)" for bs using hex_alnum [of "CHR 0x0A"] by (auto simp: sha256_hex_def)
  then show ?thesis
    using g h_get_plain [OF w] by (auto simp: get_payload_hash_def Let_def split: if_splits option.splits)
qed

lemma payload_hash_request:
  assumes "get_payload_hash rq = (x, rq')"
  shows "rq' = rq \<or> (\<exists>b. arBody rq = Some b \<and> rq' = rq\<lparr>arBody := Some (bytes_reader (rd_data b))\<rparr>)"
  using assms by (auto simp: get_payload_hash_def Let_def split: if_splits option.splits)

lemma h_get_body [simp]: "h_get (rq\<lparr>arBody := b\<rparr>) = h_get rq"
  by (rule ext) (simp add: h_get_def)

lemma header_value_body [simp]: "header_value (rq\<lparr>arBody := b\<rparr>) = header_value rq"
  by (rule ext) (simp add: header_value_def Let_def)

lemma build_ignores_body [simp]: "build_canonical_request (rq\<lparr>arBody := b\<rparr>) names p x = build_canonical_request rq names p x"
proof -
  have "canonical_query_string (rq\<lparr>arBody := b\<rparr>) x = canonical_query_string rq x"
    by (simp add: canonical_query_string_def q_values_def)
  moreover have "canonical_headers_and_list (rq\<lparr>arBody := b\<rparr>) names = canonical_headers_and_list rq names"
    by (simp add: canonical_headers_and_list_def signed_header_values_def)
  ultimately show ?thesis by (cases "canonical_headers_and_list rq names") (simp add: build_canonical_request_def Let_def)
qed

text \<open>An accepted header-signed request, spelled out.\<close>

lemma accepted_header:
  assumes v: "verify_header lookup now rq = (Inr (), rq')"
  obtains ap secret user ts p cr where
    "parse_authorization_header (h_get rq ''Authorization'') = Inr ap" "lookup (apKey ap) = Some (secret, user)"
    "parse_amz_date (h_get rq ''X-Amz-Date'') = Some ts" "ts - maxClockSkew \<le> now" "now \<le> ts + maxClockSkew"
    "get_payload_hash rq = (Inr p, rq')" "build_canonical_request rq (apSigned ap) p False = Inr cr"
    "to_lower (apSignature ap) = expected_signature secret (h_get rq ''X-Amz-Date'') (apDate ap) (apRegion ap) (apService ap) cr"
proof -
  from v obtain ap where ap: "parse_authorization_header (h_get rq ''Authorization'') = Inr ap"
    by (auto simp: verify_header_def Let_def split: if_splits sum.splits)
  with v obtain secret user where lk: "lookup (apKey ap) = Some (secret, user)"
    by (auto simp: verify_header_def Let_def split: if_splits option.splits)
  with v ap have vt: "validate_timestamp (h_get rq ''X-Amz-Date'') 0 now = Inr ()"
    by (auto simp: verify_header_def Let_def split: if_splits sum.splits)
  then obtain ts where ts: "parse_amz_date (h_get rq ''X-Amz-Date'') = Some ts" "ts - maxClockSkew \<le> now" "now \<le> ts + maxClockSkew"
    by (auto simp: validate_timestamp_def split: option.splits if_splits)
  from v ap lk vt obtain p where p: "get_payload_hash rq = (Inr p, rq')"
      "verify_signature secret (h_get rq ''X-Amz-Date'') ap rq' p = Inr ()"
    by (auto simp: verify_header_def Let_def split: if_splits sum.splits prod.splits)
  from p(2) payload_hash_request [OF p(1)] obtain cr where cr: "build_canonical_request rq (apSigned ap) p False = Inr cr"
      "to_lower (apSignature ap) = expected_signature secret (h_get rq ''X-Amz-Date'') (apDate ap) (apRegion ap) (apService ap) cr"
    by (auto simp: verify_signature_def split: sum.splits if_splits)
  from that [OF ap lk ts p(1) cr] show thesis .
qed

definition collides :: "(byte list \<Rightarrow> byte list) \<Rightarrow> string \<Rightarrow> string \<Rightarrow> bool" where
  "collides f s t \<longleftrightarrow> s \<noteq> t \<and> f (string_bytes s) = f (string_bytes t)"

lemma string_bytes_inj: "string_bytes s = string_bytes t \<Longrightarrow> s = t"
  by (simp add: string_bytes_def) (metis (no_types, lifting) injI inj_map_eq_map of_char_byte_inj)

text \<open>The string that is signed for an accepted request.\<close>

definition string_to_sign :: "auth_request \<Rightarrow> auth_parts \<Rightarrow> string \<Rightarrow> string" where
  "string_to_sign rq ap cr = build_string_to_sign (h_get rq ''X-Amz-Date'') (apDate ap) (apRegion ap) (apService ap)
     (sha256_hex (string_bytes cr))"

lemma cut_at: "a @ [c] @ x = b @ [c] @ y \<Longrightarrow> c \<notin> set a \<Longrightarrow> c \<notin> set b \<Longrightarrow> a = b \<and> x = y"
proof (induction a arbitrary: b)
  case Nil
  then show ?case by (cases b) auto
next
  case (Cons z a)
  then show ?case by (cases b) auto
qed

lemma string_to_sign_inj:
  assumes w: "wire_ok rq1" "wire_ok rq2"
    and eq: "string_to_sign rq1 ap cr1 = string_to_sign rq2 ap cr2"
  shows "h_get rq1 ''X-Amz-Date'' = h_get rq2 ''X-Amz-Date'' \<and> sha256 (string_bytes cr1) = sha256 (string_bytes cr2)"
proof -
  from eq have "h_get rq1 ''X-Amz-Date'' @ [CHR 0x0A] @ apDate ap @ ''/'' @ apRegion ap @ ''/'' @ apService ap @ ''/aws4_request'' @ [CHR 0x0A] @ sha256_hex (string_bytes cr1) =
      h_get rq2 ''X-Amz-Date'' @ [CHR 0x0A] @ apDate ap @ ''/'' @ apRegion ap @ ''/'' @ apService ap @ ''/aws4_request'' @ [CHR 0x0A] @ sha256_hex (string_bytes cr2)"
    by (simp only: string_to_sign_def build_string_to_sign_def same_append_eq)
  from cut_at [OF this h_get_plain [OF w(1)] h_get_plain [OF w(2)]]
  have "h_get rq1 ''X-Amz-Date'' = h_get rq2 ''X-Amz-Date''" "sha256_hex (string_bytes cr1) = sha256_hex (string_bytes cr2)"
    by (simp_all only: same_append_eq)
  then show ?thesis using hex_encode_inj by (simp add: sha256_hex_def)
qed

subsection \<open>Signing and verifying\<close>

text \<open>
  The signing side of the protocol, as a client performs it: the Authorization header for a
  credential scope, a list of header names and a signature.
\<close>

definition authorization_value :: "string \<Rightarrow> string \<Rightarrow> string \<Rightarrow> string \<Rightarrow> string list \<Rightarrow> string \<Rightarrow> string" where
  "authorization_value ak date region service names sig =
     ''AWS4-HMAC-SHA256 '' @ ''Credential='' @ (ak @ CHR ''/'' # date @ CHR ''/'' # region @ CHR ''/'' # service @ CHR ''/'' # ''aws4_request'') @
     CHR '','' # '' SignedHeaders='' @ join_with CHR '';'' names @ CHR '','' # '' Signature='' @ sig"

definition with_authorization :: "auth_request \<Rightarrow> string \<Rightarrow> auth_request" where
  "with_authorization rq v = rq\<lparr>arHeader := (''Authorization'', v) # arHeader rq\<rparr>"

text \<open>A piece of the header value: not empty, without blanks and separators.\<close>

definition word_ok :: "string \<Rightarrow> bool" where
  "word_ok s \<longleftrightarrow> s \<noteq> '''' \<and> (\<forall>c \<in> set s. \<not> is_space c \<and> c \<noteq> CHR '','' \<and> c \<noteq> CHR ''/'' \<and> c \<noteq> CHR '';'')"

definition signable :: "string list \<Rightarrow> bool" where
  "signable names \<longleftrightarrow> names \<noteq> [] \<and> (\<forall>n \<in> set names. word_ok n \<and> to_lower n = n \<and> canonical_key n \<noteq> ''Authorization'')"

lemma word_no: "word_ok s \<Longrightarrow> CHR ''/'' \<notin> set s" "word_ok s \<Longrightarrow> CHR '','' \<notin> set s" "word_ok s \<Longrightarrow> CHR '';'' \<notin> set s"
  by (auto simp only: word_ok_def)

lemma word_ends: "word_ok s \<Longrightarrow> \<not> is_space (hd s) \<and> \<not> is_space (last s)"
  by (simp add: word_ok_def)

lemma trim_word: "word_ok s \<Longrightarrow> trim_space s = s"
  using word_ends trim_space_id by blast

lemma trim_space_Cons [simp]: "trim_space (CHR '' '' # s) = trim_space s"
  by (simp add: trim_space_def is_space_def)

lemma parse_scope_words:
  assumes "word_ok ak" "word_ok date" "word_ok region" "word_ok service"
  shows "parse_credential_scope (ak @ CHR ''/'' # date @ CHR ''/'' # region @ CHR ''/'' # service @ CHR ''/'' # ''aws4_request'') =
    Inr (ak, date, region, service)"
proof -
  have no: "CHR ''/'' \<notin> set ak" "CHR ''/'' \<notin> set date" "CHR ''/'' \<notin> set region" "CHR ''/'' \<notin> set service"
    using assms word_no(1) by blast+
  then have "split_on CHR ''/'' (ak @ CHR ''/'' # date @ CHR ''/'' # region @ CHR ''/'' # service @ CHR ''/'' # ''aws4_request'') =
      [ak, date, region, service, ''aws4_request'']"
    by (simp add: split_on_append)
  then show ?thesis using assms by (simp add: parse_credential_scope_def Let_def trim_word) (simp add: word_ok_def)
qed

lemma join_words_ends:
  assumes "ns \<noteq> []" and "\<forall>n \<in> set ns. word_ok n"
  shows "join_with CHR '';'' ns \<noteq> '''' \<and> \<not> is_space (hd (join_with CHR '';'' ns)) \<and> \<not> is_space (last (join_with CHR '';'' ns))"
  using assms
proof (induction ns)
  case (Cons n ns)
  then show ?case
  proof (cases "ns = []")
    case True
    with Cons.prems word_ends show ?thesis by (auto simp: word_ok_def)
  next
    case False
    with Cons word_ends [of n] show ?thesis by (auto simp: join_with_Cons word_ok_def hd_append)
  qed
qed simp

lemma parse_authorization_words:
  assumes w: "word_ok ak" "word_ok date" "word_ok region" "word_ok service" and n: "signable names" and s: "word_ok sig"
  shows "parse_authorization_header (authorization_value ak date region service names sig) =
    Inr \<lparr>apKey = ak, apDate = date, apRegion = region, apService = service, apSigned = names, apSignature = sig\<rparr>"
proof -
  let ?cred = "ak @ CHR ''/'' # date @ CHR ''/'' # region @ CHR ''/'' # service @ CHR ''/'' # ''aws4_request''"
  let ?sh = "join_with CHR '';'' names"
  have ns: "names \<noteq> []" "\<forall>n \<in> set names. word_ok n" using n by (auto simp: signable_def)
  have "CHR '','' \<notin> set ?sh" by (rule join_newline_free) (use ns(2) word_no(2) in \<open>blast, simp\<close>)
  then have comma: "CHR '','' \<notin> set (''Credential='' @ ?cred)" "CHR '','' \<notin> set ('' SignedHeaders='' @ ?sh)" "CHR '','' \<notin> set ('' Signature='' @ sig)"
    using w [THEN word_no(2)] s [THEN word_no(2)] by simp_all
  have "split_on CHR '','' ((''Credential='' @ ?cred) @ CHR '','' # ('' SignedHeaders='' @ ?sh) @ CHR '','' # ('' Signature='' @ sig)) =
      [''Credential='' @ ?cred, '' SignedHeaders='' @ ?sh, '' Signature='' @ sig]"
    by (simp only: split_on_append [OF comma(1)] split_on_append [OF comma(2)] split_on_no_sep [OF comma(3)])
  then have toks: "split_on CHR '','' (trim_prefix (authorization_value ak date region service names sig) ''AWS4-HMAC-SHA256 '') =
      [''Credential='' @ ?cred, '' SignedHeaders='' @ ?sh, '' Signature='' @ sig]"
    unfolding authorization_value_def trim_prefix_append by (simp only: append_assoc)
  note e = join_words_ends [OF ns]
  have t1: "trim_space (''Credential='' @ ?cred) = ''Credential='' @ ?cred"
    by (rule trim_space_id) (simp_all add: is_space_def)
  have t2: "trim_space ('' SignedHeaders='' @ ?sh) = ''SignedHeaders='' @ ?sh"
  proof -
    have "trim_space (''SignedHeaders='' @ ?sh) = ''SignedHeaders='' @ ?sh"
      by (rule trim_space_id) (use e in \<open>simp_all add: is_space_def\<close>)
    then show ?thesis by simp
  qed
  have t3: "trim_space ('' Signature='' @ sig) = ''Signature='' @ sig"
  proof -
    have "trim_space (''Signature='' @ sig) = ''Signature='' @ sig"
      by (rule trim_space_id) (use s word_ends [OF s] in \<open>auto simp: is_space_def word_ok_def\<close>)
    then show ?thesis by simp
  qed
  have f: "foldl auth_token ('''', '''', '''') [''Credential='' @ ?cred, '' SignedHeaders='' @ ?sh, '' Signature='' @ sig] = (?cred, ?sh, sig)"
    by (simp only: foldl.simps auth_token_def t1 t2 t3 Let_def prod.case) (simp add: trim_prefix_def)
  have low: "to_lower ?sh = ?sh"
  proof -
    have "to_lower (join_with d ns) = join_with d ns" if "\<forall>n \<in> set ns. to_lower n = n" "char_lower d = d" for d ns
      using that by (induction d ns rule: join_with.induct) (simp_all add: to_lower_def)
    then show ?thesis using n by (simp add: signable_def char_lower_def)
  qed
  have sp: "split_on CHR '';'' (to_lower (trim_space ?sh)) = names"
  proof -
    have "\<forall>n \<in> set names. CHR '';'' \<notin> set n" using ns(2) word_no(3) by blast
    from split_on_join [OF ns(1) this] show ?thesis using trim_space_id [of ?sh] e low by simp
  qed
  have hp: "has_prefix (authorization_value ak date region service names sig) ''AWS4-HMAC-SHA256 ''"
    unfolding authorization_value_def by (rule has_prefix_append)
  show ?thesis
    unfolding parse_authorization_header_def toks f Let_def
    using hp e s w by (simp add: parse_scope_words sp trim_word) (simp add: word_ok_def)
qed

lemma h_get_authorized:
  "h_get (with_authorization rq v) n = (if canonical_key n = ''Authorization'' then v else h_get rq n)"
  by (simp add: h_get_def with_authorization_def)

lemma canonical_keys:
  "canonical_key ''Authorization'' = ''Authorization''" "canonical_key ''X-Amz-Date'' = ''X-Amz-Date''"
  "canonical_key ''X-Amz-Content-Sha256'' = ''X-Amz-Content-Sha256''" "canonical_key ''Content-Length'' = ''Content-Length''"
  "canonical_key ''Content-Type'' = ''Content-Type''" "canonical_key ''Host'' = ''Host''"
  by code_simp+

lemma header_value_authorized: "canonical_key n \<noteq> ''Authorization'' \<Longrightarrow> header_value (with_authorization rq v) n = header_value rq n"
  by (simp add: header_value_def header_canonical_case_def h_get_authorized canonical_keys Let_def)
    (simp add: with_authorization_def)

lemma build_authorized:
  assumes "signable names"
  shows "build_canonical_request (with_authorization rq v) names p False = build_canonical_request rq names p False"
proof -
  have low: "remdups (map to_lower names) = remdups names"
    using assms by (simp add: signable_def map_idI)
  have "filter (\<lambda>n. header_value (with_authorization rq v) n \<noteq> '''') (remdups names) = filter (\<lambda>n. header_value rq n \<noteq> '''') (remdups names)"
    using assms by (intro filter_cong) (auto simp: signable_def header_value_authorized)
  moreover have "map (\<lambda>n. (to_lower n, trim_spaces (header_value (with_authorization rq v) n))) (filter (\<lambda>n. header_value rq n \<noteq> '''') (remdups names)) =
      map (\<lambda>n. (to_lower n, trim_spaces (header_value rq n))) (filter (\<lambda>n. header_value rq n \<noteq> '''') (remdups names))"
    using assms by (intro map_cong [OF refl]) (auto simp: signable_def header_value_authorized)
  ultimately have "signed_header_values (with_authorization rq v) names = signed_header_values rq names"
    unfolding signed_header_values_def low by (simp only:)
  moreover have "canonical_query_string (with_authorization rq v) False = canonical_query_string rq False"
    by (simp add: canonical_query_string_def q_values_def with_authorization_def)
  moreover have "arMethod (with_authorization rq v) = arMethod rq" "arEscapedPath (with_authorization rq v) = arEscapedPath rq"
    by (simp_all add: with_authorization_def)
  ultimately show ?thesis by (simp only: canonical_request_lines canonical_lines_def)
qed

lemma payload_authorized:
  "get_payload_hash rq = (Inr p, rq1) \<Longrightarrow> get_payload_hash (with_authorization rq v) = (Inr p, with_authorization rq1 v)"
proof -
  have e: "h_get (with_authorization rq v) ''X-Amz-Content-Sha256'' = h_get rq ''X-Amz-Content-Sha256''"
      "h_get (with_authorization rq v) ''Content-Length'' = h_get rq ''Content-Length''"
    by (simp_all add: h_get_authorized canonical_keys)
  have f: "arMethod (with_authorization rq v) = arMethod rq" "arBody (with_authorization rq v) = arBody rq"
      "(with_authorization rq v)\<lparr>arBody := b\<rparr> = with_authorization (rq\<lparr>arBody := b\<rparr>) v" for b
    by (simp_all add: with_authorization_def)
  have "get_payload_hash (with_authorization rq v) = (fst (get_payload_hash rq), with_authorization (snd (get_payload_hash rq)) v)"
    unfolding get_payload_hash_def Let_def e f by (simp split: option.split)
  then show "get_payload_hash rq = (Inr p, rq1) \<Longrightarrow> ?thesis" by simp
qed

lemma word_hex: "bs \<noteq> [] \<Longrightarrow> word_ok (hex_encode bs)"
proof -
  assume "bs \<noteq> []"
  then have "hex_encode bs \<noteq> ''''" by (cases bs) auto
  moreover have "\<not> is_space c \<and> c \<noteq> CHR '','' \<and> c \<noteq> CHR ''/'' \<and> c \<noteq> CHR '';''" if "is_alnum c" for c
    using that by (auto simp: is_space_def is_alnum_def)
  ultimately show ?thesis using hex_alnum by (simp add: word_ok_def)
qed

lemma word_signature: "word_ok (expected_signature secret amzDate date region service cr)"
proof -
  have "hmac_sha256 k m \<noteq> []" for k m by (metis length_hmac_sha256 list.size(3) zero_neq_numeral)
  then show ?thesis by (simp add: expected_signature_def word_hex)
qed

lemma verify_authorized:
  assumes scope: "word_ok ak" "word_ok date" "word_ok region" "word_ok service" and names: "signable names" and sig: "word_ok sig"
    and mode: "q_get rq ''X-Amz-Algorithm'' = ''''"
    and payload: "get_payload_hash rq = (Inr p, rq1)" and cr: "build_canonical_request rq names p False = Inr cr"
    and time: "parse_amz_date (h_get rq ''X-Amz-Date'') = Some ts" "\<bar>now - ts\<bar> \<le> maxClockSkew"
  shows "fst (verify_request lookup now (with_authorization rq (authorization_value ak date region service names sig))) =
    (case lookup ak of
       None \<Rightarrow> Inl ErrAuthInvalid
     | Some (secret, user) \<Rightarrow>
         if to_lower sig = expected_signature secret (h_get rq ''X-Amz-Date'') date region service cr then Inr () else Inl ErrAuthInvalid)"
proof -
  let ?v = "authorization_value ak date region service names sig"
  let ?rq = "with_authorization rq ?v"
  have auth: "h_get ?rq ''Authorization'' = ?v" and dt: "h_get ?rq ''X-Amz-Date'' = h_get rq ''X-Amz-Date''"
    by (simp_all add: h_get_authorized canonical_keys)
  have v: "?v \<noteq> ''''" "has_prefix ?v ''AWS4-HMAC-SHA256 ''"
    unfolding authorization_value_def by (simp, rule has_prefix_append)
  have date: "h_get rq ''X-Amz-Date'' \<noteq> ''''" using time(1) by (auto simp: parse_amz_date_def parse_fixed_def)
  have fresh: "validate_timestamp (h_get rq ''X-Amz-Date'') 0 now = Inr ()"
    using time by (auto simp: validate_timestamp_def abs_le_iff)
  have b1: "build_canonical_request rq1 names p False = Inr cr"
    using cr payload_hash_request [OF payload] by auto
  have q: "q_get ?rq ''X-Amz-Algorithm'' = ''''" using mode by (simp add: q_get_def with_authorization_def)
  show ?thesis
    unfolding verify_request_def q if_not_P [OF notI [OF notE [OF _ refl]]] verify_header_def Let_def auth dt
    using v date
    by (simp add: parse_authorization_words [OF scope names sig] fresh payload_authorized [OF payload] verify_signature_def
        build_authorized [OF names] b1 split: option.split)
qed

text \<open>
  C8. Signing and verifying agree. Take a request, header names at least one of which it has,
  a credential scope whose key the store knows, a payload hash the verifier derives, and a
  current X-Amz-Date; add an Authorization header of the protocol's form with any signature. The
  verifier then accepts exactly the signature computed from the secret and the canonical
  request, in either letter case, so what a client signs is accepted, and answers every other
  signature with the invalid-authorization error; a key the store does not know is refused.
\<close>

theorem sigv4_sign_verify:
  assumes scope: "word_ok ak" "word_ok date" "word_ok region" "word_ok service" and names: "signable names" and sig: "word_ok sig"
    and mode: "q_get rq ''X-Amz-Algorithm'' = ''''"
    and payload: "get_payload_hash rq = (Inr p, rq1)" and cr: "build_canonical_request rq names p False = Inr cr"
    and time: "parse_amz_date (h_get rq ''X-Amz-Date'') = Some ts" "\<bar>now - ts\<bar> \<le> maxClockSkew"
  shows "fst (verify_request lookup now (with_authorization rq (authorization_value ak date region service names sig))) =
    (case lookup ak of
       None \<Rightarrow> Inl ErrAuthInvalid
     | Some (secret, user) \<Rightarrow>
         if to_lower sig = expected_signature secret (h_get rq ''X-Amz-Date'') date region service cr then Inr () else Inl ErrAuthInvalid)"
  using assms by (rule verify_authorized)

text \<open>A signed request and its verification time.\<close>

definition ex_auth_request :: auth_request where
  "ex_auth_request = \<lparr>arMethod = ''GET'', arEscapedPath = ''/bkt/k'', arQuery = [(''list-type'', ''2'')], arOrder = id,
     arHeader = [(''X-Amz-Date'', ''20250101T120500Z'')], arHost = ''s3.local'', arBody = None\<rparr>"

definition ex_creds :: static_store where
  "ex_creds = new_static_store [\<lparr>akAccess = ''AK'', akSecret = ''SK'', akUser = ''u''\<rparr>]"

definition ex_canonical :: string where
  "ex_canonical = projr (build_canonical_request ex_auth_request [''host'', ''x-amz-date''] ''UNSIGNED-PAYLOAD'' False)"

definition ex_signature :: string where
  "ex_signature = expected_signature ''SK'' ''20250101T120500Z'' ''20250101'' ''r'' ''s3'' ex_canonical"

definition ex_signed_request :: auth_request where
  "ex_signed_request = with_authorization ex_auth_request
     (authorization_value ''AK'' ''20250101'' ''r'' ''s3'' [''host'', ''x-amz-date''] ex_signature)"

lemma ex_payload: "get_payload_hash ex_auth_request = (Inr ''UNSIGNED-PAYLOAD'', ex_auth_request)"
proof -
  have "h_get ex_auth_request ''X-Amz-Content-Sha256'' = ''''" "arMethod ex_auth_request = ''GET''" by code_simp+
  then show ?thesis by (simp add: get_payload_hash_def)
qed

lemma ex_auth_facts:
  "word_ok ''AK''" "word_ok ''20250101''" "word_ok ''r''" "word_ok ''s3''" "signable [''host'', ''x-amz-date'']"
  "q_get ex_auth_request ''X-Amz-Algorithm'' = ''''"
  "h_get ex_auth_request ''X-Amz-Date'' = ''20250101T120500Z''"
  "parse_amz_date ''20250101T120500Z'' = Some 1735733100000000000"
  "store_lookup ex_creds ''AK'' = Some (''SK'', ''u'')" "store_lookup ex_creds ''XX'' = None"
  by code_simp+

lemma ex_canonical_built: "build_canonical_request ex_auth_request [''host'', ''x-amz-date''] ''UNSIGNED-PAYLOAD'' False = Inr ex_canonical"
proof -
  have "signed_header_values ex_auth_request [''host'', ''x-amz-date''] \<noteq> []" by code_simp
  then show ?thesis by (simp add: ex_canonical_def canonical_request_lines)
qed

lemma ex_signature_lower: "to_lower ex_signature = ex_signature"
  by (simp add: ex_signature_def expected_signature_def)

theorem sigv4_sign_verify_witness:
  "fst (verify_request (store_lookup ex_creds) 1735733160000000000 ex_signed_request) = Inr ()"
proof -
  have t: "\<bar>1735733160000000000 - 1735733100000000000\<bar> \<le> maxClockSkew" by (simp add: maxClockSkew_def second_def)
  have w: "word_ok ex_signature" unfolding ex_signature_def by (rule word_signature)
  note f = ex_auth_facts
  have "parse_amz_date (h_get ex_auth_request ''X-Amz-Date'') = Some 1735733100000000000" by (simp only: f)
  from sigv4_sign_verify [OF f(1-5) w f(6) ex_payload ex_canonical_built this t, of "store_lookup ex_creds"]
  show ?thesis
    unfolding ex_signed_request_def by (simp only: f option.case prod.case ex_signature_lower) (simp add: ex_signature_def)
qed


definition ex_auth_request2 :: auth_request where
  "ex_auth_request2 = ex_auth_request\<lparr>arHeader := [(''X-Amz-Date'', ''20250101T120500Z''), (''User-Agent'', ''x'')]\<rparr>"

definition ex_signed_request2 :: auth_request where
  "ex_signed_request2 = with_authorization ex_auth_request2
     (authorization_value ''AK'' ''20250101'' ''r'' ''s3'' [''host'', ''x-amz-date''] ex_signature)"

lemma ex_auth_facts2:
  "q_get ex_auth_request2 ''X-Amz-Algorithm'' = ''''" "h_get ex_auth_request2 ''X-Amz-Date'' = ''20250101T120500Z''"
  "h_get ex_auth_request2 ''X-Amz-Content-Sha256'' = ''''" "arMethod ex_auth_request2 = ''GET''"
  by code_simp+

lemma ex_payload2: "get_payload_hash ex_auth_request2 = (Inr ''UNSIGNED-PAYLOAD'', ex_auth_request2)"
  using ex_auth_facts2 by (simp add: get_payload_hash_def)

lemma ex_canonical_built2: "build_canonical_request ex_auth_request2 [''host'', ''x-amz-date''] ''UNSIGNED-PAYLOAD'' False = Inr ex_canonical"
proof -
  have "build_canonical_request ex_auth_request2 [''host'', ''x-amz-date''] ''UNSIGNED-PAYLOAD'' False =
       build_canonical_request ex_auth_request [''host'', ''x-amz-date''] ''UNSIGNED-PAYLOAD'' False"
    by code_simp
  then show ?thesis by (simp only: ex_canonical_built)
qed

lemma ex_accepted:
  "fst (verify_request (store_lookup ex_creds) 1735733160000000000 ex_signed_request) = Inr ()"
  "fst (verify_request (store_lookup ex_creds) 1735733220000000000 ex_signed_request2) = Inr ()"
proof -
  note f = ex_auth_facts
  have w: "word_ok ex_signature" unfolding ex_signature_def by (rule word_signature)
  have t: "\<bar>1735733160000000000 - 1735733100000000000\<bar> \<le> maxClockSkew" "\<bar>1735733220000000000 - 1735733100000000000\<bar> \<le> maxClockSkew"
    by (simp_all add: maxClockSkew_def second_def)
  have d: "parse_amz_date (h_get ex_auth_request ''X-Amz-Date'') = Some 1735733100000000000" by (simp only: f)
  show "fst (verify_request (store_lookup ex_creds) 1735733160000000000 ex_signed_request) = Inr ()"
    using verify_authorized [OF f(1-5) w f(6) ex_payload ex_canonical_built d t(1), of "store_lookup ex_creds"]
    unfolding ex_signed_request_def by (simp only: f option.case prod.case ex_signature_lower) (simp add: ex_signature_def)
  note g = ex_auth_facts2
  note p = ex_payload2
  have d2: "parse_amz_date (h_get ex_auth_request2 ''X-Amz-Date'') = Some 1735733100000000000" by (simp only: f g)
  show "fst (verify_request (store_lookup ex_creds) 1735733220000000000 ex_signed_request2) = Inr ()"
    using verify_authorized [OF f(1-5) w g(1) p ex_canonical_built2 d2 t(2), of "store_lookup ex_creds"]
    unfolding ex_signed_request2_def by (simp only: f g option.case prod.case ex_signature_lower) (simp add: ex_signature_def)
qed



text \<open>
  C37. Acceptance is bounded in time and tied to a known key: whenever verification accepts a
  request, the credential names a key of the store, X-Amz-Date parses, and the clock is within
  15 minutes of it for a header-signed request; for a presigned one it lies between 15 minutes
  before it and 15 minutes after its expiry, which is at most seven days after it. Verification
  changes nothing of the request but the reader of the body, which still delivers its bytes.
\<close>

theorem sigv4_fresh:
  assumes "verify_request lookup now rq = (Inr (), rq')"
  shows "\<exists>ak secret user ts. lookup ak = Some (secret, user) \<and> ts - maxClockSkew \<le> now \<and>
    (if q_get rq ''X-Amz-Algorithm'' = ''''
     then parse_amz_date (h_get rq ''X-Amz-Date'') = Some ts \<and> now \<le> ts + maxClockSkew
     else parse_amz_date (q_get rq ''X-Amz-Date'') = Some ts \<and>
       (\<exists>expires. parse_int (q_get rq ''X-Amz-Expires'') = Some expires \<and> expires * second \<le> maxPresignTTL \<and>
          now \<le> ts + max 0 expires * second + maxClockSkew)) \<and>
    now \<le> ts + maxPresignTTL + maxClockSkew \<and>
    rq' = rq\<lparr>arBody := arBody rq'\<rparr> \<and> map_option rd_data (arBody rq') = map_option rd_data (arBody rq)"
proof (cases "q_get rq ''X-Amz-Algorithm'' = ''''")
  case True
  with assms have v: "verify_header lookup now rq = (Inr (), rq')" by (simp add: verify_request_def)
  obtain ap :: auth_parts and secret user ts p where a: "lookup (apKey ap) = Some (secret, user)"
      "parse_amz_date (h_get rq ''X-Amz-Date'') = Some ts" "ts - maxClockSkew \<le> now" "now \<le> ts + maxClockSkew"
      "get_payload_hash rq = (Inr p, rq')"
    by (rule accepted_header [OF v]) blast
  have same: "rq' = rq\<lparr>arBody := arBody rq'\<rparr> \<and> map_option rd_data (arBody rq') = map_option rd_data (arBody rq)"
    using payload_hash_request [OF a(5)] by (auto simp: bytes_reader_def)
  have w: "now \<le> ts + maxPresignTTL + maxClockSkew" using a(4) by (simp add: maxPresignTTL_def second_def)
  show ?thesis unfolding if_P [OF True] using a(1-4) w same by blast
next
  case False
  with assms have v: "verify_presigned lookup now rq = Inr ()" "rq' = rq" by (auto simp: verify_request_def)
  from v(1) obtain ak date region service where cs: "parse_credential_scope (q_get rq ''X-Amz-Credential'') = Inr (ak, date, region, service)"
    by (cases "parse_credential_scope (q_get rq ''X-Amz-Credential'')") (auto simp: verify_presigned_def split: if_split_asm)
  from v(1) cs obtain secret user where lk: "lookup ak = Some (secret, user)"
    by (cases "lookup ak") (auto simp: verify_presigned_def split: if_split_asm)
  have "parse_int (q_get rq ''X-Amz-Expires'') \<noteq> None"
  proof
    assume "parse_int (q_get rq ''X-Amz-Expires'') = None"
    with v(1) cs lk show False by (simp add: verify_presigned_def Let_def split: if_split_asm)
  qed
  then obtain expires where ex: "parse_int (q_get rq ''X-Amz-Expires'') = Some expires" by blast
  have "is_ok (validate_timestamp (q_get rq ''X-Amz-Date'') expires now)"
  proof (rule ccontr)
    assume "\<not> is_ok (validate_timestamp (q_get rq ''X-Amz-Date'') expires now)"
    then obtain e where "validate_timestamp (q_get rq ''X-Amz-Date'') expires now = Inl e" by (auto simp: not_is_ok_iff)
    with v(1) cs lk ex show False by (simp add: verify_presigned_def Let_def split: if_split_asm)
  qed
  then have "validate_timestamp (q_get rq ''X-Amz-Date'') expires now = Inr ()" by (auto simp: is_ok_iff)
  then obtain ts where ts: "parse_amz_date (q_get rq ''X-Amz-Date'') = Some ts" "ts - maxClockSkew \<le> now"
      "expires * second \<le> maxPresignTTL" "now \<le> ts + max 0 expires * second + maxClockSkew"
    by (auto simp: validate_timestamp_def Let_def max_def maxPresignTTL_def second_def split: option.splits if_splits)
  moreover from ts(3,4) have "now \<le> ts + maxPresignTTL + maxClockSkew"
    by (auto simp: max_def maxPresignTTL_def second_def split: if_splits)
  ultimately show ?thesis using False lk ex v(2)
    by (intro exI [of _ ak] exI [of _ secret] exI [of _ user] exI [of _ ts]) simp
qed

theorem sigv4_fresh_witness:
  "\<exists>ts. parse_amz_date (h_get ex_signed_request ''X-Amz-Date'') = Some ts \<and> 1735733160000000000 \<le> ts + maxClockSkew"
proof -
  obtain r where acc: "verify_request (store_lookup ex_creds) 1735733160000000000 ex_signed_request = (Inr (), r)"
    using ex_accepted by (metis prod.collapse)
  have "q_get ex_signed_request ''X-Amz-Algorithm'' = ''''"
    by (simp add: q_get_def ex_signed_request_def with_authorization_def ex_auth_request_def)
  with sigv4_fresh [OF acc] show ?thesis by auto
qed

end
