(* ===== verification/MultipartGC.thy ===== *)
theory MultipartGC imports S3Api
begin

text \<open>
  Garbage collection of stale multipart uploads (src/pkg/admin/gc.go): a pass over the uploads
  of the memory store, the page loop that lists and deletes the staged parts of a stale upload,
  the admin handler and the background loop. The page loop ends only when the
  object store says so, so it is a partial function; what it needs of the object store to end,
  and what a pass then does, is proved from the laws of a locale.
\<close>

subsection \<open>A pass\<close>

definition StagingBucket :: string where "StagingBucket = ''.multipart''"

record gc_stats =
  gcScanned :: nat
  gcAborted :: nat
  gcDeleted :: nat

text \<open>\<open>Time.Sub\<close> saturates at the bounds of a 64-bit duration.\<close>

definition sub_time :: "int \<Rightarrow> int \<Rightarrow> int" where
  "sub_time a b = max (- (2 ^ 63)) (min (2 ^ 63 - 1) (a - b))"

definition gc_prefix :: "multipart_upload \<Rightarrow> string" where
  "gc_prefix up = muBucket up @ ''/'' @ muKey up @ ''/'' @ muUploadID up @ ''/''"

text \<open>Deleting the entries of a page: the last key seen and the number of deleted entries.\<close>

fun gc_delete :: "'w objs \<Rightarrow> object_meta list \<Rightarrow> string \<Rightarrow> nat \<Rightarrow> 'w \<Rightarrow> string \<times> nat \<times> 'w" where
  "gc_delete ob [] startAfter deleted w = (startAfter, deleted, w)"
| "gc_delete ob (o1 # os) startAfter deleted w =
     (case obDelete ob StagingBucket (omKey o1) w of
        (Inr _, w1) \<Rightarrow> gc_delete ob os (omKey o1) (Suc deleted) w1
      | (Inl _, w1) \<Rightarrow> gc_delete ob os (omKey o1) deleted w1)"

definition page_args :: "string \<Rightarrow> string \<Rightarrow> list_args" where
  "page_args pfx startAfter = \<lparr>laPrefix = pfx, laStartAfter = startAfter, laDelimiter = ''''\<rparr>"

partial_function (option) gc_pages :: "'w objs \<Rightarrow> string \<Rightarrow> string \<Rightarrow> nat \<Rightarrow> 'w \<Rightarrow> (nat \<times> 'w) option" where
  "gc_pages ob pfx startAfter deleted w =
     (case obList ob StagingBucket (page_args pfx startAfter) 1000 w of
        (Inl e, w1) \<Rightarrow> Some (deleted, w1)
      | (Inr (objsList, _, truncated), w1) \<Rightarrow>
          if objsList = [] \<and> \<not> truncated then Some (deleted, w1)
          else
            (case gc_delete ob objsList startAfter deleted w1 of
               (startAfter1, deleted1, w2) \<Rightarrow>
                 if \<not> truncated then Some (deleted1, w2)
                 else gc_pages ob pfx startAfter1 deleted1 w2))"

fun gc_uploads :: "'w objs \<Rightarrow> int \<Rightarrow> int \<Rightarrow> multipart_upload list \<Rightarrow> gc_stats \<Rightarrow> 'w s3_state \<Rightarrow> (gc_stats \<times> 'w s3_state) option" where
  "gc_uploads ob now olderThan [] res st = Some (res, st)"
| "gc_uploads ob now olderThan (up # ups) res st =
     (let res1 = res\<lparr>gcScanned := Suc (gcScanned res)\<rparr> in
      if sub_time now (muInitiated up) < olderThan then gc_uploads ob now olderThan ups res1 st
      else
        (case gc_pages ob (gc_prefix up) '''' (gcDeleted res1) (s3Objs st) of
           None \<Rightarrow> None
         | Some (deleted, w1) \<Rightarrow>
             (case abort_upload (muUploadID up) (s3Meta st) of
                (Inr _, m1) \<Rightarrow>
                  gc_uploads ob now olderThan ups (res1\<lparr>gcDeleted := deleted, gcAborted := Suc (gcAborted res1)\<rparr>) \<lparr>s3Meta = m1, s3Objs = w1\<rparr>
              | (Inl _, m1) \<Rightarrow>
                  gc_uploads ob now olderThan ups (res1\<lparr>gcDeleted := deleted\<rparr>) \<lparr>s3Meta = m1, s3Objs = w1\<rparr>)))"

definition run_multipart_gc :: "'w objs \<Rightarrow> int \<Rightarrow> int \<Rightarrow> 'w s3_state \<Rightarrow> (gc_stats \<times> 'w s3_state) option" where
  "run_multipart_gc ob now olderThan st =
     gc_uploads ob now olderThan (list_uploads '''' (s3Meta st)) \<lparr>gcScanned = 0, gcAborted = 0, gcDeleted = 0\<rparr> st"

text \<open>The age an admin request asks for; \<open>parse_duration\<close> is \<open>time.ParseDuration\<close>.\<close>

definition hour :: int where "hour = 3600 * 1000000000"

definition gc_older_than :: "(string \<Rightarrow> int option) \<Rightarrow> string \<Rightarrow> int" where
  "gc_older_than parse_duration qs =
     (if qs \<noteq> '''' then (case parse_duration qs of Some d \<Rightarrow> if d > 0 then d else 24 * hour | None \<Rightarrow> 24 * hour)
      else 24 * hour)"

text \<open>The defaults of \<open>StartMultipartGC\<close>: the interval of its ticker and the age.\<close>

definition gc_schedule :: "int \<Rightarrow> int \<Rightarrow> int \<times> int" where
  "gc_schedule interval olderThan =
     (if interval \<le> 0 then 15 * 60 * 1000000000 else interval, if olderThan \<le> 0 then 24 * hour else olderThan)"

text \<open>The background loop, of main and of \<open>StartMultipartGC\<close>: a pass at each tick, until it is cancelled.\<close>

datatype gc_event = GcTick int | GcStop

fun gc_loop :: "'w objs \<Rightarrow> int \<Rightarrow> gc_event list \<Rightarrow> 'w s3_state \<Rightarrow> 'w s3_state option" where
  "gc_loop ob olderThan [] st = Some st"
| "gc_loop ob olderThan (GcStop # es) st = Some st"
| "gc_loop ob olderThan (GcTick now # es) st =
     (case run_multipart_gc ob now olderThan st of
        None \<Rightarrow> None
      | Some (_, st1) \<Rightarrow> gc_loop ob olderThan es st1)"

definition start_multipart_gc ::
    "'w objs \<Rightarrow> int \<Rightarrow> int \<Rightarrow> gc_event list \<Rightarrow> 'w s3_state \<Rightarrow> int \<times> 'w s3_state option" where
  "start_multipart_gc ob interval olderThan es st =
     (case gc_schedule interval olderThan of (every, age) \<Rightarrow> (every, gc_loop ob age es st))"

subsection \<open>What a pass needs of the object store\<close>

text \<open>
  The staged entries are the \<open>listable\<close> keys with content at their place. A page is sorted, has
  no entry twice and only staged entries the filters admit, and is not empty when it is cut
  short; deleting an entry removes its content or nothing.
\<close>

locale gc_store =
  fixes inv :: "'w \<Rightarrow> bool"
    and listable :: "string \<Rightarrow> bool"
    and place :: "string \<Rightarrow> 'i"
    and content :: "'w \<Rightarrow> 'i \<Rightarrow> byte list option"
    and ob :: "'w objs"
  assumes place_inj: "inv w \<Longrightarrow> listable k \<Longrightarrow> listable k' \<Longrightarrow> place k = place k' \<Longrightarrow> k = k'"
    and named: "listable k \<Longrightarrow> k \<noteq> ''''"
    and finite_law: "inv w \<Longrightarrow> finite {k. listable k \<and> content w (place k) \<noteq> None}"
    and list_law: "inv w \<Longrightarrow> obList ob StagingBucket a n w = (r, w') \<Longrightarrow> inv w' \<and> content w' = content w"
    and page_law: "inv w \<Longrightarrow> laDelimiter a = '''' \<Longrightarrow> 1 < n \<Longrightarrow>
      obList ob StagingBucket a n w = (Inr (os, ps, t), w') \<Longrightarrow>
      sorted (map omKey os) \<and> distinct (map omKey os) \<and> (t \<longrightarrow> os \<noteq> []) \<and>
      (\<forall>k \<in> set (map omKey os). listable k \<and> content w (place k) \<noteq> None \<and> matches_prefix a k \<and> after_start a k)"
    and delete_law: "inv w \<Longrightarrow> listable k \<Longrightarrow> content w (place k) \<noteq> None \<Longrightarrow> obDelete ob StagingBucket k w = (dres, w') \<Longrightarrow>
      inv w' \<and> content w' = (if is_ok dres then (content w)(place k := None) else content w)"
begin

definition keys :: "'w \<Rightarrow> string set" where
  "keys w = {k. listable k \<and> content w (place k) \<noteq> None}"

definition rest :: "string \<Rightarrow> 'w \<Rightarrow> string set" where
  "rest sa w = {k \<in> keys w. sa = '''' \<or> sa < k}"

text \<open>Content without the entries of a set of keys; entries gone that satisfy \<open>P\<close>.\<close>

definition erased :: "string set \<Rightarrow> 'w \<Rightarrow> 'i \<Rightarrow> byte list option" where
  "erased K w = (\<lambda>i. if i \<in> place ` K then None else content w i)"

definition gone :: "(string \<Rightarrow> bool) \<Rightarrow> 'w \<Rightarrow> 'w \<Rightarrow> bool" where
  "gone P w w' \<longleftrightarrow> (\<exists>K \<subseteq> {k \<in> keys w. P k}. content w' = erased K w)"

lemma erased_empty [simp]: "erased {} w = content w"
  by (simp add: erased_def)

lemma erased_erased: "content w1 = erased K w \<Longrightarrow> erased L w1 = erased (K \<union> L) w"
  by (auto simp: erased_def fun_eq_iff)

lemma keys_subset: "content w1 = erased K w \<Longrightarrow> keys w1 \<subseteq> keys w"
  by (auto simp: keys_def erased_def split: if_splits)

lemma keys_erased:
  assumes "inv w" and "K \<subseteq> keys w" and "content w1 = erased K w"
  shows "keys w1 = keys w - K"
proof -
  have "place k \<in> place ` K \<longleftrightarrow> k \<in> K" if "listable k" for k
    using place_inj [OF assms(1) that] assms(2) by (auto simp: keys_def)
  then show ?thesis using assms(3) by (auto simp: keys_def erased_def)
qed

lemma goneI: "K \<subseteq> keys w \<Longrightarrow> \<forall>k \<in> K. P k \<Longrightarrow> content w' = erased K w \<Longrightarrow> gone P w w'"
  by (auto simp: gone_def)

lemma gone_refl: "content w' = content w \<Longrightarrow> gone P w w'"
  by (rule goneI [of "{}"]) simp_all

lemma gone_trans:
  assumes "gone P w w1" and "gone P w1 w2"
  shows "gone P w w2"
proof -
  obtain K where K: "K \<subseteq> keys w" "\<forall>k \<in> K. P k" "content w1 = erased K w" using assms(1) by (auto simp: gone_def)
  obtain L where L: "L \<subseteq> keys w1" "\<forall>k \<in> L. P k" "content w2 = erased L w1" using assms(2) by (auto simp: gone_def)
  show ?thesis
    by (rule goneI [of "K \<union> L"]) (use K L keys_subset [OF K(3)] erased_erased [OF K(3)] in auto)
qed

lemma gone_mono: "gone P w w' \<Longrightarrow> (\<And>k. P k \<Longrightarrow> Q k) \<Longrightarrow> gone Q w w'"
  by (auto simp: gone_def)

lemma gone_keys: "gone P w w' \<Longrightarrow> keys w' \<subseteq> keys w"
  using keys_subset by (auto simp: gone_def)

lemma finite_rest: "inv w \<Longrightarrow> finite (rest sa w)"
  using finite_law [of w] by (rule rev_finite_subset) (auto simp: rest_def keys_def)

lemma finite_keys: "inv w \<Longrightarrow> finite (keys w)"
  unfolding keys_def by (rule finite_law)

lemma keys_cong: "content w' = content w \<Longrightarrow> keys w' = keys w"
  by (simp add: keys_def)

lemma delete_entry:
  assumes "inv w" and "k \<in> keys w" and "obDelete ob StagingBucket k w = (d, w1)"
  shows "inv w1 \<and> content w1 = erased (if is_ok d then {k} else {}) w"
  using delete_law [OF assms(1) _ _ assms(3)] assms(2) by (auto simp: keys_def erased_def fun_eq_iff)

lemma gc_delete_effect:
  assumes "gc_delete ob os sa n w = (sa', n', w')" and "inv w" and "distinct (map omKey os)"
    and "omKey ` set os \<subseteq> keys w"
  shows "inv w' \<and> gone (\<lambda>k. k \<in> omKey ` set os) w w' \<and> sa' = (if os = [] then sa else omKey (List.last os))"
  using assms
proof (induction os arbitrary: sa n w)
  case Nil
  then show ?case by (simp add: gone_refl)
next
  case (Cons o1 os)
  obtain d w1 where d: "obDelete ob StagingBucket (omKey o1) w = (d, w1)" by fastforce
  have k: "omKey o1 \<in> keys w" using Cons.prems(4) by simp
  let ?K = "if is_ok d then {omKey o1} else {}"
  have K: "inv w1" "content w1 = erased ?K w" "?K \<subseteq> keys w" "?K \<subseteq> {omKey o1}"
    using delete_entry [OF Cons.prems(2) k d] k by auto
  have op: "gone (\<lambda>k. k \<in> omKey ` set (o1 # os)) w w1"
    by (rule goneI [of ?K]) (use K in auto)
  have "omKey o1 \<notin> omKey ` set os" "omKey ` set os \<subseteq> keys w" using Cons.prems(3,4) by simp_all
  then have "omKey ` set os \<subseteq> keys w - {omKey o1}" by (simp only: subset_Diff_insert simp_thms Diff_empty)
  then have "omKey ` set os \<subseteq> keys w1"
    unfolding keys_erased [OF Cons.prems(2) K(3,2)] using Diff_mono [OF subset_refl K(4)] by (rule subset_trans)
  moreover obtain n1 where "gc_delete ob os (omKey o1) n1 w1 = (sa', n', w')"
    using Cons.prems(1) d by (cases d) auto
  ultimately have IH: "inv w'" "gone (\<lambda>k. k \<in> omKey ` set os) w1 w'" "sa' = (if os = [] then omKey o1 else omKey (List.last os))"
    using Cons.IH K(1) Cons.prems(3) by auto
  have "gone (\<lambda>k. k \<in> omKey ` set (o1 # os)) w w'"
    by (rule gone_trans [OF op gone_mono [OF IH(2)]]) simp
  with IH show ?case by simp
qed

lemma last_key_max: "sorted (map omKey os) \<Longrightarrow> o1 \<in> set os \<Longrightarrow> omKey o1 \<le> omKey (List.last os)"
  by (induction os) (auto split: if_splits)

text \<open>The entries of a page of the loop.\<close>

lemma page_entries:
  assumes inv: "inv w" and page: "obList ob StagingBucket (page_args pfx sa) 1000 w = (Inr (os, ps, t), w1)" and pfx: "pfx \<noteq> ''''"
  shows "sorted (map omKey os) \<and> distinct (map omKey os) \<and> (t \<longrightarrow> os \<noteq> []) \<and>
    omKey ` set os \<subseteq> {k \<in> rest sa w. has_prefix k pfx} \<and> inv w1 \<and> content w1 = content w \<and> keys w1 = keys w"
proof -
  have "laDelimiter (page_args pfx sa) = ''''" "(1::nat) < 1000" by (simp_all add: page_args_def)
  note pl = page_law [OF inv this page]
  have "matches_prefix (page_args pfx sa) k = has_prefix k pfx" "after_start (page_args pfx sa) k = (sa = '''' \<or> sa < k)" for k
    using pfx by (simp_all add: page_args_def matches_prefix_def after_start_def)
  with pl list_law [OF inv page] show ?thesis by (simp add: rest_def keys_def image_subset_iff)
qed

lemma rest_shrinks:
  assumes os: "omKey ` set os \<subseteq> rest sa w" "os \<noteq> []" and k: "keys w2 \<subseteq> keys w"
  shows "rest (omKey (List.last os)) w2 \<subset> rest sa w"
proof -
  let ?k = "omKey (List.last os)"
  have "List.last os \<in> set os" using os(2) by simp
  then have l: "?k \<in> rest sa w" using os(1) by blast
  then have ne: "?k \<noteq> ''''" using named by (auto simp: rest_def keys_def)
  have "rest ?k w2 \<subseteq> rest sa w" using l k ne by (auto simp: rest_def)
  moreover have "?k \<notin> rest ?k w2" using ne by (simp add: rest_def)
  ultimately show ?thesis using l by blast
qed

text \<open>The page loop ends, and touches only entries with its prefix.\<close>

lemma gc_pages_total:
  assumes "inv w" and pfx: "pfx \<noteq> ''''"
  shows "\<exists>n' w'. gc_pages ob pfx sa n w = Some (n', w') \<and> inv w' \<and> gone (\<lambda>k. has_prefix k pfx) w w'"
  using assms(1)
proof (induction "card (rest sa w)" arbitrary: sa n w rule: less_induct)
  case less
  obtain r w1 where ls: "obList ob StagingBucket (page_args pfx sa) 1000 w = (r, w1)" by fastforce
  note l = list_law [OF less.prems ls]
  show ?case
  proof (cases r)
    case (Inl e)
    with ls l show ?thesis by (simp add: gc_pages.simps [of ob pfx sa n w] gone_refl)
  next
    case (Inr x)
    obtain os ps t where x: "x = (os, ps, t)" by (cases x)
    note page = ls [unfolded Inr x]
    note pe = page_entries [OF less.prems page pfx]
    show ?thesis
    proof (cases "os = []")
      case True
      with page l pe show ?thesis by (simp add: gc_pages.simps [of ob pfx sa n w] gone_refl)
    next
      case False
      obtain sa' n1 w2 where del: "gc_delete ob os sa n w1 = (sa', n1, w2)" by (metis prod_cases3)
      have "omKey ` set os \<subseteq> keys w1" using pe by (auto simp: rest_def)
      with gc_delete_effect [OF del] pe have eff: "inv w2" "gone (\<lambda>k. k \<in> omKey ` set os) w1 w2" "sa' = omKey (List.last os)"
        using False by auto
      have g: "gone (\<lambda>k. has_prefix k pfx) w w2"
        by (rule gone_trans [OF gone_refl gone_mono [OF eff(2)]]) (use pe in auto)
      have "rest sa' w2 \<subset> rest sa w"
        unfolding eff(3) by (rule rest_shrinks) (use pe False gone_keys [OF g] in auto)
      then have "card (rest sa' w2) < card (rest sa w)"
        using psubset_card_mono [OF finite_rest [OF less.prems]] by blast
      from less.hyps [OF this eff(1)] obtain n' w' where
          rec: "gc_pages ob pfx sa' n1 w2 = Some (n', w')" "inv w'" "gone (\<lambda>k. has_prefix k pfx) w2 w'" by blast
      have "gc_pages ob pfx sa n w = (if \<not> t then Some (n1, w2) else gc_pages ob pfx sa' n1 w2)"
        using page del False by (simp add: gc_pages.simps [of ob pfx sa n w])
      then show ?thesis
        using rec g eff(1) gone_trans [OF g rec(3)] by (cases t) auto
    qed
  qed
qed

end

text \<open>The uploads of a pass, with what it does to both stores.\<close>

lemma abort_upload_map:
  "abort_upload uid m = (r, m') \<Longrightarrow>
     map_of (msUploads m') = (map_of (msUploads m))(uid := None) \<and> msBuckets m' = msBuckets m \<and>
     is_ok r = (map_of (msUploads m) uid \<noteq> None)"
  by (auto simp: abort_upload_def delete_conv' fun_eq_iff split: option.splits)

definition stale :: "int \<Rightarrow> int \<Rightarrow> multipart_upload \<Rightarrow> bool" where
  "stale now olderThan u \<longleftrightarrow> olderThan \<le> sub_time now (muInitiated u)"

lemma gc_prefix_ne: "gc_prefix u \<noteq> ''''"
  by (simp add: gc_prefix_def)

context gc_store begin

definition stale_key :: "int \<Rightarrow> int \<Rightarrow> multipart_upload list \<Rightarrow> string \<Rightarrow> bool" where
  "stale_key now olderThan ups k \<longleftrightarrow> (\<exists>u \<in> set ups. stale now olderThan u \<and> has_prefix k (gc_prefix u))"

lemma gc_uploads_total:
  assumes "inv (s3Objs st)" and "distinct (map muUploadID ups)"
    and "\<forall>u \<in> set ups. map_of (msUploads (s3Meta st)) (muUploadID u) = Some u"
  shows "\<exists>res' st'. gc_uploads ob now olderThan ups res st = Some (res', st') \<and> inv (s3Objs st') \<and>
    gcScanned res' = gcScanned res + length ups \<and>
    gcAborted res' = gcAborted res + length (filter (stale now olderThan) ups) \<and>
    msBuckets (s3Meta st') = msBuckets (s3Meta st) \<and>
    (\<forall>uid. map_of (msUploads (s3Meta st')) uid =
       (if \<exists>u \<in> set ups. stale now olderThan u \<and> muUploadID u = uid then None else map_of (msUploads (s3Meta st)) uid)) \<and>
    gone (stale_key now olderThan ups) (s3Objs st) (s3Objs st')"
  using assms
proof (induction ups arbitrary: res st)
  case Nil
  then show ?case by (simp add: gone_refl)
next
  case (Cons u ups)
  let ?res = "res\<lparr>gcScanned := Suc (gcScanned res)\<rparr>"
  show ?case
  proof (cases "stale now olderThan u")
    case False
    then have "gc_uploads ob now olderThan (u # ups) res st = gc_uploads ob now olderThan ups ?res st"
      by (simp add: stale_def)
    moreover have "gone (stale_key now olderThan ups) (s3Objs st) w' \<Longrightarrow> gone (stale_key now olderThan (u # ups)) (s3Objs st) w'" for w'
      by (erule gone_mono) (auto simp: stale_key_def)
    ultimately show ?thesis using Cons.IH [of st ?res] Cons.prems False by auto
  next
    case True
    obtain n w1 where pg: "gc_pages ob (gc_prefix u) '''' (gcDeleted ?res) (s3Objs st) = Some (n, w1)" "inv w1"
        "gone (\<lambda>k. has_prefix k (gc_prefix u)) (s3Objs st) w1"
      using gc_pages_total [OF Cons.prems(1) gc_prefix_ne] by blast
    obtain r m1 where ab: "abort_upload (muUploadID u) (s3Meta st) = (r, m1)" by fastforce
    note am = abort_upload_map [OF ab]
    have "is_ok r" using am Cons.prems(3) by simp
    then obtain x where r: "r = Inr x" by (cases r) auto
    define st1 where "st1 = \<lparr>s3Meta = m1, s3Objs = w1\<rparr>"
    let ?res1 = "?res\<lparr>gcDeleted := n, gcAborted := Suc (gcAborted ?res)\<rparr>"
    have step: "gc_uploads ob now olderThan (u # ups) res st = gc_uploads ob now olderThan ups ?res1 st1"
      using True pg(1) ab r by (simp add: stale_def Let_def st1_def)
    have st1: "s3Meta st1 = m1" "s3Objs st1 = w1" by (simp_all add: st1_def)
    have others: "\<forall>v \<in> set ups. map_of (msUploads (s3Meta st1)) (muUploadID v) = Some v"
      using am Cons.prems(2,3) by (auto simp: image_iff st1)
    have d: "distinct (map muUploadID ups)" using Cons.prems(2) by simp
    obtain res' st' where rec: "gc_uploads ob now olderThan ups ?res1 st1 = Some (res', st')" "inv (s3Objs st')"
        "gcScanned res' = gcScanned ?res1 + length ups"
        "gcAborted res' = gcAborted ?res1 + length (filter (stale now olderThan) ups)"
        "msBuckets (s3Meta st') = msBuckets m1"
        "\<forall>uid. map_of (msUploads (s3Meta st')) uid =
          (if \<exists>v \<in> set ups. stale now olderThan v \<and> muUploadID v = uid then None else map_of (msUploads m1) uid)"
        "gone (stale_key now olderThan ups) w1 (s3Objs st')"
      using Cons.IH [of st1 ?res1, OF _ d others] pg(2) unfolding st1 by blast
    have g: "gone (stale_key now olderThan (u # ups)) (s3Objs st) w1"
      by (rule gone_mono [OF pg(3)]) (use True in \<open>simp add: stale_key_def\<close>)
    have "gone (stale_key now olderThan (u # ups)) (s3Objs st) (s3Objs st')"
      by (rule gone_trans [OF g gone_mono [OF rec(7)]]) (auto simp: stale_key_def)
    with rec am True show ?thesis unfolding step by auto
  qed
qed

end

subsection \<open>When no call fails\<close>

text \<open>
  On a \<open>calm\<close> store deleting succeeds, and listing too when there is an entry to list: a page
  either has it or is cut short before it. Then a pass leaves exactly the entries without a
  stale prefix.
\<close>

locale calm_gc_store = gc_store inv listable place content ob
    for inv :: "'w \<Rightarrow> bool" and listable :: "string \<Rightarrow> bool" and place :: "string \<Rightarrow> 'i"
      and content :: "'w \<Rightarrow> 'i \<Rightarrow> byte list option" and ob :: "'w objs" +
  fixes calm :: "'w \<Rightarrow> bool"
  assumes calm_list: "inv w \<Longrightarrow> calm w \<Longrightarrow> laDelimiter a = '''' \<Longrightarrow> obList ob StagingBucket a n w = (lres, w') \<Longrightarrow>
      calm w' \<and>
      (\<forall>k. listable k \<longrightarrow> content w (place k) \<noteq> None \<longrightarrow> matches_prefix a k \<longrightarrow> after_start a k \<longrightarrow>
         (\<exists>os ps t. lres = Inr (os, ps, t) \<and> (k \<in> omKey ` set os \<or> t \<and> (\<forall>o1 \<in> set os. omKey o1 < k))))"
    and calm_delete: "inv w \<Longrightarrow> calm w \<Longrightarrow> listable k \<Longrightarrow> content w (place k) \<noteq> None \<Longrightarrow>
      obDelete ob StagingBucket k w = (dres, w') \<Longrightarrow> calm w' \<and> is_ok dres"
begin

lemma gc_delete_calm:
  assumes "gc_delete ob os sa n w = (sa', n', w')" and "inv w" and "calm w" and "distinct (map omKey os)"
    and "omKey ` set os \<subseteq> keys w"
  shows "calm w' \<and> n' = n + length os \<and> content w' = erased (omKey ` set os) w"
  using assms
proof (induction os arbitrary: sa n w)
  case Nil
  then show ?case by simp
next
  case (Cons o1 os)
  obtain d w1 where d: "obDelete ob StagingBucket (omKey o1) w = (d, w1)" by fastforce
  have k: "omKey o1 \<in> keys w" using Cons.prems(5) by simp
  have ok: "calm w1" "is_ok d" using calm_delete [OF Cons.prems(2,3) _ _ d] k by (auto simp: keys_def)
  then have w1: "inv w1" "content w1 = erased {omKey o1} w" using delete_entry [OF Cons.prems(2) k d] by auto
  have "omKey o1 \<notin> omKey ` set os" "omKey ` set os \<subseteq> keys w" using Cons.prems(4,5) by simp_all
  then have "omKey ` set os \<subseteq> keys w - {omKey o1}" by (simp only: subset_Diff_insert simp_thms Diff_empty)
  then have sub: "omKey ` set os \<subseteq> keys w1" using keys_erased [OF Cons.prems(2) _ w1(2)] k by simp
  obtain x where "d = Inr x" using ok(2) by (cases d) auto
  with Cons.prems(1) d have rec: "gc_delete ob os (omKey o1) (Suc n) w1 = (sa', n', w')" by simp
  have "distinct (map omKey os)" using Cons.prems(4) by simp
  from Cons.IH [OF rec w1(1) ok(1) this sub] show ?case
    using erased_erased [OF w1(2), of "omKey ` set os"] by simp
qed

lemma gc_pages_exact:
  assumes "inv w" and "calm w" and pfx: "pfx \<noteq> ''''"
    and "gc_pages ob pfx sa n w = Some (n', w')"
  shows "calm w' \<and> content w' = erased {k \<in> rest sa w. has_prefix k pfx} w \<and>
    n' = n + card {k \<in> rest sa w. has_prefix k pfx}"
  using assms(1,2,4)
proof (induction "card (rest sa w)" arbitrary: sa n w rule: less_induct)
  case less
  let ?R = "{k \<in> rest sa w. has_prefix k pfx}"
  obtain r w1 where ls: "obList ob StagingBucket (page_args pfx sa) 1000 w = (r, w1)" by fastforce
  have "laDelimiter (page_args pfx sa) = ''''" by (simp add: page_args_def)
  note cl = calm_list [OF less.prems(1,2) this ls]
  have c1: "calm w1" using cl by blast
  have all0: "\<exists>os ps t. r = Inr (os, ps, t) \<and> (k \<in> omKey ` set os \<or> t \<and> (\<forall>o1 \<in> set os. omKey o1 < k))" if "k \<in> ?R" for k
    using cl that pfx by (auto simp: rest_def keys_def page_args_def matches_prefix_def after_start_def)
  show ?case
  proof (cases r)
    case (Inl e)
    then have R: "?R = {}" using all0 by fastforce
    have "w' = w1" "n' = n" using less.prems(3) ls Inl by (simp_all add: gc_pages.simps [of ob pfx sa n w])
    with c1 list_law [OF less.prems(1) ls] show ?thesis unfolding R by simp
  next
    case (Inr x)
    obtain os ps t where r: "r = Inr (os, ps, t)" using Inr by (cases x) auto
    have all: "k \<in> omKey ` set os \<or> t \<and> (\<forall>o1 \<in> set os. omKey o1 < k)" if "k \<in> ?R" for k
      using all0 [OF that] by (simp add: r)
    note page = ls [unfolded r]
    note pe = page_entries [OF less.prems(1) page pfx]
    have sub: "omKey ` set os \<subseteq> ?R" "omKey ` set os \<subseteq> keys w1" using pe by (auto simp: rest_def)
    obtain sa' n1 w2 where del: "gc_delete ob os sa n w1 = (sa', n1, w2)" by (metis prod_cases3)
    have i1: "inv w1" "distinct (map omKey os)" using pe by auto
    note dc = gc_delete_calm [OF del i1(1) c1 i1(2) sub(2)] and de = gc_delete_effect [OF del i1 sub(2)]
    have "content w1 = content w" using pe by blast
    then have "erased (omKey ` set os) w1 = erased (omKey ` set os) w" by (simp only: erased_def)
    with dc have w2: "content w2 = erased (omKey ` set os) w" "n1 = n + length os" "calm w2" by auto
    have len: "length os = card (omKey ` set os)" using distinct_card [OF i1(2)] by simp
    have step: "gc_pages ob pfx sa n w =
        (if os = [] \<and> \<not> t then Some (n, w1) else if \<not> t then Some (n1, w2) else gc_pages ob pfx sa' n1 w2)"
      using page del by (simp add: gc_pages.simps [of ob pfx sa n w])
    show ?thesis
    proof (cases t)
      case False
      then have R: "?R = omKey ` set os" using all sub(1) by blast
      show ?thesis
      proof (cases "os = []")
        case True
        then have "w' = w1" "n' = n" using step False less.prems(3) by auto
        with True pe c1 show ?thesis unfolding R by simp
      next
        case ne: False
        then have "w' = w2" "n' = n1" using step False less.prems(3) by auto
        then show ?thesis using w2 len unfolding R by simp
      qed
    next
      case True
      then have ne: "os \<noteq> []" using pe by simp
      have last: "sa' = omKey (List.last os)" "sa' \<in> omKey ` set os" using de ne by auto
      have "?R - omKey ` set os = {k \<in> rest sa' w2. has_prefix k pfx}"
      proof -
        have ksub: "omKey ` set os \<subseteq> keys w" using sub(1) by (auto simp: rest_def)
        have kw2: "keys w2 = keys w - omKey ` set os" using keys_erased [OF less.prems(1) ksub w2(1)] .
        have ne': "sa' \<noteq> ''''" using last(2) ksub named by (auto simp: keys_def)
        have sasub: "sa = '''' \<or> sa < sa'" using last(2) sub(1) by (auto simp: rest_def)
        have big: "sa' < k" if "k \<in> ?R" "k \<notin> omKey ` set os" for k
          using all [OF that(1)] that(2) last(2) by auto
        have "k \<in> ?R" if "k \<in> keys w" "sa' < k" "has_prefix k pfx" for k
          using that sasub by (auto simp: rest_def)
        with big kw2 ne' show ?thesis by (auto simp: rest_def)
      qed
      note R2 = this
      have fin: "finite ?R" using finite_rest [OF less.prems(1), of sa] by simp
      have "rest sa' w2 \<subset> rest sa w"
        unfolding last(1) by (rule rest_shrinks) (use sub ne keys_subset [OF w2(1)] in \<open>auto simp: rest_def\<close>)
      then have "card (rest sa' w2) < card (rest sa w)"
        using psubset_card_mono [OF finite_rest [OF less.prems(1)]] by blast
      moreover have "gc_pages ob pfx sa' n1 w2 = Some (n', w')" using step True less.prems(3) by simp
      ultimately have IH: "calm w'" "content w' = erased (?R - omKey ` set os) w2" "n' = n1 + card (?R - omKey ` set os)"
        using less.hyps [of sa' w2 n1] de w2(3) unfolding R2 by auto
      have "content w' = erased ?R w"
        using IH(2) erased_erased [OF w2(1), of "?R - omKey ` set os"] sub(1) by (simp add: Un_absorb1)
      moreover have "n' = n + card ?R"
        using IH(3) w2(2) len card_Diff_subset [OF finite_subset [OF sub(1) fin] sub(1)] card_mono [OF fin sub(1)] by simp
      ultimately show ?thesis using IH(1) by simp
    qed
  qed
qed

lemma gc_uploads_exact:
  assumes "inv (s3Objs st)" and "calm (s3Objs st)" and "gc_uploads ob now olderThan ups res st = Some (res', st')"
  shows "calm (s3Objs st') \<and> content (s3Objs st') = erased {k \<in> keys (s3Objs st). stale_key now olderThan ups k} (s3Objs st) \<and>
    gcDeleted res' = gcDeleted res + card {k \<in> keys (s3Objs st). stale_key now olderThan ups k}"
  using assms
proof (induction ups arbitrary: res st)
  case Nil
  then show ?case by (simp add: stale_key_def)
next
  case (Cons u ups)
  let ?res = "res\<lparr>gcScanned := Suc (gcScanned res)\<rparr>"
  show ?case
  proof (cases "stale now olderThan u")
    case False
    then have "gc_uploads ob now olderThan ups ?res st = Some (res', st')"
      using Cons.prems(3) by (simp add: stale_def)
    moreover have "stale_key now olderThan (u # ups) = stale_key now olderThan ups"
      using False by (auto simp: stale_key_def fun_eq_iff)
    ultimately show ?thesis using Cons.IH [OF Cons.prems(1,2)] by fastforce
  next
    case True
    let ?w = "s3Objs st"
    let ?A = "{k \<in> keys ?w. has_prefix k (gc_prefix u)}" and ?P = "stale_key now olderThan ups"
    obtain n w1 where pg: "gc_pages ob (gc_prefix u) '''' (gcDeleted ?res) ?w = Some (n, w1)" "inv w1"
      using gc_pages_total [OF Cons.prems(1) gc_prefix_ne] by blast
    have "rest '''' ?w = keys ?w" by (simp add: rest_def)
    with gc_pages_exact [OF Cons.prems(1,2) gc_prefix_ne pg(1)]
    have ex: "calm w1" "content w1 = erased ?A ?w" "n = gcDeleted res + card ?A" by auto
    obtain m1 res1 where rec: "gc_uploads ob now olderThan ups res1 \<lparr>s3Meta = m1, s3Objs = w1\<rparr> = Some (res', st')" "gcDeleted res1 = n"
      using Cons.prems(3) True pg(1) by (auto simp: stale_def Let_def split: prod.splits sum.splits)
    have k1: "keys w1 = keys ?w - ?A" by (rule keys_erased [OF Cons.prems(1)]) (use ex in auto)
    let ?B = "{k \<in> keys w1. ?P k}" and ?C = "{k \<in> keys ?w. stale_key now olderThan (u # ups) k}"
    have C: "?C = ?A \<union> ?B" "?A \<inter> ?B = {}" using True k1 by (auto simp: stale_key_def)
    have fin: "finite ?A" "finite ?B"
      using finite_keys [OF Cons.prems(1)] finite_keys [OF pg(2)] by simp_all
    from Cons.IH [OF _ _ rec(1)] pg(2) ex(1)
    have IH: "calm (s3Objs st')" "content (s3Objs st') = erased ?B w1" "gcDeleted res' = n + card ?B"
      using rec(2) by simp_all
    show ?thesis
      using IH ex(3) erased_erased [OF ex(2), of ?B] card_Un_disjoint [OF fin C(2)] unfolding C(1) by simp
  qed
qed

end

end
