(* ===== verification/GcProps.thy ===== *)
theory GcProps imports MultipartGC ObjectStore
begin

text \<open>
  Garbage collection over \<open>LocalFS\<close>: the laws of \<open>MultipartGC\<close> hold for its listing and
  deletion on staged plain files, under any schedule of failing system calls and, with the
  stronger laws, when no call fails. The main step is that a walk visits every file at most
  once, so that a page has no key twice.
\<close>

subsection \<open>The entries of a walk\<close>

text \<open>Pending paths none of which is inside another.\<close>

definition separate :: "fpath list \<Rightarrow> bool" where
  "separate ps \<longleftrightarrow> sorted_wrt (\<lambda>p q. \<nexists>ys. q = p @ ys \<or> p = q @ ys) ps"

definition covers :: "fpath list \<Rightarrow> fpath \<Rightarrow> bool" where
  "covers ps q \<longleftrightarrow> (\<exists>p \<in> set ps. \<exists>ys. q = p @ ys)"

lemma covers_Cons: "covers (p # ps) q \<longleftrightarrow> (\<exists>ys. q = p @ ys) \<or> covers ps q"
  by (auto simp: covers_def)

lemma separate_disjoint: "separate (p # ps) \<Longrightarrow> covers ps q \<Longrightarrow> q \<noteq> p @ ys"
proof
  assume sep: "separate (p # ps)" and c: "covers ps q" and q: "q = p @ ys"
  obtain p' zs where p': "p' \<in> set ps" "q = p' @ zs" using c by (auto simp: covers_def)
  with q obtain us where "p = p' @ us \<or> p' = p @ us" by (auto simp: append_eq_append_conv2)
  with sep p'(1) show False by (auto simp: separate_def)
qed

lemma separate_enter:
  assumes "separate (p # ps)" and "distinct names"
  shows "separate (map (\<lambda>n. p @ [n]) names @ ps)"
proof -
  have "\<nexists>zs. q = (p @ [n]) @ zs \<or> p @ [n] = q @ zs" if "q \<in> set ps" for q n
  proof
    assume "\<exists>zs. q = (p @ [n]) @ zs \<or> p @ [n] = q @ zs"
    then obtain zs where "q = p @ n # zs \<or> p @ [n] = q @ zs" by auto
    then have "(\<exists>ys. q = p @ ys \<or> p = q @ ys)"
      by (cases zs rule: rev_cases) (auto simp: butlast_append dest: arg_cong [of _ _ butlast])
    then show False using assms(1) that by (auto simp: separate_def)
  qed
  moreover have "sorted_wrt (\<lambda>p q. \<nexists>ys. q = p @ ys \<or> p = q @ ys) (map (\<lambda>n. p @ [n]) names)"
    using assms(2) by (induction names) auto
  ultimately show ?thesis
    using assms(1) by (auto simp: separate_def sorted_wrt_append)
qed

lemma covers_enter: "covers (map (\<lambda>n. p @ [n]) names @ ps) q \<Longrightarrow> covers (p # ps) q"
  by (auto simp: covers_def)

definition entry :: "localfs \<Rightarrow> json_codec \<Rightarrow> string \<Rightarrow> list_args \<Rightarrow> nat \<Rightarrow> world \<Rightarrow> fpath \<Rightarrow> bool" where
  "entry l jc bucket a n w q \<longleftrightarrow>
     (let (k, isSealed) = file_key q (drop n q) in
      is_file (lookup w q) \<and> (q = [] \<or> last q \<noteq> ManifestFilename) \<and> \<not> has_prefix (rel_path (drop n q)) ''.multipart/'' \<and>
      matches_prefix a k \<and> after_start a k \<and>
      (isSealed \<longrightarrow> (\<exists>(v::world) m v'. load_manifest jc (lBase l) bucket k v = (Inr m, v') \<and> fs_files v = fs_files w)))"

lemma entry_cong: "fs_files w' = fs_files w \<Longrightarrow> entry l jc b a n w' = entry l jc b a n w"
  by (simp add: entry_def lookup_def fun_eq_iff)

definition entry_key :: "nat \<Rightarrow> fpath \<Rightarrow> string" where
  "entry_key n q = fst (file_key q (drop n q))"

lemma listed_object_cases:
  assumes "listed_object l jc b p k s w = (Inr os, w')"
  shows "os = [] \<or> map omKey os = [k] \<and> (s \<longrightarrow> (\<exists>m v'. load_manifest jc (lBase l) b k w = (Inr m, v')))"
  using assms by (auto simp: listed_object_def io_bind_def io_return_def split: if_splits prod.splits sum.splits)

lemma visit_file_entry:
  assumes v: "visit_file l jc b a p (drop n p) acc w = (Inr acc1, w')" and f: "is_file (lookup w p)"
  shows "map omKey (lcObjects acc1) = map omKey (lcObjects acc) \<or>
    map omKey (lcObjects acc1) = map omKey (lcObjects acc) @ [entry_key n p] \<and> entry l jc b a n w p"
proof -
  obtain k s where fk: "file_key p (drop n p) = (k, s)" by fastforce
  have ap: "lcObjects (add_prefix a cp acc) = lcObjects acc" for cp by (simp add: add_prefix_def)
  show ?thesis
    using v f fk
    by (auto simp: visit_file_def entry_def entry_key_def Let_def ap
        dest!: listed_object_cases split: if_splits option.splits prod.splits sum.splits)
qed

lemma visit_dir_objects: "visit_dir a rel acc = (acc1, s) \<Longrightarrow> lcObjects acc1 = lcObjects acc"
  by (auto simp: visit_dir_def add_prefix_def Let_def split: if_splits option.splits)

definition walked :: "localfs \<Rightarrow> json_codec \<Rightarrow> string \<Rightarrow> list_args \<Rightarrow> nat \<Rightarrow> fpath list \<Rightarrow> world \<Rightarrow> list_acc \<Rightarrow> list_acc \<Rightarrow> bool" where
  "walked l jc b a n ps w acc acc1 \<longleftrightarrow>
     (\<exists>qs. map omKey (lcObjects acc1) = map omKey (lcObjects acc) @ map (entry_key n) qs \<and> distinct qs \<and>
        (\<forall>q \<in> set qs. covers ps q \<and> entry l jc b a n w q))"

lemma walked_mono:
  assumes "walked l jc b a n ps w acc acc1" and c: "\<And>q. covers ps q \<Longrightarrow> covers ps' q"
    and f: "fs_files w = fs_files w'" and ob: "lcObjects acc = lcObjects acc'"
  shows "walked l jc b a n ps' w' acc' acc1"
proof -
  have e: "entry l jc b a n w = entry l jc b a n w'" using f by (rule entry_cong)
  from assms(1) c show ?thesis unfolding walked_def e ob by blast
qed

lemma walk_files: "walk l jc b a n ps acc w = (r, w') \<Longrightarrow> fs_files w' = fs_files w"
proof (induction l jc b a n ps acc w rule: walk.induct)
  case (1 l jc b a d acc w)
  then show ?case by (simp add: walk.simps)
next
  case (2 l jc b a d p ps acc w)
  obtain vr w1 where vf: "visit_file l jc b a p (drop d p) acc w = (vr, w1)" by fastforce
  obtain acc1 s where vd: "visit_dir a (drop d p) acc = (acc1, s)" by fastforce
  obtain rd w2 where rd: "os_read_dir p w = (rd, w2)" by fastforce
  note f = visit_file_files [OF vf] os_read_dir_files [OF rd]
  show ?case
    using 2 vf vd rd f
    by (auto simp: walk.simps split: option.splits node.splits sum.splits if_splits)
qed

lemma walk_walked:
  "walk l jc b a n ps acc w = (Inr acc1, w') \<Longrightarrow> separate ps \<Longrightarrow> walked l jc b a n ps w acc acc1"
proof (induction l jc b a n ps acc w rule: walk.induct)
  case (1 l jc b a d acc w)
  then show ?case by (auto simp: walk.simps walked_def intro: exI [of _ "[]"])
next
  case (2 l jc b a d p ps acc w)
  have sep: "separate ps" using 2(7) by (simp add: separate_def)
  have cov: "\<And>q. covers ps q \<Longrightarrow> covers (p # ps) q" by (simp add: covers_Cons)
  show ?case
  proof (cases "lookup w p")
    case None
    then have "walk l jc b a d ps acc w = (Inr acc1, w')" using 2(6) by (simp add: walk.simps)
    from walked_mono [OF 2(1) [OF None this sep] cov refl refl] show ?thesis .
  next
    case (Some nd)
    show ?thesis
    proof (cases nd)
      case (FileN c t)
      then have f: "lookup w p = Some (FileN c t)" using Some by simp
      obtain acc2 w1 where v: "visit_file l jc b a p (drop d p) acc w = (Inr acc2, w1)"
        and r: "walk l jc b a d ps acc2 w1 = (Inr acc1, w')"
        using 2(6) f by (auto simp: walk.simps split: prod.splits sum.splits)
      have w1: "fs_files w1 = fs_files w" using v by (rule visit_file_files)
      have rec: "walked l jc b a d ps w acc2 acc1"
        by (rule walked_mono [OF 2(5) [OF f refl v [symmetric] refl r sep]]) (simp_all add: w1)
      then obtain qs where qs: "map omKey (lcObjects acc1) = map omKey (lcObjects acc2) @ map (entry_key d) qs"
          "distinct qs" "\<forall>q \<in> set qs. covers ps q \<and> entry l jc b a d w q" by (auto simp: walked_def)
      have "p \<notin> set qs" using qs(3) separate_disjoint [OF 2(7), of p "[]"] by auto
      have "is_file (lookup w p)" using f by simp
      from visit_file_entry [OF v this] show ?thesis
      proof
        assume "map omKey (lcObjects acc2) = map omKey (lcObjects acc)"
        with qs show ?thesis unfolding walked_def covers_Cons by (intro exI [of _ qs]) auto
      next
        assume "map omKey (lcObjects acc2) = map omKey (lcObjects acc) @ [entry_key d p] \<and> entry l jc b a d w p"
        with qs \<open>p \<notin> set qs\<close> show ?thesis unfolding walked_def covers_Cons by (intro exI [of _ "p # qs"]) auto
      qed
    next
      case DirN
      then have dir: "lookup w p = Some DirN" using Some by simp
      obtain acc2 s where vd: "visit_dir a (drop d p) acc = (acc2, s)" by fastforce
      note o2 = visit_dir_objects [OF vd]
      obtain rd w1 where rd: "os_read_dir p w = (rd, w1)" by fastforce
      note rf = os_read_dir_files [OF rd]
      show ?thesis
      proof (cases s)
        case True
        then have r: "walk l jc b a d ps acc2 w = (Inr acc1, w')" using 2(6) dir vd by (simp add: walk.simps)
        show ?thesis
          by (rule walked_mono [OF 2(2) [OF dir refl vd [symmetric] True r sep] cov]) (simp_all add: o2)
      next
        case False
        show ?thesis
        proof (cases rd)
          case (Inl e)
          with 2(6) dir vd rd False have e: "e = OsErr ENOENT" and r: "walk l jc b a d ps acc2 w1 = (Inr acc1, w')"
            by (auto simp: walk.simps split: if_splits)
          show ?thesis
            by (rule walked_mono [OF 2(3) [OF dir refl vd [symmetric] False rd [symmetric] Inl e r sep] cov])
              (use rf o2 in simp_all)
        next
          case (Inr names)
          then have r: "walk l jc b a d (map (\<lambda>n. p @ [n]) names @ ps) acc2 w1 = (Inr acc1, w')"
            using 2(6) dir vd rd False by (simp add: walk.simps)
          have "distinct names" using rf Inr by simp
          from separate_enter [OF 2(7) this]
          show ?thesis
            by (intro walked_mono [OF 2(4) [OF dir refl vd [symmetric] False rd [symmetric] Inr r] covers_enter])
              (use rf o2 in simp_all)
        qed
      qed
    qed
  qed
qed

subsection \<open>Pages of staged files\<close>

definition staged_key :: "string \<Rightarrow> bool" where
  "staged_key k \<longleftrightarrow> key_elems k \<noteq> [] \<and> clean_key k = k \<and> last (key_elems k) \<notin> {ManifestFilename, ''data.ss1''} \<and>
     \<not> has_prefix k ''.multipart/''"

definition staged_place :: "localfs \<Rightarrow> string \<Rightarrow> fpath" where
  "staged_place l k = obj_elems (lBase l) StagingBucket k"

text \<open>
  The disks: a tree whose file paths have proper elements, where the staging bucket is no
  file and has no manifest below it (staged parts are plain files).
\<close>

definition staged_ok :: "localfs \<Rightarrow> world \<Rightarrow> bool" where
  "staged_ok l w \<longleftrightarrow> abs_base (lBase l) \<and> tree_ok w \<and>
     (\<forall>p. file_at w p \<noteq> None \<longrightarrow> list_all good_elem p) \<and>
     file_at w (bucket_dir l StagingBucket) = None \<and>
     (\<forall>ks. file_at w (bucket_dir l StagingBucket @ ks @ [ManifestFilename]) = None)"

lemma good_staging [simp]: "good_elem StagingBucket"
  by (simp add: good_elem_def StagingBucket_def)

lemma staging_dir: "abs_base (lBase l) \<Longrightarrow> bucket_dir l StagingBucket = os_path (lBase l) @ [''objects'', StagingBucket]"
  by (simp add: bucket_dir_def os_path_join_bucket)

lemma staged_place_eq: "abs_base (lBase l) \<Longrightarrow> staged_place l k = bucket_dir l StagingBucket @ key_elems k"
  by (simp add: staged_place_def obj_elems_def staging_dir)

lemma key_elems_join: "list_all good_elem ks \<Longrightarrow> key_elems (join_with CHR ''/'' ks) = ks"
  by (simp add: key_elems_def os_path_abs list_all_iff)

lemma rel_path_key:
  assumes "list_all good_elem ks" and "ks \<noteq> []"
  shows "key_elems (rel_path ks) = ks" and "clean_key (rel_path ks) = rel_path ks"
  using assms by (simp_all add: rel_path_def key_elems_join clean_key_eq)

lemma load_manifest_needs_file:
  assumes ld: "load_manifest jc base bucket key (v :: world) = (Inr m, v')" and base: "abs_base base" and bucket: "good_elem bucket"
  shows "file_at v (meta_elems base bucket key) \<noteq> None"
proof -
  obtain p where p: "manifest_path base bucket key = Inr p" "os_path p = meta_elems base bucket key"
    using manifest_path_ok [OF base bucket] by blast
  obtain n v1 r v2 where op: "os_stat (meta_elems base bucket key) v = (Inr n, v1)"
    and rd: "os_read_from n 0 v1 = (Inr r, v2)"
    using ld p
    by (auto simp: load_manifest_def io_bind_def os_open_def io_defer_def split: prod.splits sum.splits)
  have "lookup v (meta_elems base bucket key) = Some n" using os_stat_lookup [OF op] by simp
  moreover have "n \<noteq> DirN"
    using rd by (auto simp: os_read_from_def io_bind_def split: prod.splits sum.splits)
  ultimately show ?thesis by (cases n) (auto simp: file_at_def)
qed

lemma no_staged_manifest:
  assumes "staged_ok l w" and "fs_files v = fs_files w"
  shows "load_manifest jc (lBase l) StagingBucket k (v :: world) \<noteq> (Inr m, v')"
proof
  assume ld: "load_manifest jc (lBase l) StagingBucket k v = (Inr m, v')"
  have base: "abs_base (lBase l)" using assms(1) by (simp add: staged_ok_def)
  have "file_at v = file_at w" using assms(2) by (simp add: file_at_def lookup_def fun_eq_iff)
  moreover have "meta_elems (lBase l) StagingBucket k = bucket_dir l StagingBucket @ key_elems k @ [ManifestFilename]"
    by (simp add: meta_elems_def obj_elems_def staging_dir [OF base])
  ultimately show False
    using load_manifest_needs_file [OF ld base good_staging] assms(1) by (simp add: staged_ok_def)
qed

lemma sealed_manifest_staged:
  assumes "staged_ok l w"
  shows "\<exists>w1. sealed_manifest l jc StagingBucket k w = (None, w1) \<and> fs_files w1 = fs_files w"
proof -
  obtain r w1 where ld: "load_manifest jc (lBase l) StagingBucket k w = (r, w1)" by fastforce
  then obtain e where "r = Inl e" using no_staged_manifest [OF assms refl, of jc k _ w1] by (cases r) auto
  with ld load_manifest_files [OF ld] show ?thesis by (simp add: sealed_manifest_def)
qed

lemma entry_staged:
  assumes ok: "staged_ok l w" and q: "q = bucket_dir l StagingBucket @ ks"
    and e: "entry l jc StagingBucket a (length (bucket_dir l StagingBucket)) w q"
  shows "ks \<noteq> [] \<and> list_all good_elem ks \<and> entry_key (length (bucket_dir l StagingBucket)) q = rel_path ks \<and>
    staged_key (rel_path ks) \<and> file_at w (staged_place l (rel_path ks)) \<noteq> None \<and>
    matches_prefix a (rel_path ks) \<and> after_start a (rel_path ks)"
proof -
  have base: "abs_base (lBase l)" and tree: "tree_ok w" using ok by (simp_all add: staged_ok_def)
  have f: "is_file (lookup w q)" using e by (auto simp: entry_def Let_def split: prod.splits)
  then have at: "file_at w q \<noteq> None" by (cases "lookup w q" rule: is_file.cases) (auto simp: file_at_def)
  then have good: "list_all good_elem q" using ok by (simp add: staged_ok_def)
  have ne: "ks \<noteq> []" using at ok q by (auto simp: staged_ok_def)
  have gks: "list_all good_elem ks" using good q by simp
  note rk = rel_path_key [OF gks ne]
  have lq: "last q = last ks" "q \<noteq> []" using q ne by simp_all
  obtain k s where fk: "file_key q ks = (k, s)" by fastforce
  have e': "last ks \<noteq> ManifestFilename" "\<not> has_prefix (rel_path ks) ''.multipart/''" "matches_prefix a k" "after_start a k"
      "s \<longrightarrow> (\<exists>(v::world) m v'. load_manifest jc (lBase l) StagingBucket k v = (Inr m, v') \<and> fs_files v = fs_files w)"
    using e q fk lq by (auto simp: entry_def Let_def)
  then have "\<not> s" using no_staged_manifest [OF ok] by blast
  with fk lq have k: "last ks \<noteq> ''data.ss1''" "k = rel_path ks" by (auto simp: file_key_def split: if_splits)
  have "staged_key (rel_path ks)" using rk ne e' k by (simp add: staged_key_def)
  moreover have "staged_place l (rel_path ks) = q" using rk q by (simp add: staged_place_eq [OF base])
  moreover have "entry_key (length (bucket_dir l StagingBucket)) q = rel_path ks" using fk q k by (simp add: entry_key_def)
  ultimately show ?thesis using ne gks at e' k by simp
qed

lemma walk_no_prefixes:
  "walk l jc b a n ps acc w = (Inr acc1, w') \<Longrightarrow> laDelimiter a = '''' \<Longrightarrow> lcPrefixes acc1 = lcPrefixes acc"
proof (induction l jc b a n ps acc w rule: walk.induct)
  case (1 l jc b a d acc w)
  then show ?case by (simp add: walk.simps)
next
  case (2 l jc b a d p ps acc w)
  have vf: "visit_file l jc b a p (drop d p) acc w = (Inr acc2, w2) \<Longrightarrow> lcPrefixes acc2 = lcPrefixes acc" for acc2 w2
    using 2(7) by (auto simp: visit_file_def rolled_prefix_def Let_def split: if_splits prod.splits sum.splits)
  obtain acc2 s where vd: "visit_dir a (drop d p) acc = (acc2, s)" by fastforce
  then have "acc2 = acc" "\<not> s" using 2(7) by (simp_all add: visit_dir_def)
  with 2 vd vf show ?case
    by (auto simp: walk.simps split: option.splits node.splits prod.splits sum.splits if_splits)
qed

lemma truncate_list_nonempty:
  assumes tr: "truncate_list objs [] n = (os, ps, t)" and d: "distinct (map omKey objs)" and n: "0 < n" and t: t
  shows "os \<noteq> []"
proof -
  let ?c = "sort (map omKey objs)"
  have len: "length objs > n" and os: "os = filter (\<lambda>o1. omKey o1 < ?c ! n) objs"
    using tr t by (auto simp: truncate_list_def Let_def split: if_splits)
  have "?c ! 0 \<le> ?c ! n" using len by (intro sorted_nth_mono) simp_all
  moreover have "objs \<noteq> []" using len by (cases objs) simp_all
  then have "?c ! 0 \<noteq> ?c ! n" using n len d nth_eq_iff_index_eq [of ?c 0 n] by simp
  ultimately have "?c ! 0 < ?c ! n" by simp
  moreover have "?c ! 0 \<in> set ?c" using len by (intro nth_mem) (cases objs, simp_all)
  ultimately show ?thesis unfolding os by (auto simp: filter_empty_conv)
qed

text \<open>A listing without delimiter: sorted, without a key twice, and only staged files.\<close>

lemma list_objects_page:
  assumes ok: "staged_ok l w" and d: "laDelimiter a = ''''" and n: "0 < n"
    and ls: "list_objects l jc StagingBucket a n w = (Inr (os, ps, t), w')"
  shows "sorted (map omKey os) \<and> distinct (map omKey os) \<and> (t \<longrightarrow> os \<noteq> []) \<and>
    (\<forall>k \<in> set (map omKey os). staged_key k \<and> file_at w (staged_place l k) \<noteq> None \<and> matches_prefix a k \<and> after_start a k)"
proof (cases "os = [] \<and> \<not> t")
  case True
  then show ?thesis by simp
next
  case False
  let ?b = "bucket_dir l StagingBucket" and ?acc0 = "\<lparr>lcObjects = [], lcPrefixes = []\<rparr>"
  obtain acc w1 where wb: "walk_bucket l jc StagingBucket a w = (Inr acc, w1)"
    and tr: "truncate_list (sort_key omKey (lcObjects acc)) (sort (lcPrefixes acc)) n = (os, ps, t)"
    using ls False by (auto simp: list_objects_def fail_obs_iff split: prod.splits sum.splits if_splits)
  have "acc = ?acc0 \<or> (\<exists>w0. fs_files w0 = fs_files w \<and> walk l jc StagingBucket a (length ?b) [?b] ?acc0 w0 = (Inr acc, w1))"
    using wb os_stat_files [of ?b w] by (auto simp: walk_bucket_def Let_def split: prod.splits sum.splits if_splits)
  then have "lcPrefixes acc = [] \<and> walked l jc StagingBucket a (length ?b) [?b] w ?acc0 acc"
  proof
    assume "acc = ?acc0"
    then show ?thesis by (auto simp: walked_def intro: exI [of _ "[]"])
  next
    assume "\<exists>w0. fs_files w0 = fs_files w \<and> walk l jc StagingBucket a (length ?b) [?b] ?acc0 w0 = (Inr acc, w1)"
    then obtain w0 where w0: "fs_files w0 = fs_files w" "walk l jc StagingBucket a (length ?b) [?b] ?acc0 w0 = (Inr acc, w1)" by blast
    have "walked l jc StagingBucket a (length ?b) [?b] w0 ?acc0 acc"
      by (rule walk_walked [OF w0(2)]) (simp add: separate_def)
    from walked_mono [OF this _ w0(1) refl] walk_no_prefixes [OF w0(2) d] show ?thesis by simp
  qed
  then obtain qs where np: "lcPrefixes acc = []" and keys: "map omKey (lcObjects acc) = map (entry_key (length ?b)) qs" and dq: "distinct qs"
    and qs: "\<forall>q \<in> set qs. covers [?b] q \<and> entry l jc StagingBucket a (length ?b) w q" by (auto simp: walked_def)
  have st: "\<exists>ks. q = ?b @ ks \<and> list_all good_elem ks \<and> ks \<noteq> [] \<and> entry_key (length ?b) q = rel_path ks \<and>
      staged_key (rel_path ks) \<and> file_at w (staged_place l (rel_path ks)) \<noteq> None \<and>
      matches_prefix a (rel_path ks) \<and> after_start a (rel_path ks)" if "q \<in> set qs" for q
    using qs that entry_staged [OF ok] by (fastforce simp: covers_def)
  have inj: "inj_on (entry_key (length ?b)) (set qs)"
  proof (rule inj_onI)
    fix q q' assume "q \<in> set qs" "q' \<in> set qs" and eq: "entry_key (length ?b) q = entry_key (length ?b) q'"
    then obtain ks ks' where "q = ?b @ ks" "list_all good_elem ks" "ks \<noteq> []" "entry_key (length ?b) q = rel_path ks"
        "q' = ?b @ ks'" "list_all good_elem ks'" "ks' \<noteq> []" "entry_key (length ?b) q' = rel_path ks'" using st by meson
    with eq show "q = q'" by (metis rel_path_key(1))
  qed
  let ?s = "sort_key omKey (lcObjects acc)"
  have "distinct (map omKey (lcObjects acc))" unfolding keys using inj dq by (simp add: distinct_map)
  then have ds: "distinct (map omKey ?s)" by (simp add: distinct_map)
  obtain P where os: "os = filter P ?s"
  proof (cases "length ?s + length (sort (lcPrefixes acc)) > n")
    case True
    with tr that show thesis by (auto simp: truncate_list_def Let_def)
  next
    case False
    with tr that [of "\<lambda>_. True"] show thesis by (simp add: truncate_list_def)
  qed
  have "sorted (map omKey os)" "distinct (map omKey os)"
    unfolding os using sorted_filter [of omKey ?s P] ds by (simp_all add: distinct_map_filter)
  moreover have "t \<longrightarrow> os \<noteq> []" using truncate_list_nonempty [OF _ ds n] tr np by auto
  moreover have "staged_key k \<and> file_at w (staged_place l k) \<noteq> None \<and> matches_prefix a k \<and> after_start a k"
    if "k \<in> set (map omKey os)" for k
  proof -
    have "k \<in> set (map omKey (lcObjects acc))" using that by (auto simp: os)
    then obtain q where "q \<in> set qs" "k = entry_key (length ?b) q" unfolding keys by auto
    with st show ?thesis by metis
  qed
  ultimately show ?thesis by blast
qed

subsection \<open>LocalFS keeps the laws\<close>

lemma observe_files [simp]: "fs_files (observe l op n f w) = fs_files w"
  by (auto simp: observe_def split: observer.split)

lemma fail_obs_files: "fail_obs l op n e w = (r, w') \<Longrightarrow> fs_files w' = fs_files w"
  by (auto simp: fail_obs_iff)

lemma list_objects_files:
  assumes "list_objects l jc b a n w = (r, w')"
  shows "fs_files w' = fs_files w"
proof -
  obtain wr w1 where wb: "walk_bucket l jc b a w = (wr, w1)" by fastforce
  have "fs_files w1 = fs_files w"
    using wb by (auto simp: walk_bucket_def Let_def dest!: os_stat_files walk_files split: prod.splits sum.splits if_splits)
  with assms wb show ?thesis
    by (auto simp: list_objects_def fail_obs_iff split: sum.splits if_splits)
qed

lemma staged_ok_files: "fs_files w' = fs_files w \<Longrightarrow> staged_ok l w' = staged_ok l w"
  by (simp add: staged_ok_def file_at_def lookup_def tree_ok_def)

lemma delete_staged:
  assumes ok: "staged_ok l w" and del: "delete l jc StagingBucket k w = (res, w')"
  shows "staged_ok l w' \<and> file_at w' = (if is_ok res then (file_at w)(staged_place l k := None) else file_at w)"
proof -
  have base: "abs_base (lBase l)" using ok by (simp add: staged_ok_def)
  obtain w1 where sm: "sealed_manifest l jc StagingBucket k w = (None, w1)" "fs_files w1 = fs_files w"
    using sealed_manifest_staged [OF ok] by blast
  obtain p where p: "object_path l StagingBucket k = Inr p" "os_path p = staged_place l k"
    using object_path_ok [OF base good_staging] by (auto simp: staged_place_def)
  have f: "file_at w' = (if is_ok res then (file_at w)(staged_place l k := None) else file_at w)"
    using delete_plain_effect [OF sm(1) del p(1)] p(2) by (cases res) auto
  obtain r2 w2 where rm: "os_remove (os_path p) w1 = (r2, w2)" by fastforce
  have "staged_ok l w1" using ok staged_ok_files [OF sm(2)] by simp
  then have "tree_ok w1" by (simp add: staged_ok_def)
  then have "tree_ok w2" using os_remove_tree_ok [OF rm] by blast
  then have "tree_ok w'"
    using del sm p(1) rm by (cases r2) (auto simp: delete_def fail_obs_iff remove_empty_parents_tree)
  with f ok show ?thesis by (auto simp: staged_ok_def)
qed

lemma staged_key_place:
  assumes base: "abs_base (lBase l)" and "staged_key k" "staged_key k'" and eq: "staged_place l k = staged_place l k'"
  shows "k = k'"
proof -
  have "key_elems k = key_elems k'" using eq by (simp add: staged_place_eq [OF base])
  then have "clean_key k = clean_key k'" by (simp add: clean_key_eq)
  with assms show ?thesis by (simp add: staged_key_def)
qed

lemma staged_key_ne: "staged_key k \<Longrightarrow> k \<noteq> ''''"
  by (auto simp: staged_key_def key_elems_def os_path_def clean_elems_def clean_step.simps)

lemma finite_staged:
  assumes "abs_base (lBase l)"
  shows "finite {k. staged_key k \<and> file_at w (staged_place l k) \<noteq> None}"
proof (rule finite_imageD)
  have f: "p \<in> fst ` set (fs_files w)" if "file_at w p \<noteq> None" for p
    using that by (cases "p = []") (force simp: file_at_def lookup_def split: option.splits dest!: map_of_SomeD)+
  have "staged_place l ` {k. staged_key k \<and> file_at w (staged_place l k) \<noteq> None} \<subseteq> fst ` set (fs_files w)"
  proof (rule image_subsetI)
    fix k assume "k \<in> {k. staged_key k \<and> file_at w (staged_place l k) \<noteq> None}"
    then show "staged_place l k \<in> fst ` set (fs_files w)" by (intro f) simp
  qed
  then show "finite (staged_place l ` {k. staged_key k \<and> file_at w (staged_place l k) \<noteq> None})"
    by (rule finite_subset) simp
  show "inj_on (staged_place l) {k. staged_key k \<and> file_at w (staged_place l k) \<noteq> None}"
    using staged_key_place [OF assms] by (auto intro!: inj_onI)
qed

lemma staged_base: "staged_ok l w \<Longrightarrow> abs_base (lBase l)"
  by (simp add: staged_ok_def)

interpretation staged: gc_store "staged_ok l" staged_key "staged_place l" file_at "localfs_objs l jc" for l jc
proof
  fix k k' :: string and w w' :: world and a n r os ps t dres
  show "staged_ok l w \<Longrightarrow> staged_key k \<Longrightarrow> staged_key k' \<Longrightarrow> staged_place l k = staged_place l k' \<Longrightarrow> k = k'"
    using staged_key_place staged_base by blast
  show "staged_key k \<Longrightarrow> k \<noteq> ''''" by (rule staged_key_ne)
  show "staged_ok l w \<Longrightarrow> finite {k. staged_key k \<and> file_at w (staged_place l k) \<noteq> None}"
    using finite_staged [OF staged_base] .
  show "staged_ok l w \<Longrightarrow> obList (localfs_objs l jc) StagingBucket a n w = (r, w') \<Longrightarrow> staged_ok l w' \<and> file_at w' = file_at w"
    using list_objects_files [of l jc StagingBucket a n w r w'] staged_ok_files [of w' w l]
    by (simp add: localfs_objs_def file_at_def lookup_def fun_eq_iff)
  show "staged_ok l w \<Longrightarrow> laDelimiter a = '''' \<Longrightarrow> 1 < n \<Longrightarrow>
      obList (localfs_objs l jc) StagingBucket a n w = (Inr (os, ps, t), w') \<Longrightarrow>
      sorted (map omKey os) \<and> distinct (map omKey os) \<and> (t \<longrightarrow> os \<noteq> []) \<and>
      (\<forall>k \<in> set (map omKey os). staged_key k \<and> file_at w (staged_place l k) \<noteq> None \<and> matches_prefix a k \<and> after_start a k)"
    using list_objects_page [of l w a n jc os ps t w'] by (simp add: localfs_objs_def)
  show "staged_ok l w \<Longrightarrow> staged_key k \<Longrightarrow> file_at w (staged_place l k) \<noteq> None \<Longrightarrow>
      obDelete (localfs_objs l jc) StagingBucket k w = (dres, w') \<Longrightarrow>
      staged_ok l w' \<and> file_at w' = (if is_ok dres then (file_at w)(staged_place l k := None) else file_at w)"
    using delete_staged [of l w jc k dres w'] by (simp add: localfs_objs_def)
qed

lemma list_objects_calm:
  assumes "fs_faults w = []" and "tree_ok w" and "laDelimiter a = ''''" and ls: "list_objects l jc b a n w = (r, w')"
  shows "fs_faults w' = []"
proof -
  obtain wr w1 where wb: "walk_bucket l jc b a w = (wr, w1)" by fastforce
  have "w1 = w"
    using wb assms walk_quiet [OF assms(1,3,2), of l jc b "length (bucket_dir l b)" "[bucket_dir l b]" "\<lparr>lcObjects = [], lcPrefixes = []\<rparr>"]
    by (auto simp: walk_bucket_def Let_def split: option.splits if_splits)
  with ls wb assms(1) show ?thesis by (auto simp: list_objects_def fail_obs_iff split: sum.splits if_splits)
qed

lemma delete_calm:
  assumes ok: "staged_ok l w" and calm: "fs_faults w = []" and at: "file_at w (staged_place l k) \<noteq> None"
    and del: "delete l jc StagingBucket k w = (res, w')"
  shows "fs_faults w' = [] \<and> is_ok res"
proof -
  have base: "abs_base (lBase l)" using ok by (simp add: staged_ok_def)
  obtain p where p: "object_path l StagingBucket k = Inr p" "os_path p = staged_place l k"
    using object_path_ok [OF base good_staging] by (auto simp: staged_place_def)
  have sm: "sealed_manifest l jc StagingBucket k w = (None, w)"
    using sealed_manifest_staged [OF ok, of jc k] load_manifest_quiet_state [OF calm, of jc "lBase l" StagingBucket k]
    by (auto simp: sealed_manifest_def split: sum.splits list.splits)
  obtain c t where f: "lookup w (staged_place l k) = Some (FileN c t)"
    using at by (auto simp: file_at_def split: option.splits node.splits)
  have rm: "os_remove (os_path p) w = (Inr (), del_node (os_path p) w)"
    using calm f p(2) by (simp add: os_remove_def io_bind_def os_tick_def)
  then show ?thesis
    using del sm p(1) os_remove_calm [OF rm calm] by (auto simp: delete_def remove_empty_parents_calm)
qed

interpretation calm: calm_gc_store "staged_ok l" staged_key "staged_place l" file_at "localfs_objs l jc" "\<lambda>w. fs_faults w = []" for l jc
proof (intro calm_gc_store.intro calm_gc_store_axioms.intro)
  show "gc_store (staged_ok l) staged_key (staged_place l) file_at (localfs_objs l jc)"
    by (rule staged.gc_store_axioms)
next
  fix w w' :: world and a n lres
  assume ok: "staged_ok l w" and q: "fs_faults w = []" and d: "laDelimiter a = ''''"
    and ls: "obList (localfs_objs l jc) StagingBucket a n w = (lres, w')"
  have ls': "list_objects l jc StagingBucket a n w = (lres, w')" using ls by (simp add: localfs_objs_def)
  have base: "abs_base (lBase l)" and tree: "tree_ok w" using ok by (simp_all add: staged_ok_def)
  have "\<exists>os ps t. lres = Inr (os, ps, t) \<and> (k \<in> omKey ` set os \<or> t \<and> (\<forall>o1 \<in> set os. omKey o1 < k))"
    if k: "staged_key k" "file_at w (staged_place l k) \<noteq> None" "matches_prefix a k" "after_start a k" for k
  proof -
    obtain c t where "lookup w (obj_elems (lBase l) StagingBucket k) = Some (FileN c t)"
      using k(2) by (auto simp: staged_place_def file_at_def split: option.splits node.splits)
    from list_complete_page [OF base good_staging tree q d this, of jc n] k ls' show ?thesis
      by (force simp: staged_key_def plain_entry_def)
  qed
  then show "fs_faults w' = [] \<and> (\<forall>k. staged_key k \<longrightarrow> file_at w (staged_place l k) \<noteq> None \<longrightarrow> matches_prefix a k \<longrightarrow> after_start a k \<longrightarrow>
      (\<exists>os ps t. lres = Inr (os, ps, t) \<and> (k \<in> omKey ` set os \<or> t \<and> (\<forall>o1 \<in> set os. omKey o1 < k))))"
    using list_objects_calm [OF q tree d ls'] by blast
next
  fix w w' :: world and k dres
  assume "staged_ok l w" "fs_faults w = []" "staged_key k" "file_at w (staged_place l k) \<noteq> None"
    "obDelete (localfs_objs l jc) StagingBucket k w = (dres, w')"
  then show "fs_faults w' = [] \<and> is_ok dres"
    using delete_calm [of l w k jc dres w'] by (simp add: localfs_objs_def)
qed

subsection \<open>What a pass does\<close>

lemma list_uploads_all:
  assumes "meta_ok m"
  shows "distinct (map muUploadID (list_uploads '''' m))" and "set (list_uploads '''' m) = snd ` set (msUploads m)"
    and "u \<in> snd ` set (msUploads m) \<Longrightarrow> map_of (msUploads m) (muUploadID u) = Some u"
proof -
  have ids: "map muUploadID (map snd (msUploads m)) = map fst (msUploads m)"
    using assms by (auto simp: meta_ok_def upload_ok_def)
  have d: "distinct (map fst (msUploads m))" using assms by (simp add: meta_ok_def)
  have "distinct (map muUploadID (map snd (msUploads m)))" unfolding ids by (rule d)
  then have "distinct (map muUploadID (sort_key muInitiated (map snd (msUploads m))))" by (simp only: distinct_map distinct_sort set_sort)
  then show "distinct (map muUploadID (list_uploads '''' m))" by (simp add: list_uploads_def)
  show "set (list_uploads '''' m) = snd ` set (msUploads m)" by (simp add: list_uploads_def)
  show "u \<in> snd ` set (msUploads m) \<Longrightarrow> map_of (msUploads m) (muUploadID u) = Some u"
    using assms d by (auto simp: meta_ok_def upload_ok_def)
qed

lemma length_stale: "length (filter P (list_uploads '''' m)) = length (filter P (map snd (msUploads m)))"
proof -
  have "mset (list_uploads '''' m) = mset (map snd (msUploads m))" by (simp add: list_uploads_def)
  then show ?thesis by (metis mset_filter size_mset)
qed

lemma gc_uploads_meta_ok:
  "gc_uploads ob now olderThan ups res st = Some (res', st') \<Longrightarrow> meta_ok (s3Meta st) \<Longrightarrow> meta_ok (s3Meta st')"
proof (induction ups arbitrary: res st)
  case (Cons u ups)
  show ?case
  proof (cases "sub_time now (muInitiated u) < olderThan")
    case True
    then show ?thesis using Cons.IH Cons.prems by (simp add: Let_def)
  next
    case False
    then obtain n w1 r m1 where ab: "abort_upload (muUploadID u) (s3Meta st) = (r, m1)"
      and rest: "\<exists>res1. gc_uploads ob now olderThan ups res1 \<lparr>s3Meta = m1, s3Objs = w1\<rparr> = Some (res', st')"
      using Cons.prems(1) by (auto simp: Let_def split: option.split_asm prod.split_asm sum.split_asm)
    have "meta_ok m1" by (rule meta_ok_drop(2) [OF Cons.prems(2) ab])
    then show ?thesis using rest Cons.IH by fastforce
  qed
qed simp

lemma gc_pass_run:
  assumes disk: "staged_ok l (s3Objs st)" and meta: "meta_ok (s3Meta st)"
  obtains res st' where "run_multipart_gc (localfs_objs l jc) now olderThan st = Some (res, st')"
    and "staged_ok l (s3Objs st')" and "meta_ok (s3Meta st')"
    and "gcScanned res = length (list_uploads '''' (s3Meta st))"
    and "gcAborted res = length (filter (stale now olderThan) (list_uploads '''' (s3Meta st)))"
    and "msBuckets (s3Meta st') = msBuckets (s3Meta st)"
    and "\<forall>uid. map_of (msUploads (s3Meta st')) uid =
        (if \<exists>u \<in> set (list_uploads '''' (s3Meta st)). stale now olderThan u \<and> muUploadID u = uid then None
         else map_of (msUploads (s3Meta st)) uid)"
    and "staged.gone l (staged.stale_key now olderThan (list_uploads '''' (s3Meta st))) (s3Objs st) (s3Objs st')"
proof -
  note ups = list_uploads_all [OF meta]
  have each: "\<forall>u \<in> set (list_uploads '''' (s3Meta st)). map_of (msUploads (s3Meta st)) (muUploadID u) = Some u"
    using ups(2,3) by simp
  from staged.gc_uploads_total [OF disk ups(1) each, of jc now olderThan "\<lparr>gcScanned = 0, gcAborted = 0, gcDeleted = 0\<rparr>"]
  show thesis
    using that gc_uploads_meta_ok [OF _ meta] by (auto simp: run_multipart_gc_def)
qed

text \<open>
  C17. Garbage collection comes to an end and is safe: whatever system calls fail, a pass over a
  disk with plain staged parts returns; it scans every upload, aborts exactly the stale ones,
  leaves every bucket and every other upload alone, and a file it changes is deleted, lies in
  the staging bucket and has the key prefix of a stale upload.
\<close>

theorem gc_returns:
  assumes disk: "staged_ok l (s3Objs st)" and meta: "meta_ok (s3Meta st)"
  shows "\<exists>res st'. run_multipart_gc (localfs_objs l jc) now olderThan st = Some (res, st') \<and>
    gcScanned res = length (msUploads (s3Meta st)) \<and>
    gcAborted res = length (filter (stale now olderThan) (map snd (msUploads (s3Meta st)))) \<and>
    msBuckets (s3Meta st') = msBuckets (s3Meta st) \<and>
    (\<forall>uid. get_upload uid (s3Meta st') =
       (case get_upload uid (s3Meta st) of
          Inl e \<Rightarrow> Inl e
        | Inr u \<Rightarrow> if stale now olderThan u then Inl ErrUploadNotFound else Inr u)) \<and>
    staged_ok l (s3Objs st') \<and>
    (\<forall>p. file_at (s3Objs st') p = file_at (s3Objs st) p \<or>
       file_at (s3Objs st') p = None \<and>
       (\<exists>u \<in> snd ` set (msUploads (s3Meta st)). stale now olderThan u \<and>
          (\<exists>k. has_prefix k (gc_prefix u) \<and> p = obj_elems (lBase l) StagingBucket k)))"
proof -
  note ups = list_uploads_all [OF meta]
  obtain res st' where run: "run_multipart_gc (localfs_objs l jc) now olderThan st = Some (res, st')" "staged_ok l (s3Objs st')"
      "gcScanned res = length (list_uploads '''' (s3Meta st))"
      "gcAborted res = length (filter (stale now olderThan) (list_uploads '''' (s3Meta st)))"
      "msBuckets (s3Meta st') = msBuckets (s3Meta st)"
      "\<forall>uid. map_of (msUploads (s3Meta st')) uid =
        (if \<exists>u \<in> set (list_uploads '''' (s3Meta st)). stale now olderThan u \<and> muUploadID u = uid then None
         else map_of (msUploads (s3Meta st)) uid)"
      and gone: "staged.gone l (staged.stale_key now olderThan (list_uploads '''' (s3Meta st))) (s3Objs st) (s3Objs st')"
    by (rule gc_pass_run [OF disk meta])
  have "get_upload uid (s3Meta st') =
      (case get_upload uid (s3Meta st) of Inl e \<Rightarrow> Inl e | Inr u \<Rightarrow> if stale now olderThan u then Inl ErrUploadNotFound else Inr u)" for uid
  proof (cases "map_of (msUploads (s3Meta st)) uid")
    case None
    then show ?thesis using run(6) by (simp add: get_upload_def)
  next
    case (Some u)
    then have "(uid, u) \<in> set (msUploads (s3Meta st))" by (rule map_of_SomeD)
    then have u: "u \<in> snd ` set (msUploads (s3Meta st))" "muUploadID u = uid"
      using meta by (force, auto simp: meta_ok_def upload_ok_def)
    have "(\<exists>v \<in> set (list_uploads '''' (s3Meta st)). stale now olderThan v \<and> muUploadID v = uid) \<longleftrightarrow> stale now olderThan u"
      using u ups(2,3) Some by (metis option.inject)
    with Some run(6) show ?thesis by (simp add: get_upload_def)
  qed
  moreover have "file_at (s3Objs st') p = file_at (s3Objs st) p \<or>
       file_at (s3Objs st') p = None \<and>
       (\<exists>u \<in> snd ` set (msUploads (s3Meta st)). stale now olderThan u \<and>
          (\<exists>k. has_prefix k (gc_prefix u) \<and> p = obj_elems (lBase l) StagingBucket k))" for p
  proof -
    obtain K where K: "\<forall>k \<in> K. \<exists>u \<in> snd ` set (msUploads (s3Meta st)). stale now olderThan u \<and> has_prefix k (gc_prefix u)"
      and f: "file_at (s3Objs st') = (\<lambda>i. if i \<in> staged_place l ` K then None else file_at (s3Objs st) i)"
      using gone unfolding staged.gone_def staged.erased_def staged.stale_key_def ups(2) by blast
    show ?thesis
    proof (cases "p \<in> staged_place l ` K")
      case True
      then obtain k where "k \<in> K" "p = obj_elems (lBase l) StagingBucket k" by (auto simp: staged_place_def)
      with K f True show ?thesis by (metis (no_types, lifting))
    qed (simp add: f)
  qed
  ultimately show ?thesis using run length_stale [of _ "s3Meta st"] ups(2) by (auto simp: list_uploads_def)
qed

subsection \<open>The background loop\<close>

text \<open>
  However often the ticker fires and whatever calls fail, the loop goes on; after a tick no
  upload is left that was stale then.
\<close>

lemma gc_loop_returns:
  "staged_ok l (s3Objs st) \<Longrightarrow> meta_ok (s3Meta st) \<Longrightarrow>
     \<exists>st'. gc_loop (localfs_objs l jc) age es st = Some st' \<and> staged_ok l (s3Objs st') \<and> meta_ok (s3Meta st')"
proof (induction es arbitrary: st)
  case (Cons e es)
  show ?case
  proof (cases e)
    case (GcTick now)
    obtain res st1 where "run_multipart_gc (localfs_objs l jc) now age st = Some (res, st1)" "staged_ok l (s3Objs st1)" "meta_ok (s3Meta st1)"
      by (rule gc_pass_run [OF Cons.prems])
    with GcTick Cons.IH [of st1] show ?thesis by simp
  next
    case GcStop
    with Cons.prems show ?thesis by simp
  qed
qed simp

lemma gc_loop_append:
  "gc_loop ob age es st = Some st1 \<Longrightarrow> GcStop \<notin> set es \<Longrightarrow> gc_loop ob age (es @ fs) st = gc_loop ob age fs st1"
proof (induction es arbitrary: st)
  case (Cons e es)
  then show ?case by (cases e) (auto split: option.split_asm)
qed simp

lemma gc_tick_collects:
  assumes ok: "staged_ok l (s3Objs st)" "meta_ok (s3Meta st)" and live: "GcStop \<notin> set es"
    and sched: "gc_schedule interval olderThan = (every, age)"
  shows "\<exists>st'. start_multipart_gc (localfs_objs l jc) interval olderThan (es @ [GcTick now]) st = (every, Some st') \<and>
    (\<forall>u \<in> snd ` set (msUploads (s3Meta st')). \<not> stale now age u)"
proof -
  obtain st1 where st1: "gc_loop (localfs_objs l jc) age es st = Some st1" "staged_ok l (s3Objs st1)" "meta_ok (s3Meta st1)"
    using gc_loop_returns [OF ok] by blast
  obtain res st' where run: "run_multipart_gc (localfs_objs l jc) now age st1 = Some (res, st')" "meta_ok (s3Meta st')"
    and left: "\<forall>uid. map_of (msUploads (s3Meta st')) uid =
        (if \<exists>u \<in> set (list_uploads '''' (s3Meta st1)). stale now age u \<and> muUploadID u = uid then None
         else map_of (msUploads (s3Meta st1)) uid)"
    by (rule gc_pass_run [OF st1(2,3)])
  have "\<not> stale now age u" if u: "u \<in> snd ` set (msUploads (s3Meta st'))" for u
  proof -
    have "map_of (msUploads (s3Meta st')) (muUploadID u) = Some u" by (rule list_uploads_all(3) [OF run(2) u])
    then have at: "map_of (msUploads (s3Meta st1)) (muUploadID u) = Some u"
      and no: "\<not> (\<exists>v \<in> set (list_uploads '''' (s3Meta st1)). stale now age v \<and> muUploadID v = muUploadID u)"
      using left by (metis option.distinct(1))+
    from at have "u \<in> set (list_uploads '''' (s3Meta st1))"
      unfolding list_uploads_all(2) [OF st1(3)] by (force dest: map_of_SomeD)
    with no show ?thesis by blast
  qed
  moreover have "gc_loop (localfs_objs l jc) age (es @ [GcTick now]) st = Some st'"
    using gc_loop_append [OF st1(1) live] run(1) by simp
  ultimately show ?thesis using sched by (simp add: start_multipart_gc_def)
qed

subsection \<open>What a pass deletes\<close>

text \<open>The keys of the staged files under the prefixes of the stale uploads.\<close>

definition stale_files :: "localfs \<Rightarrow> int \<Rightarrow> int \<Rightarrow> world s3_state \<Rightarrow> string set" where
  "stale_files l now olderThan st =
     {k. staged_key k \<and> file_at (s3Objs st) (staged_place l k) \<noteq> None \<and>
         (\<exists>u \<in> snd ` set (msUploads (s3Meta st)). stale now olderThan u \<and> has_prefix k (gc_prefix u))}"


text \<open>An upload of key \<open>k\<close> with one part staged.\<close>

definition ex_gc_server :: "string \<Rightarrow> world s3_state" where
  "ex_gc_server key =
     \<lparr>s3Meta = \<lparr>msBuckets = [], msUploads = [(''ab'',
        \<lparr>muUploadID = ''ab'', muBucket = ''bkt'', muKey = key, muInitiated = 0, muParts = []\<rparr>)]\<rparr>,
      s3Objs = \<lparr>fs_files =
        [([''d''], DirN), ([''d'', ''objects''], DirN), ([''d'', ''objects'', StagingBucket], DirN),
         ([''d'', ''objects'', StagingBucket, ''bkt''], DirN), ([''d'', ''objects'', StagingBucket, ''bkt'', ''k''], DirN),
         ([''d'', ''objects'', StagingBucket, ''bkt'', ''k'', ''ab''], DirN),
         ([''d'', ''objects'', StagingBucket, ''bkt'', ''k'', ''ab'', ''part.1''], FileN [1] 7)],
        fs_clock = 7, fs_faults = [], obs_log = [], repairs = []\<rparr>\<rparr>"

lemma ex_staging_dir: "bucket_dir ex_store StagingBucket = [''d'', ''objects'', StagingBucket]"
  by (simp add: bucket_dir_def ex_store_def StagingBucket_def) code_simp

lemma ex_gc_ok: "staged_ok ex_store (s3Objs (ex_gc_server key))" "meta_ok (s3Meta (ex_gc_server key))"
proof -
  have "abs_base (lBase ex_store)" by (simp add: ex_store_def)
  moreover have "tree_ok (s3Objs (ex_gc_server key))"
    by (auto simp: tree_ok_def ex_gc_server_def lookup_def split: if_splits)
  moreover have "list_all good_elem p" if "file_at (s3Objs (ex_gc_server key)) p \<noteq> None" for p
    using that by (auto simp: file_at_def ex_gc_server_def lookup_def good_elem_def StagingBucket_def split: if_splits)
  moreover have "file_at (s3Objs (ex_gc_server key)) (bucket_dir ex_store StagingBucket) = None"
    by (simp add: ex_staging_dir file_at_def ex_gc_server_def lookup_def)
  moreover have "file_at (s3Objs (ex_gc_server key)) (bucket_dir ex_store StagingBucket @ ks @ [ManifestFilename]) = None" for ks
    by (auto simp: ex_staging_dir file_at_def ex_gc_server_def lookup_def ManifestFilename_def append_eq_Cons_conv split: if_splits)
  ultimately show "staged_ok ex_store (s3Objs (ex_gc_server key))" by (simp add: staged_ok_def)
  show "meta_ok (s3Meta (ex_gc_server key))" by (simp add: meta_ok_def ex_gc_server_def upload_ok_def)
qed

theorem gc_returns_witness:
  "\<exists>res st'. run_multipart_gc (localfs_objs ex_store (ex_json ex_manifest)) 10 5 (ex_gc_server ''k'') = Some (res, st') \<and>
     gcScanned res = 1 \<and> gcAborted res = 1 \<and> get_upload ''ab'' (s3Meta st') = Inl ErrUploadNotFound"
proof -
  have s: "stale 10 5 \<lparr>muUploadID = i, muBucket = b, muKey = k, muInitiated = 0, muParts = []\<rparr>" for i b k
    by (simp add: stale_def sub_time_def)
  show ?thesis
    using gc_returns [OF ex_gc_ok [of "''k''"], where jc = "ex_json ex_manifest" and now = 10 and olderThan = 5]
    by (auto simp: ex_gc_server_def get_upload_def s)
qed

lemma ex_stale_file: "''bkt/k/ab/part.1'' \<in> stale_files ex_store 10 5 (ex_gc_server ''k'')"
proof -
  have "key_elems ''bkt/k/ab/part.1'' = [''bkt'', ''k'', ''ab'', ''part.1'']" by code_simp
  moreover have "clean_key ''bkt/k/ab/part.1'' = ''bkt/k/ab/part.1''" by code_simp
  moreover have "os_path (lBase ex_store) = [''d'']" unfolding ex_store_def by code_simp
  ultimately show ?thesis
    by (auto simp: stale_files_def staged_key_def staged_place_def obj_elems_def ex_gc_server_def file_at_def lookup_def
        stale_def sub_time_def gc_prefix_def has_prefix_iff ManifestFilename_def)
qed


subsection \<open>Where the prefix misleads\<close>

text \<open>
  The parts of an upload whose key is not in canonical form are staged under the cleaned key,
  which does not have the prefix the collector looks for: the upload is aborted, its parts stay.
\<close>

lemma gc_leaves_unclean_part:
  "clean_key (part_key ''bkt'' ''.//k'' ''ab'' 1) = ''bkt/k/ab/part.1'' \<and>
   ''bkt/k/ab/part.1'' \<notin> stale_files ex_store 10 5 (ex_gc_server ''.//k'')"
proof -
  have "part_key ''bkt'' ''.//k'' ''ab'' 1 = ''bkt/.//k/ab/part.1''" unfolding part_key_def by code_simp
  moreover have "clean_key ''bkt/.//k/ab/part.1'' = ''bkt/k/ab/part.1''" by code_simp
  ultimately show ?thesis by (auto simp: stale_files_def ex_gc_server_def gc_prefix_def has_prefix_iff)
qed

text \<open>
  The prefix of an upload is also a prefix of the parts of any upload whose key continues the
  first one's key and id: collecting the stale one deletes parts of the live one.
\<close>

lemma gc_prefix_overlap:
  "has_prefix (part_key (muBucket u) (muKey u @ ''/'' @ muUploadID u @ ''/'' @ rest_key) uid n) (gc_prefix u)"
  by (simp add: part_key_def gc_prefix_def has_prefix_iff)

end
