(* ===== verification/AdminAuth.thy ===== *)
theory AdminAuth imports RepairQueue
begin

text \<open>
  Authentication and authorisation of the admin API (src/pkg/security/oidc): the choice of the
  token verifier, the subject read from a token's claims, the bearer-token middleware, the role
  policy and the role check. The OIDC library is code outside the repository: discovery,
  signature checking and JSON decoding are arguments. The order in which Go ranges over the set
  of roles is an argument too.
\<close>

subsection \<open>The verifier\<close>

record oidc_config =
  ocIssuer :: string
  ocClientID :: string
  ocAudience :: string
  ocJWKSURL :: string

text \<open>A verifier by discovered provider, or by a remote key set; the audience it expects.\<close>

datatype 'p token_verifier = ByProvider 'p string | ByKeySet string string string

definition new_verifier :: "(string \<Rightarrow> 'p result) \<Rightarrow> oidc_config \<Rightarrow> 'p token_verifier result" where
  "new_verifier discover cfg =
     (let expectedAud = (if ocAudience cfg = '''' then ocClientID cfg else ocAudience cfg) in
      if ocIssuer cfg \<noteq> '''' then
        (case discover (ocIssuer cfg) of
           Inl e \<Rightarrow> Inl (ErrText ''oidc: provider discovery failed'')
         | Inr p \<Rightarrow> Inr (ByProvider p expectedAud))
      else if ocJWKSURL cfg \<noteq> '''' then Inr (ByKeySet (ocIssuer cfg) (ocJWKSURL cfg) expectedAud)
      else Inl (ErrText ''oidc: either Issuer or JWKSURL must be provided''))"

text \<open>A claim of any JSON type; in a list, \<open>None\<close> is an element that is not a string.\<close>

datatype any_claim = NoClaim | StrClaim string | ListClaim "string option list" | StrsClaim "string list" | OtherClaim

record claims =
  clExp :: int
  clSub :: string
  clIss :: string
  clAud :: any_claim
  clRoles :: any_claim
  clScope :: string
  clScp :: any_claim
  clRealmRoles :: "string list"

record subject =
  sbSubject :: string
  sbIssuer :: string
  sbAudience :: string
  sbExpiresAt :: int
  sbRoles :: "string list"
  sbScopes :: "string list"

definition audience_of :: "any_claim \<Rightarrow> string" where
  "audience_of c =
     (case c of
        StrClaim s \<Rightarrow> s
      | ListClaim (Some s # _) \<Rightarrow> s
      | StrsClaim (s # _) \<Rightarrow> s
      | _ \<Rightarrow> '''')"

definition trim_nonempty :: "string list \<Rightarrow> string list" where
  "trim_nonempty ss = filter (\<lambda>s. s \<noteq> '''') (map trim_space ss)"

fun some_strings :: "string option list \<Rightarrow> string list" where
  "some_strings [] = []"
| "some_strings (None # xs) = some_strings xs"
| "some_strings (Some s # xs) = s # some_strings xs"

text \<open>The set of roles, in the order they are found.\<close>

definition role_set :: "claims \<Rightarrow> string list" where
  "role_set cl =
     remdups (trim_nonempty
       ((case clRoles cl of ListClaim xs \<Rightarrow> some_strings xs | StrsClaim xs \<Rightarrow> xs | StrClaim s \<Rightarrow> [s] | _ \<Rightarrow> []) @ clRealmRoles cl))"

definition scopes_of :: "claims \<Rightarrow> string list" where
  "scopes_of cl =
     (if clScope cl \<noteq> '''' then trim_nonempty (split_on CHR '' '' (clScope cl)) else []) @
     (case clScp cl of
        ListClaim xs \<Rightarrow> map trim_space (some_strings xs)
      | StrsClaim xs \<Rightarrow> map trim_space xs
      | StrClaim s \<Rightarrow> trim_nonempty (split_on CHR '' '' s)
      | _ \<Rightarrow> [])"

text \<open>\<open>Verify\<close>: the library's check of the raw token, then the subject from its claims.\<close>

definition verify_token ::
    "(string list \<Rightarrow> string list) \<Rightarrow> (string \<Rightarrow> 't result) option \<Rightarrow> ('t \<Rightarrow> claims result) \<Rightarrow> string \<Rightarrow> subject result" where
  "verify_token order check decode raw =
     (case check of
        None \<Rightarrow> Inl (ErrText ''oidc: verifier not initialized'')
      | Some f \<Rightarrow>
          (case f raw of
             Inl e \<Rightarrow> Inl (ErrText ''oidc: token verification failed'')
           | Inr idt \<Rightarrow>
               (case decode idt of
                  Inl e \<Rightarrow> Inl (ErrText ''oidc: parse claims'')
                | Inr cl \<Rightarrow>
                    Inr \<lparr>sbSubject = clSub cl, sbIssuer = clIss cl, sbAudience = audience_of (clAud cl),
                         sbExpiresAt = clExp cl, sbRoles = order (role_set cl), sbScopes = scopes_of cl\<rparr>)))"

subsection \<open>Requests, context and middleware\<close>

text \<open>
  A request: method, path, Authorization header, the \<open>olderThan\<close> parameter, the JSON body if it
  decodes, and from its surroundings the error of a cancelled context, the choice of a
  \<open>select\<close> and the time.
\<close>

record admin_request =
  aqMethod :: string
  aqPath :: string
  aqAuthorization :: string
  aqOlderThan :: string
  aqBody :: "repair_item option"
  aqCtx :: "err option"
  aqCtxFirst :: bool
  aqNow :: int

text \<open>What the request context carries, and the response header the middleware sets.\<close>

record admin_context =
  acSubject :: "subject option"
  acHeader :: "string option"

definition empty_context :: admin_context where
  "empty_context = \<lparr>acSubject = None, acHeader = None\<rparr>"

definition with_subject :: "subject option \<Rightarrow> admin_context \<Rightarrow> admin_context" where
  "with_subject s c = (case s of None \<Rightarrow> c | Some _ \<Rightarrow> c\<lparr>acSubject := s\<rparr>)"

definition subject_from_context :: "admin_context \<Rightarrow> subject option" where
  "subject_from_context c = acSubject c"

text \<open>
  A handler on a state: a status with a JSON value, or an error text (\<open>None\<close>), and the new state,
  unless it blocks or panics. \<open>oidc_middleware\<close> and \<open>rbac\<close> wrap one.
\<close>

type_synonym ('b, 's) admin_handler =
  "admin_request \<Rightarrow> admin_context \<Rightarrow> 's \<Rightarrow> ((nat \<times> 'b option) \<times> 's) outcome"

definition http_error :: "nat \<Rightarrow> 's \<Rightarrow> ((nat \<times> 'b option) \<times> 's) outcome" where
  "http_error status s = Done ((status, None), s)"

definition oidc_middleware ::
    "(string \<Rightarrow> subject option result) \<Rightarrow> (admin_request \<Rightarrow> bool) option \<Rightarrow> ('b, 's) admin_handler \<Rightarrow> ('b, 's) admin_handler" where
  "oidc_middleware verify exempt next_handler rq c s =
     (if (case exempt of None \<Rightarrow> False | Some ex \<Rightarrow> ex rq) then next_handler rq c s
      else
        (let authz = aqAuthorization rq in
         if authz = '''' \<or> \<not> has_prefix authz ''Bearer '' then http_error 401 s
         else
           (let raw = trim_space (trim_prefix authz ''Bearer '') in
            case verify raw of
              Inl e \<Rightarrow> http_error 401 s
            | Inr None \<Rightarrow> next_handler rq c s
            | Inr (Some subj) \<Rightarrow> next_handler rq (with_subject (Some subj) (c\<lparr>acHeader := Some (sbSubject subj)\<rparr>)) s)))"

definition has_any :: "subject option \<Rightarrow> string list \<Rightarrow> bool" where
  "has_any s required =
     (case s of
        None \<Rightarrow> True
      | Some subj \<Rightarrow>
          if required = [] then True
          else list_ex (\<lambda>req. list_ex (\<lambda>r. r = req) (sbRoles subj) \<or> list_ex (\<lambda>sc. sc = req) (sbScopes subj)) required)"

definition rbac :: "(admin_request \<Rightarrow> string list) option \<Rightarrow> ('b, 's) admin_handler \<Rightarrow> ('b, 's) admin_handler" where
  "rbac policy next_handler rq c s =
     (let reqRoles = (case policy of None \<Rightarrow> [] | Some p \<Rightarrow> p rq) in
      if reqRoles = [] then next_handler rq c s
      else
        (case subject_from_context c of
           None \<Rightarrow> http_error 403 s
         | Some subj \<Rightarrow> if \<not> has_any (Some subj) reqRoles then http_error 403 s else next_handler rq c s))"

definition default_admin_policy :: "admin_request \<Rightarrow> string list" where
  "default_admin_policy rq =
     (let mth = aqMethod rq; path = aqPath rq in
      if mth = ''GET'' \<and> path = ''/admin/health'' then [''admin.read'']
      else if mth = ''GET'' \<and> path = ''/admin/version'' then [''admin.read'']
      else if mth = ''POST'' \<and> path = ''/admin/gc/multipart'' then [''admin.gc'']
      else if mth = ''GET'' \<and> path = ''/admin/scrub/stats'' then [''admin.read'']
      else if mth = ''POST'' \<and> path = ''/admin/scrub/runonce'' then [''admin.scrub'']
      else if mth = ''GET'' \<and> path = ''/admin/repair/stats'' then [''admin.repair.read'']
      else if mth = ''POST'' \<and> path = ''/admin/repair/enqueue'' then [''admin.repair.enqueue'']
      else if mth = ''GET'' \<and> path = ''/admin/repair/worker/stats'' then [''admin.repair.read'']
      else if mth = ''POST'' \<and> path = ''/admin/repair/worker/pause'' then [''admin.repair.control'']
      else if mth = ''POST'' \<and> path = ''/admin/repair/worker/resume'' then [''admin.repair.control'']
      else if mth = ''GET'' \<and> 7 \<le> length path \<and> take 7 path = ''/admin/'' then [''admin.read'']
      else [])"

end
