(* ===== verification/AdminProps.thy ===== *)
theory AdminProps imports AdminApi
begin

text \<open>
  What the admin API guarantees: the access matrix of the endpoints that change state, the
  component each of them may change, and that with authentication on nothing changes without
  a verified token that has the endpoint's role.
\<close>

subsection \<open>The access matrix\<close>

definition admin_grants :: "(string \<times> string) list" where
  "admin_grants =
     [(''/admin/gc/multipart'', ''admin.gc''), (''/admin/scrub/runonce'', ''admin.scrub''),
      (''/admin/repair/enqueue'', ''admin.repair.enqueue''), (''/admin/repair/worker/pause'', ''admin.repair.control''),
      (''/admin/repair/worker/resume'', ''admin.repair.control'')]"

text \<open>An endpoint changes one component and leaves the others alone.\<close>

definition only_component :: "string \<Rightarrow> ('w, 's) admin_state \<Rightarrow> ('w, 's) admin_state \<Rightarrow> bool" where
  "only_component path s s' \<longleftrightarrow>
     (if path = ''/admin/gc/multipart'' then s' = s\<lparr>adServer := adServer s'\<rparr>
      else if path = ''/admin/scrub/runonce'' then s' = s\<lparr>adScrubber := adScrubber s'\<rparr>
      else if path = ''/admin/repair/enqueue'' then s' = s\<lparr>adQueue := adQueue s'\<rparr>
      else s' = s\<lparr>adWorker := adWorker s'\<rparr>)"

lemma policy_grants:
  "aqMethod rq = ''POST'' \<Longrightarrow> (aqPath rq, role) \<in> set admin_grants \<Longrightarrow> default_admin_policy rq = [role]"
  by (auto simp: admin_grants_def default_admin_policy_def Let_def)

lemma http_error_state [simp]: "http_error n s = Done (r, s') \<longleftrightarrow> r = (n, None) \<and> s' = s"
  by (auto simp: http_error_def)

lemma json_reply_state [simp]: "json_reply n b s = Done (r, s') \<longleftrightarrow> r = (n, Some b) \<and> s' = s"
  by (auto simp: json_reply_def)

lemmas admin_handler_defs =
  multipart_gc_handler_def scrub_stats_handler_def scrub_run_handler_def queue_stats_handler_def enqueue_handler_def
  worker_stats_handler_def worker_pause_handler_def worker_resume_handler_def

text \<open>The handlers by themselves: what changes state is a POST to its own endpoint.\<close>

lemma handler_effects:
  "multipart_gc_handler ob pd rq c s = Done (r, s') \<Longrightarrow> s' = s \<or> aqMethod rq = ''POST'' \<and> s' = s\<lparr>adServer := adServer s'\<rparr>"
  "scrub_run_handler so rq c s = Done (r, s') \<Longrightarrow> s' = s \<or> aqMethod rq = ''POST'' \<and> s' = s\<lparr>adScrubber := adScrubber s'\<rparr>"
  "enqueue_handler rq c s = Done (r, s') \<Longrightarrow> s' = s \<or> aqMethod rq = ''POST'' \<and> s' = s\<lparr>adQueue := adQueue s'\<rparr>"
  "worker_pause_handler rq c s = Done (r, s') \<Longrightarrow> s' = s \<or> aqMethod rq = ''POST'' \<and> s' = s\<lparr>adWorker := adWorker s'\<rparr>"
  "worker_resume_handler rq c s = Done (r, s') \<Longrightarrow> s' = s \<or> aqMethod rq = ''POST'' \<and> s' = s\<lparr>adWorker := adWorker s'\<rparr>"
  "scrub_stats_handler so rq c s = Done (r, s') \<Longrightarrow> s' = s"
  "queue_stats_handler rq c s = Done (r, s') \<Longrightarrow> s' = s"
  "worker_stats_handler rq c s = Done (r, s') \<Longrightarrow> s' = s"
  by (auto simp: admin_handler_defs Let_def split: if_splits option.splits prod.splits sum.splits outcome.splits)

lemma mux_effect:
  assumes mux: "admin_mux ob so pd ready miss rq c s = Done (r, s')" and ch: "s' \<noteq> s"
  shows "aqMethod rq = ''POST'' \<and> (\<exists>role. (aqPath rq, role) \<in> set admin_grants) \<and> only_component (aqPath rq) s s'"
proof -
  consider (gc) "aqPath rq = ''/admin/gc/multipart''" "multipart_gc_handler ob pd rq c s = Done (r, s')"
    | (scrub) "aqPath rq = ''/admin/scrub/runonce''" "scrub_run_handler so rq c s = Done (r, s')"
    | (enq) "aqPath rq = ''/admin/repair/enqueue''" "enqueue_handler rq c s = Done (r, s')"
    | (pause) "aqPath rq = ''/admin/repair/worker/pause''" "worker_pause_handler rq c s = Done (r, s')"
    | (resume) "aqPath rq = ''/admin/repair/worker/resume''" "worker_resume_handler rq c s = Done (r, s')"
    using mux ch by (auto simp: admin_mux_def Let_def dest: handler_effects(6-8) split: if_splits)
  then show ?thesis
  proof cases
    case gc
    with handler_effects(1) [OF gc(2)] ch show ?thesis by (auto simp: admin_grants_def only_component_def)
  next
    case scrub
    with handler_effects(2) [OF scrub(2)] ch show ?thesis by (auto simp: admin_grants_def only_component_def)
  next
    case enq
    with handler_effects(3) [OF enq(2)] ch show ?thesis by (auto simp: admin_grants_def only_component_def)
  next
    case pause
    with handler_effects(4) [OF pause(2)] ch show ?thesis by (auto simp: admin_grants_def only_component_def)
  next
    case resume
    with handler_effects(5) [OF resume(2)] ch show ?thesis by (auto simp: admin_grants_def only_component_def)
  qed
qed

lemma has_any_role: "has_any (Some sb) [role] \<longleftrightarrow> role \<in> set (sbRoles sb) \<or> role \<in> set (sbScopes sb)"
  by (auto simp: has_any_def list_ex_iff)

text \<open>The role check in front of the mux.\<close>

lemma rbac_effect:
  assumes rb: "rbac (Some default_admin_policy) (admin_mux ob so pd ready miss) rq c s = Done (r, s')" and ch: "s' \<noteq> s"
  shows "aqMethod rq = ''POST'' \<and> only_component (aqPath rq) s s' \<and>
    (\<exists>role sb. (aqPath rq, role) \<in> set admin_grants \<and> acSubject c = Some sb \<and> (role \<in> set (sbRoles sb) \<or> role \<in> set (sbScopes sb)))"
proof -
  have mux: "admin_mux ob so pd ready miss rq c s = Done (r, s')"
    using rb ch by (auto simp: rbac_def Let_def split: if_splits option.splits)
  note eff = mux_effect [OF mux ch]
  then obtain role where role: "(aqPath rq, role) \<in> set admin_grants" by blast
  with eff have "default_admin_policy rq = [role]" by (intro policy_grants) auto
  then have "\<exists>sb. acSubject c = Some sb \<and> has_any (Some sb) [role]"
    using rb ch by (auto simp: rbac_def Let_def subject_from_context_def split: if_splits option.splits)
  then show ?thesis using eff role by (auto simp: has_any_role)
qed

text \<open>
  C11. Nothing changes through the admin API without authority. With authentication on and a
  verifier in place, let a request change the state of a component. Then it carries a bearer
  token the OIDC library accepted and whose claims decode, and among the roles or scopes of
  those claims is the one required at that endpoint; it is a POST to one of the five endpoints
  that change state, and changes only that endpoint's component.
\<close>

theorem admin_effects_authorized:
  assumes on: "aaEnabled cfg" and order: "\<And>xs. set (order xs) = set xs"
    and serve: "admin_serve cfg (Inr (verify_token order (Some check) decode)) ob so pd ready miss rq s = Done (r, s')"
    and changed: "s' \<noteq> s"
  shows "\<exists>idt cl role.
    has_prefix (aqAuthorization rq) ''Bearer '' \<and>
    check (trim_space (trim_prefix (aqAuthorization rq) ''Bearer '')) = Inr idt \<and> decode idt = Inr cl \<and>
    (role \<in> set (role_set cl) \<or> role \<in> set (scopes_of cl)) \<and>
    (aqPath rq, role) \<in> set admin_grants \<and> aqMethod rq = ''POST'' \<and> only_component (aqPath rq) s s'"
proof -
  let ?raw = "trim_space (trim_prefix (aqAuthorization rq) ''Bearer '')"
  let ?v = "verify_token order (Some check) decode"
  let ?rbac = "rbac (Some default_admin_policy) (admin_mux ob so pd ready miss)"
  have mw: "oidc_middleware (\<lambda>raw. map_sum id Some (?v raw)) (Some (admin_exempt cfg)) ?rbac rq empty_context s = Done (r, s')"
    using serve on by (simp add: admin_serve_def protect_admin_def)
  have "\<not> admin_exempt cfg rq"
  proof
    assume ex: "admin_exempt cfg rq"
    with mw have "?rbac rq empty_context s = Done (r, s')" by (simp add: oidc_middleware_def)
    from rbac_effect [OF this changed] show False by (simp add: empty_context_def)
  qed
  with mw changed obtain sb where b: "has_prefix (aqAuthorization rq) ''Bearer ''" and v: "?v ?raw = Inr sb"
    and rb: "?rbac rq (with_subject (Some sb) (empty_context\<lparr>acHeader := Some (sbSubject sb)\<rparr>)) s = Done (r, s')"
    by (cases "?v ?raw") (auto simp: oidc_middleware_def Let_def split: if_splits)
  obtain idt cl where tok: "check ?raw = Inr idt" "decode idt = Inr cl" "sbRoles sb = order (role_set cl)" "sbScopes sb = scopes_of cl"
    using v by (auto simp: verify_token_def split: sum.splits)
  from rbac_effect [OF rb changed] show ?thesis
    using b tok order by (auto simp: with_subject_def empty_context_def)
qed

subsection \<open>Witness and the unauthenticated probes\<close>

definition ex_claims :: "string \<Rightarrow> claims" where
  "ex_claims scope = \<lparr>clExp = 0, clSub = ''ops'', clIss = ''i'', clAud = NoClaim, clRoles = NoClaim, clScope = scope, clScp = NoClaim,
     clRealmRoles = []\<rparr>"

definition ex_admin_request :: "string \<Rightarrow> string \<Rightarrow> string \<Rightarrow> admin_request" where
  "ex_admin_request mth path auth = \<lparr>aqMethod = mth, aqPath = path, aqAuthorization = auth, aqOlderThan = '''', aqBody = None,
     aqCtx = None, aqCtxFirst = False, aqNow = 5\<rparr>"

definition ex_admin_state :: "(unit, nat) admin_state" where
  "ex_admin_state = \<lparr>adServer = \<lparr>s3Meta = new_memory_store, s3Objs = ()\<rparr>, adQueue = None, adWorker = None, adScrubber = Some 0\<rparr>"

definition ex_scrubber_ops :: "nat scrubber_ops" where
  "ex_scrubber_ops = \<lparr>soRunOnce = (\<lambda>n. (Inr (), Suc n)), soStats = (\<lambda>_. zero_scrub_stats)\<rparr>"

definition ex_check :: "string \<Rightarrow> string result" where
  "ex_check raw = (if raw = ''tok'' then Inr raw else Inl (ErrText ''bad token''))"

definition ex_admin :: "admin_auth_config \<Rightarrow> string \<Rightarrow> unit objs \<Rightarrow> admin_request \<Rightarrow>
    ((nat \<times> admin_body option) \<times> (unit, nat) admin_state) outcome" where
  "ex_admin cfg scope ob rq = admin_serve cfg (Inr (verify_token id (Some ex_check) (\<lambda>_. Inr (ex_claims scope)))) ob
     ex_scrubber_ops (\<lambda>_. None) True (\<lambda>_. 404) rq ex_admin_state"

lemma ex_trim: "trim_prefix ''Bearer tok'' ''Bearer '' = ''tok''" "has_prefix ''Bearer tok'' ''Bearer ''" "trim_space ''tok'' = ''tok''"
    "scopes_of (ex_claims ''admin.scrub'') = [''admin.scrub'']"
  by code_simp+

lemma ex_admin_run:
  "ex_admin \<lparr>aaEnabled = True, aaAllowUnauthHealth = True, aaAllowUnauthVersion = True\<rparr> ''admin.scrub'' ob
     (ex_admin_request ''POST'' ''/admin/scrub/runonce'' ''Bearer tok'') =
   Done ((200, Some (ScrubBody zero_scrub_stats)), ex_admin_state\<lparr>adScrubber := Some 1\<rparr>)"
  by (simp add: ex_admin_def admin_serve_def protect_admin_def oidc_middleware_def admin_exempt_def ex_admin_request_def ex_trim
      verify_token_def ex_check_def rbac_def default_admin_policy_def with_subject_def subject_from_context_def has_any_def
      admin_mux_def scrub_run_handler_def ex_admin_state_def ex_scrubber_ops_def json_reply_def)

theorem admin_effects_authorized_witness:
  "\<exists>idt cl. ex_check (trim_space (trim_prefix ''Bearer tok'' ''Bearer '')) = Inr idt \<and>
     ex_claims ''admin.scrub'' = cl \<and> (''admin.scrub'' \<in> set (role_set cl) \<or> ''admin.scrub'' \<in> set (scopes_of cl))"
proof -
  have "set (id xs) = set xs" for xs :: "string list" by simp
  moreover have "aaEnabled \<lparr>aaEnabled = True, aaAllowUnauthHealth = True, aaAllowUnauthVersion = True\<rparr>" by simp
  moreover have "ex_admin_state\<lparr>adScrubber := Some 1\<rparr> \<noteq> ex_admin_state" by (simp add: ex_admin_state_def)
  ultimately show ?thesis
    using admin_effects_authorized [OF _ _ ex_admin_run [unfolded ex_admin_def]]
    by (fastforce simp: ex_admin_request_def admin_grants_def)
qed

text \<open>
  The exemption of the health probe does not work: the request passes the token middleware
  without a subject, and the role check behind it, which wants \<open>admin.read\<close>, answers 403.
\<close>

lemma exempt_health_forbidden:
  "ex_admin \<lparr>aaEnabled = True, aaAllowUnauthHealth = True, aaAllowUnauthVersion = True\<rparr> scope ob
     (ex_admin_request ''GET'' ''/admin/health'' '''') = Done ((403, None), ex_admin_state)"
  by (simp add: ex_admin_def admin_serve_def protect_admin_def oidc_middleware_def admin_exempt_def ex_admin_request_def
      rbac_def default_admin_policy_def subject_from_context_def empty_context_def http_error_def)

text \<open>When the verifier can't be built the admin API is served without any check.\<close>

lemma failed_verifier_open:
  "admin_serve cfg (Inl e) ob so pd ready miss rq s = admin_mux ob so pd ready miss rq empty_context s"
  by (simp add: admin_serve_def protect_admin_def)

end
