(* ===== verification/Config.thy ===== *)
theory Config imports Complex_Main LocalFS Sigv4
begin

text \<open>
  Configuration (src/pkg/config/config.go): the record of settings with its defaults, loading a
  YAML file over them, the overrides by environment variables, the creation of the data
  directories, and what main makes of the access keys. The YAML decoder is an argument, as is
  the parser of floating-point numbers; a sampling ratio is a number or not a number.
\<close>

subsection \<open>Settings\<close>

record static_access_key =
  saAccessKey :: string
  saSecretKey :: string
  saUser :: string

datatype float64 = NaN | NegInf | Fin rat | PosInf

record tracing_config =
  tcEnabled :: bool
  tcEndpoint :: string
  tcProtocol :: string
  tcSampleRatio :: float64
  tcServiceName :: string
  tcKeyHashEnabled :: bool

record sealed_config =
  scEnabled :: bool
  scVerifyOnRead :: bool

record scrubber_config =
  sbEnabled :: bool
  sbInterval :: string
  sbConcurrency :: int
  sbVerifyPayload :: "bool option"

record gc_config =
  gcEnabled :: bool
  gcInterval :: string
  gcOlderThan :: string

record oidc_settings =
  osEnabled :: bool
  osIssuer :: string
  osClientID :: string
  osAudience :: string
  osJWKSURL :: string
  osAllowUnauthHealth :: bool
  osAllowUnauthVersion :: bool

record limits_config =
  lcSinglePutMaxBytes :: int
  lcMinMultipartPartSize :: int

record repair_config =
  rpEnabled :: bool
  rpWorkerEnabled :: bool
  rpWorkerConcurrency :: int

record config =
  cfAddress :: string
  cfAdminAddress :: string
  cfDataDirs :: "string list"
  cfAuthMode :: string
  cfAccessKeys :: "static_access_key list"
  cfTracing :: tracing_config
  cfSealed :: sealed_config
  cfGC :: gc_config
  cfScrubber :: scrubber_config
  cfOIDC :: oidc_settings
  cfLimits :: limits_config
  cfRepair :: repair_config

definition default_config :: config where
  "default_config =
     \<lparr>cfAddress = '':8080'', cfAdminAddress = '''', cfDataDirs = [''./data''], cfAuthMode = ''none'', cfAccessKeys = [],
      cfTracing = \<lparr>tcEnabled = False, tcEndpoint = '''', tcProtocol = ''grpc'', tcSampleRatio = Fin 0,
        tcServiceName = ''shardseal'', tcKeyHashEnabled = False\<rparr>,
      cfSealed = \<lparr>scEnabled = False, scVerifyOnRead = False\<rparr>,
      cfGC = \<lparr>gcEnabled = False, gcInterval = ''15m'', gcOlderThan = ''24h''\<rparr>,
      cfScrubber = \<lparr>sbEnabled = False, sbInterval = ''1h'', sbConcurrency = 1, sbVerifyPayload = None\<rparr>,
      cfOIDC = \<lparr>osEnabled = False, osIssuer = '''', osClientID = '''', osAudience = '''', osJWKSURL = '''',
        osAllowUnauthHealth = False, osAllowUnauthVersion = False\<rparr>,
      cfLimits = \<lparr>lcSinglePutMaxBytes = 5 * 1024 * 1024 * 1024, lcMinMultipartPartSize = 5 * 1024 * 1024\<rparr>,
      cfRepair = \<lparr>rpEnabled = False, rpWorkerEnabled = True, rpWorkerConcurrency = 1\<rparr>\<rparr>"

subsection \<open>Values of environment variables\<close>

text \<open>The loops of \<open>splitAndTrim\<close>: over the blanks at both ends of a segment, and over the string.\<close>

definition blank :: "char \<Rightarrow> bool" where
  "blank c \<longleftrightarrow> c = CHR '' '' \<or> c = CHR 0x09 \<or> c = CHR 0x0A"

function blanks_front :: "string \<Rightarrow> nat \<Rightarrow> nat \<Rightarrow> nat" where
  "blanks_front seg j k = (if j < k \<and> blank (seg ! j) then blanks_front seg (Suc j) k else j)"
  by pat_completeness auto
termination by (relation "measure (\<lambda>(seg, j, k). k - j)") auto

function blanks_back :: "string \<Rightarrow> nat \<Rightarrow> nat \<Rightarrow> nat" where
  "blanks_back seg j k = (if j < k \<and> blank (seg ! (k - 1)) then blanks_back seg j (k - 1) else k)"
  by pat_completeness auto
termination by (relation "measure (\<lambda>(seg, j, k). k)") auto

declare blanks_front.simps [simp del] blanks_back.simps [simp del]

definition trim_seg :: "string \<Rightarrow> string" where
  "trim_seg seg =
     (let j = blanks_front seg 0 (length seg); k = blanks_back seg j (length seg)
      in if j < k then take (k - j) (drop j seg) else '''')"

function split_scan :: "string \<Rightarrow> nat \<Rightarrow> nat \<Rightarrow> string list" where
  "split_scan s start i =
     (if i > length s then []
      else if i = length s \<or> s ! i = CHR '','' then
        (let seg = trim_seg (take (i - start) (drop start s)) in
         (if seg = '''' then [] else [seg]) @ split_scan s (Suc i) (Suc i))
      else split_scan s start (Suc i))"
  by pat_completeness auto
termination by (relation "measure (\<lambda>(s, start, i). Suc (length s) - i)") auto

declare split_scan.simps [simp del]

definition split_and_trim :: "string \<Rightarrow> string list" where
  "split_and_trim s = split_scan s 0 0"

definition parse_access_key :: "string \<Rightarrow> static_access_key option" where
  "parse_access_key e =
     (case split_on CHR '':'' e of
        ak0 # sk0 # us \<Rightarrow>
          (let ak = trim_space ak0; sk = trim_space sk0; user = (case us of [] \<Rightarrow> '''' | u # _ \<Rightarrow> trim_space u) in
           if ak = '''' \<or> sk = '''' then None else Some \<lparr>saAccessKey = ak, saSecretKey = sk, saUser = user\<rparr>)
      | _ \<Rightarrow> None)"

definition parse_access_keys_env :: "string \<Rightarrow> static_access_key list" where
  "parse_access_keys_env s = List.map_filter parse_access_key (split_and_trim s)"

definition env_bool :: "string \<Rightarrow> bool \<Rightarrow> bool" where
  "env_bool v current =
     (if v = '''' then current
      else
        (let w = to_lower (trim_space v) in
         if w \<in> {''1'', ''true'', ''yes'', ''y'', ''on''} then True
         else if w \<in> {''0'', ''false'', ''no'', ''n'', ''off''} then False
         else current))"

definition env_text :: "string \<Rightarrow> string \<Rightarrow> string" where
  "env_text v current = (if v = '''' then current else trim_space v)"

definition env_positive :: "string \<Rightarrow> int \<Rightarrow> int" where
  "env_positive v current =
     (if v = '''' then current
      else (case parse_int (trim_space v) of Some x \<Rightarrow> if x > 0 then x else current | None \<Rightarrow> current))"

definition clamp_ratio :: "float64 \<Rightarrow> float64" where
  "clamp_ratio f =
     (case f of NaN \<Rightarrow> NaN | NegInf \<Rightarrow> Fin 0 | PosInf \<Rightarrow> Fin 1 | Fin x \<Rightarrow> Fin (if x < 0 then 0 else if x > 1 then 1 else x))"

subsection \<open>Overrides\<close>

type_synonym environment = "string \<Rightarrow> string"

definition env_basic :: "environment \<Rightarrow> config \<Rightarrow> config" where
  "env_basic env c =
     (let addr = env ''SHARDSEAL_ADDR''; admin = env ''SHARDSEAL_ADMIN_ADDR''; dirs = env ''SHARDSEAL_DATA_DIRS'';
          mode = env ''SHARDSEAL_AUTH_MODE''; m = to_lower (trim_space mode);
          aks = env ''SHARDSEAL_ACCESS_KEYS''; keys = parse_access_keys_env aks
      in c\<lparr>cfAddress := if addr = '''' then cfAddress c else addr,
           cfAdminAddress := if admin = '''' then cfAdminAddress c else admin,
           cfDataDirs := if dirs = '''' then cfDataDirs c else split_and_trim dirs,
           cfAuthMode := if mode \<noteq> '''' \<and> (m = ''none'' \<or> m = ''sigv4'') then m else cfAuthMode c,
           cfAccessKeys := if aks \<noteq> '''' \<and> keys \<noteq> [] then keys else cfAccessKeys c\<rparr>)"

definition env_tracing :: "(string \<Rightarrow> float64 option) \<Rightarrow> environment \<Rightarrow> tracing_config \<Rightarrow> tracing_config" where
  "env_tracing parse_float env t =
     (let proto = env ''SHARDSEAL_TRACING_PROTOCOL''; p = to_lower (trim_space proto); smp = env ''SHARDSEAL_TRACING_SAMPLE''
      in t\<lparr>tcEnabled := env_bool (env ''SHARDSEAL_TRACING_ENABLED'') (tcEnabled t),
           tcEndpoint := env_text (env ''SHARDSEAL_TRACING_ENDPOINT'') (tcEndpoint t),
           tcProtocol := if proto \<noteq> '''' \<and> (p = ''grpc'' \<or> p = ''http'') then p else tcProtocol t,
           tcSampleRatio := (if smp = '''' then tcSampleRatio t
             else (case parse_float (trim_space smp) of Some f \<Rightarrow> clamp_ratio f | None \<Rightarrow> tcSampleRatio t)),
           tcServiceName := env_text (env ''SHARDSEAL_TRACING_SERVICE'') (tcServiceName t),
           tcKeyHashEnabled := env_bool (env ''SHARDSEAL_TRACING_KEY_HASH'') (tcKeyHashEnabled t)\<rparr>)"

definition env_sealed :: "environment \<Rightarrow> sealed_config \<Rightarrow> sealed_config" where
  "env_sealed env c =
     c\<lparr>scEnabled := env_bool (env ''SHARDSEAL_SEALED_ENABLED'') (scEnabled c),
       scVerifyOnRead := env_bool (env ''SHARDSEAL_SEALED_VERIFY_ON_READ'') (scVerifyOnRead c)\<rparr>"

text \<open>The payload toggle stays unset unless the variable has a valid value.\<close>

definition env_toggle :: "string \<Rightarrow> bool option \<Rightarrow> bool option" where
  "env_toggle v current =
     (if v = '''' then current
      else
        (let w = to_lower (trim_space v) in
         if w \<in> {''1'', ''true'', ''yes'', ''y'', ''on''} then Some True
         else if w \<in> {''0'', ''false'', ''no'', ''n'', ''off''} then Some False
         else current))"

definition env_scrubber :: "environment \<Rightarrow> scrubber_config \<Rightarrow> scrubber_config" where
  "env_scrubber env c =
     c\<lparr>sbEnabled := env_bool (env ''SHARDSEAL_SCRUBBER_ENABLED'') (sbEnabled c),
       sbInterval := env_text (env ''SHARDSEAL_SCRUBBER_INTERVAL'') (sbInterval c),
       sbConcurrency := env_positive (env ''SHARDSEAL_SCRUBBER_CONCURRENCY'') (sbConcurrency c),
       sbVerifyPayload := env_toggle (env ''SHARDSEAL_SCRUBBER_VERIFY_PAYLOAD'') (sbVerifyPayload c)\<rparr>"

definition env_gc :: "environment \<Rightarrow> gc_config \<Rightarrow> gc_config" where
  "env_gc env c =
     c\<lparr>gcEnabled := env_bool (env ''SHARDSEAL_GC_ENABLED'') (gcEnabled c),
       gcInterval := env_text (env ''SHARDSEAL_GC_INTERVAL'') (gcInterval c),
       gcOlderThan := env_text (env ''SHARDSEAL_GC_OLDER_THAN'') (gcOlderThan c)\<rparr>"

definition env_oidc :: "environment \<Rightarrow> oidc_settings \<Rightarrow> oidc_settings" where
  "env_oidc env c =
     c\<lparr>osEnabled := env_bool (env ''SHARDSEAL_OIDC_ENABLED'') (osEnabled c),
       osIssuer := env_text (env ''SHARDSEAL_OIDC_ISSUER'') (osIssuer c),
       osClientID := env_text (env ''SHARDSEAL_OIDC_CLIENT_ID'') (osClientID c),
       osAudience := env_text (env ''SHARDSEAL_OIDC_AUDIENCE'') (osAudience c),
       osJWKSURL := env_text (env ''SHARDSEAL_OIDC_JWKS_URL'') (osJWKSURL c),
       osAllowUnauthHealth := env_bool (env ''SHARDSEAL_OIDC_ALLOW_UNAUTH_HEALTH'') (osAllowUnauthHealth c),
       osAllowUnauthVersion := env_bool (env ''SHARDSEAL_OIDC_ALLOW_UNAUTH_VERSION'') (osAllowUnauthVersion c)\<rparr>"

definition env_limits :: "environment \<Rightarrow> limits_config \<Rightarrow> limits_config" where
  "env_limits env c =
     c\<lparr>lcSinglePutMaxBytes := env_positive (env ''SHARDSEAL_LIMIT_SINGLE_PUT_MAX_BYTES'') (lcSinglePutMaxBytes c),
       lcMinMultipartPartSize := env_positive (env ''SHARDSEAL_LIMIT_MIN_MULTIPART_PART_SIZE'') (lcMinMultipartPartSize c)\<rparr>"

definition env_repair :: "environment \<Rightarrow> repair_config \<Rightarrow> repair_config" where
  "env_repair env c =
     c\<lparr>rpEnabled := env_bool (env ''SHARDSEAL_REPAIR_ENABLED'') (rpEnabled c),
       rpWorkerEnabled := env_bool (env ''SHARDSEAL_REPAIR_WORKER_ENABLED'') (rpWorkerEnabled c),
       rpWorkerConcurrency := env_positive (env ''SHARDSEAL_REPAIR_WORKER_CONCURRENCY'') (rpWorkerConcurrency c)\<rparr>"

definition apply_env_overrides :: "(string \<Rightarrow> float64 option) \<Rightarrow> environment \<Rightarrow> config \<Rightarrow> config" where
  "apply_env_overrides parse_float env cfg =
     (let c = env_basic env cfg in
      c\<lparr>cfTracing := env_tracing parse_float env (cfTracing c), cfSealed := env_sealed env (cfSealed c),
        cfScrubber := env_scrubber env (cfScrubber c), cfGC := env_gc env (cfGC c), cfOIDC := env_oidc env (cfOIDC c),
        cfLimits := env_limits env (cfLimits c), cfRepair := env_repair env (cfRepair c)\<rparr>)"

subsection \<open>Loading\<close>

definition read_config_file :: "fpath \<Rightarrow> (byte list, 'z) io" where
  "read_config_file p = io_bind (os_open p) (\<lambda>n. io_defer (os_read_from n 0) (os_close p))"

definition load_config ::
    "string \<Rightarrow> (byte list \<Rightarrow> config \<Rightarrow> config option) \<Rightarrow> (string \<Rightarrow> float64 option) \<Rightarrow> environment \<Rightarrow> string \<Rightarrow> (config, 'z) io" where
  "load_config cwd yaml parse_float env path w =
     (let (path1, w1) =
        (if path = '''' then
           (case os_stat (os_path (abs_path cwd ''config.yaml'')) w of
              (Inr _, w1) \<Rightarrow> (''config.yaml'', w1)
            | (Inl _, w1) \<Rightarrow> ('''', w1))
         else (path, w))
      in if path1 = '''' then (Inr (apply_env_overrides parse_float env default_config), w1)
         else
           (case read_config_file (os_path (abs_path cwd path1)) w1 of
              (Inl e, w2) \<Rightarrow>
                if e = OsErr ENOENT then (Inr (apply_env_overrides parse_float env default_config), w2)
                else (Inl (ErrText ''read config''), w2)
            | (Inr b, w2) \<Rightarrow>
                (case yaml b default_config of
                   None \<Rightarrow> (Inl (ErrText ''parse config''), w2)
                 | Some cfg \<Rightarrow> (Inr (apply_env_overrides parse_float env cfg), w2))))"

fun ensure_dirs :: "string \<Rightarrow> string list \<Rightarrow> (unit, 'z) io" where
  "ensure_dirs cwd [] w = (Inr (), w)"
| "ensure_dirs cwd (d # ds) w =
     (if d = '''' then ensure_dirs cwd ds w
      else
        (case os_mkdir_all (os_path (abs_path cwd d)) w of
           (Inl e, w1) \<Rightarrow> (Inl (ErrText ''mkdir''), w1)
         | (Inr _, w1) \<Rightarrow> ensure_dirs cwd ds w1))"

subsection \<open>What main does with the credentials\<close>

definition s3_access_keys :: "config \<Rightarrow> access_key list" where
  "s3_access_keys cfg =
     map (\<lambda>k. \<lparr>akAccess = saAccessKey k, akSecret = saSecretKey k, akUser = saUser k\<rparr>) (cfAccessKeys cfg)"

definition s3_exempt :: "string \<Rightarrow> bool" where
  "s3_exempt path \<longleftrightarrow> path \<in> {''/livez'', ''/readyz'', ''/metrics''}"

text \<open>The S3 handler as main wraps it; \<open>path\<close> is the decoded path of the request.\<close>

definition s3_auth ::
    "config \<Rightarrow> string \<Rightarrow> int \<Rightarrow> (err \<Rightarrow> 'r) \<Rightarrow> (auth_request \<Rightarrow> 'r) \<Rightarrow> auth_request \<Rightarrow> 'r" where
  "s3_auth cfg path now forbidden next_handler =
     (if cfAuthMode cfg = ''sigv4''
      then sigv4_middleware (store_lookup (new_static_store (s3_access_keys cfg))) (Some (\<lambda>_. s3_exempt path)) now forbidden next_handler
      else next_handler)"

end
