(* ===== verification/ConfigProps.thy ===== *)
theory ConfigProps imports Config
begin

text \<open>
  The configuration: the index loops of \<open>splitAndTrim\<close> compute the trimmed pieces of the split
  string, and credentials given in the environment are the ones the signature check knows.
\<close>

subsection \<open>The loops of splitAndTrim\<close>

definition trim_blank :: "string \<Rightarrow> string" where
  "trim_blank s = rev (dropWhile blank (rev (dropWhile blank s)))"

lemma blanks_front_eq:
  "k = length seg \<Longrightarrow> j \<le> k \<Longrightarrow> blanks_front seg j k = j + length (takeWhile blank (drop j seg))"
proof (induction seg j k rule: blanks_front.induct)
  case (1 seg j k)
  show ?case
  proof (cases "j < k")
    case True
    then have "drop j seg = seg ! j # drop (Suc j) seg" using 1(2) by (simp add: Cons_nth_drop_Suc)
    with 1 True show ?thesis by (subst blanks_front.simps) auto
  next
    case False
    with 1 show ?thesis by (subst blanks_front.simps) simp
  qed
qed

lemma blanks_back_eq:
  "k \<le> length seg \<Longrightarrow> j \<le> k \<Longrightarrow> blanks_back seg j k = k - length (takeWhile blank (rev (take (k - j) (drop j seg))))"
proof (induction seg j k rule: blanks_back.induct)
  case (1 seg j k)
  show ?case
  proof (cases "j < k")
    case True
    then obtain k' where k: "k = Suc k'" by (cases k) auto
    then have "take (k - j) (drop j seg) = take (k' - j) (drop j seg) @ [seg ! k']"
      using 1(2) True by (simp add: Suc_diff_le take_Suc_conv_app_nth)
    with 1 True k show ?thesis by (subst blanks_back.simps) auto
  next
    case False
    with 1 show ?thesis by (subst blanks_back.simps) simp
  qed
qed

lemma trim_seg_eq: "trim_seg seg = trim_blank seg"
proof -
  let ?j = "blanks_front seg 0 (length seg)"
  let ?m = "dropWhile blank seg"
  have j: "?j = length (takeWhile blank seg)" using blanks_front_eq [of "length seg" seg 0] by simp
  have jl: "?j \<le> length seg" unfolding j by (rule length_takeWhile_le)
  have m: "drop ?j seg = ?m" unfolding j by (rule dropWhile_eq_drop [symmetric])
  have lm: "length ?m = length seg - ?j" by (simp add: m [symmetric])
  have k: "blanks_back seg ?j (length seg) = length seg - length (takeWhile blank (rev ?m))"
    using blanks_back_eq [of "length seg" seg ?j] jl m lm by simp
  have "trim_blank seg = rev (drop (length (takeWhile blank (rev ?m))) (rev ?m))"
    by (simp add: trim_blank_def dropWhile_eq_drop [symmetric])
  also have "\<dots> = take (length ?m - length (takeWhile blank (rev ?m))) ?m" by (simp add: rev_drop)
  finally have t: "trim_blank seg = take (length ?m - length (takeWhile blank (rev ?m))) ?m" .
  have le: "length (takeWhile blank (rev ?m)) \<le> length ?m" by (metis length_rev length_takeWhile_le)
  show ?thesis
    unfolding trim_seg_def Let_def k m t using lm jl le by (auto simp: add.commute)
qed

lemma split_scan_eq:
  assumes "start \<le> i" and "i \<le> length s" and "CHR '','' \<notin> set (take (i - start) (drop start s))"
  shows "split_scan s start i = filter (\<lambda>p. p \<noteq> '''') (map trim_blank (split_on CHR '','' (drop start s)))"
  using assms
proof (induction s start i rule: split_scan.induct)
  case (1 s start i)
  let ?pre = "take (i - start) (drop start s)"
  have cut: "drop start s = ?pre @ drop i s"
    using 1(3) append_take_drop_id [of "i - start" "drop start s"] by simp
  show ?case
  proof (cases "i = length s")
    case True
    then have "drop start s = ?pre" "split_scan s (Suc i) (Suc i) = []"
      using cut by (simp, subst split_scan.simps, simp)
    with True 1(5) split_on_no_sep [of "CHR '',''" ?pre] show ?thesis
      by (subst split_scan.simps) (simp add: Let_def trim_seg_eq)
  next
    case False
    then have i: "i < length s" using 1(4) by simp
    then have ds: "drop i s = s ! i # drop (Suc i) s" by (simp add: Cons_nth_drop_Suc)
    show ?thesis
    proof (cases "s ! i = CHR '',''")
      case True
      then have "split_on CHR '','' (drop start s) = ?pre # split_on CHR '','' (drop (Suc i) s)"
        using cut ds 1(5) by (metis split_on_append)
      moreover have "split_scan s (Suc i) (Suc i) = filter (\<lambda>p. p \<noteq> '''') (map trim_blank (split_on CHR '','' (drop (Suc i) s)))"
        by (rule 1(1)) (use i True in auto)
      ultimately show ?thesis
        using i True by (subst split_scan.simps) (simp add: Let_def trim_seg_eq)
    next
      case False
      have "take (Suc i - start) (drop start s) = ?pre @ [s ! i]"
        using i 1(3) by (simp add: Suc_diff_le take_Suc_conv_app_nth)
      then have "split_scan s start (Suc i) = filter (\<lambda>p. p \<noteq> '''') (map trim_blank (split_on CHR '','' (drop start s)))"
        by (intro 1(2)) (use i False 1(3,5) in auto)
      with i False show ?thesis by (subst split_scan.simps) simp
    qed
  qed
qed

lemma split_and_trim_eq:
  "split_and_trim s = filter (\<lambda>p. p \<noteq> '''') (map trim_blank (split_on CHR '','' s))"
  using split_scan_eq [of 0 0 s] by (simp add: split_and_trim_def)

subsection \<open>Credentials in the environment\<close>

text \<open>
  A field that can be written in \<open>SHARDSEAL_ACCESS_KEYS\<close>: it has no separator and no space at its
  ends; only the user may be empty.
\<close>

definition plain_field :: "string \<Rightarrow> bool" where
  "plain_field s \<longleftrightarrow> s \<noteq> '''' \<and> CHR '','' \<notin> set s \<and> CHR '':'' \<notin> set s \<and> \<not> is_space (hd s) \<and> \<not> is_space (last s)"

definition plain_key :: "static_access_key \<Rightarrow> bool" where
  "plain_key k \<longleftrightarrow> plain_field (saAccessKey k) \<and> plain_field (saSecretKey k) \<and> (saUser k = '''' \<or> plain_field (saUser k))"

definition print_access_key :: "static_access_key \<Rightarrow> string" where
  "print_access_key k = saAccessKey k @ CHR '':'' # saSecretKey k @ (if saUser k = '''' then '''' else CHR '':'' # saUser k)"

lemma blank_is_space: "blank c \<Longrightarrow> is_space c"
  by (auto simp: blank_def is_space_def)

lemma trim_blank_id:
  assumes "\<not> is_space (hd s)" and "\<not> is_space (last s)"
  shows "trim_blank s = s"
proof -
  have hd: "dropWhile blank xs = xs" if "\<not> is_space (hd xs)" for xs
    using that blank_is_space by (cases xs) auto
  have "dropWhile blank s = s" using assms(1) by (rule hd)
  moreover have "dropWhile blank (rev s) = rev s" using assms(2) by (intro hd) (simp add: hd_rev)
  ultimately show ?thesis by (simp add: trim_blank_def)
qed

lemma plain_field_trim: "plain_field s \<Longrightarrow> trim_space s = s"
  by (simp add: plain_field_def trim_space_id)

lemma print_access_key_plain:
  assumes "plain_key k"
  shows "print_access_key k \<noteq> ''''" and "CHR '','' \<notin> set (print_access_key k)" and "trim_blank (print_access_key k) = print_access_key k"
proof -
  have f: "plain_field (saAccessKey k)" "plain_field (saSecretKey k)" "saUser k = '''' \<or> plain_field (saUser k)"
    using assms by (simp_all add: plain_key_def)
  show "print_access_key k \<noteq> ''''" "CHR '','' \<notin> set (print_access_key k)"
    using f by (auto simp: print_access_key_def plain_field_def)
  show "trim_blank (print_access_key k) = print_access_key k"
    by (rule trim_blank_id) (use f in \<open>auto simp: print_access_key_def plain_field_def\<close>)
qed

lemma parse_print_access_key: "plain_key k \<Longrightarrow> parse_access_key (print_access_key k) = Some k"
proof -
  assume "plain_key k"
  then have f: "plain_field (saAccessKey k)" "plain_field (saSecretKey k)" "saUser k = '''' \<or> plain_field (saUser k)"
    by (simp_all add: plain_key_def)
  then have "split_on CHR '':'' (print_access_key k) =
      [saAccessKey k, saSecretKey k] @ (if saUser k = '''' then [] else [saUser k])"
    by (auto simp: print_access_key_def plain_field_def split_on_append split_on_no_sep)
  then show ?thesis
    using f by (auto simp: parse_access_key_def Let_def plain_field_trim, auto simp: plain_field_def)
qed

lemma parse_print_access_keys:
  assumes "ks \<noteq> []" and "\<forall>k \<in> set ks. plain_key k"
  shows "parse_access_keys_env (join_with CHR '','' (map print_access_key ks)) = ks"
proof -
  have "split_on CHR '','' (join_with CHR '','' (map print_access_key ks)) = map print_access_key ks"
    by (rule split_on_join) (use assms print_access_key_plain in auto)
  then have "split_and_trim (join_with CHR '','' (map print_access_key ks)) = map print_access_key ks"
    using assms(2) print_access_key_plain by (auto simp: split_and_trim_eq comp_def intro!: filter_True map_idI)
  moreover have "List.map_filter parse_access_key (map print_access_key ks) = ks"
    using assms(2) by (induction ks) (simp_all add: List.map_filter_simps parse_print_access_key)
  ultimately show ?thesis by (simp add: parse_access_keys_env_def)
qed

lemma static_store_fold:
  assumes "\<forall>k \<in> set ks. plain_key k" and "distinct (map saAccessKey ks)"
  shows "foldl (\<lambda>m k. let ak = trim_space (akAccess k); sk = trim_space (akSecret k)
      in if ak = '''' \<or> sk = '''' then m else m(ak \<mapsto> (sk, trim_space (akUser k)))) m
      (map (\<lambda>k. \<lparr>akAccess = saAccessKey k, akSecret = saSecretKey k, akUser = saUser k\<rparr>) ks) =
    m ++ map_of (map (\<lambda>k. (saAccessKey k, (saSecretKey k, saUser k))) ks)"
  using assms
proof (induction ks arbitrary: m)
  case Nil
  then show ?case by simp
next
  case (Cons k ks)
  have f: "plain_field (saAccessKey k)" "plain_field (saSecretKey k)" "saUser k = '''' \<or> plain_field (saUser k)"
    using Cons.prems(1) by (simp_all add: plain_key_def)
  then have t: "trim_space (saUser k) = saUser k" "saAccessKey k \<noteq> ''''" "saSecretKey k \<noteq> ''''"
    using plain_field_trim by (auto simp: trim_space_def plain_field_def)
  let ?m = "m(saAccessKey k \<mapsto> (saSecretKey k, saUser k))"
  have "map_of (map (\<lambda>k. (saAccessKey k, (saSecretKey k, saUser k))) ks) (saAccessKey k) = None"
    using Cons.prems(2) by (auto simp: map_of_eq_None_iff)
  then have "?m ++ map_of (map (\<lambda>k. (saAccessKey k, (saSecretKey k, saUser k))) ks) =
      m ++ map_of (map (\<lambda>k. (saAccessKey k, (saSecretKey k, saUser k))) (k # ks))"
    by (auto simp: fun_eq_iff map_add_def split: option.splits)
  with Cons.IH [of ?m] Cons.prems show ?case
    using f t by (simp add: Let_def plain_field_trim del: fun_upd_apply)
qed


definition ex_keys :: "static_access_key list" where
  "ex_keys = [\<lparr>saAccessKey = ''AKIA1'', saSecretKey = ''s1'', saUser = ''alice''\<rparr>, \<lparr>saAccessKey = ''AKIA2'', saSecretKey = ''s2'', saUser = ''''\<rparr>]"


subsection \<open>Where settings fail open\<close>

text \<open>
  The signature check is on only for the exact text \<open>sigv4\<close>, and only the environment variable is
  normalised: a mode written with capitals in the YAML file leaves the S3 API open.
\<close>

lemma auth_mode_not_normalised:
  assumes "cfAuthMode cfg = ''SigV4''" and "env ''SHARDSEAL_AUTH_MODE'' = ''''"
  shows "s3_auth (apply_env_overrides pf env cfg) path now forbidden h = h"
  using assms by (simp add: s3_auth_def apply_env_overrides_def env_basic_def Let_def)

text \<open>A sampling ratio that is not a number passes the clamp.\<close>

lemma sample_ratio_nan:
  assumes "env ''SHARDSEAL_TRACING_SAMPLE'' = ''NaN''" and "pf ''NaN'' = Some NaN"
  shows "tcSampleRatio (cfTracing (apply_env_overrides pf env cfg)) = NaN"
proof -
  have "trim_space ''NaN'' = ''NaN''" by code_simp
  with assms show ?thesis by (simp add: apply_env_overrides_def env_tracing_def clamp_ratio_def Let_def)
qed

end
