(* ===== verification/NoopScrubber.thy ===== *)
theory NoopScrubber imports ScrubProps AdminApi
begin

text \<open>
  The no-op scrubber (first half of src/pkg/repair/scrubber.go): the same life cycle as the
  sealed scrubber's around a pass that only counts, as a transition system over its whole state,
  and the operations the admin API uses of it.
\<close>

record noop_scrubber =
  npLife :: scrub_life
  npState :: scrub_state
  npStart :: int

text \<open>\<open>Start\<close>, the calls of \<open>Stop\<close> and \<open>RunOnce\<close>, and the transitions of the loop goroutines.\<close>

definition noop_start :: "int \<Rightarrow> noop_scrubber \<Rightarrow> unit result \<times> noop_scrubber" where
  "noop_start now s =
     (case scrub_start (npLife s) of
        (Inl e, l) \<Rightarrow> (Inl e, s)
      | (Inr _, l) \<Rightarrow> (Inr (), s\<lparr>npLife := l, npStart := now\<rparr>))"

definition noop_stop :: "nat \<Rightarrow> noop_scrubber \<Rightarrow> noop_scrubber" where
  "noop_stop i s = s\<lparr>npLife := scrub_stop_signal i (npLife s)\<rparr>"

definition noop_pass :: "int \<Rightarrow> noop_scrubber \<Rightarrow> unit result \<times> noop_scrubber" where
  "noop_pass now s = (case noop_run_once now (npState s) of (r, c) \<Rightarrow> (r, s\<lparr>npState := c\<rparr>))"

definition noop_stats :: "int \<Rightarrow> noop_scrubber \<Rightarrow> scrub_stats" where
  "noop_stats now s = scrub_stats_of now (npStart s) (npState s)"

text \<open>Its loop runs a pass, waits, and leaves on a signal or a cancelled context.\<close>

inductive noop_step :: "noop_scrubber \<Rightarrow> noop_scrubber \<Rightarrow> bool" where
  np_start: "\<not> slPanicked (npLife s) \<Longrightarrow> noop_start now s = (r, s') \<Longrightarrow> noop_step s s'"
| np_stop: "\<not> slPanicked (npLife s) \<Longrightarrow> noop_step s (noop_stop i s)"
| np_once: "\<not> slPanicked (npLife s) \<Longrightarrow> noop_pass now s = (r, s') \<Longrightarrow> noop_step s s'"
| np_pass: "\<not> slPanicked (npLife s) \<Longrightarrow> i < length (slLoops (npLife s)) \<Longrightarrow> slLoops (npLife s) ! i = InPass \<Longrightarrow>
    noop_pass now s = (r, s1) \<Longrightarrow> noop_step s (s1\<lparr>npLife := set_loop i AtSelect (npLife s1)\<rparr>)"
| np_wake: "\<not> slPanicked (npLife s) \<Longrightarrow> i < length (slLoops (npLife s)) \<Longrightarrow> slLoops (npLife s) ! i = AtSelect \<Longrightarrow>
    pc = InPass \<or> pc = Clearing \<Longrightarrow> noop_step s (s\<lparr>npLife := set_loop i pc (npLife s)\<rparr>)"
| np_clear: "\<not> slPanicked (npLife s) \<Longrightarrow> i < length (slLoops (npLife s)) \<Longrightarrow> slLoops (npLife s) ! i = Clearing \<Longrightarrow>
    noop_step s (s\<lparr>npLife := (set_loop i Closing (npLife s))\<lparr>slRunning := False\<rparr>\<rparr>)"
| np_close: "\<not> slPanicked (npLife s) \<Longrightarrow> i < length (slLoops (npLife s)) \<Longrightarrow> slLoops (npLife s) ! i = Closing \<Longrightarrow>
    noop_step s (s\<lparr>npLife := close_done i (npLife s)\<rparr>)"

inductive_cases noop_stepE: "noop_step s s'"

definition noop_new :: noop_scrubber where
  "noop_new = \<lparr>npLife = scrub_new, npState = \<lparr>scScanned = 0, scErrors = 0, scEnqueued = [], scLastRun = None, scLastError = None\<rparr>, npStart = 0\<rparr>"

text \<open>What the admin API asks of it.\<close>

definition noop_ops :: "int \<Rightarrow> noop_scrubber scrubber_ops" where
  "noop_ops now = \<lparr>soRunOnce = noop_pass now, soStats = noop_stats now\<rparr>"

subsection \<open>Its life is the scrubber's, its reports are clean\<close>

lemma noop_pass_life: "noop_pass now s = (r, s') \<Longrightarrow> npLife s' = npLife s \<and> r = Inr ()"
  by (auto simp: noop_pass_def noop_run_once_def)

lemma noop_step_life: "noop_step s s' \<Longrightarrow> life_step\<^sup>*\<^sup>* (npLife s) (npLife s')"
proof (induction rule: noop_step.induct)
  case (np_start s now r s')
  then show ?case
    using lf_start [of "npLife s"]
    by (cases "scrub_start (npLife s)") (auto simp: noop_start_def split: sum.split_asm)
next
  case (np_wake s i pc)
  then show ?case using lf_timer [of "npLife s" i] lf_cancel [of "npLife s" i] by auto
next
  case (np_pass s i now r s1)
  then show ?case using lf_pass [of "npLife s" i] noop_pass_life [OF np_pass(4)] by auto
qed (auto simp: noop_stop_def dest: noop_pass_life intro: life_step.intros)

lemma noop_reachable_life: "noop_step\<^sup>*\<^sup>* noop_new s \<Longrightarrow> life_step\<^sup>*\<^sup>* scrub_new (npLife s)"
  by (induction rule: rtranclp_induct) (auto simp: noop_new_def dest: noop_step_life)

lemma noop_step_clean:
  "noop_step s s' \<Longrightarrow> scErrors (npState s) = 0 \<and> scLastError (npState s) = None \<Longrightarrow>
     scErrors (npState s') = 0 \<and> scLastError (npState s') = None"
  by (induction rule: noop_step.induct)
    (auto simp: noop_start_def noop_stop_def noop_pass_def noop_run_once_def split: prod.split_asm sum.split_asm)

lemma noop_reports_nothing:
  "noop_step\<^sup>*\<^sup>* noop_new s \<Longrightarrow> gsErrors (noop_stats now s) = 0 \<and> gsRepaired (noop_stats now s) = 0 \<and> gsLastError (noop_stats now s) = None"
proof -
  assume "noop_step\<^sup>*\<^sup>* noop_new s"
  then have "scErrors (npState s) = 0 \<and> scLastError (npState s) = None"
    by (induction rule: rtranclp_induct) (simp add: noop_new_def, rule noop_step_clean)
  then show ?thesis by (simp add: noop_stats_def scrub_stats_of_def)
qed

end
