(* ===== verification/Metrics.thy ===== *)
theory Metrics imports Tracing Scrubber
begin

text \<open>
  The Prometheus collectors (src/pkg/obs/metrics): HTTP requests, storage operations, the repair
  queue and the scrubber. A counter or gauge is a number, a vector of them a function of the
  labels, a histogram the list of the observed values, latest first; values are exact where the
  library has a float64, durations are nanoseconds. The registry and the exposition format are
  the library's: registering a collector is a parameter, whose error the code discards.
\<close>

subsection \<open>Collectors\<close>

datatype metric_kind = Counter | Gauge | Histogram

record metric_opts =
  moKind :: metric_kind
  moNamespace :: string
  moSubsystem :: string
  moName :: string
  moLabels :: "string list"

abbreviation collector :: "metric_kind \<Rightarrow> string \<Rightarrow> string \<Rightarrow> string list \<Rightarrow> metric_opts" where
  "collector k sub nm ls \<equiv>
     \<lparr>moKind = k, moNamespace = ''shardseal'', moSubsystem = sub, moName = nm, moLabels = ls\<rparr>"

subsection \<open>HTTP requests\<close>

record http_metrics =
  hmInflight :: int
  hmRequests :: "string \<times> string \<Rightarrow> nat"
  hmLatency :: "string \<times> string \<Rightarrow> int list"

definition http_collectors :: "metric_opts list" where
  "http_collectors =
     [collector Gauge ''http'' ''inflight_requests'' [],
      collector Counter ''http'' ''requests_total'' [''code'', ''method''],
      collector Histogram ''http'' ''request_duration_seconds'' [''code'', ''method'']]"

definition http_register :: "(metric_opts \<Rightarrow> 'g \<Rightarrow> 'g) \<Rightarrow> 'g \<Rightarrow> 'g" where
  "http_register register reg = fold register http_collectors reg"

definition new_http_metrics :: http_metrics where
  "new_http_metrics = \<lparr>hmInflight = 0, hmRequests = (\<lambda>_. 0), hmLatency = (\<lambda>_. [])\<rparr>"

definition inc :: "'l \<Rightarrow> ('l \<Rightarrow> nat) \<Rightarrow> 'l \<Rightarrow> nat" where
  "inc l c = c(l := Suc (c l))"

definition sample :: "'l \<Rightarrow> int \<Rightarrow> ('l \<Rightarrow> int list) \<Rightarrow> 'l \<Rightarrow> int list" where
  "sample l x h = h(l := x # h l)"

text \<open>
  The middleware before and after the handler. When the handler panics only the deferred
  decrement runs.
\<close>

definition http_begin :: "http_metrics \<Rightarrow> http_metrics" where
  "http_begin m = m\<lparr>hmInflight := hmInflight m + 1\<rparr>"

definition http_unwind :: "http_metrics \<Rightarrow> http_metrics" where
  "http_unwind m = m\<lparr>hmInflight := hmInflight m - 1\<rparr>"

definition http_end :: "string \<Rightarrow> nat \<Rightarrow> int \<Rightarrow> http_metrics \<Rightarrow> http_metrics" where
  "http_end mth status elapsed m =
     (let code = itoa (int status); l = (code, mth) in
      http_unwind (m\<lparr>hmRequests := inc l (hmRequests m), hmLatency := sample l elapsed (hmLatency m)\<rparr>))"

definition metrics_middleware ::
    "int \<Rightarrow> ('q \<Rightarrow> string) \<Rightarrow> ('r \<Rightarrow> nat) \<Rightarrow> ('q \<Rightarrow> 's \<Rightarrow> 'r \<times> 's) \<Rightarrow> 'q \<Rightarrow> http_metrics \<times> 's \<Rightarrow> 'r \<times> (http_metrics \<times> 's)" where
  "metrics_middleware elapsed mth status next_handler rq s =
     (case s of (m, s0) \<Rightarrow>
        (case next_handler rq s0 of (resp, s1) \<Rightarrow>
           (resp, (http_end (mth rq) (status resp) elapsed (http_begin m), s1))))"

text \<open>Requests overlap: one event for each half.\<close>

datatype http_event = HttpBegin | HttpEnd string nat int | HttpPanic

fun http_events :: "http_event list \<Rightarrow> http_metrics \<Rightarrow> http_metrics" where
  "http_events [] m = m"
| "http_events (HttpBegin # es) m = http_events es (http_begin m)"
| "http_events (HttpEnd mth status elapsed # es) m = http_events es (http_end mth status elapsed m)"
| "http_events (HttpPanic # es) m = http_events es (http_unwind m)"

subsection \<open>Storage operations\<close>

record storage_metrics =
  smBytes :: "string \<Rightarrow> int"
  smOps :: "string \<times> string \<Rightarrow> nat"
  smLatency :: "string \<Rightarrow> int list"
  smSealedOps :: "string \<times> string \<times> string \<times> string \<Rightarrow> nat"
  smSealedLatency :: "string \<times> string \<times> string \<Rightarrow> int list"
  smIntegrity :: "string \<Rightarrow> nat"

definition storage_collectors :: "metric_opts list" where
  "storage_collectors =
     [collector Counter ''storage'' ''bytes_total'' [''op''],
      collector Counter ''storage'' ''ops_total'' [''op'', ''result''],
      collector Histogram ''storage'' ''op_duration_seconds'' [''op''],
      collector Counter ''storage'' ''sealed_ops_total'' [''op'', ''sealed'', ''result'', ''integrity_fail''],
      collector Histogram ''storage'' ''sealed_op_duration_seconds'' [''op'', ''sealed'', ''integrity_fail''],
      collector Counter ''storage'' ''integrity_failures_total'' [''op'']]"

definition storage_register :: "(metric_opts \<Rightarrow> 'g \<Rightarrow> 'g) \<Rightarrow> 'g \<Rightarrow> 'g" where
  "storage_register register reg = fold register storage_collectors reg"

definition new_storage_metrics :: storage_metrics where
  "new_storage_metrics = \<lparr>smBytes = (\<lambda>_. 0), smOps = (\<lambda>_. 0), smLatency = (\<lambda>_. []), smSealedOps = (\<lambda>_. 0),
     smSealedLatency = (\<lambda>_. []), smIntegrity = (\<lambda>_. 0)\<rparr>"

definition result_label :: "bool \<Rightarrow> string" where
  "result_label failed = (if failed then ''error'' else ''ok'')"

definition bool_label :: "bool \<Rightarrow> string" where
  "bool_label b = (if b then ''true'' else ''false'')"

definition storage_observe :: "string \<Rightarrow> int \<Rightarrow> bool \<Rightarrow> int \<Rightarrow> storage_metrics \<Rightarrow> storage_metrics" where
  "storage_observe op n failed dur m =
     m\<lparr>smBytes := (if n > 0 then (smBytes m)(op := smBytes m op + n) else smBytes m),
       smOps := inc (op, result_label failed) (smOps m),
       smLatency := sample op dur (smLatency m)\<rparr>"

definition storage_observe_sealed ::
    "string \<Rightarrow> int \<Rightarrow> bool \<Rightarrow> int \<Rightarrow> bool \<Rightarrow> bool \<Rightarrow> storage_metrics \<Rightarrow> storage_metrics" where
  "storage_observe_sealed op n failed dur sealed integrityFail m =
     (let m1 = storage_observe op n failed dur m; s = bool_label sealed; intf = bool_label integrityFail in
      m1\<lparr>smSealedOps := inc (op, s, result_label failed, intf) (smSealedOps m1),
         smSealedLatency := sample (op, s, intf) dur (smSealedLatency m1),
         smIntegrity := (if integrityFail then inc op (smIntegrity m1) else smIntegrity m1)\<rparr>)"

text \<open>The store's observations with their durations, as main wires them.\<close>

fun storage_record :: "obs_event \<times> int \<Rightarrow> storage_metrics \<Rightarrow> storage_metrics" where
  "storage_record (Obs op n failed, dur) m = storage_observe op n failed dur m"
| "storage_record (ObsSealed op n failed sealed integrityFail, dur) m =
     storage_observe_sealed op n failed dur sealed integrityFail m"

subsection \<open>The repair queue\<close>

record repair_metrics =
  rmDepth :: int
  rmEnqueued :: "string \<Rightarrow> nat"
  rmCompleted :: "string \<Rightarrow> nat"
  rmDuration :: "string \<Rightarrow> int list"

definition repair_collectors :: "metric_opts list" where
  "repair_collectors =
     [collector Gauge ''repair'' ''queue_depth'' [],
      collector Counter ''repair'' ''enqueued_total'' [''reason''],
      collector Counter ''repair'' ''completed_total'' [''result''],
      collector Histogram ''repair'' ''duration_seconds'' [''result'']]"

definition repair_register :: "(metric_opts \<Rightarrow> 'g \<Rightarrow> 'g) \<Rightarrow> 'g \<Rightarrow> 'g" where
  "repair_register register reg = fold register repair_collectors reg"

definition new_repair_metrics :: repair_metrics where
  "new_repair_metrics = \<lparr>rmDepth = 0, rmEnqueued = (\<lambda>_. 0), rmCompleted = (\<lambda>_. 0), rmDuration = (\<lambda>_. [])\<rparr>"

definition normalize_reason :: "string \<Rightarrow> string" where
  "normalize_reason reason = (let r = trim_space (to_lower reason) in if r = '''' then ''unknown'' else r)"

definition normalize_result :: "string \<Rightarrow> string" where
  "normalize_result res = (let r = trim_space (to_lower res) in if r = '''' then ''unknown'' else r)"

definition repair_observe_len :: "int \<Rightarrow> repair_metrics \<Rightarrow> repair_metrics" where
  "repair_observe_len n m = m\<lparr>rmDepth := n\<rparr>"

definition repair_observe_enqueue :: "string \<Rightarrow> repair_metrics \<Rightarrow> repair_metrics" where
  "repair_observe_enqueue reason m = m\<lparr>rmEnqueued := inc (normalize_reason reason) (rmEnqueued m)\<rparr>"

definition repair_observe_result :: "string \<Rightarrow> int \<Rightarrow> repair_metrics \<Rightarrow> repair_metrics" where
  "repair_observe_result res dur m =
     (let lbl = normalize_result res in
      m\<lparr>rmCompleted := inc lbl (rmCompleted m), rmDuration := sample lbl dur (rmDuration m)\<rparr>)"

subsection \<open>Polling\<close>

definition poll_interval :: "int \<Rightarrow> int" where
  "poll_interval d = (if d \<le> 0 then 10 * 10 ^ 9 else d)"

datatype poll_event = PollTick | PollDone

text \<open>Each tick of the poller takes the queue, if there is one, as it is at that moment.\<close>

fun repair_poll :: "poll_event list \<Rightarrow> mem_queue option list \<Rightarrow> repair_metrics \<Rightarrow> repair_metrics" where
  "repair_poll (PollTick # es) (q # qs) m =
     repair_poll es qs (case q of None \<Rightarrow> m | Some q1 \<Rightarrow> repair_observe_len (int (queue_len q1)) m)"
| "repair_poll _ _ m = m"

subsection \<open>The scrubber\<close>

record scrub_metrics =
  cmScanned :: int
  cmErrors :: int
  cmLastRun :: int
  cmUptime :: int
  cmPrevScanned :: int
  cmPrevErrors :: int

definition scrub_collectors :: "metric_opts list" where
  "scrub_collectors =
     [collector Counter ''scrubber'' ''scanned_total'' [],
      collector Counter ''scrubber'' ''errors_total'' [],
      collector Gauge ''scrubber'' ''last_run_timestamp_seconds'' [],
      collector Gauge ''scrubber'' ''uptime_seconds'' []]"

definition scrub_register :: "(metric_opts \<Rightarrow> 'g \<Rightarrow> 'g) \<Rightarrow> 'g \<Rightarrow> 'g" where
  "scrub_register register reg = fold register scrub_collectors reg"

definition new_scrub_metrics :: scrub_metrics where
  "new_scrub_metrics = \<lparr>cmScanned = 0, cmErrors = 0, cmLastRun = 0, cmUptime = 0, cmPrevScanned = 0, cmPrevErrors = 0\<rparr>"

text \<open>The previous value and the counter after a new value.\<close>

definition add_delta :: "int \<times> int \<Rightarrow> int \<Rightarrow> int \<times> int" where
  "add_delta pc current =
     (case pc of (prev, c) \<Rightarrow>
        (let delta = current - prev in
         if delta < 0 then (current, c)
         else if delta > 0 then (current, c + delta)
         else (prev, c)))"

definition scrub_observe :: "scrub_stats \<Rightarrow> scrub_metrics \<Rightarrow> scrub_metrics" where
  "scrub_observe st m =
     (let (ps, cs) = add_delta (cmPrevScanned m, cmScanned m) (uint (gsScanned st));
          (pe, ce) = add_delta (cmPrevErrors m, cmErrors m) (uint (gsErrors st))
      in m\<lparr>cmPrevScanned := ps, cmScanned := cs, cmPrevErrors := pe, cmErrors := ce,
           cmLastRun := (if gsLastRun st = 0 then cmLastRun m else gsLastRun st div 10 ^ 9),
           cmUptime := gsUptime st\<rparr>)"

text \<open>Each tick of the poller takes the scrubber's statistics of that moment.\<close>

fun scrub_poll :: "poll_event list \<Rightarrow> scrub_stats list \<Rightarrow> scrub_metrics \<Rightarrow> scrub_metrics" where
  "scrub_poll (PollTick # es) (st # sts) m = scrub_poll es sts (scrub_observe st m)"
| "scrub_poll _ _ m = m"

subsection \<open>What the counters mean\<close>

text \<open>
  main registers the groups one after the other on one registry, the last two when it starts a
  repair queue and a scrubber, and no registration says whether it failed. The registry takes a
  collector whose full name it does not have: then every collector of the program is served,
  whatever groups are on.
\<close>

definition full_name :: "metric_opts \<Rightarrow> string \<times> string \<times> string" where
  "full_name c = (moNamespace c, moSubsystem c, moName c)"

definition main_collectors :: "bool \<Rightarrow> bool \<Rightarrow> metric_opts list" where
  "main_collectors queue scrub =
     http_collectors @ storage_collectors @ (if queue then repair_collectors else []) @ (if scrub then scrub_collectors else [])"

definition register_all :: "(metric_opts \<Rightarrow> 'g \<Rightarrow> 'g) \<Rightarrow> bool \<Rightarrow> bool \<Rightarrow> 'g \<Rightarrow> 'g" where
  "register_all register queue scrub reg =
     (let reg1 = storage_register register (http_register register reg);
          reg2 = (if queue then repair_register register reg1 else reg1)
      in (if scrub then scrub_register register reg2 else reg2))"

lemma register_all_fold: "register_all register queue scrub reg = fold register (main_collectors queue scrub) reg"
  by (simp add: register_all_def main_collectors_def http_register_def storage_register_def repair_register_def scrub_register_def Let_def)

lemma collector_names_distinct: "distinct (map full_name (main_collectors queue scrub))"
  by (cases queue; cases scrub; simp add: main_collectors_def http_collectors_def storage_collectors_def repair_collectors_def scrub_collectors_def full_name_def)

lemma fold_register:
  assumes "\<And>c g. full_name c \<notin> full_name ` set (served g) \<Longrightarrow> served (register c g) = served g @ [c]"
    and "distinct (map full_name (served g @ cs))"
  shows "served (fold register cs g) = served g @ cs"
  using assms(2)
proof (induction cs arbitrary: g)
  case Nil
  then show ?case by simp
next
  case (Cons c cs)
  then have "served (register c g) = served g @ [c]" by (intro assms(1)) auto
  with Cons.IH [of "register c g"] Cons.prems show ?case by simp
qed

lemma every_collector_served:
  assumes "\<And>c g. full_name c \<notin> full_name ` set (served g) \<Longrightarrow> served (register c g) = served g @ [c]" and "served reg = []"
  shows "served (register_all register queue scrub reg) = main_collectors queue scrub"
  using fold_register [where served = served and register = register and g = reg, OF assms(1)] assms(2) collector_names_distinct
  by (simp add: register_all_fold)

fun is_begin :: "http_event \<Rightarrow> bool" where
  "is_begin HttpBegin = True"
| "is_begin _ = False"

fun counted :: "string \<times> string \<Rightarrow> http_event \<Rightarrow> bool" where
  "counted l (HttpEnd mth status elapsed) = (l = (itoa (int status), mth))"
| "counted l _ = False"

text \<open>In every interleaving the gauge is the number of requests begun and not left, the counters
  and the histograms have one entry for each finished request.\<close>

lemma http_events_account:
  "hmInflight (http_events es m) = hmInflight m + int (length (filter is_begin es)) - int (length (filter (\<lambda>e. \<not> is_begin e) es)) \<and>
   hmRequests (http_events es m) l = hmRequests m l + length (filter (counted l) es) \<and>
   length (hmLatency (http_events es m) l) = length (hmLatency m l) + length (filter (counted l) es)"
  by (induction es m rule: http_events.induct)
    (auto simp: http_begin_def http_end_def http_unwind_def inc_def sample_def Let_def)

text \<open>The operations the store's observations add to a counter: sealed ones count twice.\<close>

lemma storage_ops_counted:
  "smOps (fold storage_record evs m) l =
     smOps m l + length (filter (\<lambda>(ev, _). case ev of Obs op n failed \<Rightarrow> l = (op, result_label failed)
       | ObsSealed op n failed s i \<Rightarrow> l = (op, result_label failed)) evs)"
proof (induction evs arbitrary: m)
  case Nil
  then show ?case by simp
next
  case (Cons e evs)
  have "smOps (storage_record e m) l = smOps m l + (case fst e of Obs op n failed \<Rightarrow> if l = (op, result_label failed) then 1 else 0
      | ObsSealed op n failed s i \<Rightarrow> if l = (op, result_label failed) then 1 else 0)"
    by (cases e; cases "fst e") (auto simp: storage_observe_def storage_observe_sealed_def inc_def Let_def)
  with Cons show ?case by (cases e; cases "fst e") auto
qed

lemma sealed_counts_twice:
  assumes "lObs l = SealedObs" and "map fst evs = drop (length (obs_log w)) (obs_log (observe_sealed l op n failed s i w))"
  shows "smOps (fold storage_record evs m) (op, result_label failed) = smOps m (op, result_label failed) + 2"
proof -
  have "map fst evs = [Obs op n failed, ObsSealed op n failed s i]" using assms by (simp add: observe_sealed_def)
  then obtain d e where "evs = [(Obs op n failed, d), (ObsSealed op n failed s i, e)]" by auto
  then show ?thesis by (simp add: storage_observe_def storage_observe_sealed_def inc_def Let_def)
qed

text \<open>An integrity failure the store reports is counted once under its operation.\<close>

lemma integrity_failure_counted:
  assumes "lObs l = SealedObs" and "reported l op bucket key w w'" and "map fst evs = drop (length (obs_log w)) (obs_log w')"
  shows "smIntegrity (fold storage_record evs m) op = Suc (smIntegrity m op)"
proof -
  have "map fst evs = [Obs op 0 True, ObsSealed op 0 True True True]" using assms by (simp add: reported_def)
  then obtain d e where "evs = [(Obs op 0 True, d), (ObsSealed op 0 True True True, e)]" by auto
  then show ?thesis by (simp add: storage_observe_def storage_observe_sealed_def inc_def Let_def)
qed

text \<open>
  The scrubber's counters never decrease, and while its statistics only grow the counter is the
  last value seen.
\<close>

lemma add_delta_mono: "snd pc \<le> snd (add_delta pc x)"
  by (simp add: add_delta_def Let_def split: prod.split)

lemma add_delta_tracks:
  assumes "sorted (fst pc # xs)" and "fst pc = snd pc"
  shows "fold (\<lambda>x pc. add_delta pc x) xs pc = (last (fst pc # xs), last (fst pc # xs))"
  using assms
proof (induction xs arbitrary: pc)
  case Nil
  then show ?case by (cases pc) simp
next
  case (Cons x xs)
  have "add_delta pc x = (x, x)" using Cons.prems by (cases pc) (auto simp: add_delta_def Let_def)
  with Cons show ?case by simp
qed

text \<open>After a restart of the count the first value is lost: a counter that goes 5, 0 and 3 shows 8,
  one that goes straight from 5 to 3 shows 5.\<close>

lemma reset_loses_counts:
  "snd (fold (\<lambda>x pc. add_delta pc x) [5, 0, 3] (0, 0)) = 8" "snd (fold (\<lambda>x pc. add_delta pc x) [5, 3] (0, 0)) = 5"
  by (simp_all add: add_delta_def)

end
