(* ===== verification/Wiring.thy ===== *)
theory Wiring imports Metrics Rewriter AdminApi
begin

text \<open>
  How main (src/cmd/shardseal/main.go) puts the parts together: the store, the server and the
  background services as the configuration asks for them, the public mux with its middlewares,
  and the path of a repair item from a damaged read over the queue to the rewriter. Parsing
  durations is an argument, as is what \<open>http.ServeMux\<close> answers by itself (\<open>redirect\<close>: it cleans
  paths) and the page of the metrics handler.
\<close>

subsection \<open>Setting up\<close>

definition setup_store :: "string \<Rightarrow> config \<Rightarrow> world \<Rightarrow> localfs result \<times> world" where
  "setup_store cwd cfg w =
     (case new_localfs cwd (cfDataDirs cfg) w of
        (Inl e, w1) \<Rightarrow> (Inl e, w1)
      | (Inr l, w1) \<Rightarrow>
          (Inr (set_sealed (scEnabled (cfSealed cfg)) (scVerifyOnRead (cfSealed cfg)) (set_observer SealedObs l)), w1))"

definition server_limits :: "config \<Rightarrow> limits" where
  "server_limits cfg =
     new_with_limits \<lparr>limSinglePutMax = lcSinglePutMaxBytes (cfLimits cfg), limMinPart = lcMinMultipartPartSize (cfLimits cfg)\<rparr>"

text \<open>The repair pipeline: the store with its callback, the queue and the running worker.\<close>

definition setup_repair :: "config \<Rightarrow> int \<Rightarrow> localfs \<Rightarrow> localfs \<times> mem_queue option \<times> worker option" where
  "setup_repair cfg now l =
     (if \<not> rpEnabled (cfRepair cfg) then (l, None, None)
      else
        (set_repair_callback True l, Some (new_mem_queue 1024),
         if \<not> rpWorkerEnabled (cfRepair cfg) then None
         else
           (let conc = (if rpWorkerConcurrency (cfRepair cfg) \<le> 0 then 1 else rpWorkerConcurrency (cfRepair cfg)) in
            Some (worker_start now (new_worker \<lparr>wcConcurrency = conc, wcBackoff = 0, wcPollInterval = 0, wcMaxRetries = 0\<rparr>)))))"

definition duration_or :: "(string \<Rightarrow> int option) \<Rightarrow> string \<Rightarrow> int \<Rightarrow> int" where
  "duration_or parse_duration s def =
     (case parse_duration s of None \<Rightarrow> def | Some d \<Rightarrow> if d \<le> 0 then def else d)"

definition setup_scrubber :: "config \<Rightarrow> (string \<Rightarrow> int option) \<Rightarrow> mem_queue option \<Rightarrow> sealed_scrubber option" where
  "setup_scrubber cfg parse_duration repQ =
     (if \<not> sbEnabled (cfScrubber cfg) then None
      else
        (let interval = duration_or parse_duration (sbInterval (cfScrubber cfg)) hour;
             concurrency = (if sbConcurrency (cfScrubber cfg) \<le> 0 then 1 else sbConcurrency (cfScrubber cfg));
             verifyPayload = (case sbVerifyPayload (cfScrubber cfg) of None \<Rightarrow> scVerifyOnRead (cfSealed cfg) | Some v \<Rightarrow> v);
             ss = new_sealed_scrubber (cfDataDirs cfg)
               \<lparr>sgInterval = interval, sgConcurrency = concurrency, sgVerifyPayload = verifyPayload\<rparr>
         in Some (if repQ \<noteq> None then set_repair_queue True ss else ss)))"

text \<open>The interval and the age of the background collection, whose loop is \<open>gc_loop\<close>.\<close>

definition setup_gc :: "config \<Rightarrow> (string \<Rightarrow> int option) \<Rightarrow> (int \<times> int) option" where
  "setup_gc cfg parse_duration =
     (if \<not> gcEnabled (cfGC cfg) then None
      else Some (duration_or parse_duration (gcInterval (cfGC cfg)) (15 * 60 * 10 ^ 9),
                 duration_or parse_duration (gcOlderThan (cfGC cfg)) (24 * hour)))"

text \<open>The components the admin server gets.\<close>

definition admin_components ::
    "'w s3_state \<Rightarrow> mem_queue option \<Rightarrow> worker option \<Rightarrow> 's option \<Rightarrow> ('w, 's) admin_state" where
  "admin_components srv repQ repW scrub =
     \<lparr>adServer = srv, adQueue = repQ, adWorker = repW, adScrubber = scrub\<rparr>"

definition setup_admin_auth :: "config \<Rightarrow> admin_auth_config" where
  "setup_admin_auth cfg =
     \<lparr>aaEnabled = osEnabled (cfOIDC cfg), aaAllowUnauthHealth = osAllowUnauthHealth (cfOIDC cfg),
      aaAllowUnauthVersion = osAllowUnauthVersion (cfOIDC cfg)\<rparr>"

subsection \<open>The public server\<close>

text \<open>
  A request as net/http delivers it: what the signature check reads, and the rest. The S3
  handlers and the tracing see the same request.
\<close>

record wire_request = auth_request +
  wrPath :: string
  wrEOFWithData :: bool
  wrComplete :: "(int \<times> string) list option"
  wrAuthNow :: int
  wrNow :: int
  wrRandom :: "byte list"
  wrPartOrder :: "int list \<Rightarrow> int list"
  wrURI :: string
  wrRemoteAddr :: string

definition to_trace :: "wire_request \<Rightarrow> trace_request" where
  "to_trace rq =
     \<lparr>rqMethod = arMethod rq, rqPath = wrPath rq, rqQuery = arQuery rq, rqHeader = h_get (auth_request.truncate rq),
      rqBody = (case arBody rq of None \<Rightarrow> bytes_reader [] | Some b \<Rightarrow> b), rqEOFWithData = wrEOFWithData rq,
      rqComplete = wrComplete rq, rqNow = wrNow rq, rqRandom = wrRandom rq, rqOrder = wrPartOrder rq,
      tqURI = wrURI rq, tqEscapedPath = arEscapedPath rq, tqRemoteAddr = wrRemoteAddr rq\<rparr>"

text \<open>The signature check replaced the body by a buffer, which reports its end on a read of its own.\<close>

definition body_buffered :: "auth_request \<Rightarrow> bool" where
  "body_buffered a \<longleftrightarrow>
     (let h = h_get a ''X-Amz-Content-Sha256'' in
      q_get a ''X-Amz-Algorithm'' = '''' \<and> h \<noteq> '''' \<and> \<not> equal_fold h ''UNSIGNED-PAYLOAD'' \<and> length h \<noteq> 64)"

definition after_auth :: "wire_request \<Rightarrow> auth_request \<Rightarrow> wire_request" where
  "after_auth rq a = rq\<lparr>arBody := arBody a, wrEOFWithData := wrEOFWithData rq \<and> \<not> body_buffered a\<rparr>"

definition to_s3 :: "wire_request \<Rightarrow> http_request" where
  "to_s3 rq = http_request.truncate (to_trace rq)"

definition forbidden_response :: "(err \<Rightarrow> string) \<Rightarrow> err \<Rightarrow> http_response" where
  "forbidden_response err_text e = response 403 (Bytes (string_bytes (''AccessDenied: '' @ err_text e)))"

text \<open>
  The S3 handler behind the signature check, if that is configured; without it the body is
  never replaced.
\<close>

definition s3_chain :: "config \<Rightarrow> (err \<Rightarrow> string) \<Rightarrow> 'w objs \<Rightarrow> wire_request \<Rightarrow> 'w s3_state \<Rightarrow> http_response \<times> 'w s3_state" where
  "s3_chain cfg err_text ob rq =
     (if cfAuthMode cfg = ''sigv4''
      then s3_auth cfg (wrPath rq) (wrAuthNow rq) (\<lambda>e st. (forbidden_response err_text e, st))
             (\<lambda>a. route ob (server_limits cfg) (to_s3 (after_auth rq a))) (auth_request.truncate rq)
      else route ob (server_limits cfg) (to_s3 rq))"

text \<open>
  The public mux. The state is the HTTP metrics and the server's; the result is the answer and
  the span, if one was recorded.
\<close>

definition public_serve ::
    "config \<Rightarrow> (err \<Rightarrow> string) \<Rightarrow> 'w objs \<Rightarrow> bool \<Rightarrow> (wire_request \<Rightarrow> http_response option) \<Rightarrow> (http_metrics \<Rightarrow> byte list) \<Rightarrow> nat \<Rightarrow>
     wire_request \<Rightarrow> http_metrics \<times> 'w s3_state \<Rightarrow> (http_response \<times> span option) \<times> (http_metrics \<times> 'w s3_state)" where
  "public_serve cfg err_text ob ready redirect page elapsed rq s =
     (case redirect rq of
        Some resp \<Rightarrow> ((resp, None), s)
      | None \<Rightarrow>
          if wrPath rq = ''/livez'' then ((response 200 (Bytes (string_bytes ''ok'')), None), s)
          else if wrPath rq = ''/readyz'' then
            (((if \<not> ready then response 503 (Bytes (string_bytes (''not ready'' @ [CHR 0x0A])))
               else response 200 (Bytes (string_bytes ''ready''))), None), s)
          else if wrPath rq = ''/metrics'' then ((response 200 (Bytes (page (fst s))), None), s)
          else metrics_middleware (int elapsed) arMethod (\<lambda>(resp, _). rsStatus resp)
                 (\<lambda>rq. tracing_middleware (tcKeyHashEnabled (cfTracing cfg)) elapsed (\<lambda>_. s3_chain cfg err_text ob rq) (to_trace rq)) rq s)"

subsection \<open>From a damaged read to a repair\<close>

definition repair_item_of :: "storage_repair \<Rightarrow> repair_item" where
  "repair_item_of it =
     \<lparr>riBucket = srBucket it, riKey = srKey it, riShardPath = srShardPath it, riReason = srReason it,
      riPriority = priority_for_reason (srReason it), riDiscovered = srDiscovered it\<rparr>"

definition repair_callback ::
    "bool \<Rightarrow> err option \<Rightarrow> storage_repair \<Rightarrow> repair_metrics \<times> mem_queue \<Rightarrow> (unit result \<times> (repair_metrics \<times> mem_queue)) outcome" where
  "repair_callback ctxFirst ctx it s =
     (case s of (m, q) \<Rightarrow>
        (let rit = repair_item_of it; m1 = repair_observe_enqueue (riReason rit) m in
         case enqueue ctxFirst ctx rit q of
           Done (r, q1) \<Rightarrow> Done (r, (m1, q1))
         | Blocked \<Rightarrow> Blocked
         | Panic \<Rightarrow> Panic))"

text \<open>The store discards the callback's error, but it waits for it.\<close>

fun deliver :: "bool \<Rightarrow> err option \<Rightarrow> storage_repair list \<Rightarrow> repair_metrics \<times> mem_queue \<Rightarrow> (repair_metrics \<times> mem_queue) outcome" where
  "deliver ctxFirst ctx [] s = Done s"
| "deliver ctxFirst ctx (it # its) s =
     (case repair_callback ctxFirst ctx it s of
        Done (_, s1) \<Rightarrow> deliver ctxFirst ctx its s1
      | Blocked \<Rightarrow> Blocked
      | Panic \<Rightarrow> Panic)"

text \<open>What reads and repairs share: the disk, the queue, the worker and the repair metrics.\<close>

record repair_side =
  rpDisk :: world
  rpQueue :: mem_queue
  rpWorker :: worker
  rpMetrics :: repair_metrics

definition wired_get ::
    "localfs \<Rightarrow> json_codec \<Rightarrow> bool \<Rightarrow> err option \<Rightarrow> string \<Rightarrow> string \<Rightarrow> repair_side \<Rightarrow> (get_result result \<times> repair_side) outcome" where
  "wired_get l jc ctxFirst ctx bucket key s =
     (case get l jc bucket key (rpDisk s) of (r, w) \<Rightarrow>
        (case deliver ctxFirst ctx (drop (length (repairs (rpDisk s))) (repairs w)) (rpMetrics s, rpQueue s) of
           Done (m, q) \<Rightarrow> Done (r, s\<lparr>rpDisk := w, rpMetrics := m, rpQueue := q\<rparr>)
         | Blocked \<Rightarrow> Blocked
         | Panic \<Rightarrow> Panic))"

text \<open>The processor main sets: what is skipped counts as done.\<close>

definition process_item ::
    "json_codec \<Rightarrow> string \<Rightarrow> err option \<Rightarrow> int \<Rightarrow> repair_item \<Rightarrow> world \<times> repair_metrics \<Rightarrow> err option \<times> (world \<times> repair_metrics)" where
  "process_item jc baseDir ctx dur it s =
     (case s of (w, m) \<Rightarrow>
        (case repair jc baseDir ctx it w of (r, w1) \<Rightarrow>
           (let (res, err) =
              (case r of
                 Inr _ \<Rightarrow> (''success'', None)
               | Inl e \<Rightarrow> if e = ErrSkip \<or> e = ErrUnsupported then (''skipped'', None) else (''failed'', Some e))
            in (err, (w1, repair_observe_result res dur m)))))"

text \<open>
  One turn of a consumer goroutine, from the top of its loop to the top: the transitions of the
  worker with the processor between the last two. \<open>None\<close> when it would wait.
\<close>

definition worker_turn :: "json_codec \<Rightarrow> string \<Rightarrow> bool \<Rightarrow> int \<Rightarrow> nat \<Rightarrow> repair_side \<Rightarrow> repair_side option" where
  "worker_turn jc baseDir ctxFirst dur i s =
     (case loop_step EvGo (wkThreads (rpWorker s) ! i) (rpWorker s) of
        Some (AtDequeue, wk0) \<Rightarrow>
          (let wk1 = set_thread i AtDequeue wk0 in
           case dequeue ctxFirst (worker_ctx wk1) (rpQueue s) of
             Done (Inr it, q) \<Rightarrow>
               (case loop_step (EvDequeued (Inr it)) AtDequeue wk1 of
                  Some (pc, wk2) \<Rightarrow>
                    (let wk3 = set_thread i pc wk2 in
                     case process_item jc baseDir (worker_ctx wk3) dur it (rpDisk s, rpMetrics s) of
                       (perr, (w, m)) \<Rightarrow>
                         (case loop_step (EvProcessed perr) pc wk3 of
                            Some (pc1, wk4) \<Rightarrow>
                              Some \<lparr>rpDisk = w, rpQueue = q, rpWorker = set_thread i pc1 wk4, rpMetrics = m\<rparr>
                          | None \<Rightarrow> None))
                | None \<Rightarrow> None)
           | _ \<Rightarrow> None)
      | _ \<Rightarrow> None)"

text \<open>
  The end of the pipeline when main shuts down: the worker is asked to stop and waited for as
  long as the context lasts, whose error is dropped, then the queue is closed.
\<close>

definition shutdown_worker :: "err option \<Rightarrow> worker option \<Rightarrow> worker option outcome" where
  "shutdown_worker ctx repW =
     (case repW of
        None \<Rightarrow> Done None
      | Some w \<Rightarrow>
          (case worker_stop_wait ctx (worker_stop_request w) of
             Done (_, w1) \<Rightarrow> Done (Some w1)
           | Blocked \<Rightarrow> Blocked
           | Panic \<Rightarrow> Panic))"

definition shutdown_pipeline ::
    "err option \<Rightarrow> worker option \<times> mem_queue option \<Rightarrow> (worker option \<times> mem_queue option) outcome" where
  "shutdown_pipeline ctx s =
     (case s of (repW, repQ) \<Rightarrow>
        (case shutdown_worker ctx repW of
           Done w1 \<Rightarrow> Done (w1, map_option (\<lambda>q. snd (close_queue q)) repQ)
         | Blocked \<Rightarrow> Blocked
         | Panic \<Rightarrow> Panic))"

end
