(* ===== verification/Heal.thy ===== *)
theory Heal imports Rewriter ObjectStore
begin

text \<open>
  The rewriter succeeds: on a disk on which no call fails, the repair of a sealed object whose
  payload survived goes through. The run is built one call at a time: each lemma of the first
  part says that a call succeeds and leaves no failure behind, what it does to the files comes
  from the lemmas of Files.
\<close>

subsection \<open>Calls that succeed\<close>

lemma os_create_temp_succeeds:
  assumes q: "fs_faults w = []" and d: "lookup w dir = Some DirN"
  obtains tmp w' where "os_create_temp dir pre suf w = (Inr tmp, w')" and "fs_faults w' = []"
  using assms by (simp add: os_create_temp_def Let_def)

lemma os_write_at_succeeds:
  assumes q: "fs_faults w = []"
  obtains w' where "os_write_at p off bs w = (Inr (), w')" and "fs_faults w' = []"
  using assms by (cases "lookup w p"; cases "the (lookup w p)") (auto simp: os_write_at_def)

lemma os_sync_quiet [simp]: "fs_faults w = [] \<Longrightarrow> os_sync p w = (Inr (), w)"
  by (simp add: os_sync_def)

lemma os_rename_succeeds:
  assumes q: "fs_faults w = []" and src: "file_at w p = Some c"
    and dst: "lookup w q \<noteq> Some DirN" and dir: "lookup w (butlast q) = Some DirN"
  obtains w' where "os_rename p q w = (Inr (), w')" and "fs_faults w' = []"
  using assms
  by (cases "lookup w q"; cases "the (lookup w q)") (auto simp: os_rename_def file_at_Some)

lemma sync_dir_quiet [simp]:
  "fs_faults w = [] \<Longrightarrow> lookup w d = Some n \<Longrightarrow> sync_dir d w = (Inr (), w)"
  by (simp add: sync_dir_def io_bind_def io_defer_def)

lemma mkdir_from_present:
  "(\<forall>n \<in> {1..length cs}. lookup w (pre @ take n cs) = Some DirN) \<Longrightarrow> mkdir_from pre cs w = (Inr (), w)"
proof (induction cs arbitrary: pre)
  case Nil
  then show ?case by simp
next
  case (Cons c cs)
  have "lookup w (pre @ [c]) = Some DirN" using bspec [OF Cons.prems, of 1] by simp
  moreover have "\<forall>n \<in> {1..length cs}. lookup w ((pre @ [c]) @ take n cs) = Some DirN"
    using Cons.prems by (auto dest!: bspec [of _ _ "Suc _"])
  ultimately show ?case using Cons.IH by simp
qed

text \<open>Above something that exists there are only directories.\<close>

lemma dirs_above:
  assumes t: "tree_ok w" and f: "lookup w p = Some n" and ne: "p \<noteq> []"
  shows "os_mkdir_all (butlast p) w = (Inr (), w)" and "lookup w (butlast p) = Some DirN"
proof -
  show "lookup w (butlast p) = Some DirN" using t f ne by (rule tree_okD)
  have "lookup w (take k (butlast p)) = Some DirN" if "k \<le> length (butlast p)" for k
  proof -
    have p: "p = take k (butlast p) @ (drop k (butlast p) @ [last p])"
      using ne by (metis append_assoc append_take_drop_id append_butlast_last_id)
    show ?thesis
      by (rule tree_ok_prefix [OF t, of _ "drop k (butlast p) @ [last p]" n]) (use f p in simp_all)
  qed
  then show "os_mkdir_all (butlast p) w = (Inr (), w)"
    unfolding os_mkdir_all_def by (intro mkdir_from_present) simp
qed

lemma file_not_dir: "file_at w p = Some c \<Longrightarrow> lookup w p \<noteq> Some DirN"
  by (auto simp: file_at_Some)

lemma dir_of_file:
  assumes "tree_ok w" and "file_at w p = Some c"
  shows "lookup w (butlast p) = Some DirN"
proof -
  obtain t where l: "lookup w p = Some (FileN c t)" using assms(2) by (auto simp: file_at_Some)
  then have "p \<noteq> []" by auto
  with l assms(1) show ?thesis by (intro tree_okD)
qed

subsection \<open>Saving over a manifest\<close>

lemma save_manifest_succeeds:
  assumes base: "abs_base base" and bucket: "good_elem bucket" and q: "fs_faults w = []" and tree: "tree_ok w"
    and old: "file_at w (meta_elems base bucket key) = Some d0"
    and val: "validate_basic (manifest_defaults (fs_clock w) m) = Inr ()"
    and enc: "jenc jc (manifest_defaults (fs_clock w) m) = Some data"
  obtains w' where "save_manifest jc base bucket key m w = (Inr (), w')" and "fs_faults w' = []" and "tree_ok w'"
proof -
  let ?dst = "meta_elems base bucket key"
  obtain p where p: "manifest_path base bucket key = Inr p" "os_path p = ?dst"
    using manifest_path_ok [OF base bucket] by blast
  obtain t where l: "lookup w ?dst = Some (FileN d0 t)" using old by (auto simp: file_at_Some)
  then have ne: "?dst \<noteq> []" by auto
  note up = dirs_above [OF tree l ne]
  obtain tmp w1 where ct: "os_create_temp (butlast ?dst) ''.object.meta.'' ''.tmp'' w = (Inr tmp, w1)" "fs_faults w1 = []"
    using os_create_temp_succeeds [OF q up(2)] by metis
  obtain w2 where wr: "os_write_at tmp 0 data w1 = (Inr (), w2)" "fs_faults w2 = []"
    using os_write_at_succeeds [OF ct(2)] by metis
  have tmp: "file_at w tmp = None" "file_at w1 = (file_at w)(tmp \<mapsto> [])"
    using os_create_temp_ok [OF ct(1)] by auto
  have f2: "file_at w2 = (file_at w)(tmp \<mapsto> write_at [] 0 data)"
    using os_write_at_ok [OF wr(1), of "[]"] tmp by simp
  have t2: "tree_ok w2"
    using os_write_at_tree_ok [OF wr(1) os_create_temp_tree_ok [OF ct(1) tree]] .
  have d2: "file_at w2 ?dst = Some d0" using f2 old tmp by auto
  obtain w3 where rn: "os_rename tmp ?dst w2 = (Inr (), w3)" "fs_faults w3 = []"
    using os_rename_succeeds [OF wr(2), of tmp _ ?dst] f2 file_not_dir [OF d2] dir_of_file [OF t2 d2] by auto
  obtain c where "file_at w3 ?dst = Some c" using os_rename_ok [OF rn(1)] by auto
  then have d3: "lookup w3 (butlast ?dst) = Some DirN"
    using dir_of_file os_rename_tree_ok [OF rn(1) t2] by blast
  let ?w4 = "io_ignore (os_remove tmp) (io_ignore (os_chtimes ?dst (mLastModified (manifest_defaults (fs_clock w) m))) w3)"
  have "save_manifest jc base bucket key m w = (Inr (), ?w4)"
    using p val enc up(1) ct(1) wr rn d3
    by (simp add: save_manifest_def Let_def io_bind_def io_defer_def save_manifest_tmp_def os_close_def)
  moreover have "fs_faults ?w4 = []" using rn(2) by simp
  moreover have "tree_ok ?w4" by (intro io_ignore_tree_ok os_rename_tree_ok [OF rn(1) t2])
  ultimately show thesis by (rule that)
qed

subsection \<open>The repair\<close>

lemma validate_repaired:
  "validate_basic (repaired_manifest m shard hdr ftr digest n now) = validate_basic m"
  by (simp add: validate_basic_def repaired_manifest_def)

lemma defaults_repaired:
  "validate_basic m = Inr () \<Longrightarrow>
     manifest_defaults now (repaired_manifest m shard hdr ftr digest n now) = repaired_manifest m shard hdr ftr digest n now"
  by (auto simp: validate_basic_def manifest_defaults_def repaired_manifest_def ManifestFormatV1_def Let_def split: if_splits)

lemma repair_publish_succeeds:
  assumes base: "abs_base base" and bucket: "good_elem (riBucket item)" and q: "fs_faults w = []" and tree: "tree_ok w"
    and tmp: "file_at w tmp = Some c0" and old: "file_at w (meta_elems base (riBucket item) (riKey item)) = Some d0"
    and dst: "file_at w absShard = Some c"
    and ne: "tmp \<noteq> absShard" "tmp \<noteq> meta_elems base (riBucket item) (riKey item)" "absShard \<noteq> meta_elems base (riBucket item) (riKey item)"
    and val: "validate_basic m = Inr ()"
    and enc: "jenc jc (repaired_manifest m shard hdr (encode_shard_footer digest) digest n (fs_clock w)) = Some data"
  obtains w' where "repair_publish jc base item m shard absShard tmp hdr digest n w = (Inr (), w')" and "fs_faults w' = []" and "tree_ok w'"
proof -
  let ?ft = "encode_shard_footer digest" and ?meta = "meta_elems base (riBucket item) (riKey item)"
  obtain w1 where wr: "os_write_at tmp (length hdr + nat n) ?ft w = (Inr (), w1)" "fs_faults w1 = []"
    using os_write_at_succeeds [OF q] by metis
  have f1: "file_at w1 = (file_at w)(tmp \<mapsto> write_at c0 (length hdr + nat n) ?ft)"
    using os_write_at_ok [OF wr(1) tmp] .
  have t1: "tree_ok w1" using os_write_at_tree_ok [OF wr(1) tree] .
  have d1: "file_at w1 absShard = Some c" using f1 dst ne by simp
  obtain w2 where rn: "os_rename tmp absShard w1 = (Inr (), w2)" "fs_faults w2 = []"
    using os_rename_succeeds [OF wr(2), of tmp _ absShard] f1 file_not_dir [OF d1] dir_of_file [OF t1 d1] by auto
  have f2: "file_at w2 absShard \<noteq> None" "file_at w2 ?meta = Some d0"
    using os_rename_ok [OF rn(1)] f1 old ne by auto
  have t2: "tree_ok w2" using os_rename_tree_ok [OF rn(1) t1] .
  have sd: "sync_dir (butlast absShard) w2 = (Inr (), w2)"
    using rn(2) dir_of_file [OF t2] f2 by auto
  let ?m = "repaired_manifest m shard hdr ?ft digest n (fs_clock w2)"
  have v: "validate_basic ?m = Inr ()" using val by (simp add: validate_repaired)
  have "frame {tmp} w w1" using wr(1) by (rule os_write_at_frame) simp
  moreover have "frame {tmp, absShard} w1 w2" using rn(1) by (rule os_rename_frame) simp_all
  ultimately have data: "jenc jc ?m = Some data" using enc by (simp add: frame_def)
  obtain w3 where "save_manifest jc base (riBucket item) (riKey item) ?m w2 = (Inr (), w3)" "fs_faults w3 = []" "tree_ok w3"
    using save_manifest_succeeds [OF base bucket rn(2) t2 f2(2), of ?m jc data] v data
    by (auto simp: defaults_repaired [OF val])
  with wr rn sd show thesis
    by (intro that [of w3]) (simp_all add: repair_publish_def io_bind_def os_close_def)
qed

text \<open>
  The shard as the rewriter finds it, long enough and with the recorded payload where it belongs,
  and the manifest the repair writes.
\<close>

definition shard_payload :: "manifest \<Rightarrow> shard_meta \<Rightarrow> byte list \<Rightarrow> byte list" where
  "shard_payload m shard c = take (nat (repair_payload_len m shard)) (drop 28 c)"

definition repairable :: "manifest \<Rightarrow> shard_meta \<Rightarrow> byte list \<Rightarrow> bool" where
  "repairable m shard c \<longleftrightarrow>
     (let n = repair_payload_len m shard in
      smPath shard \<noteq> '''' \<and> 0 < n \<and> n < 2 ^ 63 - 64 \<and> 64 + nat n \<le> length c \<and>
      hex_decode (smContentHashHex shard) = Some (sha256 (shard_payload m shard c)))"

definition healed_manifest :: "manifest \<Rightarrow> shard_meta \<Rightarrow> byte list \<Rightarrow> int \<Rightarrow> manifest" where
  "healed_manifest m shard c now =
     (let n = repair_payload_len m shard; digest = sha256 (shard_payload m shard c) in
      repaired_manifest m shard (header_bytes (sealed_header n)) (encode_shard_footer digest) digest n now)"

lemma repair_shard_succeeds:
  assumes base: "abs_base base" and bucket: "good_elem (riBucket item)" and q: "fs_faults w = []" and tree: "tree_ok w"
    and old: "file_at w (meta_elems base (riBucket item) (riKey item)) = Some d0"
    and dst: "lookup w absShard = Some (FileN c t)" and ne: "absShard \<noteq> meta_elems base (riBucket item) (riKey item)"
    and rep: "repairable m shard c"
    and val: "validate_basic m = Inr ()" and enc: "jenc jc (healed_manifest m shard c (fs_clock w)) = Some data"
  obtains w' where "repair_shard jc base item m shard (repair_payload_len m shard) absShard w = (Inr (), w')" and "fs_faults w' = []" and "tree_ok w'"
proof -
  let ?n = "repair_payload_len m shard" and ?meta = "meta_elems base (riBucket item) (riKey item)"
  let ?hdr = "header_bytes (sealed_header ?n)" and ?p = "take (nat ?n) (drop 28 c)"
  have n: "0 < ?n" "?n < 2 ^ 63 - 64" "64 + nat ?n \<le> length c"
    and hx: "hex_decode (smContentHashHex shard) = Some (sha256 ?p)"
    using rep by (auto simp: repairable_def shard_payload_def Let_def)
  have cw: "file_at w absShard = Some c" using dst by (simp add: file_at_Some)
  obtain tmp w1 where ct: "os_create_temp (butlast absShard) ''.repair-'' '''' w = (Inr tmp, w1)" "fs_faults w1 = []"
    using os_create_temp_succeeds [OF q dir_of_file [OF tree cw]] by metis
  have tmp: "file_at w tmp = None" "file_at w1 = (file_at w)(tmp \<mapsto> [])"
    using os_create_temp_ok [OF ct(1)] by auto
  have t1: "tree_ok w1" using os_create_temp_tree_ok [OF ct(1) tree] .
  obtain w2 where wr: "os_write_at tmp 0 ?hdr w1 = (Inr (), w2)" "fs_faults w2 = []"
    using os_write_at_succeeds [OF ct(2)] by metis
  have t2: "tree_ok w2" using os_write_at_tree_ok [OF wr(1) t1] .
  have f2: "file_at w2 = (file_at w)(tmp \<mapsto> write_at [] 0 ?hdr)"
    using os_write_at_ok [OF wr(1), of "[]"] tmp by simp
  obtain w3 where wp: "os_write_at tmp (length ?hdr) ?p w2 = (Inr (), w3)" "fs_faults w3 = []"
    using os_write_at_succeeds [OF wr(2)] by metis
  have t3: "tree_ok w3" using os_write_at_tree_ok [OF wp(1) t2] .
  have f3: "\<exists>c0. file_at w3 = (file_at w)(tmp \<mapsto> c0)"
    using os_write_at_ok [OF wp(1), of "write_at [] 0 ?hdr"] f2 by auto
  then obtain c0 where c0: "file_at w3 = (file_at w)(tmp \<mapsto> c0)" ..
  have nt: "tmp \<noteq> absShard" "tmp \<noteq> ?meta" using tmp cw old by auto
  have "frame {tmp} w w1" using os_create_temp_ok [OF ct(1)] by blast
  moreover have "frame {tmp} w1 w2" using wr(1) by (rule os_write_at_frame) simp
  moreover have "frame {tmp} w2 w3" using wp(1) by (rule os_write_at_frame) simp
  ultimately have clk: "fs_clock w3 = fs_clock w" by (simp add: frame_def)
  obtain w4 where pb: "repair_publish jc base item m shard absShard tmp ?hdr (sha256 ?p) ?n w3 = (Inr (), w4)" "fs_faults w4 = []" "tree_ok w4"
    using repair_publish_succeeds [OF base bucket wp(2) t3, of tmp c0 d0 absShard c m jc shard ?hdr "sha256 ?p" ?n data] c0 nt old cw ne val enc clk
    by (auto simp: healed_manifest_def shard_payload_def Let_def)
  have rd: "read_n (FileN c t) 28 ?n w2 = (Inr ?p, w2)"
    using wr(2) n by (intro read_n_quiet) auto
  have "repair_rewrite jc base item m shard absShard (FileN c t) 28 ?n tmp w1 = (Inr (), w4)"
    using wr(1) wp(1) rd hx pb(1) by (simp add: repair_rewrite_def io_bind_def)
  then have "repair_shard jc base item m shard ?n absShard w =
      (Inr (), io_ignore (os_close absShard) (io_ignore (os_remove tmp) (io_ignore (os_close tmp) w4)))"
    using q dst ct by (simp add: repair_shard_def io_bind_def io_defer_def io_ignore_def)
  moreover have "fs_faults (io_ignore (os_close absShard) (io_ignore (os_remove tmp) (io_ignore (os_close tmp) w4))) = []"
    using pb(2) by simp
  moreover have "tree_ok (io_ignore (os_close absShard) (io_ignore (os_remove tmp) (io_ignore (os_close tmp) w4)))"
    using io_ignore_tree_ok(1) pb(2,3) by simp
  ultimately show thesis by (rule that)
qed

lemma repair_succeeds:
  assumes base: "abs_base (lBase l)" and bucket: "good_elem (riBucket item)" and q: "fs_faults w = []" and tree: "tree_ok w"
    and meta: "file_at w (meta_elems (lBase l) (riBucket item) (riKey item)) = Some d0" and dec: "jdec jc d0 = Some m"
    and val: "validate_basic m = Inr ()" and sh: "mShards m = [shard]"
    and item: "riShardPath item = '''' \<or> riShardPath item = smPath shard"
    and c: "file_at w (shard_file l shard) = Some c" and rep: "repairable m shard c"
    and ne: "shard_file l shard \<noteq> meta_elems (lBase l) (riBucket item) (riKey item)"
    and enc: "jenc jc (healed_manifest m shard c (fs_clock w)) = Some data"
  obtains w' where "repair jc (lBase l) None item w = (Inr (), w')" and "fs_faults w' = []" and "tree_ok w'"
proof -
  let ?n = "repair_payload_len m shard" and ?s = "os_path (join_path [lBase l, smPath shard])"
  have s: "?s = shard_file l shard" by (simp add: shard_file_def)
  obtain t where lk: "lookup w (shard_file l shard) = Some (FileN c t)" using c by (auto simp: file_at_Some)
  have ld: "load_manifest jc (lBase l) (riBucket item) (riKey item) w = (Inr m, w)"
    using meta dec val by (auto simp: load_manifest_quiet [OF base bucket q] file_at_Some)
  have n: "0 < ?n" "?n < 2 ^ 63 - 64" "64 + nat ?n \<le> length c" "smPath shard \<noteq> ''''"
    using rep by (auto simp: repairable_def Let_def)
  have "sint (word_of_int (28 + ?n + 36) :: 64 word) = 28 + ?n + 36"
    using n by (intro sint_of_int64) auto
  then have big: "\<not> node_size (FileN c t) < sint (word_of_int (28 + ?n + 36) :: 64 word)"
    using n by (simp add: node_size_def)
  obtain w' where "repair_shard jc (lBase l) item m shard ?n (shard_file l shard) w = (Inr (), w')" "fs_faults w' = []" "tree_ok w'"
    using repair_shard_succeeds [OF base bucket q tree meta lk ne rep val enc] by blast
  moreover have "lBase l \<noteq> ''''" using base by (auto simp: abs_base_def is_rooted_def)
  ultimately show thesis
    using that ld sh item n lk q big s by (auto simp: repair_def repair_single_def Let_def)
qed

subsection \<open>The damaged example object\<close>

lemma ex_shard_payload:
  shows "repair_payload_len ex_manifest ex_shard_meta = 2"
    and "shard_payload ex_manifest ex_shard_meta (replicate 28 0 @ [1, 2] @ replicate 36 0) = [1, 2]"
    and "healed_manifest ex_manifest ex_shard_meta (replicate 28 0 @ [1, 2] @ replicate 36 0) 7 = ex_manifest"
    and "repairable ex_manifest ex_shard_meta (replicate 28 0 @ [1, 2] @ replicate 36 0)"
proof -
  let ?c = "replicate 28 0 @ [1, 2] @ replicate 36 0 :: byte list"
  show pl: "repair_payload_len ex_manifest ex_shard_meta = 2"
    by (simp add: repair_payload_len_def ex_shard_meta_def sealed_shard_meta_def bytes_reader_def)
  then show sp: "shard_payload ex_manifest ex_shard_meta ?c = [1, 2]"
    by (simp add: shard_payload_def numeral_eq_Suc)
  show "healed_manifest ex_manifest ex_shard_meta ?c 7 = ex_manifest"
    unfolding healed_manifest_def sp pl
    by (simp add: repaired_manifest_def ex_manifest_def sealed_object_manifest_def new_single_shard_manifest_def
        ex_shard_meta_def sealed_shard_meta_def bytes_reader_def Let_def)
  have "smPath ex_shard_meta \<noteq> ''''"
    using ex_shard_file
    by (auto simp: shard_file_def ex_sealed_def ex_store_def join_path_def clean_def is_rooted_def clean_elems_def clean_step.simps os_path_def)
  then show "repairable ex_manifest ex_shard_meta ?c"
    unfolding repairable_def Let_def pl sp by (simp add: ex_shard_meta_def)
qed

end
