(* ===== verification/WiringProps.thy ===== *)
theory WiringProps imports Wiring Heal
begin

text \<open>
  The parts together: a read that finds a damaged shard leads to its repair, and the public
  server changes nothing for a request whose signature does not verify.
\<close>

subsection \<open>The worker's turn\<close>

text \<open>A turn is three transitions of the worker's system.\<close>

lemma worker_turn_steps:
  assumes t: "worker_turn jc base b dur i s = Some s'" and i: "i < length (wkThreads (rpWorker s))"
    and sys: "wsWorker ws = rpWorker s" "wsQueue ws = rpQueue s"
  shows "\<exists>ws'. worker_step\<^sup>*\<^sup>* ws ws' \<and> wsWorker ws' = rpWorker s' \<and> wsQueue ws' = rpQueue s'"
proof -
  from t obtain wk0 it q pc wk2 perr w m pc1 wk4 where
      go: "loop_step EvGo (wkThreads (rpWorker s) ! i) (rpWorker s) = Some (AtDequeue, wk0)"
    and dq: "dequeue b (worker_ctx (set_thread i AtDequeue wk0)) (rpQueue s) = Done (Inr it, q)"
    and gt: "loop_step (EvDequeued (Inr it)) AtDequeue (set_thread i AtDequeue wk0) = Some (pc, wk2)"
    and pr: "loop_step (EvProcessed perr) pc (set_thread i pc wk2) = Some (pc1, wk4)"
    and s': "s' = \<lparr>rpDisk = w, rpQueue = q, rpWorker = set_thread i pc1 wk4, rpMetrics = m\<rparr>"
    unfolding worker_turn_def Let_def
    by (auto split: option.split_asm loop_pc.split_asm prod.split_asm outcome.split_asm sum.split_asm)
  have wk0: "wk0 = rpWorker s" using loop_step_move [OF go] by simp
  have pc: "pc = Processing it" using gt by (simp add: set_thread_def)
  let ?s1 = "ws\<lparr>wsWorker := set_thread i AtDequeue wk0\<rparr>"
  let ?s2 = "?s1\<lparr>wsWorker := set_thread i pc wk2, wsQueue := q, wsTaken := wsTaken ?s1 @ [it]\<rparr>"
  let ?s3 = "?s2\<lparr>wsWorker := set_thread i pc1 wk4, wsFinished := wsFinished ?s2 @ [(it, perr)]\<rparr>"
  have th: "wkThreads wk2 = (wkThreads (rpWorker s))[i := AtDequeue]"
    using gt wk0 by (auto simp: set_thread_def)
  have "worker_step ws ?s1"
    using i go sys by (intro ws_move) simp_all
  moreover have "worker_step ?s1 ?s2"
    using ws_dequeue [of i ?s1 b "Inr it" q pc wk2] i dq gt sys wk0 by (simp add: set_thread_def)
  moreover have "worker_step ?s2 ?s3"
    using ws_process [of i ?s2 it perr pc1 wk4] i pr pc th by (simp add: set_thread_def)
  ultimately have "worker_step\<^sup>*\<^sup>* ws ?s3" by (meson converse_rtranclp_into_rtranclp rtranclp.rtrancl_refl)
  then show ?thesis using s' by (intro exI [of _ ?s3]) simp
qed

text \<open>The processor hands no skip to the worker, so the worker's own skip counter stays put.\<close>

lemma processor_never_skips:
  "process_item jc base ctx dur it s = (perr, s') \<Longrightarrow> wkSkipped (count_outcome perr wk) = wkSkipped wk"
  by (auto simp: process_item_def Let_def count_outcome_def set_last_err_def split: prod.split_asm sum.split_asm if_split_asm option.split)

text \<open>A full queue holds up the read that found the damage, as long as its request lives.\<close>

lemma full_queue_holds_read:
  assumes "get l jc bucket key (rpDisk s) = (r, w)" and "repairs w = repairs (rpDisk s) @ [it]"
    and "\<not> mqClosed (rpQueue s)" and "\<not> mqChanClosed (rpQueue s)" and "length (mqBuf (rpQueue s)) = mqCap (rpQueue s)"
  shows "wired_get l jc b None bucket key s = Blocked"
  using assms by (simp add: wired_get_def repair_callback_def enqueue_def chan_send_def Let_def)

subsection \<open>A damaged object heals\<close>

lemma verify_on_read_quiet:
  "fs_faults w = [] \<Longrightarrow> snd (verify_on_read (FileN c t) shard h w) = w"
  by (simp add: verify_on_read_def verify_payload_def read_footer_quiet read_n_quiet_any split: sum.split)

lemma observe_clock:
  "fs_clock (observe l op n f w) = fs_clock w" "fs_clock (observe_sealed l op n f s i w) = fs_clock w"
  by (simp_all add: observe_def observe_sealed_def split: observer.split)

text \<open>A failed read of a shard on a quiet disk that is reported: what it leaves and hands over.\<close>

lemma reported_read:
  assumes g: "get_sealed l bucket key m shard w = (Inl e, w')" and cb: "lRepCb l" and q: "fs_faults w = []"
    and sh: "lookup w (shard_file l shard) = Some (FileN c t)" and rep: "repairs w' \<noteq> repairs w"
  shows "repairs w' = repairs w @ [\<lparr>srBucket = bucket, srKey = key, srShardPath = smPath shard,
      srReason = ''read_integrity_fail'', srPriority = 0, srDiscovered = fs_clock w\<rparr>] \<and>
    lookup w' = lookup w \<and> fs_faults w' = [] \<and> fs_clock w' = fs_clock w"
proof -
  let ?v = "enqueue_repair l bucket key (smPath shard) ''read_integrity_fail'' w"
  have v: "repairs ?v = repairs w @ [\<lparr>srBucket = bucket, srKey = key, srShardPath = smPath shard,
      srReason = ''read_integrity_fail'', srPriority = 0, srDiscovered = fs_clock w\<rparr>]"
    "lookup ?v = lookup w" "fs_faults ?v = []" "fs_clock ?v = fs_clock w"
    using cb q by (simp_all add: enqueue_repair_def lookup_def fun_eq_iff)
  have op: "os_open (shard_file l shard) w = (Inr (FileN c t), w)" using q sh by simp
  obtain r where rh: "read_header (FileN c t) 0 w = (r, w)" using q by (simp add: read_header_quiet)
  have "w' = observe l ''get'' 0 True ?v \<or> w' = observe_sealed l ''get'' 0 True True True ?v"
  proof (cases r)
    case (Inl e')
    with g op rh q show ?thesis by (simp add: get_sealed_def Let_def fail_obs_def)
  next
    case (Inr h)
    define vr where "vr = (if lVerify l then verify_on_read (FileN c t) shard h w else (CheckOk, w))"
    have "snd vr = w" using verify_on_read_quiet [OF q] by (simp add: vr_def)
    then obtain ck where "vr = (ck, w)" by (cases vr) simp
    with g op rh q Inr rep show ?thesis
      by (cases ck) (auto simp: get_sealed_def Let_def fail_obs_def integrity_fail_def simp flip: vr_def)
  qed
  with v show ?thesis by (auto simp: repairs_observe observe_clock)
qed


definition ex_side :: repair_side where
  "ex_side = \<lparr>rpDisk = ex_damaged, rpQueue = new_mem_queue 1024,
     rpWorker = worker_start 3 (new_worker \<lparr>wcConcurrency = 1, wcBackoff = 0, wcPollInterval = 0, wcMaxRetries = 0\<rparr>),
     rpMetrics = new_repair_metrics\<rparr>"

lemma ex_damaged_get:
  "\<exists>e w1. get ex_sealed ex_one ''bkt'' ''k'' ex_damaged = (Inl e, w1) \<and> repairs w1 \<noteq> repairs ex_damaged"
proof -
  let ?c = "replicate 28 0 @ [1, 2] @ replicate 36 0 :: byte list"
  have q: "fs_faults ex_damaged = []" by (simp add: ex_damaged_def)
  have sm: "sealed_manifest ex_sealed ex_one ''bkt'' ''k'' ex_damaged = (Some (ex_manifest, ex_shard_meta), ex_damaged)"
    using ex_damaged_load by (simp add: sealed_manifest_def ex_sealed_def ex_store_def ex_manifest_def ex_shard_meta_def)
  have op: "os_open (shard_file ex_sealed ex_shard_meta) ex_damaged = (Inr (FileN ?c 7), ex_damaged)"
    using q by (simp add: ex_shard_file) (simp add: lookup_def ex_damaged_def)
  have "\<not> is_ok (decode_shard_header ?c)" by code_simp
  then obtain e where "decode_shard_header ?c = Inl e" by (cases "decode_shard_header ?c") auto
  then obtain e where "read_header (FileN ?c 7) 0 ex_damaged = (Inl e, ex_damaged)"
    using q by (auto simp: read_header_quiet)
  with q op sm show ?thesis
    by (auto simp: get_def get_sealed_def Let_def fail_obs_def enqueue_repair_def ex_sealed_def ex_store_def
        repairs_observe observe_def)
qed


subsection \<open>The public server\<close>

lemma s3_chain_sigv4:
  assumes "cfAuthMode cfg = ''sigv4''" and "\<not> s3_exempt (wrPath rq)"
  shows "s3_chain cfg err_text ob rq st =
    (case verify_request (store_lookup (new_static_store (s3_access_keys cfg))) (wrAuthNow rq) (auth_request.truncate rq) of
       (Inl e, _) \<Rightarrow> (forbidden_response err_text e, st)
     | (Inr _, rq1) \<Rightarrow> route ob (server_limits cfg) (to_s3 (after_auth rq rq1)) st)"
  using assms by (simp add: s3_chain_def s3_auth_def sigv4_middleware_def split: prod.split sum.split)

lemma metrics_middleware_counts:
  "metrics_middleware elapsed mth status h rq (m, s) = (r, (m', s')) \<Longrightarrow>
     h rq s = (r, s') \<and> hmInflight m' = hmInflight m \<and>
     hmRequests m' = inc (itoa (int (status r)), mth rq) (hmRequests m)"
  by (auto simp: metrics_middleware_def http_end_def http_begin_def http_unwind_def Let_def split: prod.split_asm)

text \<open>
  C10. Every request to the S3 API is authenticated, traced and counted. With the signature
  check configured, a request either is answered by the mux itself and changes nothing, or gets
  one span with the status of its answer, is counted once under that status and its method with
  no request left in flight, and is refused with 403 and no effect, or its signature verifies
  against the configured keys and the S3 server handles it.
\<close>

theorem public_requests_gated:
  assumes mode: "cfAuthMode cfg = ''sigv4''"
    and serve: "public_serve cfg err_text ob ready redirect page elapsed rq (m, st) = ((resp, sp), (m', st'))"
  shows "case sp of
      None \<Rightarrow> m' = m \<and> st' = st
    | Some x \<Rightarrow> spStatus x = rsStatus resp \<and> hmInflight m' = hmInflight m \<and>
        hmRequests m' = inc (itoa (int (rsStatus resp)), arMethod rq) (hmRequests m) \<and>
        (case verify_request (store_lookup (new_static_store (s3_access_keys cfg))) (wrAuthNow rq) (auth_request.truncate rq) of
           (Inl e, _) \<Rightarrow> st' = st \<and> rsStatus resp = 403
         | (Inr _, rq1) \<Rightarrow> (resp, st') = route ob (server_limits cfg) (to_s3 (after_auth rq rq1)) st)"
proof (cases "redirect rq = None \<and> \<not> s3_exempt (wrPath rq)")
  case False
  with serve show ?thesis
    by (auto simp: public_serve_def s3_exempt_def split: option.split_asm if_split_asm)
next
  case True
  then have ne: "\<not> s3_exempt (wrPath rq)" "\<not> skipped_path (wrPath rq)" by (simp_all add: s3_exempt_def skipped_path_def)
  have "metrics_middleware (int elapsed) arMethod (\<lambda>(resp, _). rsStatus resp)
      (\<lambda>rq. tracing_middleware (tcKeyHashEnabled (cfTracing cfg)) elapsed (\<lambda>_. s3_chain cfg err_text ob rq) (to_trace rq)) rq (m, st) =
      ((resp, sp), (m', st'))"
    using serve True by (simp add: public_serve_def s3_exempt_def)
  note mm = metrics_middleware_counts [OF this]
  then have "tracing_middleware (tcKeyHashEnabled (cfTracing cfg)) elapsed (\<lambda>_. s3_chain cfg err_text ob rq) (to_trace rq) st = ((resp, sp), st')"
    by simp
  then have ch: "s3_chain cfg err_text ob rq st = (resp, st')"
    and sp: "sp = Some (request_span (tcKeyHashEnabled (cfTracing cfg)) elapsed (to_trace rq) resp)"
    using ne(2) by (auto simp: tracing_middleware_def to_trace_def split: prod.split_asm)
  show ?thesis
    using mm ch unfolding sp s3_chain_sigv4 [OF mode ne(1)]
    by (auto simp: request_span_def forbidden_response_def response_def split: prod.split sum.split)
qed

definition ex_wire :: wire_request where
  "ex_wire = \<lparr>arMethod = ''PUT'', arEscapedPath = ''/bkt/k'', arQuery = [], arOrder = id, arHeader = [], arHost = ''h'',
     arBody = Some (bytes_reader [1]), wrPath = ''/bkt/k'', wrEOFWithData = False, wrComplete = None, wrAuthNow = 0, wrNow = 0,
     wrRandom = [], wrPartOrder = id, wrURI = ''/bkt/k'', wrRemoteAddr = ''1.2.3.4:5''\<rparr>"

theorem public_requests_gated_witness:
  "\<forall>ob st. snd (snd (public_serve (default_config\<lparr>cfAuthMode := ''sigv4''\<rparr>) (\<lambda>_. '''') ob True (\<lambda>_. None) (\<lambda>_. []) 7
     ex_wire (new_http_metrics, st))) = st"
proof (intro allI)
  fix ob :: "'w objs" and st
  let ?cfg = "default_config\<lparr>cfAuthMode := ''sigv4''\<rparr>"
  obtain resp sp m' st' where s: "public_serve ?cfg (\<lambda>_. '''') ob True (\<lambda>_. None) (\<lambda>_. []) 7 ex_wire (new_http_metrics, st) =
      ((resp, sp), (m', st'))"
    by (cases "public_serve ?cfg (\<lambda>_. '''') ob True (\<lambda>_. None) (\<lambda>_. []) 7 ex_wire (new_http_metrics, st)") auto
  have "fst (verify_request lk now (auth_request.truncate ex_wire)) = Inl ErrAuthMissing" for lk now
    by (simp add: ex_wire_def auth_request.truncate_def verify_request_def q_get_def verify_header_def h_get_def)
  then have "\<exists>a. verify_request lk now (auth_request.truncate ex_wire) = (Inl ErrAuthMissing, a)" for lk now
    by (metis prod.collapse)
  then obtain a where a: "verify_request (store_lookup (new_static_store (s3_access_keys ?cfg))) (wrAuthNow ex_wire)
      (auth_request.truncate ex_wire) = (Inl ErrAuthMissing, a)" by blast
  have "cfAuthMode ?cfg = ''sigv4''" by simp
  from public_requests_gated [OF this s] have "st' = st" unfolding a by (auto split: option.split_asm)
  with s show "snd (snd (public_serve ?cfg (\<lambda>_. '''') ob True (\<lambda>_. None) (\<lambda>_. []) 7 ex_wire (new_http_metrics, st))) = st"
    by simp
qed

end
