(* ===== verification/ScrubHeal.thy ===== *)
theory ScrubHeal imports WiringProps ScrubProps
begin

text \<open>
  The scrubber, the queue, the worker and the rewriter together: the items one pass hands over are
  worked off by the worker's goroutines, and the next pass over the disk finds nothing to report.
\<close>

subsection \<open>Sealed objects\<close>

text \<open>
  An object as a sealed \<open>Put\<close> lays it out, with whatever bytes its shard file holds now, and one
  whose payload survived: then the rewriter can rebuild the rest.
\<close>

definition sealed_at :: "json_codec \<Rightarrow> string \<Rightarrow> 'z os_state_scheme \<Rightarrow> string \<Rightarrow> string \<Rightarrow> manifest \<Rightarrow> shard_meta \<Rightarrow> byte list \<Rightarrow> bool" where
  "sealed_at jc base w b k m sh c \<longleftrightarrow>
     (case file_at w (meta_elems base b k) of None \<Rightarrow> False | Some d \<Rightarrow> jdec jc d = Some m) \<and>
     validate_basic m = Inr () \<and> mShards m = [sh] \<and> os_path (join_path [base, smPath sh]) = shard_elems base b k \<and>
     file_at w (shard_elems base b k) = Some c"

definition healable :: "json_codec \<Rightarrow> string \<Rightarrow> 'z os_state_scheme \<Rightarrow> string \<Rightarrow> string \<Rightarrow> bool" where
  "healable jc base w b k \<longleftrightarrow> good_elem b \<and>
     (\<exists>m sh c. sealed_at jc base w b k m sh c \<and> repairable m sh c \<and> jenc jc (healed_manifest m sh c (fs_clock w)) \<noteq> None)"

definition intact :: "bool \<Rightarrow> json_codec \<Rightarrow> string \<Rightarrow> 'z os_state_scheme \<Rightarrow> string \<Rightarrow> string \<Rightarrow> bool" where
  "intact v jc base w b k \<longleftrightarrow> (\<exists>m sh c. sealed_at jc base w b k m sh c \<and> shard_intact v sh c)"

text \<open>The item is about the shard the manifest names.\<close>

definition item_fits :: "json_codec \<Rightarrow> string \<Rightarrow> 'z os_state_scheme \<Rightarrow> repair_item \<Rightarrow> bool" where
  "item_fits jc base w it \<longleftrightarrow>
     healable jc base w (riBucket it) (riKey it) \<and>
     (\<exists>m sh c. sealed_at jc base w (riBucket it) (riKey it) m sh c \<and> riShardPath it = smPath sh)"

lemma sealed_at_unique:
  "sealed_at jc base w b k m sh c \<Longrightarrow> sealed_at jc base w b k m' sh' c' \<Longrightarrow> m' = m \<and> sh' = sh \<and> c' = c"
  by (auto simp: sealed_at_def split: option.splits)

lemma sealed_at_cong:
  assumes "file_at w' (meta_elems base b k) = file_at w (meta_elems base b k)"
    and "file_at w' (shard_elems base b k) = file_at w (shard_elems base b k)"
  shows "sealed_at jc base w' b k = sealed_at jc base w b k"
  using assms by (simp add: sealed_at_def fun_eq_iff)

lemma meta_shard_elems:
  "meta_elems base b k \<noteq> shard_elems base b' k'"
  "shard_elems base b k = shard_elems base b' k' \<longleftrightarrow> meta_elems base b k = meta_elems base b' k'"
  by (simp_all add: meta_elems_def shard_elems_def ManifestFilename_def)

lemma meta_elems_obj: "meta_elems base b k = meta_elems base b' k' \<longleftrightarrow> obj_elems base b k = obj_elems base b' k'"
  by (simp add: meta_elems_def)

lemma shard_intact_mono: "shard_intact True sh c \<Longrightarrow> shard_intact v sh c"
  by (auto simp: shard_intact_def split: sum.splits)

subsection \<open>A repaired object\<close>

definition healed_shard :: "manifest \<Rightarrow> shard_meta \<Rightarrow> byte list \<Rightarrow> shard_meta" where
  "healed_shard m sh c =
     (let n = repair_payload_len m sh; digest = sha256 (shard_payload m sh c) in
      sh\<lparr>smHeaderCRC32C := last4_le (header_bytes (sealed_header n)), smFooterCRC32C := last4_le (encode_shard_footer digest),
         smPayloadLength := n, smContentHashHex := hex_encode digest\<rparr>)"

lemma healed_shards: "mShards (healed_manifest m sh c t) = [healed_shard m sh c]"
  by (simp add: healed_manifest_def healed_shard_def repaired_manifest_def Let_def)

lemma healed_path [simp]: "smPath (healed_shard m sh c) = smPath sh"
  by (simp add: healed_shard_def Let_def)

lemma healed_len:
  "repairable m sh c \<Longrightarrow> repair_payload_len (healed_manifest m sh c t) (healed_shard m sh c) = repair_payload_len m sh"
  by (simp add: repair_payload_len_def [of "healed_manifest m sh c t"] healed_shard_def repairable_def Let_def)

lemma payload_length: "repairable m sh c \<Longrightarrow> int (length (shard_payload m sh c)) = repair_payload_len m sh"
  by (auto simp: repairable_def shard_payload_def Let_def)

lemma healed_payload:
  assumes "repairable m sh c"
  shows "shard_payload (healed_manifest m sh c t) (healed_shard m sh c) (sealed_bytes (shard_payload m sh c)) = shard_payload m sh c"
proof -
  have "length (shard_payload m sh c) = nat (repair_payload_len m sh)" using payload_length [OF assms] by simp
  then show ?thesis
    unfolding shard_payload_def [of "healed_manifest m sh c t"] healed_len [OF assms] by (simp add: sealed_bytes_def)
qed

lemma healed_repairable:
  assumes "repairable m sh c"
  shows "repairable (healed_manifest m sh c t) (healed_shard m sh c) (sealed_bytes (shard_payload m sh c))"
proof -
  let ?c = "sealed_bytes (shard_payload m sh c)"
  have "64 + nat (repair_payload_len m sh) \<le> length ?c" using payload_length [OF assms] by (simp add: sealed_bytes_def)
  moreover have "hex_decode (smContentHashHex (healed_shard m sh c)) = Some (sha256 (shard_payload m sh c))"
    by (simp add: healed_shard_def Let_def)
  ultimately show ?thesis
    using assms unfolding repairable_def [of "healed_manifest m sh c t"] healed_len [OF assms] healed_payload [OF assms] Let_def
    by (simp add: repairable_def Let_def)
qed

text \<open>A second repair writes what the first one wrote.\<close>

lemma healed_idem:
  assumes "repairable m sh c"
  shows "healed_manifest (healed_manifest m sh c t) (healed_shard m sh c) (sealed_bytes (shard_payload m sh c)) t =
    healed_manifest m sh c t"
  unfolding healed_manifest_def [of "healed_manifest m sh c t"] healed_len [OF assms] healed_payload [OF assms]
  by (simp add: healed_manifest_def healed_shard_def repaired_manifest_def Let_def)

lemma healed_intact:
  assumes "repairable m sh c"
  shows "shard_intact True (healed_shard m sh c) (sealed_bytes (shard_payload m sh c))"
proof -
  let ?p = "shard_payload m sh c"
  have "int (length ?p) < 2 ^ 63 - 28"
    using payload_length [OF assms] assms by (auto simp: repairable_def Let_def)
  then show ?thesis
    by (simp add: shard_intact_def sealed_bytes_def decode_header_bytes sealed_header_fields healed_shard_def Let_def)
qed

lemma healable_load:
  assumes base: "abs_base base" and good: "good_elem b" and q: "fs_faults w = []" and at: "sealed_at jc base w b k m sh c"
  shows "load_manifest jc base b k w = (Inr m, w)"
  using at unfolding sealed_at_def load_manifest_quiet [OF base good q]
  by (auto simp: file_at_Some split: option.splits)

lemma repair_heals:
  assumes base: "abs_base base" and codec: "\<forall>m d. jenc jc m = Some d \<longrightarrow> jdec jc d = Some m"
    and q: "fs_faults w = []" and tree: "tree_ok w" and fits: "item_fits jc base w it"
  obtains w' where "repair jc base None it w = (Inr (), w')" and "fs_faults w' = []" and "tree_ok w'"
    and "fs_clock w' = fs_clock w" and "lookup w' (os_path base @ [''objects'']) = Some DirN"
    and "\<forall>p. p \<noteq> meta_elems base (riBucket it) (riKey it) \<longrightarrow> p \<noteq> shard_elems base (riBucket it) (riKey it) \<longrightarrow> file_at w' p = file_at w p"
    and "dom (file_at w') = dom (file_at w)"
    and "\<exists>m sh c m' sh' c'. sealed_at jc base w (riBucket it) (riKey it) m sh c \<and>
      sealed_at jc base w' (riBucket it) (riKey it) m' sh' c' \<and> smPath sh' = smPath sh \<and> repairable m' sh' c' \<and>
      jenc jc (healed_manifest m' sh' c' (fs_clock w)) \<noteq> None \<and> shard_intact True sh' c'"
proof -
  let ?b = "riBucket it" and ?k = "riKey it"
  let ?meta = "meta_elems base ?b ?k" and ?shard = "shard_elems base ?b ?k"
  define l where "l = \<lparr>lBase = base, lSealed = True, lVerify = True, lObs = NoObs, lRepCb = False\<rparr>"
  obtain m sh c data where good: "good_elem ?b" and at: "sealed_at jc base w ?b ?k m sh c" and rep: "repairable m sh c"
    and data: "jenc jc (healed_manifest m sh c (fs_clock w)) = Some data" and path: "riShardPath it = smPath sh"
    using fits sealed_at_unique unfolding item_fits_def healable_def by blast
  have sf: "shard_file l sh = ?shard" using at by (simp add: l_def shard_file_def sealed_at_def)
  obtain d0 where d0: "file_at w ?meta = Some d0" "jdec jc d0 = Some m" and val: "validate_basic m = Inr ()"
    and shs: "mShards m = [sh]" and c: "file_at w ?shard = Some c"
    using at by (auto simp: sealed_at_def split: option.splits)
  have ne: "?shard \<noteq> ?meta" using meta_shard_elems(1) by metis
  obtain w' where rp: "repair jc base None it w = (Inr (), w')" and q': "fs_faults w' = []" and t': "tree_ok w'"
    using repair_succeeds [of l it w d0 jc m sh c data] base good q tree d0 val shs c path rep data ne sf by (auto simp: l_def)
  have n: "0 < repair_payload_len m sh" using rep by (simp add: repairable_def Let_def)
  have ld: "load_manifest jc base ?b ?k w = (Inr m, w)" using healable_load [OF base good q at] .
  have b: "base \<noteq> ''''" using base by (auto simp: abs_base_def is_rooted_def)
  have osp: "os_path (join_path [base, smPath sh]) = ?shard" using at by (simp add: sealed_at_def)
  have rs: "repair_shard jc base it m sh (repair_payload_len m sh) ?shard w = (Inr (), w')"
  proof -
    obtain t where "lookup w ?shard = Some (FileN c t)" using c by (auto simp: file_at_Some)
    then have "os_stat ?shard w = (Inr (FileN c t), w)" using q by (simp add: os_stat_def)
    with rp ld shs n b path rep show ?thesis
      by (auto simp: repair_def repair_single_def osp Let_def split: if_splits)
  qed
  have v: "mVersion m \<noteq> ''''" using val by (auto simp: validate_basic_def ManifestFormatV1_def split: if_splits)
  have p: "shard_payload m sh c = take (nat (repair_payload_len m sh)) (drop 28 c)" by (simp add: shard_payload_def)
  from repair_shard_ok [OF rs n base good ne v] c data
  have files: "file_at w' = (file_at w)(?shard \<mapsto> sealed_bytes (shard_payload m sh c), ?meta \<mapsto> data)"
    and clk: "fs_clock w' = fs_clock w" and val': "validate_basic (healed_manifest m sh c (fs_clock w)) = Inr ()"
    by (auto simp: p healed_manifest_def Let_def)
  have at': "sealed_at jc base w' ?b ?k (healed_manifest m sh c (fs_clock w)) (healed_shard m sh c) (sealed_bytes (shard_payload m sh c))"
    using data codec val' osp ne by (simp add: sealed_at_def files healed_shards)
  have dir: "lookup w' (os_path base @ [''objects'']) = Some DirN"
  proof -
    obtain t where "lookup w' ?shard = Some (FileN (sealed_bytes (shard_payload m sh c)) t)"
      using at' by (auto simp: sealed_at_def file_at_Some)
    then show ?thesis
      by (intro tree_ok_prefix [OF t', of _ "?b # key_elems ?k @ [''data.ss1'']"]) (simp_all add: shard_elems_def obj_elems_def)
  qed
  show thesis
  proof (rule that [OF rp q' t' clk dir])
    show "\<forall>p. p \<noteq> ?meta \<longrightarrow> p \<noteq> ?shard \<longrightarrow> file_at w' p = file_at w p" by (simp add: files)
    show "dom (file_at w') = dom (file_at w)" using c d0 by (auto simp: files)
    show "\<exists>m sh c m' sh' c'. sealed_at jc base w ?b ?k m sh c \<and> sealed_at jc base w' ?b ?k m' sh' c' \<and> smPath sh' = smPath sh \<and>
        repairable m' sh' c' \<and> jenc jc (healed_manifest m' sh' c' (fs_clock w)) \<noteq> None \<and> shard_intact True sh' c'"
      using at at' healed_repairable [OF rep] healed_intact [OF rep] data
      by (intro exI conjI) (assumption | simp add: healed_idem [OF rep])+
  qed
qed

subsection \<open>Working off the queue\<close>

text \<open>Turns of the consumer goroutines one after the other, each with the time its repair took.\<close>

fun worker_turns :: "json_codec \<Rightarrow> string \<Rightarrow> bool \<Rightarrow> (nat \<times> int) list \<Rightarrow> repair_side \<Rightarrow> repair_side option" where
  "worker_turns jc base ctxFirst [] s = Some s"
| "worker_turns jc base ctxFirst ((i, dur) # ts) s =
     (case worker_turn jc base ctxFirst dur i s of None \<Rightarrow> None | Some s1 \<Rightarrow> worker_turns jc base ctxFirst ts s1)"

definition worker_idle :: "worker \<Rightarrow> bool" where
  "worker_idle wk \<longleftrightarrow> (\<forall>pc \<in> set (wkThreads wk). pc = AtTop) \<and> \<not> wkCancelled wk \<and> \<not> wkPaused wk"

lemma turn_repairs:
  assumes idle: "worker_idle (rpWorker s)" and i: "i < length (wkThreads (rpWorker s))"
    and buf: "mqBuf (rpQueue s) = it # rest" and rp: "repair jc base None it (rpDisk s) = (Inr (), w)"
  obtains s' where "worker_turn jc base b dur i s = Some s'" and "rpDisk s' = w" and "mqBuf (rpQueue s') = rest"
    and "worker_idle (rpWorker s')" and "length (wkThreads (rpWorker s')) = length (wkThreads (rpWorker s))"
    and "wkProcessed (rpWorker s') = wkProcessed (rpWorker s) + 1" and "wkFailed (rpWorker s') = wkFailed (rpWorker s)"
proof -
  have top: "wkThreads (rpWorker s) ! i = AtTop" using idle i by (auto simp: worker_idle_def)
  obtain s' where "worker_turn jc base b dur i s = Some s'" "rpDisk s' = w" "rpQueue s' = (rpQueue s)\<lparr>mqBuf := rest\<rparr>"
      "rpWorker s' = (rpWorker s)\<lparr>wkThreads := (wkThreads (rpWorker s))[i := AtTop], wkProcessed := wkProcessed (rpWorker s) + 1\<rparr>"
    using idle i top buf rp
    by (simp add: worker_turn_def worker_idle_def dequeue_def chan_recv_def worker_ctx_def set_thread_def process_item_def
        count_outcome_def Let_def)
  with idle show thesis
    by (intro that [of s']) (auto simp: worker_idle_def dest!: subsetD [OF set_update_subset_insert])
qed

lemma turns_heal:
  assumes base: "abs_base base" and codec: "\<forall>m d. jenc jc m = Some d \<longrightarrow> jdec jc d = Some m"
    and "fs_faults (rpDisk s) = []" and "tree_ok (rpDisk s)" and "lookup (rpDisk s) (os_path base @ [''objects'']) = Some DirN"
    and "\<forall>(b, k) \<in> objs. healable jc base (rpDisk s) b k"
    and "\<forall>it \<in> set (mqBuf (rpQueue s)). item_fits jc base (rpDisk s) it \<and> (riBucket it, riKey it) \<in> objs"
    and "worker_idle (rpWorker s)" and "length ts = length (mqBuf (rpQueue s))"
    and "\<forall>(i, dur) \<in> set ts. i < length (wkThreads (rpWorker s))"
  shows "\<exists>s'. worker_turns jc base cf ts s = Some s' \<and> mqBuf (rpQueue s') = [] \<and>
    fs_faults (rpDisk s') = [] \<and> tree_ok (rpDisk s') \<and> lookup (rpDisk s') (os_path base @ [''objects'']) = Some DirN \<and> dom (file_at (rpDisk s')) = dom (file_at (rpDisk s)) \<and>
    wkProcessed (rpWorker s') = wkProcessed (rpWorker s) + of_nat (length ts) \<and> wkFailed (rpWorker s') = wkFailed (rpWorker s) \<and>
    (\<forall>(b, k) \<in> objs. healable jc base (rpDisk s') b k \<and>
       (intact v jc base (rpDisk s) b k \<or> (\<exists>it \<in> set (mqBuf (rpQueue s)). riBucket it = b \<and> riKey it = k) \<longrightarrow>
        intact v jc base (rpDisk s') b k))"
  using assms(3-)
proof (induction ts arbitrary: s)
  case Nil
  then show ?case by (auto split: prod.splits)
next
  case (Cons t ts)
  obtain i dur where t: "t = (i, dur)" by (cases t)
  obtain it rest where buf: "mqBuf (rpQueue s) = it # rest" using Cons.prems(7) by (cases "mqBuf (rpQueue s)") auto
  let ?meta = "meta_elems base (riBucket it) (riKey it)" and ?shard = "shard_elems base (riBucket it) (riKey it)"
  have fits: "item_fits jc base (rpDisk s) it" using Cons.prems(5) buf by simp
  then have good: "good_elem (riBucket it)" by (simp add: item_fits_def healable_def)
  obtain w where
      rp: "repair jc base None it (rpDisk s) = (Inr (), w)" and qw: "fs_faults w = []" and tw: "tree_ok w"
    and clk: "fs_clock w = fs_clock (rpDisk s)" and dir: "lookup w (os_path base @ [''objects'']) = Some DirN"
    and other: "\<forall>p. p \<noteq> ?meta \<longrightarrow> p \<noteq> ?shard \<longrightarrow> file_at w p = file_at (rpDisk s) p"
    and dw: "dom (file_at w) = dom (file_at (rpDisk s))"
    and ex: "\<exists>m sh c m' sh' c'. sealed_at jc base (rpDisk s) (riBucket it) (riKey it) m sh c \<and>
      sealed_at jc base w (riBucket it) (riKey it) m' sh' c' \<and> smPath sh' = smPath sh \<and> repairable m' sh' c' \<and>
      jenc jc (healed_manifest m' sh' c' (fs_clock (rpDisk s))) \<noteq> None \<and> shard_intact True sh' c'"
    by (rule repair_heals [OF base codec Cons.prems(1,2) fits])
  from ex obtain m sh c m' sh' c' where at: "sealed_at jc base (rpDisk s) (riBucket it) (riKey it) m sh c"
    and at': "sealed_at jc base w (riBucket it) (riKey it) m' sh' c'" and path: "smPath sh' = smPath sh"
    and rep: "repairable m' sh' c'" "jenc jc (healed_manifest m' sh' c' (fs_clock (rpDisk s))) \<noteq> None" "shard_intact True sh' c'"
    by blast
  text \<open>Another object is as it was, one at the same place is healed with this one.\<close>
  have same: "sealed_at jc base w b k = sealed_at jc base (rpDisk s) b k" if "meta_elems base b k \<noteq> ?meta" for b k
    using that meta_shard_elems by (intro sealed_at_cong other [rule_format]) metis+
  have here: "sealed_at jc base v b k = sealed_at jc base v (riBucket it) (riKey it)" if "meta_elems base b k = ?meta" for b k and v :: world
    using that meta_shard_elems(2) by (fastforce simp: sealed_at_def fun_eq_iff)
  have heal: "healable jc base w b k" if "healable jc base (rpDisk s) b k" for b k
    using that same [of b k] here [of b k w] at' rep clk by (cases "meta_elems base b k = ?meta") (auto simp: healable_def)
  have int: "intact v jc base w b k" if "intact v jc base (rpDisk s) b k \<or> riBucket it = b \<and> riKey it = k" for b k
    using that same [of b k] here [of b k w] at' shard_intact_mono [OF rep(3)]
    by (cases "meta_elems base b k = ?meta") (auto simp: intact_def)
  have fit: "item_fits jc base w j" if j: "item_fits jc base (rpDisk s) j" for j
  proof (cases "meta_elems base (riBucket j) (riKey j) = ?meta")
    case True
    then have "riShardPath j = smPath sh"
      using j at sealed_at_unique unfolding item_fits_def here [OF True] by metis
    then have "\<exists>m sh c. sealed_at jc base w (riBucket it) (riKey it) m sh c \<and> riShardPath j = smPath sh"
      using at' path by metis
    moreover have "healable jc base w (riBucket j) (riKey j)" using j heal by (simp add: item_fits_def)
    ultimately show ?thesis unfolding item_fits_def here [OF True] by blast
  next
    case False
    with j heal show ?thesis by (simp add: item_fits_def same)
  qed
  from turn_repairs [OF Cons.prems(6) _ buf rp, of i cf dur] Cons.prems(8) t obtain s1 where
      s1: "worker_turn jc base cf dur i s = Some s1" "rpDisk s1 = w" "mqBuf (rpQueue s1) = rest" "worker_idle (rpWorker s1)"
        "length (wkThreads (rpWorker s1)) = length (wkThreads (rpWorker s))"
        "wkProcessed (rpWorker s1) = wkProcessed (rpWorker s) + 1" "wkFailed (rpWorker s1) = wkFailed (rpWorker s)"
    by auto
  have "\<forall>(b, k) \<in> objs. healable jc base (rpDisk s1) b k" using Cons.prems(4) heal s1(2) by auto
  moreover have "\<forall>j \<in> set (mqBuf (rpQueue s1)). item_fits jc base (rpDisk s1) j \<and> (riBucket j, riKey j) \<in> objs"
    using Cons.prems(5) fit s1(2,3) buf by auto
  ultimately obtain s' where s': "worker_turns jc base cf ts s1 = Some s'" "mqBuf (rpQueue s') = []" "fs_faults (rpDisk s') = []"
      "tree_ok (rpDisk s')" "lookup (rpDisk s') (os_path base @ [''objects'']) = Some DirN" "dom (file_at (rpDisk s')) = dom (file_at (rpDisk s1))"
      "wkProcessed (rpWorker s') = wkProcessed (rpWorker s1) + of_nat (length ts)" "wkFailed (rpWorker s') = wkFailed (rpWorker s1)"
    and fin: "\<forall>(b, k) \<in> objs. healable jc base (rpDisk s') b k \<and>
       (intact v jc base (rpDisk s1) b k \<or> (\<exists>it \<in> set (mqBuf (rpQueue s1)). riBucket it = b \<and> riKey it = k) \<longrightarrow>
        intact v jc base (rpDisk s') b k)"
    using Cons.IH [of s1] s1 qw tw dir Cons.prems(7,8) buf by auto
  have "\<forall>(b, k) \<in> objs. healable jc base (rpDisk s') b k \<and>
       (intact v jc base (rpDisk s) b k \<or> (\<exists>it \<in> set (mqBuf (rpQueue s)). riBucket it = b \<and> riKey it = k) \<longrightarrow>
        intact v jc base (rpDisk s') b k)"
    using fin int buf s1(2,3) by fastforce
  with s' s1 t dw show ?case by (intro exI [of _ s']) (auto simp: algebra_simps)
qed

subsection \<open>Property\<close>

lemma item_of_damage:
  assumes base: "abs_base base" and q: "fs_faults w = []" and heal: "healable jc base w b k"
    and sh: "sh \<in> set (object_shards jc base b k w)"
  shows "item_fits jc base w (repair_of w b k sh)" and "intact v jc base w b k \<longleftrightarrow> good_shard v base w sh"
proof -
  obtain m sh' c where good: "good_elem b" and at: "sealed_at jc base w b k m sh' c" using heal by (auto simp: healable_def)
  have "object_shards jc base b k w = [sh']"
    using healable_load [OF base good q at] at by (simp add: object_shards_def sealed_at_def)
  with sh have at: "sealed_at jc base w b k m sh c" using at by simp
  with heal show "item_fits jc base w (repair_of w b k sh)" by (auto simp: item_fits_def repair_of_def)
  have "good_shard v base w sh \<longleftrightarrow> shard_intact v sh c" using at by (simp add: good_shard_def sealed_at_def)
  with at sealed_at_unique show "intact v jc base w b k \<longleftrightarrow> good_shard v base w sh"
    unfolding intact_def by blast
qed

lemma is_file_dom: "is_file (lookup w p) \<longleftrightarrow> p \<in> dom (file_at w)"
  by (cases "lookup w p"; cases "the (lookup w p)") (auto simp: file_at_def)

lemma manifest_found_dom: "dom (file_at w') = dom (file_at w) \<Longrightarrow> manifest_found w' base b k = manifest_found w base b k"
  by (simp only: manifest_found_def is_file_dom)

text \<open>Facts about a disk do not depend on what else the state holds.\<close>

lemma same_disk:
  assumes "os_state.truncate w = os_state.truncate w'"
  shows "lookup w = lookup w'" and "file_at w = file_at w'" and "fs_faults w = fs_faults w'" and "fs_clock w = fs_clock w'"
proof -
  have "fs_files w = fs_files w'" "fs_faults w = fs_faults w'" "fs_clock w = fs_clock w'"
    using assms by (auto simp: os_state.truncate_def)
  then show "lookup w = lookup w'" "file_at w = file_at w'" "fs_faults w = fs_faults w'" "fs_clock w = fs_clock w'"
    by (simp_all add: lookup_def file_at_def fun_eq_iff)
qed

lemma damage_queued:
  assumes base: "abs_base base" and q: "fs_faults w = []" and cfg: "ssBaseDirs s = [base]"
    and f: "manifest_found w base b k" and heal: "healable jc base w b k" and bad: "\<not> intact (sgVerifyPayload (ssConfig s)) jc base w b k"
  shows "\<exists>it \<in> damaged s jc w. riBucket it = b \<and> riKey it = k"
proof -
  obtain m sh c where "good_elem b" "sealed_at jc base w b k m sh c" using heal unfolding healable_def by blast
  then have sh: "sh \<in> set (object_shards jc base b k w)"
    using healable_load [OF base _ q] by (auto simp: object_shards_def sealed_at_def)
  then have "repair_of w b k sh \<in> damaged s jc w"
    using f bad item_of_damage(2) [OF base q heal sh] by (auto simp: damaged_def cfg)
  then show ?thesis by (rule rev_bexI) (simp add: repair_of_def)
qed

text \<open>A pass over a disk of intact objects finds nothing.\<close>

lemma clean_pass:
  assumes base: "abs_base base" and cfg: "ssBaseDirs s = [base]"
    and disk: "fs_faults w = []" "tree_ok w" "lookup w (os_path base @ [''objects'']) = Some DirN"
    and clean: "\<And>b k. manifest_found w base b k \<Longrightarrow> healable jc base w b k \<and> intact (sgVerifyPayload (ssConfig s)) jc base w b k"
    and order: "\<forall>js. mset (order js) = mset js" and run: "do_run_once s jc order w = (r, w1)"
  shows "r = Inr () \<and> scErrors (wSc w1) = scErrors (wSc w) \<and> scEnqueued (wSc w1) = scEnqueued (wSc w)"
proof -
  have dirs: "\<forall>b \<in> set (ssBaseDirs s). abs_base b \<and> lookup w (os_path b @ [''objects'']) = Some DirN"
    using base cfg disk(3) by simp
  obtain js its where js: "set js = {(b0, b, k) | b0 b k. b0 \<in> set (ssBaseDirs s) \<and> manifest_found w b0 b k}"
    and its: "its = concat (map (object_items s jc w) js)" and r: "r = Inr ()"
    and e: "scErrors (wSc w1) = scErrors (wSc w) + of_nat (length its)"
    and enq: "scEnqueued (wSc w1) = scEnqueued (wSc w) @ (if ssRepQ s then its else [])"
    using pass_result [OF dirs disk(2,1) order run] .
  have "damaged s jc w = {}"
    using clean item_of_damage(2) [OF base disk(1)] unfolding damaged_def cfg by fastforce
  then have "its = []" using object_items_damaged [OF js, of jc] its by (metis set_empty)
  then show ?thesis using r e enq by simp
qed


definition ex_heal_world :: scrub_world where
  "ex_heal_world = ex_scrub_disk (replicate 28 0 @ [1, 2] @ replicate 36 0)"

lemma ex_heal_disk:
  "fs_faults ex_heal_world = []" "lookup ex_heal_world = lookup ex_damaged" "file_at ex_heal_world = file_at ex_damaged"
  by (simp_all add: ex_heal_world_def ex_scrub_disk_def ex_damaged_def lookup_def file_at_def fun_eq_iff)

lemma ex_heal_at:
  "sealed_at ex_one ''/d'' ex_heal_world ''bkt'' ''k'' ex_manifest ex_shard_meta (replicate 28 0 @ [1, 2] @ replicate 36 0)"
proof -
  have "file_at ex_damaged (meta_elems ''/d'' ''bkt'' ''k'') = Some [0]"
    by (simp add: ex_damaged_paths file_at_def lookup_def ex_damaged_def)
  moreover have se: "shard_elems ''/d'' ''bkt'' ''k'' = [''d'', ''objects'', ''bkt'', ''k'', ''data.ss1'']"
    by (simp add: shard_elems_def ex_obj_elems)
  moreover have "os_path (join_path [''/d'', smPath ex_shard_meta]) = shard_elems ''/d'' ''bkt'' ''k''"
    using ex_shard_file unfolding se by (simp add: shard_file_def ex_sealed_def ex_store_def)
  ultimately show ?thesis
    using ex_damaged_shard
    by (simp add: sealed_at_def ex_heal_disk ex_one_def ex_manifest_def sealed_object_manifest_valid) (simp add: ex_shard_meta_def)
qed

lemma ex_heal_found: "manifest_found ex_heal_world ''/d'' b k \<longleftrightarrow> b = ''bkt'' \<and> k = ''k''"
proof -
  have "is_file (lookup ex_damaged ([''d''] @ ''objects'' # b # ks @ [ManifestFilename])) \<longleftrightarrow> b = ''bkt'' \<and> ks = [''k'']" for b ks
    by (cases ks rule: rev_cases) (auto simp: lookup_def ex_damaged_def ManifestFilename_def append_eq_Cons_conv)
  then show ?thesis by (auto simp: manifest_found_def ex_heal_disk)
qed


end
