(* ===== verification/S3Xml.thy ===== *)
theory S3Xml imports S3Store Sigv4
begin

text \<open>
  The XML documents of the S3 server (src/pkg/api/s3/server.go): the response structs with their
  \<open>xml\<close> tags as trees, the text encoding/xml makes of them, and the request body of
  CompleteMultipartUpload. Strings are bytes in UTF-8; what is not a character XML allows is
  written as U+FFFD. The texts of error messages, constants of each call, are an argument.
\<close>

subsection \<open>Trees and their text\<close>

datatype xml = Elem string "(string \<times> string) list" "xml list" | CData string

fun is_elem :: "xml \<Rightarrow> bool" where
  "is_elem (Elem _ _ _) = True"
| "is_elem (CData _) = False"

text \<open>\<open>utf8.DecodeRune\<close>: the width of the rune at the front, 0 for an invalid byte.\<close>

definition in_bytes :: "nat \<Rightarrow> nat \<Rightarrow> char \<Rightarrow> bool" where
  "in_bytes lo hi c \<longleftrightarrow> lo \<le> (of_char c :: nat) \<and> (of_char c :: nat) \<le> hi"

definition second_byte :: "nat \<Rightarrow> char \<Rightarrow> bool" where
  "second_byte b =
     (if b = 224 then in_bytes 160 191 else if b = 237 then in_bytes 128 159
      else if b = 240 then in_bytes 144 191 else if b = 244 then in_bytes 128 143 else in_bytes 128 191)"

definition rune_width :: "string \<Rightarrow> nat" where
  "rune_width s =
     (case s of
        [] \<Rightarrow> 0
      | c # t \<Rightarrow>
          (let b = of_char c :: nat;
               n = (if b < 128 then 1 else if 194 \<le> b \<and> b \<le> 223 then 2 else if 224 \<le> b \<and> b \<le> 239 then 3
                    else if 240 \<le> b \<and> b \<le> 244 then 4 else 0)
           in if length s < n then 0
              else if n \<le> 1 \<or> second_byte b (hd t) \<and> list_all (in_bytes 128 191) (take (n - 2) (tl t)) then n
              else 0))"

text \<open>\<open>isInCharacterRange\<close>: no control characters, not U+FFFE and U+FFFF.\<close>

definition in_character_range :: "string \<Rightarrow> bool" where
  "in_character_range r =
     (case r of
        [c] \<Rightarrow> c \<in> {CHR 0x09, CHR 0x0A, CHR 0x0D} \<or> (of_char c :: nat) \<ge> 32
      | _ \<Rightarrow> r \<noteq> [CHR 0xEF, CHR 0xBF, CHR 0xBE] \<and> r \<noteq> [CHR 0xEF, CHR 0xBF, CHR 0xBF])"

definition replacement :: string where
  "replacement = [CHR 0xEF, CHR 0xBF, CHR 0xBD]"

function sanitize :: "string \<Rightarrow> string" where
  "sanitize [] = []"
| "sanitize (c # s) =
     (let n = rune_width (c # s); r = take n (c # s) in
      if n = 0 then replacement @ sanitize s
      else (if in_character_range r then r else replacement) @ sanitize (drop n (c # s)))"
  by pat_completeness auto
termination
  by (relation "measure length") (auto simp: drop_Cons' )

definition quote_char :: "char \<Rightarrow> string" where
  "quote_char c =
     (if c = CHR 0x22 then ''&#34;'' else if c = CHR 0x27 then ''&#39;'' else if c = CHR ''&'' then ''&amp;''
      else if c = CHR ''<'' then ''&lt;'' else if c = CHR ''>'' then ''&gt;'' else if c = CHR 0x09 then ''&#x9;''
      else if c = CHR 0x0A then ''&#xA;'' else if c = CHR 0x0D then ''&#xD;'' else [c])"

definition escape_text :: "string \<Rightarrow> string" where
  "escape_text s = concat (map quote_char (sanitize s))"

definition attrs_text :: "(string \<times> string) list \<Rightarrow> string" where
  "attrs_text as = concat (map (\<lambda>(n, v). CHR '' '' # n @ ''='' @ [CHR 0x22] @ escape_text v @ [CHR 0x22]) as)"

fun render :: "xml \<Rightarrow> string" where
  "render (CData s) = escape_text s"
| "render (Elem n as cs) = CHR ''<'' # n @ attrs_text as @ ''>'' @ concat (map render cs) @ ''</'' @ n @ ''>''"

subsection \<open>Dates\<close>

text \<open>\<open>time.Time.Date\<close>: the year by cycles of 400, 100 and 4 years, then the day of the year.\<close>

definition year_yday :: "int \<Rightarrow> int \<times> int" where
  "year_yday z =
     (let a = z div 146097; r1 = z mod 146097; b = min 3 (r1 div 36524); r2 = r1 - b * 36524;
          c = r2 div 1461; r3 = r2 mod 1461; d = min 3 (r3 div 365)
      in (400 * a + 100 * b + 4 * c + d + 1, r3 - d * 365))"

function month_day :: "int \<Rightarrow> nat \<Rightarrow> int \<Rightarrow> nat \<times> nat" where
  "month_day y m yday =
     (if 12 \<le> m \<or> yday < days_in y m then (m, Suc (nat yday)) else month_day y (Suc m) (yday - days_in y m))"
  by pat_completeness auto
termination
  by (relation "measure (\<lambda>(y, m, yday). 12 - m)") auto

definition civil_date :: "int \<Rightarrow> int \<times> nat \<times> nat" where
  "civil_date days = (let (y, yday) = year_yday (days + 719162) in (y, month_day y 1 yday))"

definition pad_int :: "nat \<Rightarrow> int \<Rightarrow> string" where
  "pad_int k n =
     (let ds = nat_to_dec (nat \<bar>n\<bar>) in (if n < 0 then ''-'' else '''') @ replicate (k - length ds) CHR ''0'' @ ds)"

text \<open>\<open>UTC().Format(time.RFC3339)\<close>\<close>

definition rfc3339 :: "int \<Rightarrow> string" where
  "rfc3339 t =
     (let secs = t div 1000000000; sod = secs mod 86400; (y, m, d) = civil_date (secs div 86400) in
      pad_int 4 y @ ''-'' @ pad_int 2 (int m) @ ''-'' @ pad_int 2 (int d) @ ''T'' @
      pad_int 2 (sod div 3600) @ '':'' @ pad_int 2 (sod mod 3600 div 60) @ '':'' @ pad_int 2 (sod mod 60) @ ''Z'')"

declare month_day.simps [simp del]

subsection \<open>The documents\<close>

definition s3Xmlns :: string where
  "s3Xmlns = ''http://s3.amazonaws.com/doc/2006-03-01/''"

abbreviation field :: "string \<Rightarrow> string \<Rightarrow> xml" where
  "field n s \<equiv> Elem n [] [CData s]"

definition omit_empty :: "string \<Rightarrow> string \<Rightarrow> xml list" where
  "omit_empty n s = (if s = '''' then [] else [field n s])"

definition bool_text :: "bool \<Rightarrow> string" where
  "bool_text b = (if b then ''true'' else ''false'')"

definition error_doc :: "string \<Rightarrow> string \<Rightarrow> string \<Rightarrow> string \<Rightarrow> int \<Rightarrow> string \<Rightarrow> xml" where
  "error_doc code msg resource reqID maxAllowed hint =
     Elem ''Error'' []
       ([field ''Code'' code, field ''Message'' msg, field ''Resource'' resource, field ''RequestId'' reqID] @
        (if maxAllowed = 0 then [] else [field ''MaxAllowedSize'' (itoa maxAllowed)]) @ omit_empty ''Hint'' hint)"

definition buckets_doc :: "(string \<times> int) list \<Rightarrow> xml" where
  "buckets_doc bs =
     Elem ''ListAllMyBucketsResult'' [(''xmlns'', s3Xmlns)]
       [Elem ''Owner'' [] [field ''ID'' ''anonymous'', field ''DisplayName'' ''anonymous''],
        Elem ''Buckets'' [] (map (\<lambda>(n, t). Elem ''Bucket'' [] [field ''Name'' n, field ''CreationDate'' (rfc3339 t)]) bs)]"

definition content_doc :: "object_meta \<Rightarrow> xml" where
  "content_doc ob =
     Elem ''Contents'' []
       [field ''Key'' (omKey ob), field ''LastModified'' (rfc3339 (omModified ob)), field ''ETag'' (quote_etag (omETag ob)),
        field ''Size'' (itoa (omSize ob)), field ''StorageClass'' ''STANDARD'']"

definition list_doc :: "list_result \<Rightarrow> xml" where
  "list_doc r =
     Elem ''ListBucketResult'' [(''xmlns'', s3Xmlns)]
       ([field ''Name'' (lrName r), field ''Prefix'' (lrPrefix r)] @ omit_empty ''Delimiter'' (lrDelimiter r) @
        [field ''MaxKeys'' (itoa (int (lrMaxKeys r))), field ''KeyCount'' (itoa (int (lrKeyCount r))),
         field ''IsTruncated'' (bool_text (lrIsTruncated r))] @
        omit_empty ''ContinuationToken'' (lrToken r) @ omit_empty ''NextContinuationToken'' (lrNextToken r) @
        omit_empty ''StartAfter'' (lrStartAfter r) @ map content_doc (lrContents r) @
        map (\<lambda>p. Elem ''CommonPrefixes'' [] [field ''Prefix'' p]) (lrPrefixes r))"

definition initiate_doc :: "string \<Rightarrow> string \<Rightarrow> string \<Rightarrow> xml" where
  "initiate_doc bucket key uid =
     Elem ''InitiateMultipartUploadResult'' [(''xmlns'', s3Xmlns)]
       [field ''Bucket'' bucket, field ''Key'' key, field ''UploadId'' uid]"

definition complete_doc :: "string \<Rightarrow> string \<Rightarrow> string \<Rightarrow> string \<Rightarrow> xml" where
  "complete_doc location bucket key etag =
     Elem ''CompleteMultipartUploadResult'' [(''xmlns'', s3Xmlns)]
       [field ''Location'' location, field ''Bucket'' bucket, field ''Key'' key, field ''ETag'' etag]"

definition document :: "string \<Rightarrow> resp_body \<Rightarrow> xml option" where
  "document msg body =
     (case body of
        XmlError code resource None \<Rightarrow> Some (error_doc code msg resource '''' 0 '''')
      | XmlError code resource (Some mx) \<Rightarrow>
          Some (error_doc code ''Object size exceeds single PUT limit; use Multipart Upload.'' resource '''' mx ''Use Multipart Upload'')
      | XmlBuckets bs \<Rightarrow> Some (buckets_doc bs)
      | XmlList r \<Rightarrow> Some (list_doc r)
      | XmlInitiate b k uid \<Rightarrow> Some (initiate_doc b k uid)
      | XmlComplete loc b k etag \<Rightarrow> Some (complete_doc loc b k etag)
      | _ \<Rightarrow> None)"

lemma year_yday_ok:
  assumes "year_yday z = (y, yday)"
  shows "365 * (y - 1) + (y - 1) div 4 - (y - 1) div 100 + (y - 1) div 400 + yday = z"
    and "0 \<le> yday" and "yday < (if leap_year y then 366 else 365)"
proof -
  define a r1 where "a = z div 146097" and "r1 = z mod 146097"
  define b where "b = min 3 (r1 div 36524)"
  define r2 where "r2 = r1 - b * 36524"
  define c r3 where "c = r2 div 1461" and "r3 = r2 mod 1461"
  define d where "d = min 3 (r3 div 365)"
  have y: "y = 400 * a + 100 * b + 4 * c + d + 1" "yday = r3 - d * 365"
    using assms unfolding year_yday_def Let_def prod.inject a_def r1_def b_def r2_def c_def r3_def d_def by blast+
  have r1: "0 \<le> r1" "r1 < 146097" "z = 146097 * a + r1" by (simp_all add: a_def r1_def)
  then have r2: "0 \<le> r2" "r2 \<le> 36524" "0 \<le> b" "b \<le> 3" "r1 = 36524 * b + r2" "b < 3 \<longrightarrow> r2 < 36524"
    by (auto simp: r2_def b_def min_def)
  then have r3: "0 \<le> r3" "r3 < 1461" "0 \<le> c" "c \<le> 24" "r2 = 1461 * c + r3" by (simp_all add: r3_def c_def)
  then have d: "0 \<le> d" "d \<le> 3" "0 \<le> r3 - d * 365" "d < 3 \<longrightarrow> r3 - d * 365 < 365" "r3 - d * 365 \<le> 365"
    by (auto simp: d_def min_def)
  have "(y - 1) div 400 = a"
    by (rule int_div_pos_eq [of _ _ _ "100 * b + 4 * c + d"]) (use y(1) r2 r3 d in linarith)+
  moreover have "(y - 1) div 100 = 4 * a + b"
    by (rule int_div_pos_eq [of _ _ _ "4 * c + d"]) (use y(1) r3 d in \<open>simp_all add: algebra_simps\<close>)
  moreover have "(y - 1) div 4 = 100 * a + 25 * b + c"
    by (rule int_div_pos_eq [of _ _ _ d]) (use y(1) d in \<open>simp_all add: algebra_simps\<close>)
  ultimately have divs: "(y - 1) div 400 = a" "(y - 1) div 100 = 4 * a + b" "(y - 1) div 4 = 100 * a + 25 * b + c" by blast+
  show "365 * (y - 1) + (y - 1) div 4 - (y - 1) div 100 + (y - 1) div 400 + yday = z"
    unfolding divs using y r1 r2 r3 d by simp
  show "0 \<le> yday" using d y by simp
  show "yday < (if leap_year y then 366 else 365)"
  proof (cases "yday = 365")
    case True
    then have d3: "d = 3" "r3 = 1460" using y(2) r3 d by linarith+
    then have y4: "y = 4 * (100 * a + 25 * b + c + 1)" using y(1) by simp
    have "y mod 400 = 0" if "y mod 100 = 0"
    proof -
      have "y = 100 * (4 * a + b) + 4 * (c + 1)" using y4 by simp
      then have "y mod 100 = 4 * (c + 1) mod 100" by (simp only: mod_mult_self4)
      with that have "4 * (c + 1) mod 100 = 0" by (simp only:)
      moreover have "0 < 4 * (c + 1)" "4 * (c + 1) \<le> 100" using r3 by simp_all
      ultimately have "c = 24" by (cases "4 * (c + 1) = 100") auto
      then have "b = 3" using r2 r3 d3 by linarith
      with \<open>c = 24\<close> y4 have "y = 400 * (a + 1)" by simp
      then show ?thesis by simp
    qed
    then have "leap_year y" using y4 by (auto simp: leap_year_def)
    with True show ?thesis by simp
  next
    case False
    with y(2) d have "yday < 365" by linarith
    then show ?thesis by simp
  qed
qed

lemma month_day_ok:
  assumes "month_day y m yday = (m', d')" and "0 \<le> yday" and "1 \<le> m" and "m \<le> 12"
    and "yday < sum_list (map (days_in y) [m..<13])"
  shows "m \<le> m' \<and> m' \<le> 12 \<and> 1 \<le> d' \<and> int d' \<le> days_in y m' \<and> sum_list (map (days_in y) [m..<m']) + int d' = yday + 1"
  using assms
proof (induction y m yday rule: month_day.induct)
  case (1 y m yday)
  show ?case
  proof (cases "12 \<le> m \<or> yday < days_in y m")
    case True
    then have r: "m' = m" "d' = Suc (nat yday)" using "1.prems"(1) by (simp_all add: month_day.simps [of y m])
    have "yday < days_in y m"
      using True "1.prems"(4,5) by (cases "m = 12") (auto simp: upt_rec [of 12])
    with r "1.prems" show ?thesis by simp
  next
    case False
    then have md: "month_day y (Suc m) (yday - days_in y m) = (m', d')" using "1.prems"(1) by (simp add: month_day.simps [of y m])
    have s: "sum_list (map (days_in y) [m..<k]) = days_in y m + sum_list (map (days_in y) [Suc m..<k])" if "m < k" for k
      using that by (simp add: upt_conv_Cons)
    have "yday - days_in y m < sum_list (map (days_in y) [Suc m..<13])" using "1.prems"(4,5) s [of 13] by simp
    from "1.IH" [OF False md _ _ _ this] False have "Suc m \<le> m' \<and> m' \<le> 12 \<and> 1 \<le> d' \<and> int d' \<le> days_in y m' \<and>
        sum_list (map (days_in y) [Suc m..<m']) + int d' = yday - days_in y m + 1" by simp
    with s [of m'] show ?thesis by simp
  qed
qed

text \<open>The date printed is the one the signature check reads: \<open>civil_date\<close> inverts \<open>unix_days\<close>.\<close>

lemma civil_date_days:
  assumes "civil_date days = (y, m, d)"
  shows "unix_days y m d = days \<and> 1 \<le> m \<and> m \<le> 12 \<and> 1 \<le> d \<and> int d \<le> days_in y m"
proof -
  obtain yday where yy: "year_yday (days + 719162) = (y, yday)" and md: "month_day y 1 yday = (m, d)"
    using assms by (auto simp: civil_date_def split: prod.split_asm)
  have "sum_list (map (days_in y) [1..<13]) = (if leap_year y then 366 else 365)"
  proof -
    have "[1..<13] = [1, 2, 3, 4, 5, 6, 7, 8, 9, 10, 11, 12 :: nat]" by code_simp
    then show ?thesis by (simp add: days_in_def)
  qed
  with year_yday_ok [OF yy] month_day_ok [OF md] show ?thesis by (auto simp: unix_days_def)
qed

subsection \<open>Reading a document\<close>

text \<open>
  What a parser reports of a text: the start and the end of each element, with the attributes of
  a start tag as they stand, and the character data with its references replaced.
\<close>

datatype event = Start string string | End string | Chars string

definition entity :: "string \<Rightarrow> string" where
  "entity e =
     (if e = ''amp'' then ''&'' else if e = ''lt'' then ''<'' else if e = ''gt'' then ''>''
      else if e = ''#34'' then [CHR 0x22] else if e = ''#39'' then [CHR 0x27] else if e = ''#x9'' then [CHR 0x09]
      else if e = ''#xA'' then [CHR 0x0A] else if e = ''#xD'' then [CHR 0x0D] else CHR ''&'' # e @ '';'')"

text \<open>The text up to a character, and what follows it.\<close>

definition upto_char :: "char \<Rightarrow> string \<Rightarrow> string" where
  "upto_char d s = takeWhile (\<lambda>c. c \<noteq> d) s"

definition after_char :: "char \<Rightarrow> string \<Rightarrow> string" where
  "after_char d s = drop 1 (dropWhile (\<lambda>c. c \<noteq> d) s)"

lemma length_after [simp]: "length (after_char d s) \<le> length s"
  using length_dropWhile_le [of "\<lambda>c. c \<noteq> d" s] by (simp add: after_char_def)

lemma take_drop_upto:
  "d \<notin> set s \<Longrightarrow> t = '''' \<or> hd t = d \<Longrightarrow> takeWhile (\<lambda>c. c \<noteq> d) (s @ t) = s \<and> dropWhile (\<lambda>c. c \<noteq> d) (s @ t) = t"
  by (induction s) (cases t; auto)+

lemma upto_after [simp]:
  "d \<notin> set s \<Longrightarrow> upto_char d (s @ d # t) = s" "d \<notin> set s \<Longrightarrow> after_char d (s @ d # t) = t"
  by (simp_all add: upto_char_def after_char_def take_drop_upto)

function unescape :: "string \<Rightarrow> string" where
  "unescape [] = []"
| "unescape (c # s) = (if c = CHR ''&'' then entity (upto_char CHR '';'' s) @ unescape (after_char CHR '';'' s) else c # unescape s)"
  by pat_completeness auto
termination
  by (relation "measure length") (auto simp: less_Suc_eq_le)

definition tag_event :: "string \<Rightarrow> event" where
  "tag_event t =
     (if t \<noteq> '''' \<and> hd t = CHR ''/'' then End (tl t)
      else Start (takeWhile (\<lambda>c. c \<noteq> CHR '' '') t) (dropWhile (\<lambda>c. c \<noteq> CHR '' '') t))"

function read_events :: "string \<Rightarrow> event list" where
  "read_events [] = []"
| "read_events (c # s) =
     (if c = CHR ''<'' then tag_event (upto_char CHR ''>'' s) # read_events (after_char CHR ''>'' s)
      else Chars (unescape (c # takeWhile (\<lambda>c. c \<noteq> CHR ''<'') s)) # read_events (dropWhile (\<lambda>c. c \<noteq> CHR ''<'') s))"
  by pat_completeness auto
termination
  by (relation "measure length") (auto simp: less_Suc_eq_le length_dropWhile_le)

fun events :: "xml \<Rightarrow> event list" where
  "events (CData s) = (if s = '''' then [] else [Chars (sanitize s)])"
| "events (Elem n as cs) = Start n (attrs_text as) # concat (map events cs) @ [End n]"

text \<open>The trees that can be read back: plain names, and character data only alone in its element.\<close>

definition plain_name :: "string \<Rightarrow> bool" where
  "plain_name n \<longleftrightarrow> n \<noteq> '''' \<and> hd n \<noteq> CHR ''/'' \<and> CHR '' '' \<notin> set n \<and> CHR ''>'' \<notin> set n"

fun well_formed :: "xml \<Rightarrow> bool" where
  "well_formed (CData s) = True"
| "well_formed (Elem n as cs) \<longleftrightarrow>
     plain_name n \<and> list_all (\<lambda>(a, _). plain_name a) as \<and> list_all well_formed cs \<and> (length cs \<le> 1 \<or> list_all is_elem cs)"

lemma unescape_quote: "unescape (quote_char c @ s) = c # unescape s"
  by (simp add: quote_char_def entity_def upto_char_def after_char_def)

lemma unescape_escape: "unescape (escape_text s) = sanitize s"
proof -
  have "unescape (concat (map quote_char t)) = t" for t
    by (induction t) (simp_all add: unescape_quote)
  then show ?thesis by (simp add: escape_text_def)
qed

lemma quote_char_free: "CHR ''<'' \<notin> set (quote_char c)" "CHR ''>'' \<notin> set (quote_char c)" "quote_char c \<noteq> ''''"
  by (simp_all add: quote_char_def)

lemma escape_free: "CHR ''<'' \<notin> set (escape_text s)" "CHR ''>'' \<notin> set (escape_text s)"
  by (simp_all add: escape_text_def quote_char_free)

lemma sanitize_Nil [simp]: "sanitize s = '''' \<longleftrightarrow> s = ''''"
proof (cases s)
  case (Cons c t)
  have "take (rune_width s) s \<noteq> ''''" if "rune_width s \<noteq> 0" using that Cons by simp
  with Cons show ?thesis by (auto simp: Let_def replacement_def)
qed simp

lemma escape_Nil [simp]: "escape_text s = '''' \<longleftrightarrow> s = ''''"
proof -
  have "concat (map quote_char t) = '''' \<longleftrightarrow> t = ''''" for t
    by (cases t) (simp_all add: quote_char_free)
  then show ?thesis by (simp add: escape_text_def)
qed

lemma attrs_free: "list_all (\<lambda>(a, _). plain_name a) as \<Longrightarrow> CHR ''>'' \<notin> set (attrs_text as)"
  by (auto simp: attrs_text_def list_all_iff plain_name_def escape_free)

lemma attrs_front: "attrs_text as = '''' \<or> (\<exists>t. attrs_text as = CHR '' '' # t)"
  by (cases as) (auto simp: attrs_text_def)

lemma tag_start:
  assumes "plain_name n"
  shows "tag_event (n @ attrs_text as) = Start n (attrs_text as)"
proof -
  have sp: "CHR '' '' \<notin> set n" and "n \<noteq> ''''" "hd n \<noteq> CHR ''/''" using assms by (simp_all add: plain_name_def)
  then obtain c t where n: "n = c # t" "c \<noteq> CHR ''/''" by (cases n) auto
  have "takeWhile (\<lambda>c. c \<noteq> CHR '' '') (n @ attrs_text as) = n" "dropWhile (\<lambda>c. c \<noteq> CHR '' '') (n @ attrs_text as) = attrs_text as"
    using take_drop_upto [OF sp, of "attrs_text as"] attrs_front [of as] by auto
  with n show ?thesis by (simp add: tag_event_def)
qed

lemma read_chars:
  assumes "t = '''' \<or> hd t = CHR ''<''"
  shows "read_events (escape_text s @ t) = events (CData s) @ read_events t"
proof (cases "s = ''''")
  case True
  then show ?thesis by (simp add: escape_text_def)
next
  case False
  then obtain c e where e: "escape_text s = c # e" by (cases "escape_text s") auto
  have f: "c \<noteq> CHR ''<''" "CHR ''<'' \<notin> set e" using escape_free(1) [of s] e by auto
  have "takeWhile (\<lambda>c. c \<noteq> CHR ''<'') (e @ t) = e" "dropWhile (\<lambda>c. c \<noteq> CHR ''<'') (e @ t) = t"
    using take_drop_upto [OF f(2) assms] by auto
  with False f show ?thesis using unescape_escape [of s] by (simp add: e)
qed

lemma read_render:
  "well_formed x \<Longrightarrow> is_elem x \<or> t = '''' \<or> hd t = CHR ''<'' \<Longrightarrow> read_events (render x @ t) = events x @ read_events t"
proof (induction x arbitrary: t)
  case (CData s)
  then show ?case using read_chars by simp
next
  case (Elem n as cs)
  then have n: "plain_name n" and as: "list_all (\<lambda>(a, _). plain_name a) as" and wf: "\<forall>c \<in> set cs. well_formed c"
    and flat: "length cs \<le> 1 \<or> (\<forall>c \<in> set cs. is_elem c)" by (auto simp: list_all_iff)
  have close: "read_events (CHR ''<'' # CHR ''/'' # n @ CHR ''>'' # t) = End n # read_events t"
    using n upto_after [of "CHR ''>''" "CHR ''/'' # n" t] by (simp add: plain_name_def tag_event_def)
  have elems: "read_events (concat (map render ds) @ CHR ''<'' # u) = concat (map events ds) @ read_events (CHR ''<'' # u)"
    if "set ds \<subseteq> set cs" "\<forall>c \<in> set ds. is_elem c" for ds u
    using that
  proof (induction ds)
    case (Cons d ds)
    then show ?case using Elem.IH [of d "concat (map render ds) @ CHR ''<'' # u"] wf by auto
  qed simp
  have body: "read_events (concat (map render cs) @ CHR ''<'' # u) = concat (map events cs) @ read_events (CHR ''<'' # u)" for u
  proof (cases "\<forall>c \<in> set cs. is_elem c")
    case True
    then show ?thesis using elems by simp
  next
    case False
    with flat obtain s where "cs = [CData s]"
      by (cases cs; cases "hd cs") (auto simp: length_Suc_conv)
    then show ?thesis using read_chars [of "CHR ''<'' # u" s] by simp
  qed
  have gt: "CHR ''>'' \<notin> set (n @ attrs_text as)" using n attrs_free [OF as] by (simp add: plain_name_def)
  from upto_after [OF this] have "read_events (render (Elem n as cs) @ t) =
      tag_event (n @ attrs_text as) # read_events (concat (map render cs) @ CHR ''<'' # CHR ''/'' # n @ CHR ''>'' # t)"
    by simp
  with body close tag_start [OF n] show ?case by simp
qed

subsection \<open>The documents are read back\<close>

lemma field_ok [simp]: "well_formed (field n s) \<longleftrightarrow> plain_name n"
  by simp

lemma omit_ok: "plain_name n \<Longrightarrow> list_all well_formed (omit_empty n s)" "list_all is_elem (omit_empty n s)"
  by (simp_all add: omit_empty_def)

lemma document_ok: "document msg body = Some doc \<Longrightarrow> well_formed doc \<and> is_elem doc"
  by (auto simp: document_def error_doc_def buckets_doc_def list_doc_def content_doc_def initiate_doc_def complete_doc_def
      omit_ok plain_name_def list_all_iff omit_empty_def split: resp_body.split_asm option.split_asm)

text \<open>Text of printable ASCII characters is written as it stands.\<close>

lemma rune_width_ascii: "of_char c < (128 :: nat) \<Longrightarrow> rune_width (c # s) = 1"
  by (simp add: rune_width_def Let_def)

lemma sanitize_ascii: "list_all (\<lambda>c. 32 \<le> (of_char c :: nat) \<and> of_char c < (128 :: nat)) s \<Longrightarrow> sanitize s = s"
  by (induction s) (simp_all add: rune_width_ascii in_character_range_def)

lemma sanitize_itoa [simp]: "sanitize (itoa n) = itoa n"
proof (rule sanitize_ascii)
  have "32 \<le> (of_char c :: nat) \<and> (of_char c :: nat) < 128" if c: "c \<in> set (nat_to_dec k)" for c k
  proof -
    obtain d where "d < 10" "c = digit_char d" using nat_to_dec_digits [OF c] by auto
    then show ?thesis by (simp add: digit_char_def)
  qed
  then show "list_all (\<lambda>c. 32 \<le> (of_char c :: nat) \<and> of_char c < (128 :: nat)) (itoa n)"
    by (simp add: itoa_def list_all_iff)
qed

text \<open>What a client reads as the values of the elements of a name.\<close>

fun values_of :: "string \<Rightarrow> event list \<Rightarrow> string list" where
  "values_of n [] = []"
| "values_of n (Start m as # evs) =
     (if m = n then [case evs of Chars s # _ \<Rightarrow> s | _ \<Rightarrow> ''''] else []) @ values_of n evs"
| "values_of n (e # evs) = values_of n evs"

lemma values_other: "m \<noteq> n \<Longrightarrow> values_of n (Start m as # evs) = values_of n evs"
  by simp

lemma values_text: "values_of n ((if s = '''' then [] else [Chars t]) @ evs) = values_of n evs"
  by simp

lemma values_field: "values_of n (Start n as # (if s = '''' then [] else [Chars (sanitize s)]) @ End n # evs) = sanitize s # values_of n evs"
  by simp

lemma values_omit:
  "values_of n (concat (map events (omit_empty m s)) @ evs) = (if m = n \<and> s \<noteq> '''' then [sanitize s] else []) @ values_of n evs"
  by (simp add: omit_empty_def)

lemma values_each:
  assumes "\<And>x evs. values_of n (events (f x) @ evs) = g x # values_of n evs"
  shows "values_of n (concat (map (events \<circ> f) xs) @ evs) = map g xs @ values_of n evs"
  by (induction xs) (simp_all add: assms)

lemma values_none:
  assumes "\<And>x evs. values_of n (events (f x) @ evs) = values_of n evs"
  shows "values_of n (concat (map (events \<circ> f) xs) @ evs) = values_of n evs"
  by (induction xs) (simp_all add: assms)

lemma values_limit:
  "n \<noteq> ''MaxAllowedSize'' \<Longrightarrow> values_of n (concat (map events (if x = 0 then [] else [field ''MaxAllowedSize'' (itoa x)])) @ evs) = values_of n evs"
  by simp

declare values_of.simps [simp del]

lemmas values_steps = values_of.simps(1,3,4) values_other values_text values_field values_omit values_limit

lemma values_content:
  "values_of ''Key'' (events (content_doc ob) @ evs) = sanitize (omKey ob) # values_of ''Key'' evs"
  "values_of ''ETag'' (events (content_doc ob) @ evs) = sanitize (quote_etag (omETag ob)) # values_of ''ETag'' evs"
  "values_of ''Size'' (events (content_doc ob) @ evs) = itoa (omSize ob) # values_of ''Size'' evs"
  "values_of ''Prefix'' (events (content_doc ob) @ evs) = values_of ''Prefix'' evs"
  "values_of ''NextContinuationToken'' (events (content_doc ob) @ evs) = values_of ''NextContinuationToken'' evs"
  by (simp_all add: content_doc_def values_steps del: sanitize.simps split del: if_split)

lemma values_prefix: "values_of ''Prefix'' (events (Elem ''CommonPrefixes'' [] [field ''Prefix'' p]) @ evs) = sanitize p # values_of ''Prefix'' evs"
  "n \<noteq> ''Prefix'' \<Longrightarrow> n \<noteq> ''CommonPrefixes'' \<Longrightarrow>
     values_of n (events (Elem ''CommonPrefixes'' [] [field ''Prefix'' p]) @ evs) = values_of n evs"
  by (simp_all add: values_steps del: sanitize.simps split del: if_split)

lemma values_bucket:
  "values_of ''Name'' (events (case b of (n, d) \<Rightarrow> Elem ''Bucket'' [] [field ''Name'' n, field ''CreationDate'' (rfc3339 d)]) @ evs) =
     (sanitize \<circ> fst) b # values_of ''Name'' evs"
  by (cases b) (simp add: values_steps del: sanitize.simps split del: if_split)

text \<open>What a client is to read in each kind of document.\<close>

definition reads_as :: "event list \<Rightarrow> resp_body \<Rightarrow> bool" where
  "reads_as evs body \<longleftrightarrow>
     (case body of
        XmlError code resource _ \<Rightarrow> values_of ''Code'' evs = [sanitize code] \<and> values_of ''Resource'' evs = [sanitize resource]
      | XmlBuckets bs \<Rightarrow> values_of ''Name'' evs = map (sanitize \<circ> fst) bs
      | XmlList r \<Rightarrow>
          values_of ''Key'' evs = map (sanitize \<circ> omKey) (lrContents r) \<and>
          values_of ''ETag'' evs = map (sanitize \<circ> quote_etag \<circ> omETag) (lrContents r) \<and>
          values_of ''Size'' evs = map (itoa \<circ> omSize) (lrContents r) \<and>
          values_of ''Prefix'' evs = map sanitize (lrPrefix r # lrPrefixes r) \<and>
          values_of ''NextContinuationToken'' evs = (if lrNextToken r \<noteq> '''' then [sanitize (lrNextToken r)] else [])
      | XmlInitiate bucket key uid \<Rightarrow> values_of ''Key'' evs = [sanitize key] \<and> values_of ''UploadId'' evs = [sanitize uid]
      | XmlComplete location bucket key etag \<Rightarrow> values_of ''Key'' evs = [sanitize key] \<and> values_of ''ETag'' evs = [sanitize etag]
      | _ \<Rightarrow> True)"

lemma list_reads:
  "values_of ''Key'' (events (list_doc r)) = map (sanitize \<circ> omKey) (lrContents r)"
  "values_of ''ETag'' (events (list_doc r)) = map (sanitize \<circ> quote_etag \<circ> omETag) (lrContents r)"
  "values_of ''Size'' (events (list_doc r)) = map (itoa \<circ> omSize) (lrContents r)"
  "values_of ''Prefix'' (events (list_doc r)) = map sanitize (lrPrefix r # lrPrefixes r)"
  "values_of ''NextContinuationToken'' (events (list_doc r)) = (if lrNextToken r \<noteq> '''' then [sanitize (lrNextToken r)] else [])"
  by (simp_all add: list_doc_def values_steps values_content values_prefix values_each [OF values_content(1)]
      values_each [OF values_content(2)] values_each [OF values_content(3)] values_none [OF values_content(4)]
      values_none [OF values_content(5)] values_each [OF values_prefix(1)] values_none [OF values_prefix(2)]
      del: sanitize.simps split del: if_split)

lemma document_reads:
  assumes "document msg body = Some doc"
  shows "reads_as (events doc) body"
proof (cases body)
  case (XmlList r)
  then show ?thesis using assms list_reads [of r] by (simp add: document_def reads_as_def)
next
  case (XmlBuckets bs)
  then show ?thesis using assms
    by (auto simp: document_def reads_as_def buckets_doc_def values_steps values_each [OF values_bucket] simp del: sanitize.simps split del: if_split)
qed (use assms in \<open>auto simp: document_def reads_as_def error_doc_def initiate_doc_def complete_doc_def values_steps
      simp del: sanitize.simps split: option.split_asm split del: if_split\<close>)

text \<open>
  C34. No bucket name, key, prefix, token or resource can forge markup: reading the text of a
  response document gives the elements of the document and nothing else, so that a client finds
  in a listing the keys, ETags and sizes of the objects listed and the prefixes and the token
  beside them, in an error its code and resource, in the other documents the names and ids they
  are about, each as the server put it there up to bytes that are no XML characters, which are
  read as U+FFFD; printable ASCII is read unchanged.
\<close>

theorem documents_read_back:
  assumes "document msg body = Some doc"
  shows "read_events (render doc) = events doc \<and> reads_as (read_events (render doc)) body \<and>
    (\<forall>s. list_all (\<lambda>c. 32 \<le> (of_char c :: nat) \<and> of_char c < (128 :: nat)) s \<longrightarrow> sanitize s = s)"
  using read_render [of doc "''''"] document_ok [OF assms] document_reads [OF assms] by (simp add: sanitize_ascii)

theorem documents_read_back_witness:
  "values_of ''Key'' (read_events (render (initiate_doc ''bkt'' ''a</Key><Key>b'' ''ab''))) = [''a</Key><Key>b'']"
proof -
  have "document '''' (XmlInitiate ''bkt'' ''a</Key><Key>b'' ''ab'') = Some (initiate_doc ''bkt'' ''a</Key><Key>b'' ''ab'')"
    by (simp add: document_def)
  from documents_read_back [OF this]
  have "values_of ''Key'' (read_events (render (initiate_doc ''bkt'' ''a</Key><Key>b'' ''ab''))) = [sanitize ''a</Key><Key>b'']"
    unfolding reads_as_def resp_body.case by blast
  then show ?thesis by (simp only: sanitize_ascii list.pred_inject) (simp add: sanitize_ascii del: sanitize.simps)
qed

subsection \<open>The request of CompleteMultipartUpload\<close>

text \<open>
  How encoding/xml fills the request structs from an element: the character data directly inside
  an element is its value, of a field that occurs more than once the last one counts, of the
  slice every one, unknown elements are skipped; an empty number is 0.
\<close>

fun children :: "xml \<Rightarrow> xml list" where
  "children (Elem n as cs) = cs"
| "children (CData s) = []"

fun named :: "string \<Rightarrow> xml \<Rightarrow> bool" where
  "named n (Elem n' as cs) \<longleftrightarrow> n' = n"
| "named n (CData s) \<longleftrightarrow> False"

definition text_of :: "xml \<Rightarrow> string" where
  "text_of x = concat (map (\<lambda>c. case c of CData s \<Rightarrow> s | Elem _ _ _ \<Rightarrow> '''') (children x))"

definition last_text :: "string \<Rightarrow> xml \<Rightarrow> string option" where
  "last_text n x =
     (let fs = filter (named n) (children x) in if fs = [] then None else Some (text_of (last fs)))"

definition decode_number :: "string \<Rightarrow> int option" where
  "decode_number s = (if s = '''' then Some 0 else parse_int (trim_space s))"

definition numbers_ok :: "string \<Rightarrow> xml \<Rightarrow> bool" where
  "numbers_ok n x \<longleftrightarrow> list_all (\<lambda>f. decode_number (text_of f) \<noteq> None) (filter (named n) (children x))"

definition part_of_xml :: "xml \<Rightarrow> (int \<times> string) option" where
  "part_of_xml x =
     (if \<not> numbers_ok ''PartNumber'' x then None
      else Some (case last_text ''PartNumber'' x of None \<Rightarrow> 0 | Some s \<Rightarrow> the (decode_number s),
                 case last_text ''ETag'' x of None \<Rightarrow> '''' | Some s \<Rightarrow> s))"

fun all_some :: "'a option list \<Rightarrow> 'a list option" where
  "all_some [] = Some []"
| "all_some (None # xs) = None"
| "all_some (Some x # xs) = map_option (Cons x) (all_some xs)"

definition complete_of_xml :: "xml \<Rightarrow> (int \<times> string) list option" where
  "complete_of_xml x =
     (if \<not> named ''CompleteMultipartUpload'' x then None
      else all_some (map part_of_xml (filter (named ''Part'') (children x))))"

text \<open>What a client writes for its parts is what the handler gets.\<close>

definition parts_xml :: "(int \<times> string) list \<Rightarrow> xml" where
  "parts_xml ps =
     Elem ''CompleteMultipartUpload'' []
       (map (\<lambda>(n, etag). Elem ''Part'' [] [field ''PartNumber'' (itoa n), field ''ETag'' etag]) ps)"

lemma itoa_not_Nil [simp]: "itoa n \<noteq> ''''"
  by (simp add: itoa_def)

lemma trim_space_itoa [simp]: "trim_space (itoa n) = itoa n"
proof -
  have space: "(of_char c :: nat) \<le> 32" if "is_space c" for c
    using that by (auto simp: is_space_def)
  have digit: "\<not> is_space c" if c: "c \<in> set (nat_to_dec k)" for c k
  proof -
    obtain d where "d < 10" "c = digit_char d" using nat_to_dec_digits [OF c] by auto
    then have "(of_char c :: nat) = 48 + d" by (simp add: digit_char_def)
    with space [of c] show ?thesis by auto
  qed
  have "\<not> is_space (CHR ''-'')" by (simp add: is_space_def)
  with digit have "\<not> is_space c" if "c \<in> set (itoa n)" for c
    using that by (auto simp: itoa_def split: if_splits)
  then show ?thesis by (intro trim_space_id) simp_all
qed

lemma decode_itoa: "- (2 ^ 63) \<le> n \<Longrightarrow> n < 2 ^ 63 \<Longrightarrow> decode_number (itoa n) = Some n"
  by (simp add: decode_number_def parse_int_itoa)

lemma parts_decoded:
  assumes "\<forall>(n, etag) \<in> set ps. - (2 ^ 63) \<le> n \<and> n < 2 ^ 63"
  shows "complete_of_xml (parts_xml ps) = Some ps"
proof -
  define part where "part = (\<lambda>(n, etag). Elem ''Part'' [] [field ''PartNumber'' (itoa n), field ''ETag'' etag])"
  have "part_of_xml (part p) = Some p" if "p \<in> set ps" for p
    using assms that by (auto simp: part_def part_of_xml_def numbers_ok_def last_text_def text_of_def decode_itoa Let_def)
  then have "map part_of_xml (map part ps) = map Some ps"
    by simp
  moreover have "all_some (map Some ps) = Some ps" by (induction ps) simp_all
  moreover have "filter (named ''Part'') (map part ps) = map part ps"
    by (rule filter_True) (auto simp: part_def)
  ultimately show ?thesis by (simp add: complete_of_xml_def parts_xml_def flip: part_def del: map_map)
qed

end
