(* ===== verification/Process.thy ===== *)
theory Process imports Wiring ScrubProps
begin

text \<open>
  The life of the process (src/cmd/shardseal/main.go): what \<open>main\<close> starts from the configuration
  and when it gives up with exit code 1, and the shutdown after a signal, one step for each
  call of \<open>main\<close>, interleaved with the requests in flight, the loop of the scrubber, the worker
  and the deadline of ten seconds that all of these calls share. Sockets are reduced to
  whether a server accepts, connections to the number of requests in flight.
\<close>

subsection \<open>Phases\<close>

text \<open>Where the goroutine of \<open>main\<close> is: the call it is about to make or waits in.\<close>

datatype phase =
    Serving
  | ShutPublic | DrainPublic
  | ShutAdmin | DrainAdmin
  | CancelGc
  | StopScrub | WaitScrub
  | StopPolls
  | StopWorker | WaitWorker
  | CloseQueue
  | FlushTraces
  | Stopped

fun phase_rank :: "phase \<Rightarrow> nat" where
  "phase_rank Serving = 0"
| "phase_rank ShutPublic = 1"
| "phase_rank DrainPublic = 2"
| "phase_rank ShutAdmin = 3"
| "phase_rank DrainAdmin = 4"
| "phase_rank CancelGc = 5"
| "phase_rank StopScrub = 6"
| "phase_rank WaitScrub = 7"
| "phase_rank StopPolls = 8"
| "phase_rank StopWorker = 9"
| "phase_rank WaitWorker = 10"
| "phase_rank CloseQueue = 11"
| "phase_rank FlushTraces = 12"
| "phase_rank Stopped = 13"

lemma phase_rank_inj: "phase_rank p = phase_rank q \<Longrightarrow> p = q"
  by (cases p; cases q) simp_all

instantiation phase :: linorder
begin

definition less_eq_phase :: "phase \<Rightarrow> phase \<Rightarrow> bool" where
  "less_eq_phase p q \<longleftrightarrow> phase_rank p \<le> phase_rank q"

definition less_phase :: "phase \<Rightarrow> phase \<Rightarrow> bool" where
  "less_phase p q \<longleftrightarrow> phase_rank p < phase_rank q"

instance
  by standard (auto simp: less_eq_phase_def less_phase_def intro: phase_rank_inj)

end

subsection \<open>The state\<close>

datatype listener = Pending | Listening | Shut

text \<open>
  The variables of \<open>main\<close> with what runs behind them. \<open>None\<close> is a service the configuration
  does not ask for; the flags of the collection, of the pollers and of the tracing provider say
  that they have not been told to stop. \<open>pcTaken\<close> and \<open>pcFinished\<close> record the items the worker
  took and finished, \<open>pcCtx\<close> is the error of the shutdown context.
\<close>

record process =
  pcPhase :: phase
  pcReady :: bool
  pcLaunched :: bool
  pcPublic :: listener
  pcBusy :: nat
  pcAdmin :: "listener option"
  pcAdminBusy :: nat
  pcGc :: "bool option"
  pcScrub :: "scrub_life option"
  pcScrubPoll :: "bool option"
  pcQueue :: "mem_queue option"
  pcQueuePoll :: "bool option"
  pcWorker :: "worker option"
  pcTaken :: "repair_item list"
  pcFinished :: "(repair_item \<times> err option) list"
  pcTraces :: "bool option"
  pcCtx :: "err option"
  pcExit :: "nat option"

text \<open>What the handlers and loops are built from.\<close>

record services =
  svConfig :: config
  svStore :: localfs
  svLimits :: limits
  svScrubber :: "sealed_scrubber option"
  svGc :: "(int \<times> int) option"
  svProvider :: "provider option"

definition first_process :: "config \<Rightarrow> services \<Rightarrow> mem_queue option \<Rightarrow> worker option \<Rightarrow> process" where
  "first_process cfg sv repQ repW =
     \<lparr>pcPhase = Serving, pcReady = False, pcLaunched = False, pcPublic = Pending, pcBusy = 0,
      pcAdmin = (if cfAdminAddress cfg \<noteq> '''' then Some Pending else None), pcAdminBusy = 0,
      pcGc = map_option (\<lambda>_. True) (svGc sv),
      pcScrub = map_option (\<lambda>_. snd (scrub_start scrub_new)) (svScrubber sv),
      pcScrubPoll = map_option (\<lambda>_. True) (svScrubber sv), pcQueue = repQ, pcQueuePoll = map_option (\<lambda>_. True) repQ,
      pcWorker = repW, pcTaken = [], pcFinished = [], pcTraces = map_option (\<lambda>_. True) (svProvider sv),
      pcCtx = None, pcExit = None\<rparr>"

text \<open>The start: the code of an early exit, or the services and the running process.\<close>

definition boot ::
    "string \<Rightarrow> (byte list \<Rightarrow> config \<Rightarrow> config option) \<Rightarrow> (string \<Rightarrow> float64 option) \<Rightarrow> (string \<Rightarrow> int option) \<Rightarrow> environment \<Rightarrow>
     bool \<Rightarrow> (exporter \<Rightarrow> bool) \<Rightarrow> int \<Rightarrow> world \<Rightarrow> (nat + (services \<times> process)) \<times> world" where
  "boot cwd yaml parse_float parse_duration env resource_ok exporter_ok now w =
     (case load_config cwd yaml parse_float env (env ''SHARDSEAL_CONFIG'') w of
        (Inl _, w1) \<Rightarrow> (Inl 1, w1)
      | (Inr cfg, w1) \<Rightarrow>
          (case ensure_dirs cwd (cfDataDirs cfg) w1 of
             (Inl _, w2) \<Rightarrow> (Inl 1, w2)
           | (Inr _, w2) \<Rightarrow>
               (let provider = tracing_init resource_ok exporter_ok (trace_options_of cfg) in
                case setup_store cwd cfg w2 of
                  (Inl _, w3) \<Rightarrow> (Inl 1, w3)
                | (Inr l0, w3) \<Rightarrow>
                    (case setup_repair cfg now l0 of
                       (l, repQ, repW) \<Rightarrow>
                         (let sv = \<lparr>svConfig = cfg, svStore = l, svLimits = server_limits cfg,
                                    svScrubber = setup_scrubber cfg parse_duration repQ,
                                    svGc = setup_gc cfg parse_duration, svProvider = provider\<rparr>
                          in (Inr (sv, first_process cfg sv repQ repW), w3))))))"

subsection \<open>The steps of main\<close>

text \<open>
  The next step of \<open>main\<close>, \<open>None\<close> where it waits. \<open>Shutdown\<close> of a server closes the listener and
  then waits for the requests in flight, \<open>Stop\<close> of the scrubber and of the worker for their
  goroutines, each no longer than the context lasts.
\<close>

definition main_step :: "process \<Rightarrow> process option" where
  "main_step s =
     (case pcPhase s of
        Serving \<Rightarrow> None
      | ShutPublic \<Rightarrow> Some (s\<lparr>pcPublic := Shut, pcPhase := DrainPublic\<rparr>)
      | DrainPublic \<Rightarrow> if pcBusy s = 0 \<or> pcCtx s \<noteq> None then Some (s\<lparr>pcPhase := ShutAdmin\<rparr>) else None
      | ShutAdmin \<Rightarrow> Some (s\<lparr>pcAdmin := map_option (\<lambda>_. Shut) (pcAdmin s), pcPhase := DrainAdmin\<rparr>)
      | DrainAdmin \<Rightarrow>
          if pcAdmin s = None \<or> pcAdminBusy s = 0 \<or> pcCtx s \<noteq> None then Some (s\<lparr>pcPhase := CancelGc\<rparr>) else None
      | CancelGc \<Rightarrow> Some (s\<lparr>pcGc := map_option (\<lambda>_. False) (pcGc s), pcPhase := StopScrub\<rparr>)
      | StopScrub \<Rightarrow>
          (case pcScrub s of
             None \<Rightarrow> Some (s\<lparr>pcPhase := StopPolls\<rparr>)
           | Some l \<Rightarrow>
               if \<not> slRunning l then Some (s\<lparr>pcPhase := StopPolls\<rparr>)
               else Some (s\<lparr>pcScrub := Some (scrub_stop_signal 0 l), pcPhase := WaitScrub\<rparr>))
      | WaitScrub \<Rightarrow>
          (case pcScrub s of
             None \<Rightarrow> Some (s\<lparr>pcPhase := StopPolls\<rparr>)
           | Some l \<Rightarrow>
               (case scrub_stop_wait (pcCtx s) l of
                  Done _ \<Rightarrow> Some (s\<lparr>pcPhase := StopPolls\<rparr>)
                | _ \<Rightarrow> None))
      | StopPolls \<Rightarrow>
          Some (s\<lparr>pcScrubPoll := map_option (\<lambda>_. False) (pcScrubPoll s),
                  pcQueuePoll := map_option (\<lambda>_. False) (pcQueuePoll s), pcPhase := StopWorker\<rparr>)
      | StopWorker \<Rightarrow> Some (s\<lparr>pcWorker := map_option worker_stop_request (pcWorker s), pcPhase := WaitWorker\<rparr>)
      | WaitWorker \<Rightarrow>
          (case pcWorker s of
             None \<Rightarrow> Some (s\<lparr>pcPhase := CloseQueue\<rparr>)
           | Some wk \<Rightarrow>
               (case worker_stop_wait (pcCtx s) wk of
                  Done (_, wk1) \<Rightarrow> Some (s\<lparr>pcWorker := Some wk1, pcPhase := CloseQueue\<rparr>)
                | _ \<Rightarrow> None))
      | CloseQueue \<Rightarrow> Some (s\<lparr>pcQueue := map_option (\<lambda>q. snd (close_queue q)) (pcQueue s), pcPhase := FlushTraces\<rparr>)
      | FlushTraces \<Rightarrow> Some (s\<lparr>pcTraces := map_option (\<lambda>_. False) (pcTraces s), pcPhase := Stopped\<rparr>)
      | Stopped \<Rightarrow> Some (s\<lparr>pcExit := Some 0\<rparr>))"

subsection \<open>What happens beside main\<close>

text \<open>The loop of the scrubber; its context is never cancelled, so only \<open>Stop\<close> ends it.\<close>

definition loop_turn :: "scrub_life \<Rightarrow> scrub_life option" where
  "loop_turn l =
     (case slLoops l of
        [] \<Rightarrow> None
      | pc # _ \<Rightarrow>
          (case pc of
             InPass \<Rightarrow> Some (set_loop 0 AtSelect l)
           | AtSelect \<Rightarrow> Some (set_loop 0 InPass l)
           | Clearing \<Rightarrow> Some ((set_loop 0 Closing l)\<lparr>slRunning := False\<rparr>)
           | Closing \<Rightarrow> Some (close_done 0 l)
           | Gone \<Rightarrow> None))"

text \<open>The worker and its queue, as the system of RepairWorker.\<close>

definition pipe :: "process \<Rightarrow> worker \<Rightarrow> mem_queue \<Rightarrow> worker_system" where
  "pipe s wk q = \<lparr>wsWorker = wk, wsQueue = q, wsTaken = pcTaken s, wsFinished = pcFinished s\<rparr>"

text \<open>Who can put items into the queue: requests, and a pass of the scrubber.\<close>

definition producing :: "process \<Rightarrow> bool" where
  "producing s \<longleftrightarrow> 0 < pcBusy s \<or> 0 < pcAdminBusy s \<or> (\<exists>l. pcScrub s = Some l \<and> InPass \<in> set (slLoops l))"

inductive process_step :: "process \<Rightarrow> process \<Rightarrow> bool" where
  ps_main: "pcExit s = None \<Longrightarrow> main_step s = Some s' \<Longrightarrow> process_step s s'"
| ps_signal: "pcExit s = None \<Longrightarrow> pcPhase s = Serving \<Longrightarrow> process_step s (s\<lparr>pcReady := False, pcPhase := ShutPublic\<rparr>)"
| ps_deadline: "pcExit s = None \<Longrightarrow> pcPhase s \<noteq> Serving \<Longrightarrow> process_step s (s\<lparr>pcCtx := Some ErrCtx\<rparr>)"
| ps_launch: "pcExit s = None \<Longrightarrow> \<not> pcLaunched s \<Longrightarrow>
    process_step s (s\<lparr>pcLaunched := True, pcReady := True, pcPublic := if pcPublic s = Shut then Shut else Listening\<rparr>)"
| ps_launch_admin: "pcExit s = None \<Longrightarrow> pcAdmin s = Some Pending \<Longrightarrow> process_step s (s\<lparr>pcAdmin := Some Listening\<rparr>)"
| ps_listen_fails: "pcExit s = None \<Longrightarrow> pcPublic s = Listening \<or> pcAdmin s = Some Listening \<Longrightarrow>
    process_step s (s\<lparr>pcExit := Some 1\<rparr>)"
| ps_request: "pcExit s = None \<Longrightarrow> pcPublic s = Listening \<Longrightarrow> process_step s (s\<lparr>pcBusy := pcBusy s + 1\<rparr>)"
| ps_reply: "pcExit s = None \<Longrightarrow> 0 < pcBusy s \<Longrightarrow> process_step s (s\<lparr>pcBusy := pcBusy s - 1\<rparr>)"
| ps_admin_request: "pcExit s = None \<Longrightarrow> pcAdmin s = Some Listening \<Longrightarrow> process_step s (s\<lparr>pcAdminBusy := pcAdminBusy s + 1\<rparr>)"
| ps_admin_reply: "pcExit s = None \<Longrightarrow> 0 < pcAdminBusy s \<Longrightarrow> process_step s (s\<lparr>pcAdminBusy := pcAdminBusy s - 1\<rparr>)"
| ps_scrub: "pcExit s = None \<Longrightarrow> pcScrub s = Some l \<Longrightarrow> loop_turn l = Some l' \<Longrightarrow> process_step s (s\<lparr>pcScrub := Some l'\<rparr>)"
| ps_worker: "pcExit s = None \<Longrightarrow> pcWorker s = Some wk \<Longrightarrow> pcQueue s = Some q \<Longrightarrow> worker_step (pipe s wk q) t \<Longrightarrow>
    process_step s (s\<lparr>pcWorker := Some (wsWorker t), pcQueue := Some (wsQueue t), pcTaken := wsTaken t, pcFinished := wsFinished t\<rparr>)"
| ps_pause: "pcExit s = None \<Longrightarrow> 0 < pcAdminBusy s \<Longrightarrow> pcWorker s = Some wk \<Longrightarrow> process_step s (s\<lparr>pcWorker := Some (worker_pause wk)\<rparr>)"
| ps_resume: "pcExit s = None \<Longrightarrow> 0 < pcAdminBusy s \<Longrightarrow> pcWorker s = Some wk \<Longrightarrow> process_step s (s\<lparr>pcWorker := Some (worker_resume wk)\<rparr>)"
| ps_enqueue: "pcExit s = None \<Longrightarrow> producing s \<Longrightarrow> pcQueue s = Some q \<Longrightarrow> enqueue b c it q = Done (r, q') \<Longrightarrow>
    process_step s (s\<lparr>pcQueue := Some q'\<rparr>)"

text \<open>The states a process can be in, from the state at the end of a successful start.\<close>

definition started :: "process \<Rightarrow> bool" where
  "started s \<longleftrightarrow> (\<exists>cfg sv now l l' repQ repW. setup_repair cfg now l = (l', repQ, repW) \<and> s = first_process cfg sv repQ repW)"

end
