(* ===== verification/ProcessProps.thy ===== *)
theory ProcessProps imports Process
begin

text \<open>
  The shutdown of the process: what has been stopped in each phase, what is over as long as the
  deadline has not passed, and that the process ends. \<open>parts_ok\<close>, \<open>stops_ok\<close> and \<open>drained\<close> are the
  invariants, of the parts at any time and of what \<open>main\<close> has done by its phase.
\<close>

subsection \<open>Invariants\<close>

lemmas phase_simps = less_phase_def less_eq_phase_def

inductive_cases process_stepE: "process_step s s'"

text \<open>The steps of \<open>main\<close> one by one.\<close>

lemma main_step_cases [consumes 1, case_names shut_public drain_public shut_admin drain_admin cancel_gc no_scrub stop_scrub
    wait_none wait_scrub stop_polls stop_worker no_worker wait_worker close_queue flush leave]:
  assumes "main_step s = Some s'"
  obtains "pcPhase s = ShutPublic" "s' = s\<lparr>pcPublic := Shut, pcPhase := DrainPublic\<rparr>"
  | "pcPhase s = DrainPublic" "pcBusy s = 0 \<or> pcCtx s \<noteq> None" "s' = s\<lparr>pcPhase := ShutAdmin\<rparr>"
  | "pcPhase s = ShutAdmin" "s' = s\<lparr>pcAdmin := map_option (\<lambda>_. Shut) (pcAdmin s), pcPhase := DrainAdmin\<rparr>"
  | "pcPhase s = DrainAdmin" "pcAdmin s = None \<or> pcAdminBusy s = 0 \<or> pcCtx s \<noteq> None" "s' = s\<lparr>pcPhase := CancelGc\<rparr>"
  | "pcPhase s = CancelGc" "s' = s\<lparr>pcGc := map_option (\<lambda>_. False) (pcGc s), pcPhase := StopScrub\<rparr>"
  | "pcPhase s = StopScrub" "\<forall>l. pcScrub s = Some l \<longrightarrow> \<not> slRunning l" "s' = s\<lparr>pcPhase := StopPolls\<rparr>"
  | l where "pcPhase s = StopScrub" "pcScrub s = Some l" "s' = s\<lparr>pcScrub := Some (scrub_stop_signal 0 l), pcPhase := WaitScrub\<rparr>"
  | "pcPhase s = WaitScrub" "pcScrub s = None" "s' = s\<lparr>pcPhase := StopPolls\<rparr>"
  | l where "pcPhase s = WaitScrub" "pcScrub s = Some l" "slDone l \<or> pcCtx s \<noteq> None" "s' = s\<lparr>pcPhase := StopPolls\<rparr>"
  | "pcPhase s = StopPolls" "s' = s\<lparr>pcScrubPoll := map_option (\<lambda>_. False) (pcScrubPoll s),
      pcQueuePoll := map_option (\<lambda>_. False) (pcQueuePoll s), pcPhase := StopWorker\<rparr>"
  | "pcPhase s = StopWorker" "s' = s\<lparr>pcWorker := map_option worker_stop_request (pcWorker s), pcPhase := WaitWorker\<rparr>"
  | "pcPhase s = WaitWorker" "pcWorker s = None" "s' = s\<lparr>pcPhase := CloseQueue\<rparr>"
  | wk r wk1 where "pcPhase s = WaitWorker" "pcWorker s = Some wk" "worker_stop_wait (pcCtx s) wk = Done (r, wk1)"
      "s' = s\<lparr>pcWorker := Some wk1, pcPhase := CloseQueue\<rparr>"
  | "pcPhase s = CloseQueue" "s' = s\<lparr>pcQueue := map_option (\<lambda>q. snd (close_queue q)) (pcQueue s), pcPhase := FlushTraces\<rparr>"
  | "pcPhase s = FlushTraces" "s' = s\<lparr>pcTraces := map_option (\<lambda>_. False) (pcTraces s), pcPhase := Stopped\<rparr>"
  | "pcPhase s = Stopped" "s' = s\<lparr>pcExit := Some 0\<rparr>"
proof -
  note step = assms [unfolded main_step_def]
  show thesis
  proof (cases "pcPhase s")
    case StopScrub
    then show ?thesis using step that(6,7) by (auto split: option.split_asm if_split_asm)
  next
    case WaitScrub
    then show ?thesis using step that(8,9) by (auto simp: scrub_stop_wait_def split: option.split_asm if_split_asm)
  next
    case WaitWorker
    then show ?thesis using step that(12,13) by (auto split: option.split_asm outcome.split_asm)
  next
    case ShutPublic
    then show ?thesis using step by (intro that(1)) (auto split: if_split_asm)
  next
    case DrainPublic
    then show ?thesis using step by (intro that(2)) (auto split: if_split_asm)
  next
    case ShutAdmin
    then show ?thesis using step by (intro that(3)) (auto split: if_split_asm)
  next
    case DrainAdmin
    then show ?thesis using step by (intro that(4)) (auto split: if_split_asm)
  next
    case CancelGc
    then show ?thesis using step by (intro that(5)) (auto split: if_split_asm)
  next
    case StopPolls
    then show ?thesis using step by (intro that(10)) (auto split: if_split_asm)
  next
    case StopWorker
    then show ?thesis using step by (intro that(11)) (auto split: if_split_asm)
  next
    case CloseQueue
    then show ?thesis using step by (intro that(14)) (auto split: if_split_asm)
  next
    case FlushTraces
    then show ?thesis using step by (intro that(15)) (auto split: if_split_asm)
  next
    case Stopped
    then show ?thesis using step by (intro that(16)) (auto split: if_split_asm)
  next
    case Serving
    then show ?thesis using step by simp
  qed
qed

text \<open>The single loop of the scrubber moves as its step relation allows.\<close>

lemma loop_turn_step:
  assumes "loop_turn l = Some l'" and "\<not> slPanicked l"
  shows "life_step l l'"
proof -
  obtain pc pcs where l: "slLoops l = pc # pcs" using assms(1) by (cases "slLoops l") (auto simp: loop_turn_def)
  then have i: "0 < length (slLoops l)" "slLoops l ! 0 = pc" by simp_all
  show ?thesis
    using assms l i lf_pass [of l 0] lf_timer [of l 0] lf_clear [of l 0] lf_close [of l 0]
    by (cases pc) (auto simp: loop_turn_def)
qed

definition scrub_ok :: "scrub_life \<Rightarrow> bool" where
  "scrub_ok l \<longleftrightarrow> life_ok l \<and> length (slLoops l) = 1"

lemma scrub_ok_turn: "loop_turn l = Some l' \<Longrightarrow> scrub_ok l \<Longrightarrow> scrub_ok l'"
proof -
  assume t: "loop_turn l = Some l'" and ok: "scrub_ok l"
  then obtain pc where l: "slLoops l = [pc]" by (auto simp: scrub_ok_def length_Suc_conv)
  with ok have "\<not> slPanicked l" by (simp add: scrub_ok_def life_ok_def)
  from life_ok_step [OF loop_turn_step [OF t this]] ok have "life_ok l'" by (simp add: scrub_ok_def)
  moreover have "length (slLoops l') = 1"
    using t l by (cases pc) (auto simp: loop_turn_def set_loop_def close_done_def split: if_splits)
  ultimately show ?thesis by (simp add: scrub_ok_def)
qed

lemma scrub_ok_signal: "scrub_ok l \<Longrightarrow> scrub_ok (scrub_stop_signal 0 l)"
proof -
  assume ok: "scrub_ok l"
  then have "\<not> slPanicked l" by (auto simp: scrub_ok_def life_ok_def length_Suc_conv)
  from life_ok_step [OF lf_stop [OF this, of 0]] ok show ?thesis
    by (auto simp: scrub_ok_def scrub_stop_signal_def set_loop_def split: if_splits)
qed

lemma scrub_ok_first: "scrub_ok (snd (scrub_start scrub_new))"
  by (auto simp: scrub_ok_def life_ok_def scrub_start_def scrub_new_def)

text \<open>The loop is past its last pass.\<close>

definition loop_over :: "scrub_life \<Rightarrow> bool" where
  "loop_over l \<longleftrightarrow> slLoops l = [Closing] \<or> slLoops l = [Gone]"

lemma loop_over_turn: "loop_turn l = Some l' \<Longrightarrow> scrub_ok l \<Longrightarrow> loop_over l \<Longrightarrow> loop_over l'"
  by (auto simp: loop_over_def loop_turn_def close_done_def set_loop_def scrub_ok_def life_ok_def)

lemma loop_over_not_running: "scrub_ok l \<Longrightarrow> \<not> slRunning l \<Longrightarrow> loop_over l"
  "scrub_ok l \<Longrightarrow> slDone l \<Longrightarrow> loop_over l"
  by (auto simp: scrub_ok_def life_ok_def loop_over_def length_Suc_conv elim: life_pc_ok.elims)

lemma loop_step_flags:
  "loop_step ev pc w = Some (pc', w') \<Longrightarrow>
     wkRunning w' = wkRunning w \<and> wkCancelled w' = wkCancelled w \<and> wkThreads w' = wkThreads w \<and> pc \<noteq> Exited"
  by (cases "(ev, pc, w)" rule: loop_step.cases)
    (auto simp: Let_def count_outcome_def set_last_err_def split: if_splits option.splits)

lemma queue_flags:
  "enqueue b c it q = Done (r, q') \<Longrightarrow> mqClosed q' = mqClosed q \<and> mqChanClosed q' = mqChanClosed q \<and> mqOnce q' = mqOnce q"
  "dequeue b c q = Done (x, q') \<Longrightarrow> mqClosed q' = mqClosed q \<and> mqChanClosed q' = mqChanClosed q \<and> mqOnce q' = mqOnce q"
  by (auto simp: enqueue_def dequeue_def chan_send_def chan_recv_def
      split: if_split_asm outcome.split_asm option.split_asm list.split_asm prod.split_asm)

lemma worker_step_flags:
  "worker_step s t \<Longrightarrow> wkRunning (wsWorker t) = wkRunning (wsWorker s) \<and> wkCancelled (wsWorker t) = wkCancelled (wsWorker s) \<and>
     mqClosed (wsQueue t) = mqClosed (wsQueue s) \<and> mqChanClosed (wsQueue t) = mqChanClosed (wsQueue s) \<and>
     mqOnce (wsQueue t) = mqOnce (wsQueue s) \<and>
     \<not> (\<forall>pc \<in> set (wkThreads (wsWorker s)). pc = Exited)"
  by (induction rule: worker_step.induct)
    (auto simp: set_thread_def dest!: loop_step_flags dest: queue_flags intro!: bexI [OF _ nth_mem] simp del: loop_step.simps)

text \<open>What the parts are like at any time.\<close>

definition parts_ok :: "process \<Rightarrow> bool" where
  "parts_ok s \<longleftrightarrow>
     (\<forall>l. pcScrub s = Some l \<longrightarrow> scrub_ok l) \<and>
     (\<forall>wk. pcWorker s = Some wk \<longrightarrow> (\<exists>q. pcQueue s = Some q \<and> accounts_ok (pipe s wk q))) \<and>
     (pcWorker s = None \<longrightarrow> pcTaken s = [] \<and> pcFinished s = []) \<and>
     (\<forall>q. pcQueue s = Some q \<longrightarrow> mqOnce q \<longrightarrow> mqClosed q \<and> mqChanClosed q) \<and>
     (pcAdmin s = None \<longrightarrow> pcAdminBusy s = 0)"

text \<open>What has been stopped, by the phase \<open>main\<close> is in.\<close>

definition stops_ok :: "process \<Rightarrow> bool" where
  "stops_ok s \<longleftrightarrow>
     (pcPhase s = Serving \<longrightarrow> pcCtx s = None) \<and>
     (ShutPublic < pcPhase s \<longrightarrow> pcPublic s = Shut) \<and>
     (ShutAdmin < pcPhase s \<longrightarrow> pcAdmin s = None \<or> pcAdmin s = Some Shut) \<and>
     (CancelGc < pcPhase s \<longrightarrow> pcGc s \<noteq> Some True) \<and>
     (StopPolls < pcPhase s \<longrightarrow> pcScrubPoll s \<noteq> Some True \<and> pcQueuePoll s \<noteq> Some True) \<and>
     (\<forall>wk. pcWorker s = Some wk \<longrightarrow> (pcPhase s \<le> WaitWorker \<longrightarrow> wkRunning wk) \<and> (StopWorker < pcPhase s \<longrightarrow> wkCancelled wk)) \<and>
     (\<forall>q. pcQueue s = Some q \<longrightarrow> CloseQueue < pcPhase s \<longrightarrow> mqClosed q \<and> mqChanClosed q) \<and>
     (FlushTraces < pcPhase s \<longrightarrow> pcTraces s \<noteq> Some True) \<and>
     (pcExit s = Some 0 \<longrightarrow> pcPhase s = Stopped)"

text \<open>What is over, as long as the deadline has not passed.\<close>

definition drained :: "process \<Rightarrow> bool" where
  "drained s \<longleftrightarrow>
     (pcCtx s = None \<longrightarrow>
       (DrainPublic < pcPhase s \<longrightarrow> pcBusy s = 0) \<and>
       (DrainAdmin < pcPhase s \<longrightarrow> pcAdminBusy s = 0) \<and>
       (WaitScrub < pcPhase s \<longrightarrow> (\<forall>l. pcScrub s = Some l \<longrightarrow> loop_over l)) \<and>
       (WaitWorker < pcPhase s \<longrightarrow>
         (\<forall>wk. pcWorker s = Some wk \<longrightarrow> \<not> wkRunning wk \<and> (\<forall>pc \<in> set (wkThreads wk). pc = Exited))))"

lemma accounts_ok_same:
  assumes "accounts_ok (pipe s wk q)" and "pcTaken t = pcTaken s" and "pcFinished t = pcFinished s"
    and "wk' = wk \<or> wk' = worker_pause wk \<or> wk' = worker_resume wk \<or> wk' = worker_stop_request wk \<or> wk' = wk\<lparr>wkRunning := False\<rparr>"
  shows "accounts_ok (pipe t wk' q')"
  using assms by (auto simp: accounts_ok_def pipe_def Let_def worker_pause_def worker_resume_def worker_stop_request_def)

lemma stop_wait_cases:
  "worker_stop_wait c wk = Done (r, wk') \<Longrightarrow>
     wk' = wk \<and> (\<not> wkRunning wk \<or> c \<noteq> None) \<or> wk' = wk\<lparr>wkRunning := False\<rparr> \<and> (\<forall>pc \<in> set (wkThreads wk). pc = Exited)"
  by (auto simp: worker_stop_wait_def split: if_splits option.splits)

lemma parts_ok_main:
  assumes "main_step s = Some s'" and ok: "parts_ok s"
  shows "parts_ok s'"
  using assms(1)
proof (cases rule: main_step_cases)
  case (stop_scrub l)
  then show ?thesis using ok by (auto simp: parts_ok_def pipe_def scrub_ok_signal)
next
  case stop_worker
  then show ?thesis using ok by (auto simp: parts_ok_def elim!: accounts_ok_same)
next
  case (wait_worker wk r wk1)
  then obtain q where q: "pcQueue s = Some q" "accounts_ok (pipe s wk q)" using ok by (auto simp: parts_ok_def)
  from stop_wait_cases [OF wait_worker(3)] have "accounts_ok (pipe s' wk1 q)"
    by (intro accounts_ok_same [OF q(2)]) (auto simp: wait_worker(4))
  then show ?thesis using ok q wait_worker by (auto simp: parts_ok_def)
next
  case close_queue
  then show ?thesis using ok
    by (cases "pcQueue s")
      (auto simp: parts_ok_def close_queue_def close_flag_def close_chan_def Let_def elim!: accounts_ok_same)
qed (use ok in \<open>auto simp: parts_ok_def pipe_def\<close>)

lemma parts_ok_step: "process_step s s' \<Longrightarrow> parts_ok s \<Longrightarrow> parts_ok s'"
proof (induction rule: process_step.induct)
  case (ps_main s s')
  then show ?case by (blast intro: parts_ok_main)
next
  case (ps_worker s wk q t)
  then have "accounts_ok t" by (auto simp: parts_ok_def intro: accounts_ok_worker)
  then have "accounts_ok (pipe (s\<lparr>pcTaken := wsTaken t, pcFinished := wsFinished t\<rparr>) (wsWorker t) (wsQueue t))"
    by (simp add: pipe_def accounts_ok_def)
  then show ?case using ps_worker(2,3,5) worker_step_flags [OF ps_worker(4)] by (auto simp: parts_ok_def pipe_def)
next
  case (ps_scrub s l l')
  then show ?case using scrub_ok_turn by (auto simp: parts_ok_def pipe_def)
next
  case (ps_pause s wk)
  then show ?case by (auto simp: parts_ok_def elim!: accounts_ok_same)
next
  case (ps_resume s wk)
  then show ?case by (auto simp: parts_ok_def elim!: accounts_ok_same)
next
  case (ps_enqueue s q b c it r q')
  then show ?case using queue_flags(1) [OF ps_enqueue(4)] by (auto simp: parts_ok_def elim!: accounts_ok_same)
qed (auto simp: parts_ok_def pipe_def)

lemma stops_ok_main:
  assumes "main_step s = Some s'" and ok: "stops_ok s" and parts: "parts_ok s"
  shows "stops_ok s'"
  using assms(1)
proof (cases rule: main_step_cases)
  case stop_worker
  then show ?thesis using ok by (cases "pcWorker s") (auto simp: stops_ok_def phase_simps worker_stop_request_def)
next
  case (wait_worker wk r wk1)
  with stop_wait_cases [OF wait_worker(3)] show ?thesis using ok by (auto simp: stops_ok_def phase_simps)
next
  case close_queue
  then show ?thesis using ok parts
    by (cases "pcQueue s") (auto simp: stops_ok_def parts_ok_def phase_simps close_queue_def close_flag_def close_chan_def Let_def)
qed (use ok in \<open>auto simp: stops_ok_def phase_simps\<close>)

lemma stops_ok_step: "process_step s s' \<Longrightarrow> stops_ok s \<Longrightarrow> parts_ok s \<Longrightarrow> stops_ok s'"
proof (induction rule: process_step.induct)
  case (ps_main s s')
  then show ?case by (blast intro: stops_ok_main)
next
  case (ps_signal s)
  then show ?case by (auto simp: stops_ok_def phase_simps)
next
  case (ps_worker s wk q t)
  from worker_step_flags [OF ps_worker(4)] show ?case using ps_worker(1-3,5) by (auto simp: stops_ok_def pipe_def)
next
  case (ps_enqueue s q b c it r q')
  from queue_flags(1) [OF ps_enqueue(4)] show ?case using ps_enqueue by (auto simp: stops_ok_def)
qed (auto simp: stops_ok_def worker_pause_def worker_resume_def)

lemma drained_main:
  assumes "main_step s = Some s'" and ok: "drained s" and parts: "parts_ok s" and stops: "stops_ok s"
  shows "drained s'"
  using assms(1)
proof (cases rule: main_step_cases)
  case no_scrub
  then show ?thesis using ok parts loop_over_not_running by (auto simp: drained_def parts_ok_def phase_simps)
next
  case (wait_scrub l)
  then show ?thesis using ok parts loop_over_not_running by (auto simp: drained_def parts_ok_def phase_simps)
next
  case drain_admin
  then show ?thesis using ok parts by (auto simp: drained_def parts_ok_def phase_simps)
next
  case (wait_worker wk r wk1)
  moreover have "wkRunning wk" using stops wait_worker(1,2) by (auto simp: stops_ok_def phase_simps)
  ultimately show ?thesis using ok stop_wait_cases [OF wait_worker(3)] by (auto simp: drained_def phase_simps)
qed (use ok in \<open>auto simp: drained_def phase_simps\<close>)

lemma drained_step: "process_step s s' \<Longrightarrow> drained s \<Longrightarrow> parts_ok s \<Longrightarrow> stops_ok s \<Longrightarrow> drained s'"
proof (induction rule: process_step.induct)
  case (ps_main s s')
  then show ?case by (blast intro: drained_main)
next
  case (ps_signal s)
  then show ?case by (auto simp: drained_def phase_simps)
next
  case (ps_request s)
  then have "\<not> ShutPublic < pcPhase s" by (auto simp: stops_ok_def)
  then show ?case using ps_request by (auto simp: drained_def phase_simps)
next
  case (ps_admin_request s)
  then have "\<not> ShutAdmin < pcPhase s" by (auto simp: stops_ok_def)
  then show ?case using ps_admin_request by (auto simp: drained_def phase_simps)
next
  case (ps_scrub s l l')
  then show ?case using loop_over_turn by (auto simp: drained_def parts_ok_def)
next
  case (ps_worker s wk q t)
  from worker_step_flags [OF ps_worker(4)] show ?case using ps_worker(1-3,5) by (auto simp: drained_def pipe_def)
qed (auto simp: drained_def worker_pause_def worker_resume_def)

subsection \<open>Reachable processes\<close>

lemma boot_started:
  assumes "boot cwd yaml parse_float parse_duration env resource_ok exporter_ok now w = (Inr (sv, s), w')"
  shows "started s"
  using assms unfolding started_def boot_def Let_def by (fastforce split: prod.split_asm sum.split_asm)

lemma started_ok:
  assumes "started s"
  shows "parts_ok s \<and> stops_ok s \<and> drained s"
proof -
  obtain cfg sv now l l' repQ repW where r: "setup_repair cfg now l = (l', repQ, repW)" and s: "s = first_process cfg sv repQ repW"
    using assms by (auto simp: started_def)
  have "parts_ok s"
  proof -
    have "\<exists>q. repQ = Some q \<and> accounts_ok (pipe s wk q)" if "repW = Some wk" for wk
      using r that accounts_ok_init [of _ 1024 now]
      by (auto simp: setup_repair_def Let_def pipe_def s first_process_def system_init_def split: if_split_asm)
    moreover have "\<not> mqOnce q" if "repQ = Some q" for q
      using r that by (auto simp: setup_repair_def Let_def new_mem_queue_def split: if_split_asm)
    ultimately show ?thesis using scrub_ok_first by (auto simp: parts_ok_def s first_process_def)
  qed
  moreover have "wkRunning wk" if "repW = Some wk" for wk
    using r that by (auto simp: setup_repair_def Let_def worker_start_def new_worker_def split: if_split_asm)
  then have "stops_ok s" by (simp add: stops_ok_def s first_process_def phase_simps)
  moreover have "drained s" by (simp add: drained_def s first_process_def phase_simps)
  ultimately show ?thesis by blast
qed

lemma process_reachable:
  assumes "process_step\<^sup>*\<^sup>* s0 s" and "started s0"
  shows "parts_ok s \<and> stops_ok s \<and> drained s"
  using assms
proof (induction rule: rtranclp_induct)
  case base
  then show ?case by (rule started_ok)
next
  case (step s s')
  then show ?case using parts_ok_step stops_ok_step drained_step by blast
qed

lemma process_phase: "process_step s s' \<Longrightarrow> pcPhase s \<le> pcPhase s'"
proof (induction rule: process_step.induct)
  case (ps_main s s')
  show ?case using ps_main(2,1) by (cases rule: main_step_cases) (auto simp: phase_simps)
qed (auto simp: phase_simps)

subsection \<open>A scrubber in a pass is not stopped\<close>

text \<open>
  \<open>Stop\<close> sends without waiting: a loop that is in a pass does not get the message, and from
  then on only the deadline brings \<open>main\<close> further, which then waits for nothing.
\<close>

definition deaf :: "process \<Rightarrow> bool" where
  "deaf s \<longleftrightarrow> (\<exists>l. pcScrub s = Some l \<and> \<not> slDone l \<and> (slLoops l = [InPass] \<or> slLoops l = [AtSelect]))"

lemma deaf_step:
  "process_step s s' \<Longrightarrow> pcPhase s = WaitScrub \<and> deaf s \<or> pcCtx s \<noteq> None \<Longrightarrow> pcPhase s' = WaitScrub \<and> deaf s' \<or> pcCtx s' \<noteq> None"
proof (induction rule: process_step.induct)
  case (ps_main s s')
  show ?case using ps_main(2,3) by (cases rule: main_step_cases) (auto simp: deaf_def)
next
  case (ps_scrub s l l')
  then show ?case by (auto simp: deaf_def loop_turn_def set_loop_def)
qed (auto simp: deaf_def)

lemma stop_lost_in_pass:
  assumes "pcPhase s = StopScrub" and "pcScrub s = Some l" and "slLoops l = [InPass]" and "slRunning l" and "\<not> slDone l"
    and "main_step s = Some s1" and "process_step\<^sup>*\<^sup>* s1 s2" and "WaitScrub < pcPhase s2"
  shows "pcCtx s2 \<noteq> None"
proof -
  have "pcPhase s1 = WaitScrub \<and> deaf s1"
    using assms(1-6) by (auto simp: main_step_def deaf_def scrub_stop_signal_def)
  with assms(7) have "pcPhase s2 = WaitScrub \<and> deaf s2 \<or> pcCtx s2 \<noteq> None"
    by (induction rule: rtranclp_induct) (use deaf_step in blast)+
  with assms(8) show ?thesis by auto
qed

text \<open>The goroutine that serves sets the flag, so the flag can come up after the signal took it down.\<close>

lemma ready_after_signal:
  assumes "started s0"
  shows "\<exists>s. process_step\<^sup>*\<^sup>* s0 s \<and> pcReady s \<and> pcPhase s = ShutPublic"
proof -
  have f: "pcExit s0 = None" "pcPhase s0 = Serving" "\<not> pcLaunched s0"
    using assms by (auto simp: started_def first_process_def)
  let ?s = "s0\<lparr>pcReady := False, pcPhase := ShutPublic\<rparr>"
  have "process_step s0 ?s" using f by (rule_tac ps_signal)
  moreover have "process_step ?s (?s\<lparr>pcLaunched := True, pcReady := True, pcPublic := if pcPublic ?s = Shut then Shut else Listening\<rparr>)"
    by (rule ps_launch) (use f in simp_all)
  ultimately have "process_step\<^sup>*\<^sup>* s0 (?s\<lparr>pcLaunched := True, pcReady := True, pcPublic := if pcPublic ?s = Shut then Shut else Listening\<rparr>)"
    by (meson converse_rtranclp_into_rtranclp rtranclp.rtrancl_refl)
  then show ?thesis by (rule_tac exI, intro conjI, assumption) simp_all
qed

subsection \<open>Shutting down\<close>

text \<open>\<open>main\<close> on its own for a number of steps.\<close>

fun main_run :: "nat \<Rightarrow> process \<Rightarrow> process option" where
  "main_run 0 s = Some s"
| "main_run (Suc n) s =
     (if pcExit s \<noteq> None then Some s else (case main_step s of None \<Rightarrow> None | Some s' \<Rightarrow> main_run n s'))"

lemma main_run_steps: "main_run n s = Some s' \<Longrightarrow> process_step\<^sup>*\<^sup>* s s'"
proof (induction n arbitrary: s)
  case (Suc n)
  show ?case
  proof (cases "pcExit s")
    case None
    then obtain t where "main_step s = Some t" "main_run n t = Some s'" using Suc.prems by (auto split: option.split_asm)
    then show ?thesis using Suc.IH [of t] ps_main [OF None] by (meson converse_rtranclp_into_rtranclp)
  qed (use Suc.prems in simp)
qed simp

lemma main_step_late:
  assumes "pcPhase s \<noteq> Serving" and "pcCtx s \<noteq> None"
  shows "\<exists>s'. main_step s = Some s' \<and> pcCtx s' = pcCtx s \<and> pcPhase s \<le> pcPhase s' \<and>
    (pcExit s' = Some 0 \<or> pcExit s' = pcExit s \<and> pcPhase s < pcPhase s')"
  using assms
  by (cases "pcPhase s")
    (auto simp: main_step_def phase_simps scrub_stop_wait_def worker_stop_wait_def split: option.split)

lemma main_run_ends:
  "pcPhase s \<noteq> Serving \<Longrightarrow> pcCtx s \<noteq> None \<Longrightarrow> pcExit s = None \<Longrightarrow>
     \<exists>n \<le> 14 - phase_rank (pcPhase s). \<exists>s'. main_run n s = Some s' \<and> pcExit s' = Some 0"
proof (induction "14 - phase_rank (pcPhase s)" arbitrary: s rule: less_induct)
  case less
  have r: "phase_rank p \<le> 13" for p by (cases p) simp_all
  obtain t where t: "main_step s = Some t" "pcCtx t = pcCtx s" "pcPhase s \<le> pcPhase t"
    "pcExit t = Some 0 \<or> pcExit t = pcExit s \<and> pcPhase s < pcPhase t"
    using main_step_late [OF less.prems(1,2)] by blast
  show ?case
  proof (cases "pcExit t = Some 0")
    case True
    then have "main_run 1 s = Some t" using t(1) less.prems(3) by simp
    moreover have "1 \<le> 14 - phase_rank (pcPhase s)" using r [of "pcPhase s"] by simp
    ultimately show ?thesis using True by blast
  next
    case False
    then have up: "pcExit t = None" "phase_rank (pcPhase s) < phase_rank (pcPhase t)"
      using t(4) less.prems(3) by (auto simp: phase_simps)
    then have "pcPhase t \<noteq> Serving" by auto
    then obtain n s' where n: "n \<le> 14 - phase_rank (pcPhase t)" "main_run n t = Some s'" "pcExit s' = Some 0"
      using less.hyps [of t] t(2) less.prems(2) up r [of "pcPhase t"] by fastforce
    then have "main_run (Suc n) s = Some s'" using t(1) less.prems(3) by simp
    moreover have "Suc n \<le> 14 - phase_rank (pcPhase s)" using n(1) up(2) r [of "pcPhase t"] by linarith
    ultimately show ?thesis using n(3) by blast
  qed
qed

text \<open>
  C22. The shutdown comes to an end: once the deadline has passed no call of \<open>main\<close> waits any
  longer, whatever requests, the scrubber and the worker do beside it, and at most one step for
  each phase that is left leads to the exit with code 0.
\<close>

theorem shutdown_ends:
  assumes "process_step\<^sup>*\<^sup>* s0 s" and "pcPhase s0 \<noteq> Serving" and "pcCtx s0 \<noteq> None" and "pcExit s = None"
  shows "pcPhase s0 \<le> pcPhase s \<and> main_step s \<noteq> None \<and>
    (\<exists>n \<le> 14 - phase_rank (pcPhase s). \<exists>s'. main_run n s = Some s' \<and> pcExit s' = Some 0)"
proof -
  have keep: "pcPhase s0 \<le> pcPhase s \<and> pcCtx s \<noteq> None"
    using assms(1,3)
  proof (induction rule: rtranclp_induct)
    case (step s s')
    have "pcCtx s' \<noteq> None" using step(2,3,4) by (induction rule: process_step.induct) (auto elim: main_step_cases)
    then show ?case using step process_phase [OF step(2)] by auto
  qed simp
  then have "pcPhase s \<noteq> Serving" using assms(2) by (cases "pcPhase s0"; cases "pcPhase s") (simp_all add: phase_simps)
  with keep assms(4) main_run_ends [of s] main_step_late [of s] show ?thesis by auto
qed

text \<open>
  C21. A process that leaves with code 0 has closed its listeners, cancelled the collection,
  stopped the pollers, asked the worker to stop, closed the queue and shut the traces down.
  If the deadline did not pass, nothing was cut off: no request was in flight any more, the loop
  of the scrubber was past its last pass, every goroutine of the worker had ended, every item
  taken from the queue was finished, and nobody was left who could put another one in.
\<close>

theorem shutdown_graceful:
  assumes "boot cwd yaml parse_float parse_duration env resource_ok exporter_ok now w = (Inr (sv, s0), w')"
    and "process_step\<^sup>*\<^sup>* s0 s" and "pcExit s = Some 0"
  shows "pcPublic s = Shut \<and> (pcAdmin s = None \<or> pcAdmin s = Some Shut) \<and> pcGc s \<noteq> Some True \<and>
      pcScrubPoll s \<noteq> Some True \<and> pcQueuePoll s \<noteq> Some True \<and> pcTraces s \<noteq> Some True \<and>
      (\<forall>wk. pcWorker s = Some wk \<longrightarrow> wkCancelled wk) \<and>
      (\<forall>q. pcQueue s = Some q \<longrightarrow> mqClosed q \<and> mqChanClosed q) \<and>
      (pcCtx s = None \<longrightarrow>
        pcBusy s = 0 \<and> pcAdminBusy s = 0 \<and> (\<forall>l. pcScrub s = Some l \<longrightarrow> loop_over l) \<and>
        (\<forall>wk. pcWorker s = Some wk \<longrightarrow> \<not> wkRunning wk \<and> (\<forall>pc \<in> set (wkThreads wk). pc = Exited)) \<and>
        mset (pcTaken s) = mset (map fst (pcFinished s)) \<and> \<not> producing s)"
proof -
  have ok: "parts_ok s" "stops_ok s" "drained s"
    using process_reachable [OF assms(2) boot_started [OF assms(1)]] by blast+
  have ph: "pcPhase s = Stopped" using ok(2) assms(3) by (simp add: stops_ok_def)
  have "mset (pcTaken s) = mset (map fst (pcFinished s))"
    if wk: "pcWorker s = Some wk" and ex: "\<forall>pc \<in> set (wkThreads wk). pc = Exited" for wk
  proof -
    have "held (wkThreads wk) = {#}" using ex by (auto simp: held_def intro!: sum_mset_0_iff [THEN iffD2])
    then show ?thesis using ok(1) wk by (auto simp: parts_ok_def accounts_ok_def pipe_def Let_def)
  qed
  moreover have "pcWorker s = None \<Longrightarrow> mset (pcTaken s) = mset (map fst (pcFinished s))"
    using ok(1) by (auto simp: parts_ok_def)
  ultimately show ?thesis
    using ok(2,3) by (cases "pcWorker s") (auto simp: stops_ok_def drained_def ph phase_simps producing_def loop_over_def)
qed

subsection \<open>A process from its start to its end\<close>

definition ex_env :: environment where
  "ex_env k = (if k = ''SHARDSEAL_REPAIR_ENABLED'' then ''true'' else '''')"

definition ex_worker :: worker where
  "ex_worker = worker_start 5 (new_worker \<lparr>wcConcurrency = 1, wcBackoff = 0, wcPollInterval = 0, wcMaxRetries = 0\<rparr>)"

definition ex_first :: process where
  "ex_first =
     \<lparr>pcPhase = Serving, pcReady = False, pcLaunched = False, pcPublic = Pending, pcBusy = 0, pcAdmin = None, pcAdminBusy = 0,
      pcGc = None, pcScrub = None, pcScrubPoll = None, pcQueue = Some (new_mem_queue 1024), pcQueuePoll = Some True,
      pcWorker = Some ex_worker, pcTaken = [], pcFinished = [], pcTraces = None, pcCtx = None, pcExit = None\<rparr>"

definition ex_boot :: "(nat + (services \<times> process)) \<times> world" where
  "ex_boot = boot ''/'' (\<lambda>_ _. None) (\<lambda>_. None) (\<lambda>_. None) ex_env True (\<lambda>_. True) 5
     \<lparr>fs_files = [], fs_clock = 7, fs_faults = [], obs_log = [], repairs = []\<rparr>"

lemma ex_boot_first: "\<exists>sv w. ex_boot = (Inr (sv, ex_first), w)"
proof -
  have "case fst ex_boot of Inl _ \<Rightarrow> False | Inr (sv, s) \<Rightarrow> s = ex_first"
    by code_simp
  then obtain sv where "fst ex_boot = Inr (sv, ex_first)" by (auto split: sum.split_asm)
  then have "ex_boot = (Inr (sv, ex_first), snd ex_boot)" by (simp add: prod_eq_iff)
  then show ?thesis by blast
qed

definition ex_waiting :: process where
  "ex_waiting = ex_first\<lparr>pcPhase := WaitWorker, pcPublic := Shut, pcQueuePoll := Some False,
     pcWorker := Some (worker_stop_request ex_worker)\<rparr>"

definition ex_last :: process where
  "ex_last = ex_waiting\<lparr>pcPhase := Stopped, pcQueue := Some (snd (close_queue (new_mem_queue 1024))),
     pcWorker := Some (set_thread 0 Exited (worker_stop_request ex_worker)\<lparr>wkRunning := False\<rparr>), pcExit := Some 0\<rparr>"

lemma ex_worker_sel: "wkThreads ex_worker = [AtTop]" "wkRunning ex_worker"
  by (simp_all add: ex_worker_def worker_start_def new_worker_def)

lemma ex_shutdown: "process_step\<^sup>*\<^sup>* ex_first ex_last"
proof -
  let ?wk = "worker_stop_request ex_worker"
  have "process_step ex_first (ex_first\<lparr>pcReady := False, pcPhase := ShutPublic\<rparr>)"
    by (rule ps_signal) (simp_all add: ex_first_def)
  moreover have "main_run 8 (ex_first\<lparr>pcReady := False, pcPhase := ShutPublic\<rparr>) = Some ex_waiting"
    by (simp add: eval_nat_numeral main_step_def ex_first_def ex_waiting_def)
  then have "process_step\<^sup>*\<^sup>* (ex_first\<lparr>pcReady := False, pcPhase := ShutPublic\<rparr>) ex_waiting" by (rule main_run_steps)
  moreover have "worker_step (pipe ex_waiting ?wk (new_mem_queue 1024)) ((pipe ex_waiting ?wk (new_mem_queue 1024))\<lparr>wsWorker := set_thread 0 Exited ?wk\<rparr>)"
    using ws_move [of 0 "pipe ex_waiting ?wk (new_mem_queue 1024)" EvGo Exited ?wk]
    by (simp add: pipe_def worker_stop_request_def ex_worker_sel)
  from ps_worker [OF _ _ _ this] have "process_step ex_waiting (ex_waiting\<lparr>pcWorker := Some (set_thread 0 Exited ?wk)\<rparr>)"
    by (simp add: ex_waiting_def ex_first_def pipe_def)
  moreover have "main_run 4 (ex_waiting\<lparr>pcWorker := Some (set_thread 0 Exited ?wk)\<rparr>) = Some ex_last"
    by (simp add: eval_nat_numeral main_step_def ex_first_def ex_waiting_def ex_last_def worker_stop_wait_def worker_stop_request_def
        set_thread_def ex_worker_sel)
  then have "process_step\<^sup>*\<^sup>* (ex_waiting\<lparr>pcWorker := Some (set_thread 0 Exited ?wk)\<rparr>) ex_last" by (rule main_run_steps)
  ultimately show ?thesis by (meson converse_rtranclp_into_rtranclp rtranclp.rtrancl_into_rtrancl rtranclp_trans)
qed

theorem shutdown_graceful_witness:
  "process_step\<^sup>*\<^sup>* ex_first ex_last \<and> \<not> producing ex_last \<and> (\<exists>q. pcQueue ex_last = Some q \<and> mqClosed q) \<and> pcBusy ex_last = 0"
proof -
  obtain sv w where "ex_boot = (Inr (sv, ex_first), w)" using ex_boot_first by blast
  note g = shutdown_graceful [OF this [unfolded ex_boot_def] ex_shutdown]
  have l: "pcExit ex_last = Some 0" "pcCtx ex_last = None" "pcQueue ex_last = Some (snd (close_queue (new_mem_queue 1024)))"
    by (simp_all add: ex_last_def ex_waiting_def ex_first_def)
  show ?thesis using g [OF l(1)] l ex_shutdown by auto
qed

theorem shutdown_ends_witness:
  "\<exists>n \<le> 7. \<exists>s'. main_run n (ex_first\<lparr>pcPhase := WaitScrub, pcCtx := Some ErrCtx, pcScrub := Some (snd (scrub_start scrub_new))\<rparr>) = Some s' \<and>
    pcExit s' = Some 0"
proof -
  let ?s = "ex_first\<lparr>pcPhase := WaitScrub, pcCtx := Some ErrCtx, pcScrub := Some (snd (scrub_start scrub_new))\<rparr>"
  have "\<exists>n \<le> 14 - phase_rank (pcPhase ?s). \<exists>s'. main_run n ?s = Some s' \<and> pcExit s' = Some 0"
    using shutdown_ends [of ?s ?s] by (simp add: ex_first_def)
  then show ?thesis by simp
qed

end
