(* ===== verification/Spec2Isabelle.thy ===== *)
theory Spec2Isabelle imports StoreConcurrent ScrubProps S3Concurrent S3Props Metadata RepairWorker Rewriter SigProps GcProps AdminProps ConfigProps NoopScrubber ScrubHeal S3Xml ProcessProps
begin

text \<open>
  ShardSeal, an S3-compatible object store in Go: a model of the whole server process and the
  theorems that make it correct.

  The program. \<open>cmd/shardseal/main.go\<close> reads the configuration (\<open>pkg/config\<close>) and starts up to
  five services around one object store. \<open>pkg/storage\<close> keeps objects below one data directory,
  plain (one file) or sealed (a shard file with a checksummed header and footer from
  \<open>pkg/erasure\<close>, and a JSON manifest); \<open>pkg/metadata\<close> keeps buckets and multipart uploads in
  memory; \<open>pkg/api/s3\<close> serves S3 requests over both, behind the signature check of
  \<open>pkg/security/sigv4\<close>, the spans of \<open>pkg/obs/tracing\<close> and the counters of \<open>pkg/obs/metrics\<close>.
  A read that finds a damaged shard hands an item to a callback, which puts it into the queue
  of \<open>pkg/repair\<close>; a worker takes it and the rewriter repairs the shard. The scrubber looks for
  damaged shards on its own and feeds the same queue. \<open>pkg/admin\<close> collects stale multipart
  uploads and serves the controls of all this, behind the tokens and roles of
  \<open>pkg/security/oidc\<close>.

  Which theory models what.

  Prelude holds bytes, errors, results and the lemma collections; GoStrings and GoPath the
  functions of strings, strconv, encoding/hex and path/filepath the program calls; Digest
  CRC-32C, SHA-256, MD5 and HMAC bit by bit; Files the operating system: a tree of files with
  a schedule of the failures the next system calls return. So a theorem about all worlds is
  one about all schedules of failing calls, and a quiet world (\<open>fs_faults w = []\<close>) is one in
  which nothing fails. The lemmas of Files give what each call does to the content of files
  (\<open>file_at\<close>) and which files it can touch (\<open>frame\<close>).

  Erasure models \<open>rs.go\<close>: the replicating codec, \<open>EncodeShardHeader\<close>, \<open>DecodeShardHeader\<close> and
  the footer; Manifest \<open>manifest.go\<close> and \<open>fsutil.go\<close>. LocalFS and LocalList model
  \<open>localfs.go\<close>: \<open>Put\<close>, \<open>Get\<close>, \<open>Head\<close>, \<open>Delete\<close>, \<open>List\<close>, \<open>IsBucketEmpty\<close>, \<open>RemoveBucket\<close>, with
  every system call and every error return; the state adds to the disk the observations and
  repair items the store emits. LocalPut and LocalGet hold the facts about them, LocalProps and
  ListProps the properties: paths stay in their bucket, a put is all or nothing under every
  schedule of failures, what is put is got, a verified read returns only what the manifest's
  hash covers, every integrity failure is reported once, delete and bucket removal touch
  nothing else, a listing is sorted, bounded and complete. StoreConcurrent cuts the plain \<open>Put\<close> and
  \<open>Get\<close>, which hold no lock, at the system calls others can see and interleaves any number of them:
  the successful puts take effect one after the other, a get returns a whole content the object
  had, and no request waits; that the ETag of a get can be another put's is exhibited.

  Metadata models \<open>store.go\<close>, one function for each method, since each holds the mutex. S3Api
  models \<open>server.go\<close>: routing and every handler over any object store; a request is what
  net/http parsed, a response the status, the headers and the body. S3Xml gives the body its text:
  the structs with their \<open>xml\<close> tags as trees, the escaping and dates as the standard library writes
  them, and the decoding of the parts a client lists; what a client reads in a response is what
  the server put there. ObjectStore states what the server needs of an object store as the locale
  \<open>object_store\<close>, a map from places to contents, and interprets it on the plain LocalFS;
  S3Props, S3Store (locale \<open>s3_server\<close>) and S3Buckets prove the size cap, ranges, that a PUT is
  read back, that multipart uploads are a map from part numbers to contents, and the bucket
  names. S3Concurrent cuts the handlers that look for a bucket first and act later at their calls
  and interleaves any number of such requests: a bucket is created once, and two races are
  exhibited. Sigv4 and SigProps are \<open>verify.go\<close>: a correctly signed request is accepted, a
  signature binds the signed content up to an exhibited hash collision, and dates are fresh.

  RepairQueue (locale \<open>fifo_queue\<close>) and RepairWorker model \<open>queue.go\<close> and \<open>worker.go\<close>, blocking
  calls as an outcome and the goroutines as step relations in which the test of the closed flag
  and the send are separate; their theorems hold for every interleaving. Rewriter and Heal are
  \<open>rewriter.go\<close>: a repair never loses a payload, a repaired object reads again, and on a quiet
  disk a repair succeeds. Scrubber, ScrubProps and NoopScrubber are \<open>scrubber.go\<close>: the checks, the
  search for manifests, a pass in any order of its workers, and \<open>Start\<close>, loop and \<open>Stop\<close> as a
  step relation. MultipartGC and GcProps are \<open>gc.go\<close> with its background loop, and what a pass needs
  of the store as the locales \<open>gc_store\<close> and \<open>calm_gc_store\<close>. AdminAuth, AdminApi and AdminProps are \<open>pkg/security/oidc\<close>
  and \<open>pkg/admin\<close>. Config and ConfigProps are \<open>config.go\<close>, Tracing \<open>tracing.go\<close>, Metrics
  \<open>pkg/obs/metrics\<close>, the collectors registered and what is counted in them.

  Wiring and WiringProps are what \<open>main\<close> makes of all this: the set-up from the configuration, the
  public mux with its middlewares, the callback and the processor that close the loop from a
  damaged read to its repair. Their theorems span the components: a damaged object heals, and
  every request to the S3 API is authenticated, traced and counted. ScrubHeal follows the other
  loop: a scrub pass and as many turns of the worker as it queued items leave a disk on which the
  next pass finds nothing. Process and ProcessProps are the life of the process: the start with
  its early exits, and the shutdown, one step for each call of \<open>main\<close>, beside the requests in
  flight, the scrubber, the worker and the deadline. The shutdown ends once the deadline has
  passed, and if it ends before that, nothing was cut off.

  How state and errors are written. A struct is a record, a Go map with identity an association
  list without duplicate keys, a word with its width where it can wrap (counters, header fields,
  the sizes of uploads); an error return is \<open>Inl\<close> of the error, with the sentinels callers test
  as constructors of their own. Times are nanoseconds. What Go leaves open, the order over a map,
  the choice of a select, the order of the workers, is an argument, and the theorems hold for
  every value of it. No definition uses fuel; \<open>main_run\<close> counts the steps of \<open>main\<close>, and one for each
  phase is enough once the deadline has passed. The loops that are not structural have a measure:
  the stack of \<open>IsBucketEmpty\<close> and the search for manifests descend a finite tree, the index loops
  of the configuration count up to a length. The one loop whose end depends on its surroundings,
  the pages of the garbage collector, is a partial function, and it is proved to return on every
  store that keeps the contract, for LocalFS under every schedule of failures.

  What is an argument because it is not under src/: the JSON encoding of manifests
  (\<open>json_codec\<close>), the YAML decoder, floating-point parsing, \<open>time.ParseDuration\<close>, token
  verification and discovery of the OIDC library, what \<open>http.ServeMux\<close> answers without a handler,
  and random bytes. Theorems that need something of the JSON codec say so as a hypothesis: what
  it encodes it decodes.

  Not modelled: sockets and connections (a server accepts or does not, a request is in flight or
  not), TLS, logging, the parser of encoding/xml from text to tree, the SDKs of
  OpenTelemetry and Prometheus behind the spans and counters recorded here, span annotations
  inside the store, permissions and links of the file system, and a crash between two system
  calls (\<open>Sync\<close> can fail, but what survives a power loss is not stated). The interleavings
  modelled are those of plain puts and gets, of bucket requests, of the queue, the worker and the
  scrubber, and of \<open>main\<close> with all of them during the shutdown; sealed operations, listings and
  deletions run to their end before the next one starts.
\<close>

end
